(* ===== verification/Prelude.thy ===== *)
theory Prelude
  imports Main "HOL-Library.Word"
begin

text \<open>
  Shared vocabulary of the development: machine integers, the faults an execution can end in,
  the result type of fallible code with its sequencing operator, and the generic lemmas the
  component theories share.

  A \<open>fault\<close> is a point where the C++ or C code has no defined behaviour (or an assertion
  stops the program); each is a value of the result type, never left unspecified.
\<close>

subsection \<open>Machine integers\<close>

type_synonym u8 = "8 word"
type_synonym u32 = "32 word"
type_synonym i32 = "32 word"  \<comment> \<open>an \<open>int32\<close>: the same 32 bits, read with \<open>sint\<close>\<close>

type_synonym addr = nat  \<comment> \<open>the identity of a heap object; the allocator never reuses one\<close>

subsection \<open>Faults and results\<close>

datatype fault =
    NullDeref       \<comment> \<open>a member access through a null pointer\<close>
  | Dangling        \<comment> \<open>an access to an object after its \<open>delete\<close>\<close>
  | UninitRead      \<comment> \<open>a read of a field no constructor has set\<close>
  | DivByZero       \<comment> \<open>an integer division by zero\<close>
  | BadCast         \<comment> \<open>a floating value converted to an integer type that cannot hold it\<close>
  | AssertFail      \<comment> \<open>a failed \<open>assert\<close> in a build that keeps assertions\<close>
  | OutOfBounds     \<comment> \<open>an access outside an array, or of an end iterator\<close>
  | SignedOverflow  \<comment> \<open>an \<open>int32\<close> sum outside the type's range\<close>
  | StaleGlobals    \<comment> \<open>a run started over the globals of a run that failed to initialise\<close>
  | OutOfFuel       \<comment> \<open>a loop that used up the steps the model grants it\<close>

type_synonym 'a res = "fault + 'a"

definition bindR :: "'e + 'a \<Rightarrow> ('a \<Rightarrow> 'e + 'b) \<Rightarrow> 'e + 'b" where
  "bindR m f = (case m of Inl e \<Rightarrow> Inl e | Inr x \<Rightarrow> f x)"

lemma bindR_simps [simp]:
  "bindR (Inl e) f = Inl e"
  "bindR (Inr x) f = f x"
  by (simp_all add: bindR_def)

lemma bindR_eq_Inr [simp]: "bindR m f = Inr y \<longleftrightarrow> (\<exists>x. m = Inr x \<and> f x = Inr y)"
  by (cases m) auto

lemma bindR_eq_Inl: "bindR m f = Inl e \<longleftrightarrow> m = Inl e \<or> (\<exists>x. m = Inr x \<and> f x = Inl e)"
  by (cases m) auto

lemma bindR_assoc: "bindR (bindR m f) g = bindR m (\<lambda>x. bindR (f x) g)"
  by (cases m) auto

lemma bindR_cong [fundef_cong]:
  "m = m' \<Longrightarrow> (\<And>x. m' = Inr x \<Longrightarrow> f x = f' x) \<Longrightarrow> bindR m f = bindR m' f'"
  by (cases m') auto

definition guardR :: "'e \<Rightarrow> bool \<Rightarrow> 'e + unit" where
  "guardR e b = (if b then Inr () else Inl e)"

lemma guardR_simps [simp]:
  "guardR e True = Inr ()"
  "guardR e False = Inl e"
  "guardR e b = Inr u \<longleftrightarrow> b"
  "guardR e b = Inl e' \<longleftrightarrow> \<not> b \<and> e' = e"
  by (auto simp: guardR_def)

definition of_opt :: "'e \<Rightarrow> 'a option \<Rightarrow> 'e + 'a" where
  "of_opt e x = (case x of None \<Rightarrow> Inl e | Some y \<Rightarrow> Inr y)"

lemma of_opt_simps [simp]:
  "of_opt e None = Inl e"
  "of_opt e (Some y) = Inr y"
  "of_opt e x = Inr y \<longleftrightarrow> x = Some y"
  "of_opt e x = Inl e' \<longleftrightarrow> x = None \<and> e' = e"
  by (auto simp: of_opt_def split: option.splits)

text \<open>The result is a value on which \<open>P\<close> holds, or a fault; \<open>okR\<close> excludes the fault.\<close>

definition okR :: "('a \<Rightarrow> bool) \<Rightarrow> 'e + 'a \<Rightarrow> bool" where
  "okR P m = (case m of Inl e \<Rightarrow> False | Inr x \<Rightarrow> P x)"

definition safeR :: "('a \<Rightarrow> bool) \<Rightarrow> 'e + 'a \<Rightarrow> bool" where
  "safeR P m = (case m of Inl e \<Rightarrow> True | Inr x \<Rightarrow> P x)"

lemma okR_simps [simp]: "okR P (Inr x) = P x" "okR P (Inl e) = False"
  by (simp_all add: okR_def)

lemma safeR_simps [simp]: "safeR P (Inr x) = P x" "safeR P (Inl e) = True"
  by (simp_all add: safeR_def)

lemma okR_bind: "okR P (bindR m f) \<longleftrightarrow> okR (\<lambda>x. okR P (f x)) m"
  by (cases m) auto

lemma safeR_bind: "safeR P (bindR m f) \<longleftrightarrow> safeR (\<lambda>x. safeR P (f x)) m"
  by (cases m) auto

lemma safeR_mono: "safeR P m \<Longrightarrow> (\<And>x. m = Inr x \<Longrightarrow> P x \<Longrightarrow> Q x) \<Longrightarrow> safeR Q m"
  by (cases m) auto

lemma okR_mono: "okR P m \<Longrightarrow> (\<And>x. m = Inr x \<Longrightarrow> P x \<Longrightarrow> Q x) \<Longrightarrow> okR Q m"
  by (cases m) auto

lemma safeR_I: "(\<And>x. m = Inr x \<Longrightarrow> P x) \<Longrightarrow> safeR P m"
  by (cases m) auto

lemma safeR_D: "safeR P m \<Longrightarrow> m = Inr x \<Longrightarrow> P x"
  by simp

text \<open>Rules that walk through a definition to its results.\<close>

named_theorems safe_intros

lemma safeR_bindI [safe_intros]: "(\<And>x. m = Inr x \<Longrightarrow> safeR P (f x)) \<Longrightarrow> safeR P (bindR m f)"
  by (cases m) auto

lemma safeR_if [safe_intros]:
  "(b \<Longrightarrow> safeR P x) \<Longrightarrow> (\<not> b \<Longrightarrow> safeR P y) \<Longrightarrow> safeR P (if b then x else y)"
  by simp

lemma safeR_Inl [safe_intros]: "safeR P (Inl e)"
  by simp

lemma safeR_Inr [safe_intros]: "P x \<Longrightarrow> safeR P (Inr x)"
  by simp

lemma safeR_case_prod [safe_intros]:
  "(\<And>a b. x = (a, b) \<Longrightarrow> safeR P (f a b)) \<Longrightarrow> safeR P (case x of (a, b) \<Rightarrow> f a b)"
  by (cases x) auto

lemma safeR_case_option [safe_intros]:
  "(x = None \<Longrightarrow> safeR P f) \<Longrightarrow> (\<And>y. x = Some y \<Longrightarrow> safeR P (g y)) \<Longrightarrow>
   safeR P (case x of None \<Rightarrow> f | Some y \<Rightarrow> g y)"
  by (cases x) auto

lemma okR_D: "okR P m \<Longrightarrow> \<exists>x. m = Inr x \<and> P x"
  by (cases m) auto

subsection \<open>Words\<close>

lemma u32_add_unat: "unat a + unat b < 2 ^ 32 \<Longrightarrow> unat (a + b :: u32) = unat a + unat b"
  by (simp add: unat_word_ariths)

lemma u32_sub_unat: "b \<le> a \<Longrightarrow> unat (a - b :: u32) = unat a - unat b"
  by (simp add: unat_sub)

lemma u32_le_add: "unat a + unat b < 2 ^ 32 \<Longrightarrow> (a :: u32) \<le> a + b"
  by (simp add: word_le_nat_alt unat_word_ariths)

lemma u32_succ:
  assumes "(n :: u32) \<noteq> - 1"
  shows "n < n + 1" and "n + 1 \<noteq> 0" and "unat (n + 1) = Suc (unat n)" and "k \<le> n \<Longrightarrow> k < n + 1"
proof -
  have m: "unat (- 1 :: u32) = 2 ^ 32 - 1" by (simp add: unsigned_minus_1_eq_mask mask_eq_exp_minus_1)
  have "unat n \<noteq> unat (- 1 :: u32)" using assms unfolding word_unat_eq_iff .
  then have "unat n \<noteq> 2 ^ 32 - 1" unfolding m .
  moreover have "unat n < 2 ^ 32" using unsigned_less [of n, where ?'a = nat] by simp
  ultimately have "unat n + 1 < 2 ^ 32" by linarith
  then show u: "unat (n + 1) = Suc (unat n)" by (simp add: unat_word_ariths)
  then show "n < n + 1" "k \<le> n \<Longrightarrow> k < n + 1" by (simp_all add: word_less_nat_alt word_le_nat_alt)
  show "n + 1 \<noteq> 0" using u by auto
qed

text \<open>Addition of two \<open>int32\<close>: overflow has no defined result.\<close>

definition i32_add :: "i32 \<Rightarrow> i32 \<Rightarrow> i32 res" where
  "i32_add a b = (let s = sint a + sint b in
     if - (2 ^ 31) \<le> s \<and> s < 2 ^ 31 then Inr (a + b) else Inl SignedOverflow)"

text \<open>A C string ends at its first zero byte; \<open>strcpy\<close> into an array of
  \<open>MAX_STRING_LENGTH\<close> bytes needs the string and its terminator to fit.\<close>

definition MAX_STRING_LENGTH :: nat where
  "MAX_STRING_LENGTH = 256"

definition c_str :: "string \<Rightarrow> string" where
  "c_str s = takeWhile (\<lambda>c. c \<noteq> CHR 0x00) s"

definition strcpy256 :: "string \<Rightarrow> string res" where
  "strcpy256 s = (if length (c_str s) < MAX_STRING_LENGTH then Inr (c_str s) else Inl OutOfBounds)"

end
