(* ===== verification/IEEE_Double.thy ===== *)
theory IEEE_Double
  imports Complex_Main Prelude
begin

text \<open>
  The floating-point numbers of the language. A finite value is the rational number it denotes;
  every operation computes the exact rational result and rounds it to the format
  (round to nearest, ties to even, gradual underflow, overflow to an infinity), as IEEE 754
  prescribes and as the compiled code does. \<open>rnd\<close> is binary64 (\<open>double\<close>), \<open>rndf\<close>
  binary32 (\<open>float\<close>). The sign of a zero is not kept: it could be seen only by a
  division by a negative zero, and no divisor of the modelled code can be one.
\<close>

subsection \<open>Rounding a rational to a grid\<close>

text \<open>Round to nearest integer, ties to even.\<close>

definition rne :: "rat \<Rightarrow> int" where
  "rne q = (let f = \<lfloor>q\<rfloor>; r = q - of_int f in
     if r < 1/2 then f else if 1/2 < r then f + 1 else if even f then f else f + 1)"

fun blen :: "nat \<Rightarrow> nat" where
  "blen n = (if n = 0 then 0 else Suc (blen (n div 2)))"

declare blen.simps [simp del]

text \<open>\<open>2 ^ e\<close> for an integer exponent.\<close>

definition p2 :: "int \<Rightarrow> rat" where
  "p2 e = (if 0 \<le> e then 2 ^ nat e else 1 / 2 ^ nat (- e))"

text \<open>The binary order of magnitude of a positive rational.\<close>

definition ilog2 :: "rat \<Rightarrow> int" where
  "ilog2 q = (if 1 \<le> q then int (blen (nat \<lfloor>q\<rfloor>)) - 1
     else - int (blen (nat (\<lceil>1 / q\<rceil> - 1))))"

text \<open>The weight of the last digit of a number of that magnitude: precision \<open>p\<close> digits,
  no weight below \<open>2 ^ emin\<close>.\<close>

definition ulp_exp :: "nat \<Rightarrow> int \<Rightarrow> rat \<Rightarrow> int" where
  "ulp_exp p emin q = max (ilog2 \<bar>q\<bar> - int p + 1) emin"

definition rnd0 :: "nat \<Rightarrow> int \<Rightarrow> rat \<Rightarrow> rat" where
  "rnd0 p emin q = (if q = 0 then 0 else
     let u = p2 (ulp_exp p emin q) in of_int (rne (q / u)) * u)"

subsection \<open>Facts on the grid\<close>

lemma p2_pos [simp]: "0 < p2 e" "p2 e \<noteq> 0" "0 \<le> p2 e"
  by (simp_all add: p2_def)

lemma p2_powi: "p2 e = 2 powi e"
  by (auto simp: p2_def power_int_def field_simps)

lemma p2_add: "p2 (a + b) = p2 a * p2 b"
  by (simp add: p2_powi power_int_add)

lemma p2_nat: "p2 (int n) = 2 ^ n"
  by (simp add: p2_def)

lemma p2_0 [simp]: "p2 0 = 1"
  by (simp add: p2_def)

lemma p2_mono: "a \<le> b \<Longrightarrow> p2 a \<le> p2 b"
proof -
  assume "a \<le> b"
  then have "p2 b = p2 a * 2 ^ nat (b - a)"
    using p2_add [of a "b - a"] by (simp add: p2_def [of "b - a"])
  moreover have "(1::rat) \<le> 2 ^ nat (b - a)" by simp
  ultimately show ?thesis using mult_left_mono [of 1 "2 ^ nat (b - a)" "p2 a"] by simp
qed

lemma p2_less_iff: "p2 a < p2 b \<longleftrightarrow> a < b"
proof -
  have "a < b \<Longrightarrow> p2 a < p2 b"
    using p2_mono [of "a + 1" b] p2_add [of a 1] p2_pos(1) [of a]
    by (simp add: p2_def [of 1] del: p2_pos)
  moreover have "b \<le> a \<Longrightarrow> p2 b \<le> p2 a" by (rule p2_mono)
  ultimately show ?thesis by (meson not_le)
qed

lemma p2_le_iff: "p2 a \<le> p2 b \<longleftrightarrow> a \<le> b"
  by (meson linorder_not_less p2_less_iff)

lemma p2_dvd: "a \<le> b \<Longrightarrow> \<exists>k::int. p2 b = of_int k * p2 a"
proof -
  assume "a \<le> b"
  then have "p2 b = 2 ^ nat (b - a) * p2 a"
    using p2_add [of "b - a" a] by (simp add: p2_def [of "b - a"])
  then have "p2 b = of_int (2 ^ nat (b - a)) * p2 a" by simp
  then show ?thesis by blast
qed

lemma rne_of_int [simp]: "rne (of_int k) = k"
  by (simp add: rne_def Let_def)

lemma rne_bounds: "of_int (rne q) \<le> q + 1/2 \<and> q \<le> of_int (rne q) + 1/2"
proof -
  have "of_int \<lfloor>q\<rfloor> \<le> q" "q < of_int \<lfloor>q\<rfloor> + 1" by linarith+
  then show ?thesis unfolding rne_def Let_def by (simp split: if_splits; linarith)
qed

lemma rne_floor: "\<lfloor>q\<rfloor> \<le> rne q \<and> rne q \<le> \<lfloor>q\<rfloor> + 1"
  by (simp add: rne_def Let_def)

lemma rne_mono: "a \<le> b \<Longrightarrow> rne a \<le> rne b"
proof -
  assume ab: "a \<le> b"
  then have f: "\<lfloor>a\<rfloor> \<le> \<lfloor>b\<rfloor>" by (rule floor_mono)
  show ?thesis
  proof (cases "\<lfloor>a\<rfloor> = \<lfloor>b\<rfloor>")
    case True
    with ab show ?thesis unfolding rne_def Let_def by auto
  next
    case False
    with f have "\<lfloor>a\<rfloor> + 1 \<le> \<lfloor>b\<rfloor>" by simp
    with rne_floor [of a] rne_floor [of b] show ?thesis by linarith
  qed
qed

lemma rne_minus: "rne (- q) = - rne q"
proof (cases "q = of_int \<lfloor>q\<rfloor>")
  case True
  then show ?thesis by (metis of_int_minus rne_of_int)
next
  case False
  have fl: "\<lfloor>- q\<rfloor> = - \<lfloor>q\<rfloor> - 1"
  proof -
    have "of_int \<lfloor>q\<rfloor> \<le> q" "q < of_int \<lfloor>q\<rfloor> + 1" by linarith+
    with False have "of_int \<lfloor>q\<rfloor> < q" by (metis order_le_less)
    with \<open>q < of_int \<lfloor>q\<rfloor> + 1\<close> show ?thesis by linarith
  qed
  have r: "- q - of_int \<lfloor>- q\<rfloor> = 1 - (q - of_int \<lfloor>q\<rfloor>)" using fl by simp
  show ?thesis unfolding rne_def Let_def r unfolding fl by auto
qed

lemma blen_bounds: "0 < n \<Longrightarrow> 2 ^ (blen n - 1) \<le> n \<and> n < 2 ^ blen n \<and> 0 < blen n"
proof (induction n rule: blen.induct)
  case (1 n)
  show ?case
  proof (cases "n = 1")
    case True
    then show ?thesis by (simp add: blen.simps)
  next
    case False
    with "1.prems" have "0 < n div 2" by (simp add: div_greater_zero_iff)
    with 1 have ih: "2 ^ (blen (n div 2) - 1) \<le> n div 2" "n div 2 < 2 ^ blen (n div 2)"
      "0 < blen (n div 2)" by auto
    have b: "blen n = Suc (blen (n div 2))" using "1.prems" by (subst blen.simps) simp
    have "2 * 2 ^ (blen (n div 2) - 1) = (2::nat) ^ blen (n div 2)"
      using ih(3) by (cases "blen (n div 2)") simp_all
    then have "2 ^ blen (n div 2) \<le> 2 * (n div 2)" using ih(1) by linarith
    then have "2 ^ blen (n div 2) \<le> n" by simp
    moreover have "n < 2 * 2 ^ blen (n div 2)" using ih(2) by linarith
    ultimately show ?thesis using b by simp
  qed
qed

lemma blen_numeral [simp]:
  "blen 0 = 0" "blen 1 = 1" "blen (Suc 0) = 1"
  "blen (numeral (num.Bit0 m)) = Suc (blen (numeral m))"
  "blen (numeral (num.Bit1 m)) = Suc (blen (numeral m))"
proof -
  show "blen 0 = 0" by (simp add: blen.simps)
  show b1: "blen 1 = 1" "blen (Suc 0) = 1" by (simp_all add: blen.simps)
  have "numeral (num.Bit0 m) div 2 = (numeral m :: nat)"
    "numeral (num.Bit1 m) div 2 = (numeral m :: nat)" by simp_all
  then show "blen (numeral (num.Bit0 m)) = Suc (blen (numeral m))"
    "blen (numeral (num.Bit1 m)) = Suc (blen (numeral m))"
    by (subst blen.simps, simp)+
qed

lemma ilog2_bounds:
  assumes q: "0 < q"
  shows "p2 (ilog2 q) \<le> q" and "q < p2 (ilog2 q + 1)"
proof -
  have "p2 (ilog2 q) \<le> q \<and> q < p2 (ilog2 q + 1)"
  proof (cases "1 \<le> q")
    case True
    define n where "n = nat \<lfloor>q\<rfloor>"
    have n: "0 < n" "of_nat n \<le> q" "q < of_nat n + 1" using True unfolding n_def by linarith+
    obtain a where a: "blen n = Suc a" using blen_bounds [OF n(1)] gr0_implies_Suc by blast
    then have "2 ^ a \<le> n" "n + 1 \<le> 2 ^ Suc a" using blen_bounds [OF n(1)] by auto
    then have "(of_nat (2 ^ a) :: rat) \<le> of_nat n" "(of_nat (n + 1) :: rat) \<le> of_nat (2 ^ Suc a)"
      by (simp_all only: of_nat_le_iff)
    moreover have il: "ilog2 q = int a" using True a by (simp add: ilog2_def n_def)
    ultimately have "of_nat (2 ^ a) \<le> q" "q < of_nat (2 ^ Suc a)" using n by linarith+
    then have "2 ^ a \<le> q" "q < 2 ^ Suc a" by simp_all
    with il show ?thesis using p2_nat [of a] p2_nat [of "Suc a"] by (simp add: add.commute)
  next
    case False
    define n where "n = nat (\<lceil>1 / q\<rceil> - 1)"
    have "1 < 1 / q" using q False by simp
    then have n: "0 < n" "of_nat n < 1 / q" "1 / q \<le> of_nat n + 1" unfolding n_def by linarith+
    obtain a where a: "blen n = Suc a" using blen_bounds [OF n(1)] gr0_implies_Suc by blast
    then have "2 ^ a \<le> n" "n + 1 \<le> 2 ^ Suc a" using blen_bounds [OF n(1)] by auto
    then have "(of_nat (2 ^ a) :: rat) \<le> of_nat n" "(of_nat (n + 1) :: rat) \<le> of_nat (2 ^ Suc a)"
      by (simp_all only: of_nat_le_iff)
    then have "of_nat (2 ^ a) < 1 / q" "1 / q \<le> of_nat (2 ^ Suc a)" using n by linarith+
    then have lo: "2 ^ a < 1 / q" and hi: "1 / q \<le> 2 ^ Suc a" by simp_all
    have il: "ilog2 q = - int (Suc a)" using False a by (simp add: ilog2_def n_def)
    have "p2 (- int (Suc a)) = 1 / 2 ^ Suc a" "p2 (- int (Suc a) + 1) = 1 / 2 ^ a"
      by (simp_all add: p2_def nat_add_distrib)
    moreover have "1 / 2 ^ Suc a \<le> q" "q < 1 / 2 ^ a" using lo hi q by (simp_all add: field_simps)
    ultimately show ?thesis unfolding il by simp
  qed
  then show "p2 (ilog2 q) \<le> q" "q < p2 (ilog2 q + 1)" by auto
qed

lemma ilog2_unique: "0 < q \<Longrightarrow> p2 k \<le> q \<Longrightarrow> q < p2 (k + 1) \<Longrightarrow> ilog2 q = k"
  using ilog2_bounds [of q] p2_less_iff
  by (smt (verit) order_le_less_trans)

lemma ilog2_mono: "0 < a \<Longrightarrow> a \<le> b \<Longrightarrow> ilog2 a \<le> ilog2 b"
  using ilog2_bounds [of a] ilog2_bounds [of b] p2_less_iff
  by (smt (verit) order_le_less_trans order_less_le_trans)

subsection \<open>Representable numbers\<close>

definition repr :: "nat \<Rightarrow> int \<Rightarrow> rat \<Rightarrow> bool" where
  "repr p emin r \<longleftrightarrow> (\<exists>m e. \<bar>m\<bar> < 2 ^ p \<and> emin \<le> e \<and> r = of_int m * p2 e)"

lemma repr_0 [simp]: "repr p emin 0"
  unfolding repr_def by (rule exI [of _ 0], rule exI [of _ emin]) simp

lemma repr_minus [simp]: "repr p emin (- r) \<longleftrightarrow> repr p emin r"
proof -
  have "repr p emin r \<Longrightarrow> repr p emin (- r)" for r
    unfolding repr_def by (metis abs_minus_cancel mult_minus_left of_int_minus)
  from this [of r] this [of "- r"] show ?thesis by auto
qed

lemma repr_int: "\<bar>k\<bar> < 2 ^ p \<Longrightarrow> emin \<le> 0 \<Longrightarrow> repr p emin (of_int k)"
  unfolding repr_def by (rule exI [of _ k], rule exI [of _ 0]) simp

lemma repr_p2: "0 < p \<Longrightarrow> emin \<le> e \<Longrightarrow> repr p emin (p2 e)"
  unfolding repr_def by (rule exI [of _ 1], rule exI [of _ e]) (simp add: one_less_power)

lemma rnd0_0 [simp]: "rnd0 p emin 0 = 0"
  by (simp add: rnd0_def)

lemma rnd0_minus: "rnd0 p emin (- q) = - rnd0 p emin q"
  by (simp add: rnd0_def Let_def ulp_exp_def rne_minus flip: minus_divide_left)

text \<open>Rounding never crosses a representable number.\<close>

lemma rnd0_grid_lower:
  assumes "of_int k * p2 (ulp_exp p emin q) \<le> q" and "q \<noteq> 0"
  shows "of_int k * p2 (ulp_exp p emin q) \<le> rnd0 p emin q"
proof -
  let ?u = "p2 (ulp_exp p emin q)"
  have "of_int k \<le> q / ?u" using assms(1) by (simp add: le_divide_eq)
  then have "k \<le> rne (q / ?u)" using rne_mono by fastforce
  then show ?thesis using assms(2) by (simp add: rnd0_def Let_def)
qed

lemma rnd0_grid_upper:
  assumes "q \<le> of_int k * p2 (ulp_exp p emin q)" and "q \<noteq> 0"
  shows "rnd0 p emin q \<le> of_int k * p2 (ulp_exp p emin q)"
proof -
  let ?u = "p2 (ulp_exp p emin q)"
  have "q / ?u \<le> of_int k" using assms(1) by (simp add: divide_le_eq)
  then have "rne (q / ?u) \<le> k" using rne_mono by fastforce
  then show ?thesis using assms(2) by (simp add: rnd0_def Let_def)
qed

lemma repr_small:
  assumes "\<bar>m\<bar> < 2 ^ p" and "e < e'"
  shows "\<bar>of_int m * p2 e\<bar> < p2 (int p - 1 + e')"
proof -
  have "\<bar>of_int m * p2 e\<bar> < 2 ^ p * p2 e"
    using assms(1) by (simp add: abs_mult flip: of_int_less_iff [where 'a = rat])
  also have "\<dots> = p2 (int p + e)" by (simp add: p2_add p2_nat)
  also have "\<dots> \<le> p2 (int p - 1 + e')" using assms(2) by (intro p2_mono) simp
  finally show ?thesis .
qed

lemma rnd0_lower_pos:
  assumes q: "0 < q" and f: "repr p emin f" and le: "f \<le> q" and p: "0 < p"
  shows "f \<le> rnd0 p emin q"
proof -
  obtain m e where m: "\<bar>m\<bar> < 2 ^ p" "emin \<le> e" and fe: "f = of_int m * p2 e"
    using f unfolding repr_def by blast
  let ?e = "ulp_exp p emin q"
  show ?thesis
  proof (cases "?e \<le> e")
    case True
    then obtain k :: int where "p2 e = of_int k * p2 ?e" using p2_dvd by blast
    then have "f = of_int (m * k) * p2 ?e" by (simp add: fe)
    then show ?thesis using rnd0_grid_lower [of "m * k" p emin q] le q by simp
  next
    case False
    then have e: "?e = ilog2 q - int p + 1" using m(2) q by (simp add: ulp_exp_def)
    have "f < p2 (int p - 1 + ?e)" using repr_small [OF m(1), of e ?e] False by (simp add: fe)
    also have "\<dots> = p2 (ilog2 q)" by (simp add: e)
    finally have "f < p2 (ilog2 q)" .
    moreover have "p2 (ilog2 q) \<le> rnd0 p emin q"
    proof -
      obtain k :: int where k: "p2 (ilog2 q) = of_int k * p2 ?e"
        using p2_dvd [of ?e "ilog2 q"] e p by auto
      show ?thesis
        using rnd0_grid_lower [of k p emin q] ilog2_bounds(1) [OF q] q by (simp add: k)
    qed
    ultimately show ?thesis by simp
  qed
qed

lemma rnd0_upper_pos:
  assumes q: "0 < q" and f: "repr p emin f" and le: "q \<le> f" and p: "0 < p"
  shows "rnd0 p emin q \<le> f"
proof -
  obtain m e where m: "\<bar>m\<bar> < 2 ^ p" "emin \<le> e" and fe: "f = of_int m * p2 e"
    using f unfolding repr_def by blast
  let ?e = "ulp_exp p emin q"
  have "?e \<le> e"
  proof (rule ccontr)
    assume "\<not> ?e \<le> e"
    then have e: "?e = ilog2 q - int p + 1" using m(2) q by (simp add: ulp_exp_def)
    have "f < p2 (int p - 1 + ?e)"
      using repr_small [OF m(1), of e ?e] \<open>\<not> ?e \<le> e\<close> by (simp add: fe)
    also have "\<dots> = p2 (ilog2 q)" by (simp add: e)
    also have "\<dots> \<le> q" by (rule ilog2_bounds(1) [OF q])
    finally show False using le by simp
  qed
  then obtain k :: int where "p2 e = of_int k * p2 ?e" using p2_dvd by blast
  then have "f = of_int (m * k) * p2 ?e" by (simp add: fe)
  then show ?thesis using rnd0_grid_upper [of q "m * k" p emin] le q by simp
qed

lemma rnd0_lower: "repr p emin f \<Longrightarrow> f \<le> q \<Longrightarrow> 0 < p \<Longrightarrow> f \<le> rnd0 p emin q"
proof (cases q "0::rat" rule: linorder_cases)
  case less
  assume "repr p emin f" "f \<le> q" "0 < p"
  with less have "rnd0 p emin (- q) \<le> - f" by (intro rnd0_upper_pos) auto
  then show ?thesis by (simp add: rnd0_minus)
qed (auto intro: rnd0_lower_pos)

lemma rnd0_upper: "repr p emin f \<Longrightarrow> q \<le> f \<Longrightarrow> 0 < p \<Longrightarrow> rnd0 p emin q \<le> f"
  using rnd0_lower [of p emin "- f" "- q"] by (simp add: rnd0_minus)

lemma rnd0_repr_id: "repr p emin f \<Longrightarrow> 0 < p \<Longrightarrow> rnd0 p emin f = f"
  by (intro antisym rnd0_lower rnd0_upper) auto

text \<open>Rounding is monotone.\<close>

lemma rnd0_mono_pos:
  assumes a: "0 < a" and ab: "a \<le> b" and p: "0 < p"
  shows "rnd0 p emin a \<le> rnd0 p emin b"
proof (cases "ulp_exp p emin a = ulp_exp p emin b")
  case True
  have "a / p2 (ulp_exp p emin b) \<le> b / p2 (ulp_exp p emin b)"
    using ab by (simp add: divide_right_mono)
  with True a ab show ?thesis
    by (simp add: rnd0_def Let_def rne_mono mult_right_mono)
next
  case False
  from ilog2_mono [OF a ab] have le: "ulp_exp p emin a \<le> ulp_exp p emin b"
    using a ab by (simp add: ulp_exp_def)
  with False have lt: "ilog2 a < ilog2 b" and eb: "emin < ilog2 b - int p + 1"
    using a ab by (auto simp: ulp_exp_def max_def split: if_splits)
  have r: "repr p emin (p2 (ilog2 b))" using eb p by (intro repr_p2) auto
  have "a \<le> p2 (ilog2 b)"
    using ilog2_bounds(2) [OF a] p2_mono [of "ilog2 a + 1" "ilog2 b"] lt by simp
  moreover have "p2 (ilog2 b) \<le> b" using ilog2_bounds(1) [of b] a ab by simp
  ultimately show ?thesis
    using rnd0_upper [OF r _ p] rnd0_lower [OF r _ p] order_trans by blast
qed

lemma rnd0_mono:
  assumes ab: "a \<le> b" and p: "0 < p"
  shows "rnd0 p emin a \<le> rnd0 p emin b"
proof -
  consider "0 < a" | "a \<le> 0" "0 \<le> b" | "b < 0" by linarith
  then show ?thesis
  proof cases
    case 1
    then show ?thesis using ab p by (rule rnd0_mono_pos)
  next
    case 2
    then show ?thesis
      using rnd0_upper [of p emin 0 a] rnd0_lower [of p emin 0 b] p by force
  next
    case 3
    then have "rnd0 p emin (- b) \<le> rnd0 p emin (- a)"
      using ab p by (intro rnd0_mono_pos) auto
    then show ?thesis by (simp add: rnd0_minus)
  qed
qed

subsection \<open>Evaluation of rounding on numerals\<close>

lemma floor_rat_numeral [simp]:
  "\<lfloor>numeral a / numeral b :: rat\<rfloor> = numeral a div numeral b"
  "\<lfloor>1 / numeral b :: rat\<rfloor> = 1 div numeral b"
  "\<lfloor>- (numeral a / numeral b) :: rat\<rfloor> = - numeral a div numeral b"
  "\<lfloor>- (1 / numeral b) :: rat\<rfloor> = - 1 div numeral b"
  using floor_divide_of_int_eq [where 'a = rat, of "numeral a" "numeral b"]
    floor_divide_of_int_eq [where 'a = rat, of 1 "numeral b"]
    floor_divide_of_int_eq [where 'a = rat, of "- numeral a" "numeral b"]
    floor_divide_of_int_eq [where 'a = rat, of "- 1" "numeral b"]
  by simp_all

lemma ceiling_rat_numeral [simp]:
  "\<lceil>numeral a / numeral b :: rat\<rceil> = - (- numeral a div numeral b)"
  "\<lceil>1 / numeral b :: rat\<rceil> = - (- 1 div numeral b)"
  by (simp_all add: ceiling_def del: minus_divide_left)

subsection \<open>The format's values and operations\<close>

datatype dbl = Fin rat | Infty bool | NaN  \<comment> \<open>\<open>Infty True\<close> is \<open>+inf\<close>\<close>

definition fin_fmt :: "nat \<Rightarrow> int \<Rightarrow> int \<Rightarrow> rat \<Rightarrow> dbl" where
  "fin_fmt p emin emax q = (let r = rnd0 p emin q in
     if p2 emax \<le> r then Infty True else if r \<le> - p2 emax then Infty False else Fin r)"

definition rnd :: "rat \<Rightarrow> dbl" where
  "rnd q = fin_fmt 53 (- 1074) 1024 q"

definition rndf :: "rat \<Rightarrow> dbl" where
  "rndf q = fin_fmt 24 (- 149) 128 q"

fun d_neg :: "dbl \<Rightarrow> dbl" where
  "d_neg (Fin a) = Fin (- a)"
| "d_neg (Infty s) = Infty (\<not> s)"
| "d_neg NaN = NaN"

fun d_add :: "dbl \<Rightarrow> dbl \<Rightarrow> dbl" where
  "d_add (Fin a) (Fin b) = rnd (a + b)"
| "d_add NaN _ = NaN"
| "d_add _ NaN = NaN"
| "d_add (Infty s) (Infty t) = (if s = t then Infty s else NaN)"
| "d_add (Infty s) (Fin _) = Infty s"
| "d_add (Fin _) (Infty t) = Infty t"

definition d_sub :: "dbl \<Rightarrow> dbl \<Rightarrow> dbl" where
  "d_sub x y = d_add x (d_neg y)"

fun d_mul :: "dbl \<Rightarrow> dbl \<Rightarrow> dbl" where
  "d_mul (Fin a) (Fin b) = rnd (a * b)"
| "d_mul NaN _ = NaN"
| "d_mul _ NaN = NaN"
| "d_mul (Infty s) (Infty t) = Infty (s = t)"
| "d_mul (Infty s) (Fin b) = (if b = 0 then NaN else Infty (s = (0 < b)))"
| "d_mul (Fin a) (Infty t) = (if a = 0 then NaN else Infty (t = (0 < a)))"

fun d_div :: "dbl \<Rightarrow> dbl \<Rightarrow> dbl" where
  "d_div (Fin a) (Fin b) =
     (if b = 0 then (if a = 0 then NaN else Infty (0 < a)) else rnd (a / b))"
| "d_div NaN _ = NaN"
| "d_div _ NaN = NaN"
| "d_div (Infty s) (Infty t) = NaN"
| "d_div (Infty s) (Fin b) = Infty (s = (0 \<le> b))"
| "d_div (Fin a) (Infty t) = Fin 0"

text \<open>The quotient of two \<open>float\<close>s.\<close>

fun f_div :: "dbl \<Rightarrow> dbl \<Rightarrow> dbl" where
  "f_div (Fin a) (Fin b) =
     (if b = 0 then (if a = 0 then NaN else Infty (0 < a)) else rndf (a / b))"
| "f_div x y = d_div x y"

fun d_less :: "dbl \<Rightarrow> dbl \<Rightarrow> bool" where
  "d_less (Fin a) (Fin b) = (a < b)"
| "d_less NaN _ = False"
| "d_less _ NaN = False"
| "d_less (Infty s) (Infty t) = (\<not> s \<and> t)"
| "d_less (Infty s) (Fin b) = (\<not> s)"
| "d_less (Fin a) (Infty t) = t"

fun d_eq :: "dbl \<Rightarrow> dbl \<Rightarrow> bool" where
  "d_eq NaN _ = False"
| "d_eq _ NaN = False"
| "d_eq x y = (x = y)"

definition d_le :: "dbl \<Rightarrow> dbl \<Rightarrow> bool" where
  "d_le x y = (d_less x y \<or> d_eq x y)"

text \<open>Conversions. An unsigned or signed 32-bit integer is exactly a \<open>double\<close>; the other
  way the fraction is dropped, and a value the integer type cannot hold has no defined result.\<close>

definition u32_to_dbl :: "u32 \<Rightarrow> dbl" where
  "u32_to_dbl w = Fin (of_nat (unat w))"

definition i32_to_dbl :: "i32 \<Rightarrow> dbl" where
  "i32_to_dbl w = Fin (of_int (sint w))"

definition trunc :: "rat \<Rightarrow> int" where
  "trunc q = (if 0 \<le> q then \<lfloor>q\<rfloor> else - \<lfloor>- q\<rfloor>)"

fun dbl_to_u32 :: "dbl \<Rightarrow> u32 res" where
  "dbl_to_u32 (Fin q) = (if 0 \<le> trunc q \<and> trunc q < 2 ^ 32 then Inr (word_of_int (trunc q))
     else Inl BadCast)"
| "dbl_to_u32 _ = Inl BadCast"

fun dbl_to_i32 :: "dbl \<Rightarrow> i32 res" where
  "dbl_to_i32 (Fin q) = (if - (2 ^ 31) \<le> trunc q \<and> trunc q < 2 ^ 31
     then Inr (word_of_int (trunc q)) else Inl BadCast)"
| "dbl_to_i32 _ = Inl BadCast"

text \<open>Between two representable numbers a rounded result stays between them; the integers up to
  \<open>2 ^ 53\<close> are representable.\<close>

lemma rnd_between:
  assumes "repr 53 (- 1074) a" "repr 53 (- 1074) b" "a \<le> q" "q \<le> b" "- p2 1024 < a" "b < p2 1024"
  shows "\<exists>x. rnd q = Fin x \<and> a \<le> x \<and> x \<le> b"
proof -
  have "a \<le> rnd0 53 (- 1074) q" "rnd0 53 (- 1074) q \<le> b"
    using assms rnd0_lower rnd0_upper by auto
  with assms(5,6) show ?thesis by (auto simp: rnd_def fin_fmt_def Let_def)
qed

lemma p2_53_le: "(2::rat) ^ 53 \<le> p2 1024"
  using p2_mono [of 53 1024] p2_nat [of 53] by simp

lemma rnd_between_ints:
  assumes "of_int a \<le> q" "q \<le> of_int b" "\<bar>a\<bar> < 2 ^ 53" "\<bar>b\<bar> < 2 ^ 53"
  shows "\<exists>x. rnd q = Fin x \<and> of_int a \<le> x \<and> x \<le> of_int b"
proof -
  have small: "\<bar>of_int k\<bar> < p2 1024" if "\<bar>k\<bar> < (2::int) ^ 53" for k
  proof -
    have "\<bar>of_int k :: rat\<bar> < of_int (2 ^ 53)" using that by (simp only: of_int_abs [symmetric] of_int_less_iff)
    then show ?thesis using p2_53_le by simp
  qed
  show ?thesis using assms small [of a] small [of b] by (intro rnd_between repr_int) auto
qed

lemma dbl_to_u32_between:
  assumes "of_nat (unat lo) \<le> x" and "x \<le> of_nat (unat hi)"
  shows "\<exists>d. dbl_to_u32 (Fin x) = Inr d \<and> lo \<le> d \<and> d \<le> hi"
proof -
  have x: "0 \<le> x" using assms(1) of_nat_0_le_iff order_trans by blast
  have l: "int (unat lo) \<le> \<lfloor>x\<rfloor>" using assms(1) by (simp add: le_floor_iff)
  have h: "\<lfloor>x\<rfloor> \<le> int (unat hi)" using assms(2) by (simp add: floor_le_iff)
  have top: "int (unat hi) < 2 ^ 32" using uint_lt2p [of hi] by simp
  have r: "0 \<le> \<lfloor>x\<rfloor>" "\<lfloor>x\<rfloor> < 2 ^ 32" using x le_less_trans [OF h top] by (simp, blast)
  then have "uint (word_of_int \<lfloor>x\<rfloor> :: u32) = \<lfloor>x\<rfloor>" by (simp add: uint_word_of_int)
  with l h have "lo \<le> word_of_int \<lfloor>x\<rfloor>" "word_of_int \<lfloor>x\<rfloor> \<le> hi"
    by (simp_all add: word_le_def)
  then show ?thesis using x r by (simp add: trunc_def)
qed

lemmas d_eval = rnd_def rndf_def fin_fmt_def rnd0_def ulp_exp_def ilog2_def rne_def p2_def
  Let_def trunc_def u32_to_dbl_def i32_to_dbl_def d_sub_def d_le_def

end
