(* ===== verification/StdMap.thy ===== *)
theory StdMap
  imports Prelude
begin

text \<open>
  \<open>std::map\<close> as the code uses it: a list of key/value pairs in strictly increasing key
  order, so that \<open>begin()\<close> is the head and iteration follows the keys. \<open>sm_insert\<close>
  keeps the old value when the key is present, as \<open>map::insert\<close> does.

  The locale \<open>std_map\<close> is the contract its clients (the aura, spell and cooldown maps and
  the event queue) rely on; it is interpreted on the lists below.
\<close>

type_synonym ('k, 'v) smap = "('k \<times> 'v) list"

definition sm_ok :: "('k::linorder, 'v) smap \<Rightarrow> bool" where
  "sm_ok m \<longleftrightarrow> sorted_wrt (<) (map fst m)"

fun sm_find :: "('k::linorder, 'v) smap \<Rightarrow> 'k \<Rightarrow> 'v option" where
  "sm_find [] k = None"
| "sm_find ((k', v) # m) k = (if k = k' then Some v else sm_find m k)"

fun sm_insert :: "'k::linorder \<Rightarrow> 'v \<Rightarrow> ('k, 'v) smap \<Rightarrow> ('k, 'v) smap" where
  "sm_insert k v [] = [(k, v)]"
| "sm_insert k v ((k', v') # m) =
     (if k < k' then (k, v) # (k', v') # m
      else if k = k' then (k', v') # m else (k', v') # sm_insert k v m)"

fun sm_assign :: "'k::linorder \<Rightarrow> 'v \<Rightarrow> ('k, 'v) smap \<Rightarrow> ('k, 'v) smap" where
  \<comment> \<open>\<open>it->second = v\<close> for the iterator \<open>it = find(k)\<close>\<close>
  "sm_assign k v [] = []"
| "sm_assign k v ((k', v') # m) =
     (if k = k' then (k', v) # m else (k', v') # sm_assign k v m)"

fun sm_erase :: "'k::linorder \<Rightarrow> ('k, 'v) smap \<Rightarrow> ('k, 'v) smap" where
  "sm_erase k [] = []"
| "sm_erase k ((k', v') # m) = (if k = k' then m else (k', v') # sm_erase k m)"

subsection \<open>The contract\<close>

locale std_map =
  fixes find :: "'m \<Rightarrow> 'k \<Rightarrow> 'v option"
    and insert :: "'k \<Rightarrow> 'v \<Rightarrow> 'm \<Rightarrow> 'm"
    and assign :: "'k \<Rightarrow> 'v \<Rightarrow> 'm \<Rightarrow> 'm"
    and erase :: "'k \<Rightarrow> 'm \<Rightarrow> 'm"
    and ok :: "'m \<Rightarrow> bool"
    and empty :: "'m"
  assumes find_empty: "find empty k = None"
    and find_insert: "ok m \<Longrightarrow> find (insert k v m) j =
      (if j = k then (case find m k of None \<Rightarrow> Some v | Some w \<Rightarrow> Some w) else find m j)"
    and find_assign: "ok m \<Longrightarrow> find (assign k v m) j =
      (if j = k then (case find m k of None \<Rightarrow> None | Some w \<Rightarrow> Some v) else find m j)"
    and find_erase: "ok m \<Longrightarrow> find (erase k m) j = (if j = k then None else find m j)"
    and ok_empty: "ok empty"
    and ok_insert: "ok m \<Longrightarrow> ok (insert k v m)"
    and ok_assign: "ok m \<Longrightarrow> ok (assign k v m)"
    and ok_erase: "ok m \<Longrightarrow> ok (erase k m)"
begin

text \<open>The find-then-assign-or-insert idiom stores the value whatever was there before.\<close>

lemma put_find:
  "ok m \<Longrightarrow> find (if find m k = None then insert k v m else assign k v m) j =
     (if j = k then Some v else find m j)"
  by (auto simp: find_insert find_assign split: option.splits)

lemma put_ok: "ok m \<Longrightarrow> ok (if find m k = None then insert k v m else assign k v m)"
  by (simp add: ok_insert ok_assign)

lemma insert_fresh: "ok m \<Longrightarrow> find m k = None \<Longrightarrow> find (insert k v m) = (find m)(k \<mapsto> v)"
  by (auto simp: find_insert fun_eq_iff)

lemma erase_fun: "ok m \<Longrightarrow> find (erase k m) = (find m)(k := None)"
  by (auto simp: find_erase fun_eq_iff)

lemma insert_erase:
  "ok m \<Longrightarrow> find m k = None \<Longrightarrow> find (erase k (insert k v m)) j = find m j"
  by (simp add: find_erase find_insert ok_insert)

end

subsection \<open>The lists satisfy it\<close>

lemma sm_ok_Nil [simp]: "sm_ok []"
  by (simp add: sm_ok_def)

lemma sm_ok_Cons: "sm_ok ((k, v) # m) \<longleftrightarrow> sm_ok m \<and> (\<forall>x \<in> fst ` set m. k < x)"
  by (auto simp: sm_ok_def)

lemma sm_find_None_iff: "sm_find m k = None \<longleftrightarrow> k \<notin> fst ` set m"
  by (induction m k rule: sm_find.induct) simp_all

lemma sm_find_in: "sm_find m k = Some v \<Longrightarrow> (k, v) \<in> set m"
  by (induction m) (auto split: if_splits)

lemma sm_in_find: "sm_ok m \<Longrightarrow> (k, v) \<in> set m \<Longrightarrow> sm_find m k = Some v"
proof (induction m)
  case (Cons a m)
  then show ?case by (cases a) (fastforce simp: sm_ok_Cons image_iff)
qed simp

lemma sm_insert_keys: "fst ` set (sm_insert k v m) = insert k (fst ` set m)"
  by (induction k v m rule: sm_insert.induct) (simp_all add: insert_commute)

lemma sm_assign_keys [simp]: "fst ` set (sm_assign k v m) = fst ` set m"
  by (induction k v m rule: sm_assign.induct) simp_all

lemma sm_erase_subset: "set (sm_erase k m) \<subseteq> set m"
  by (induction k m rule: sm_erase.induct) auto

lemma sm_ok_insert: "sm_ok m \<Longrightarrow> sm_ok (sm_insert k v m)"
proof (induction k v m rule: sm_insert.induct)
  case (2 k v k' v' m)
  then show ?case by (simp add: sm_ok_Cons sm_insert_keys) (meson image_eqI less_trans not_less_iff_gr_or_eq)
qed (simp add: sm_ok_Cons)

lemma sm_ok_assign: "sm_ok m \<Longrightarrow> sm_ok (sm_assign k v m)"
proof (induction k v m rule: sm_assign.induct)
  case (2 k v k' v' m)
  then show ?case using sm_assign_keys [of k v m] by (auto simp: sm_ok_Cons simp del: sm_assign_keys)
qed simp

lemma sm_ok_erase: "sm_ok m \<Longrightarrow> sm_ok (sm_erase k m)"
proof (induction k m rule: sm_erase.induct)
  case (2 k k' v' m)
  then show ?case using sm_erase_subset [of k m] by (auto simp: sm_ok_Cons subset_iff)
qed simp

lemma sm_find_insert: "sm_ok m \<Longrightarrow> sm_find (sm_insert k v m) j =
    (if j = k then (case sm_find m k of None \<Rightarrow> Some v | Some w \<Rightarrow> Some w) else sm_find m j)"
proof (induction m)
  case (Cons a m)
  obtain k' v' where a: "a = (k', v')" by fastforce
  have "k < k' \<Longrightarrow> sm_find m k = None"
    using Cons.prems unfolding a sm_find_None_iff by (force simp: sm_ok_Cons)
  then show ?case using Cons by (auto simp: a sm_ok_Cons)
qed simp

lemma sm_find_assign: "sm_find (sm_assign k v m) j =
    (if j = k then (case sm_find m k of None \<Rightarrow> None | Some w \<Rightarrow> Some v) else sm_find m j)"
  by (induction m) auto

lemma sm_find_erase: "sm_ok m \<Longrightarrow> sm_find (sm_erase k m) j = (if j = k then None else sm_find m j)"
proof (induction m)
  case (Cons a m)
  obtain k' v' where a: "a = (k', v')" by fastforce
  have "k = k' \<Longrightarrow> sm_find m k = None"
    using Cons.prems unfolding a sm_find_None_iff by (force simp: sm_ok_Cons)
  then show ?case using Cons by (auto simp: a sm_ok_Cons)
qed simp

interpretation sm: std_map sm_find sm_insert sm_assign sm_erase sm_ok "[]"
  by unfold_locales (simp_all add: sm_find_insert sm_find_assign sm_find_erase
      sm_ok_insert sm_ok_assign sm_ok_erase)

end
