(* ===== verification/Sim_Global.thy ===== *)
theory Sim_Global
  imports IEEE_Double StdMap
begin

unbundle bit_operations_syntax

text \<open>
  \<open>Global.h\<close>: the event and spell type bits, the enumerations the Lua interface selects
  statistics with, and the accessor macros every stat of the player is generated from.
\<close>

named_theorems game_consts

subsection \<open>Event and spell type bits\<close>

definition EVENT_SPELL :: u32 where [game_consts]: "EVENT_SPELL = 0x10000000"
definition EVENT_SPELL_CAST :: u32 where [game_consts]: "EVENT_SPELL_CAST = 0x10000001"
definition EVENT_SPELL_CHANNEL :: u32 where [game_consts]: "EVENT_SPELL_CHANNEL = 0x10000004"
definition EVENT_AURA :: u32 where [game_consts]: "EVENT_AURA = 0x20000000"
definition EVENT_AURA_APPLICATION :: u32 where
  [game_consts]: "EVENT_AURA_APPLICATION = 0x20000001"
definition EVENT_AURA_REMOVAL :: u32 where [game_consts]: "EVENT_AURA_REMOVAL = 0x20000002"
definition EVENT_AURA_PERIODIC_EVENT :: u32 where
  [game_consts]: "EVENT_AURA_PERIODIC_EVENT = 0x20000004"
definition EVENT_PRE :: u32 where [game_consts]: "EVENT_PRE = 0x40000000"
definition EVENT_POST :: u32 where [game_consts]: "EVENT_POST = 0x80000000"

definition SPELL_DAMAGE :: u32 where [game_consts]: "SPELL_DAMAGE = 0x00000001"
definition SPELL_AURA_APPLICATION :: u32 where
  [game_consts]: "SPELL_AURA_APPLICATION = 0x00000002"
definition SPELL_CHANNEL :: u32 where [game_consts]: "SPELL_CHANNEL = 0x00000004"

text \<open>\<open>(x & bits) == bits\<close>, the test the event and spell handlers use.\<close>

definition has_bits :: "u32 \<Rightarrow> u32 \<Rightarrow> bool" where
  "has_bits x bits \<longleftrightarrow> x AND bits = bits"

subsection \<open>Enumerations\<close>

definition PS_LEVEL :: u32 where [game_consts]: "PS_LEVEL = 1"
definition PS_CRIT_RAITING :: u32 where [game_consts]: "PS_CRIT_RAITING = 2"
definition PS_HIT_RAITING :: u32 where [game_consts]: "PS_HIT_RAITING = 3"
definition PS_HASTE_RAITING :: u32 where [game_consts]: "PS_HASTE_RAITING = 4"
definition PS_SPELL_POWER :: u32 where [game_consts]: "PS_SPELL_POWER = 5"
definition PS_INTELLIGENCE :: u32 where [game_consts]: "PS_INTELLIGENCE = 6"
definition PS_SPIRIT :: u32 where [game_consts]: "PS_SPIRIT = 7"
definition PS_HASTE_PRECENTAGE :: u32 where [game_consts]: "PS_HASTE_PRECENTAGE = 8"
definition PS_INVAILD_MAX :: u32 where [game_consts]: "PS_INVAILD_MAX = 9"

definition PP_INVAILD_MIN :: u32 where [game_consts]: "PP_INVAILD_MIN = 1"
definition PP_CRIT_PRECENTAGE :: u32 where [game_consts]: "PP_CRIT_PRECENTAGE = 2"
definition PP_HIT_PRECENTAGE :: u32 where [game_consts]: "PP_HIT_PRECENTAGE = 3"
definition PP_HASTE_PRECENTAGE :: u32 where [game_consts]: "PP_HASTE_PRECENTAGE = 4"
definition PP_INVAILD_MAX :: u32 where [game_consts]: "PP_INVAILD_MAX = 5"

definition CS_DAMAGE :: u32 where [game_consts]: "CS_DAMAGE = 2"
definition CS_DAMAGE_PRECENTAGE :: u32 where [game_consts]: "CS_DAMAGE_PRECENTAGE = 3"
definition CS_CRIT_PRECENTAGE :: u32 where [game_consts]: "CS_CRIT_PRECENTAGE = 4"
definition CS_HIT_PRECENTAGE :: u32 where [game_consts]: "CS_HIT_PRECENTAGE = 5"
definition CS_CRIT_RATING :: u32 where [game_consts]: "CS_CRIT_RATING = 6"
definition CS_HIT_RATING :: u32 where [game_consts]: "CS_HIT_RATING = 7"
definition CS_HASTE_RATING :: u32 where [game_consts]: "CS_HASTE_RATING = 8"
definition CS_CAST_TIME :: u32 where [game_consts]: "CS_CAST_TIME = 9"
definition CS_COOLDOWN :: u32 where [game_consts]: "CS_COOLDOWN = 10"
definition CS_HASTE_PRECENTAGE :: u32 where [game_consts]: "CS_HASTE_PRECENTAGE = 11"

subsection \<open>The stat accessors: the macro \<open>CLASS_ELEMENT_UINT32\<close>\<close>

text \<open>One instance per stat: the base value (\<open>m_iX\<close>), the signed bonus
  (\<open>m_iAdditionalX\<close>) and the multiplier (\<open>m_dXMultiplier\<close>).\<close>

record stat =
  st_base :: u32
  st_additional :: i32
  st_multiplier :: dbl

definition stat_init :: stat where
  "stat_init = \<lparr>st_base = 0, st_additional = 0, st_multiplier = Fin 0\<rparr>"

definition stat_Get :: "stat \<Rightarrow> u32 res" where
  "stat_Get s = dbl_to_u32 (d_mul (u32_to_dbl (st_base s + st_additional s))
                                  (d_add (Fin 1) (st_multiplier s)))"

definition stat_Set :: "u32 \<Rightarrow> stat \<Rightarrow> stat" where
  "stat_Set i s = s\<lparr>st_base := i\<rparr>"

definition stat_Add :: "i32 \<Rightarrow> stat \<Rightarrow> stat res" where
  "stat_Add x s = bindR (i32_add (st_additional s) x) (\<lambda>t. Inr (s\<lparr>st_additional := t\<rparr>))"

definition stat_AddMultiplier :: "dbl \<Rightarrow> stat \<Rightarrow> stat" where
  "stat_AddMultiplier x s = s\<lparr>st_multiplier := d_add (st_multiplier s) x\<rparr>"

end
