(* ===== verification/Sim_Aura.thy ===== *)
theory Sim_Aura
  imports Sim_Global
begin

text \<open>
  \<open>Aura.h\<close>, \<open>Aura.cpp\<close>: auras (buffs and periodic damage effects), their two
  constructors and the database that numbers them.

  A field no constructor has set is \<open>None\<close>; reading it is the fault \<open>UninitRead\<close>.
  The identity counter \<open>CAura::m_iGUIDCounter\<close> is passed explicitly.
\<close>

subsection \<open>The object\<close>

record aura =
  m_iAuraID :: "u32 option"
  m_iTicks :: u32
  m_iPeriodicEventTime :: "u32 option"
  m_strAuraName :: string
  m_bIsPeriodic :: bool
  m_bCritEnabled :: "bool option"
  m_bHasteEnabled :: "bool option"
  m_iPeriodicDamageMin :: "u32 option"
  m_iPeriodicDamageMax :: "u32 option"
  m_iFadeTime :: "u32 option"
  m_iAuraSchool :: "u32 option"
  m_iGUID :: u32
  m_dSpellPowerFactorPreTick :: "dbl option"
  m_iSpellPower :: "u32 option"

text \<open>The constructor from a name and the periodic parameters. The result is the object and
  the advanced counter.\<close>

definition CAura_new ::
  "string \<Rightarrow> u32 \<Rightarrow> bool \<Rightarrow> u32 \<Rightarrow> u32 \<Rightarrow> u32 \<Rightarrow> bool \<Rightarrow> bool \<Rightarrow> u32 \<Rightarrow> u32 \<Rightarrow> (aura \<times> u32) res" where
  "CAura_new strAuraName iTicks isPeriodic iPeriodicDamageMin iPeriodicDamageMax iAuraSchool
     bCritEnabled bHasteEnabled PeriodicEventTime guid =
   bindR (strcpy256 strAuraName) (\<lambda>name.
     Inr (\<lparr>m_iAuraID = None, m_iTicks = iTicks, m_iPeriodicEventTime = Some PeriodicEventTime,
           m_strAuraName = name, m_bIsPeriodic = isPeriodic,
           m_bCritEnabled = Some bCritEnabled, m_bHasteEnabled = Some bHasteEnabled,
           m_iPeriodicDamageMin = Some iPeriodicDamageMin,
           m_iPeriodicDamageMax = Some iPeriodicDamageMax,
           m_iFadeTime = None, m_iAuraSchool = Some iAuraSchool, m_iGUID = guid + 1,
           m_dSpellPowerFactorPreTick = Some (Fin 0), m_iSpellPower = Some 0\<rparr>, guid + 1))"

text \<open>The copy constructor: the periodic fields are copied only when the source is periodic,
  and every copy gets an identity of its own.\<close>

definition CAura_copy :: "aura \<Rightarrow> u32 \<Rightarrow> aura \<times> u32" where
  "CAura_copy a guid =
     (let base = \<lparr>m_iAuraID = m_iAuraID a, m_iTicks = m_iTicks a, m_iPeriodicEventTime = None,
                  m_strAuraName = m_strAuraName a, m_bIsPeriodic = m_bIsPeriodic a,
                  m_bCritEnabled = None, m_bHasteEnabled = None, m_iPeriodicDamageMin = None,
                  m_iPeriodicDamageMax = None, m_iFadeTime = None, m_iAuraSchool = None,
                  m_iGUID = guid + 1, m_dSpellPowerFactorPreTick = None, m_iSpellPower = None\<rparr>
      in (if m_bIsPeriodic a then
            base\<lparr>m_iPeriodicDamageMin := m_iPeriodicDamageMin a,
                 m_iPeriodicDamageMax := m_iPeriodicDamageMax a,
                 m_iAuraSchool := m_iAuraSchool a,
                 m_iPeriodicEventTime := m_iPeriodicEventTime a,
                 m_bCritEnabled := m_bCritEnabled a,
                 m_bHasteEnabled := m_bHasteEnabled a,
                 m_dSpellPowerFactorPreTick := m_dSpellPowerFactorPreTick a,
                 m_iSpellPower := Some 0\<rparr>
          else base,
          guid + 1))"

subsection \<open>The database: \<open>CAuraDB\<close>\<close>

record aura_db =
  adb_map :: "(u32, addr) smap"
  adb_counter :: u32

definition CAuraDB_init :: aura_db where
  "CAuraDB_init = \<lparr>adb_map = [], adb_counter = 0\<rparr>"

text \<open>The heap of aura objects is the store the pointers of the map lead to.\<close>

type_synonym aura_heap = "addr \<Rightarrow> aura option"

definition AddAura :: "addr \<Rightarrow> aura_db \<times> aura_heap \<Rightarrow> (u32 \<times> aura_db \<times> aura_heap) res" where
  "AddAura p s = (case s of (db, h) \<Rightarrow>
     bindR (of_opt Dangling (h p)) (\<lambda>a.
       let n = adb_counter db + 1
       in Inr (n, db\<lparr>adb_counter := n, adb_map := sm_insert n p (adb_map db)\<rparr>,
               h(p \<mapsto> a\<lparr>m_iAuraID := Some n\<rparr>))))"

definition GetAuraByID :: "aura_db \<Rightarrow> u32 \<Rightarrow> addr option" where
  "GetAuraByID db iAuraID = sm_find (adb_map db) iAuraID"

text \<open>The first object in key order whose name is the C string looked for.\<close>

fun find_by_name :: "('a \<Rightarrow> string) \<Rightarrow> (addr \<Rightarrow> 'a option) \<Rightarrow> ('k \<times> addr) list \<Rightarrow> string \<Rightarrow> addr option res" where
  "find_by_name nm h [] s = Inr None"
| "find_by_name nm h ((k, p) # m) s =
     bindR (of_opt Dangling (h p)) (\<lambda>a. if nm a = c_str s then Inr (Some p) else find_by_name nm h m s)"

definition GetAuraByName :: "aura_db \<Rightarrow> aura_heap \<Rightarrow> string \<Rightarrow> addr option res" where
  "GetAuraByName db h strAuraName = find_by_name m_strAuraName h (adb_map db) strAuraName"

text \<open>The destructor deletes every aura of the map.\<close>

definition CAuraDB_destroy :: "aura_db \<Rightarrow> aura_heap \<Rightarrow> aura_heap" where
  "CAuraDB_destroy db h = (\<lambda>p. if p \<in> snd ` set (adb_map db) then None else h p)"

end
