(* ===== verification/Sim_Spell.thy ===== *)
theory Sim_Spell
  imports Sim_Aura
begin

text \<open>\<open>Spell.h\<close>, \<open>Spell.cpp\<close>: spells and the database that numbers them.\<close>

record spell =
  m_SpellName :: string
  m_SpellType :: u32
  m_iDamageMin :: u32
  m_iDamageMax :: u32
  m_iSpellID :: "u32 option"
  m_SpellCastTime :: u32
  m_SpellCooldown :: u32
  m_ChannelTicks :: u32
  m_iSpellSchool :: u32
  m_pAuraToApply :: "addr option"
  m_iAuraFadeTime :: u32
  m_SPPrecentage :: dbl

definition CSpell_new ::
  "string \<Rightarrow> u32 \<Rightarrow> u32 \<Rightarrow> u32 \<Rightarrow> u32 \<Rightarrow> u32 \<Rightarrow> u32 \<Rightarrow> addr option \<Rightarrow> u32 \<Rightarrow> u32 \<Rightarrow> spell res" where
  "CSpell_new SpellName SpellType iDamageMin iDamageMax SpellCastTime SpellCooldown SpellSchool
     pAuraToApply iAuraFadeTime ChannelTicks =
   bindR (strcpy256 SpellName) (\<lambda>name.
     Inr \<lparr>m_SpellName = name, m_SpellType = SpellType, m_iDamageMin = iDamageMin,
          m_iDamageMax = iDamageMax, m_iSpellID = None, m_SpellCastTime = SpellCastTime,
          m_SpellCooldown = SpellCooldown, m_ChannelTicks = ChannelTicks,
          m_iSpellSchool = SpellSchool, m_pAuraToApply = pAuraToApply,
          m_iAuraFadeTime = iAuraFadeTime, m_SPPrecentage = Fin 0\<rparr>)"

record spell_db =
  sdb_map :: "(u32, addr) smap"
  sdb_counter :: u32

definition CSpellDB_init :: spell_db where
  "CSpellDB_init = \<lparr>sdb_map = [], sdb_counter = 0\<rparr>"

type_synonym spell_heap = "addr \<Rightarrow> spell option"

definition AddSpell :: "addr \<Rightarrow> spell_db \<times> spell_heap \<Rightarrow> (u32 \<times> spell_db \<times> spell_heap) res" where
  "AddSpell p s = (case s of (db, h) \<Rightarrow>
     bindR (of_opt Dangling (h p)) (\<lambda>sp.
       let n = sdb_counter db + 1
       in Inr (n, db\<lparr>sdb_counter := n, sdb_map := sm_insert n p (sdb_map db)\<rparr>,
               h(p \<mapsto> sp\<lparr>m_iSpellID := Some n\<rparr>))))"

definition GetSpellByID :: "spell_db \<Rightarrow> u32 \<Rightarrow> addr option" where
  "GetSpellByID db iSpellID = sm_find (sdb_map db) iSpellID"

definition GetSpellByName :: "spell_db \<Rightarrow> spell_heap \<Rightarrow> string \<Rightarrow> addr option res" where
  "GetSpellByName db h strSpellName = find_by_name m_SpellName h (sdb_map db) strSpellName"

definition CSpellDB_destroy :: "spell_db \<Rightarrow> spell_heap \<Rightarrow> spell_heap" where
  "CSpellDB_destroy db h = (\<lambda>p. if p \<in> snd ` set (sdb_map db) then None else h p)"

subsection \<open>The contract the two databases share\<close>

text \<open>
  A numbered database: \<open>add\<close> gives the object the next number, and looking a number up
  leads back to the object it was given to. \<open>nxt\<close> is the last number given.
\<close>

locale numbered_db =
  fixes add :: "addr \<Rightarrow> 'd \<times> (addr \<Rightarrow> 'o option) \<Rightarrow> (u32 \<times> 'd \<times> (addr \<Rightarrow> 'o option)) res"
    and get :: "'d \<Rightarrow> u32 \<Rightarrow> addr option"
    and idof :: "'o \<Rightarrow> u32 option"
    and nxt :: "'d \<Rightarrow> u32"
    and ok :: "'d \<Rightarrow> (addr \<Rightarrow> 'o option) \<Rightarrow> bool"
  assumes add_total: "h p = Some x \<Longrightarrow> \<exists>r. add p (d, h) = Inr r"
    and add_id: "add p (d, h) = Inr (n, d', h') \<Longrightarrow> n = nxt d + 1 \<and> nxt d' = n"
    and add_get: "ok d h \<Longrightarrow> nxt d \<noteq> - 1 \<Longrightarrow> add p (d, h) = Inr (n, d', h') \<Longrightarrow>
      get d' = (get d)(n \<mapsto> p)"
    and add_ok: "ok d h \<Longrightarrow> nxt d \<noteq> - 1 \<Longrightarrow> (\<forall>k. get d k \<noteq> Some p) \<Longrightarrow>
      add p (d, h) = Inr (n, d', h') \<Longrightarrow> ok d' h'"
    and ok_get: "ok d h \<Longrightarrow> get d k = Some p \<Longrightarrow>
      k \<noteq> 0 \<and> k \<le> nxt d \<and> (\<exists>x. h p = Some x \<and> idof x = Some k)"
begin

text \<open>The number an object was registered under finds it, and finds nothing else.\<close>

lemma get_added: "ok d h \<Longrightarrow> nxt d \<noteq> - 1 \<Longrightarrow> add p (d, h) = Inr (n, d', h') \<Longrightarrow> get d' n = Some p"
  by (simp add: add_get)

lemma get_kept:
  assumes "ok d h" "nxt d \<noteq> - 1" "add p (d, h) = Inr (n, d', h')" "get d k = Some q"
  shows "get d' k = Some q"
proof -
  have "k \<le> nxt d" using assms(1,4) ok_get by blast
  moreover have "nxt d < nxt d + 1" using assms(2) by (rule u32_succ)
  moreover have "n = nxt d + 1" using assms(3) add_id by blast
  ultimately have "k \<noteq> n" by auto
  then show ?thesis using assms add_get by simp
qed

lemma get_injective: "ok d h \<Longrightarrow> get d j = Some p \<Longrightarrow> get d k = Some p \<Longrightarrow> j = k"
  using ok_get [of d h j p] ok_get [of d h k p] by auto

end

text \<open>The invariant: every entry leads to a live object that knows its number, and no number
  is beyond the counter.\<close>

definition numbered_ok ::
  "(u32, addr) smap \<Rightarrow> u32 \<Rightarrow> ('o \<Rightarrow> u32 option) \<Rightarrow> (addr \<Rightarrow> 'o option) \<Rightarrow> bool" where
  "numbered_ok m c idf h \<longleftrightarrow> sm_ok m \<and>
     (\<forall>k p. sm_find m k = Some p \<longrightarrow> k \<noteq> 0 \<and> k \<le> c \<and> (\<exists>x. h p = Some x \<and> idf x = Some k))"

lemma numbered_fresh: "numbered_ok m c idf h \<Longrightarrow> c \<noteq> - 1 \<Longrightarrow> sm_find m (c + 1) = None"
  using u32_succ(1) [of c] by (cases "sm_find m (c + 1)") (force simp: numbered_ok_def)+

lemma numbered_insert:
  assumes ok: "numbered_ok m c idf h" and c: "c \<noteq> - 1" and p: "\<forall>k. sm_find m k \<noteq> Some p"
    and x: "idf x = Some (c + 1)"
  shows "numbered_ok (sm_insert (c + 1) p m) (c + 1) idf (h(p \<mapsto> x))"
proof -
  have f: "sm_find (sm_insert (c + 1) p m) = (sm_find m)(c + 1 \<mapsto> p)"
    using ok numbered_fresh [OF ok c] by (simp add: sm.insert_fresh numbered_ok_def)
  have "k \<noteq> 0 \<and> k \<le> c + 1 \<and> (\<exists>y. (h(p \<mapsto> x)) q = Some y \<and> idf y = Some k)"
    if q: "sm_find (sm_insert (c + 1) p m) k = Some q" for k q
  proof (cases "k = c + 1")
    case True
    then show ?thesis using q x u32_succ(2) [OF c] by (simp add: f)
  next
    case False
    with q have k: "sm_find m k = Some q" by (simp add: f)
    with p have "q \<noteq> p" by blast
    with k ok u32_succ(4) [OF c] show ?thesis by (auto simp: numbered_ok_def less_imp_le)
  qed
  with ok show ?thesis by (auto simp: numbered_ok_def sm_ok_insert)
qed

definition aura_db_ok :: "aura_db \<Rightarrow> aura_heap \<Rightarrow> bool" where
  "aura_db_ok db h \<longleftrightarrow> numbered_ok (adb_map db) (adb_counter db) m_iAuraID h"

definition spell_db_ok :: "spell_db \<Rightarrow> spell_heap \<Rightarrow> bool" where
  "spell_db_ok db h \<longleftrightarrow> numbered_ok (sdb_map db) (sdb_counter db) m_iSpellID h"

lemmas db_defs = AddAura_def AddSpell_def GetAuraByID_def GetSpellByID_def aura_db_ok_def
  spell_db_ok_def Let_def

lemma numbered_ok_sm: "numbered_ok m c idf h \<Longrightarrow> sm_ok m"
  by (simp add: numbered_ok_def)

interpretation adb: numbered_db AddAura GetAuraByID m_iAuraID adb_counter aura_db_ok
proof (unfold_locales, goal_cases)
  case (3 d h p n d' h')
  then show ?case
    by (auto simp: db_defs sm.insert_fresh [OF numbered_ok_sm numbered_fresh])
next
  case (4 d h p n d' h')
  then show ?case by (auto simp: db_defs intro!: numbered_insert)
qed (auto simp: db_defs numbered_ok_def)

interpretation sdb: numbered_db AddSpell GetSpellByID m_iSpellID sdb_counter spell_db_ok
proof (unfold_locales, goal_cases)
  case (3 d h p n d' h')
  then show ?case
    by (auto simp: db_defs sm.insert_fresh [OF numbered_ok_sm numbered_fresh])
next
  case (4 d h p n d' h')
  then show ?case by (auto simp: db_defs intro!: numbered_insert)
qed (auto simp: db_defs numbered_ok_def)

end
