(* ===== verification/Sim_Creature.thy ===== *)
theory Sim_Creature
  imports Sim_Spell
begin

text \<open>
  \<open>Creature.h\<close>, \<open>Creature.cpp\<close>: the units of the simulation, each with the auras
  applied to it, and the vector of units the scripts create by name.
\<close>

subsection \<open>The auras of a unit\<close>

type_synonym aura_map = "(u32, addr) smap"

record creature =
  m_strName :: string
  m_auraMap :: aura_map

definition CCreature_new :: "string \<Rightarrow> creature res" where
  "CCreature_new strName =
     bindR (strcpy256 strName) (\<lambda>n. Inr \<lparr>m_strName = n, m_auraMap = []\<rparr>)"

definition Creature_GetAuraByID :: "aura_map \<Rightarrow> u32 \<Rightarrow> addr option" where
  "Creature_GetAuraByID m iAuraID = sm_find m iAuraID"

text \<open>Applying an aura: nothing happens when one with the same number is there.\<close>

definition ApplyAura :: "aura_heap \<Rightarrow> addr \<Rightarrow> aura_map \<Rightarrow> (bool \<times> aura_map) res" where
  "ApplyAura h theAura m =
     bindR (of_opt Dangling (h theAura)) (\<lambda>a.
     bindR (of_opt UninitRead (m_iAuraID a)) (\<lambda>i.
       if sm_find m i = None then Inr (True, sm_insert i theAura m) else Inr (False, m)))"

definition IsAuraAppliedByID :: "aura_map \<Rightarrow> u32 \<Rightarrow> bool" where
  "IsAuraAppliedByID m iAuraID = (sm_find m iAuraID \<noteq> None)"

text \<open>Removal by object walks the map and erases the first entry with that pointer.\<close>

fun RemoveAura :: "addr \<Rightarrow> aura_map \<Rightarrow> bool \<times> aura_map" where
  "RemoveAura theAura [] = (False, [])"
| "RemoveAura theAura ((k, p) # m) =
     (if theAura = p then (True, m)
      else (case RemoveAura theAura m of (b, m') \<Rightarrow> (b, (k, p) # m')))"

text \<open>Removal by number compares the iterator with \<open>end()\<close> after it was erased, which
  no rule of the language allows.\<close>

definition RemoveAuraByID :: "u32 \<Rightarrow> aura_map \<Rightarrow> (bool \<times> aura_map) res" where
  "RemoveAuraByID iAuraID m =
     (if sm_find m iAuraID = None then Inr (False, m) else Inl Dangling)"

subsection \<open>The vector of units: \<open>CCreatureDB\<close>\<close>

type_synonym creature_heap = "addr \<Rightarrow> creature option"
type_synonym creature_db = "addr list"

definition AddCreature :: "addr \<Rightarrow> creature_db \<Rightarrow> creature_db" where
  "AddCreature p v = v @ [p]"

fun CreatureDB_GetByName :: "creature_heap \<Rightarrow> creature_db \<Rightarrow> string \<Rightarrow> addr option res" where
  "CreatureDB_GetByName h [] s = Inr None"
| "CreatureDB_GetByName h (p # v) s =
     bindR (of_opt Dangling (h p)) (\<lambda>c.
       if m_strName c = c_str s then Inr (Some p) else CreatureDB_GetByName h v s)"

fun RemoveCreatureByName ::
  "creature_heap \<Rightarrow> creature_db \<Rightarrow> string \<Rightarrow> (creature_heap \<times> creature_db) res" where
  "RemoveCreatureByName h [] s = Inr (h, [])"
| "RemoveCreatureByName h (p # v) s =
     bindR (of_opt Dangling (h p)) (\<lambda>c.
       if m_strName c = c_str s then Inr (h(p := None), v)
       else bindR (RemoveCreatureByName h v s) (\<lambda>(h', v'). Inr (h', p # v')))"

definition CCreatureDB_destroy :: "creature_heap \<Rightarrow> creature_db \<Rightarrow> creature_heap" where
  "CCreatureDB_destroy h v = (\<lambda>p. if p \<in> set v then None else h p)"

subsection \<open>Facts\<close>

lemma RemoveAura_absent: "p \<notin> snd ` set m \<Longrightarrow> RemoveAura p m = (False, m)"
  by (induction p m rule: RemoveAura.induct) auto

text \<open>When every pointer occurs once, removal by object is removal of its entry.\<close>

lemma RemoveAura_erase:
  "distinct (map snd m) \<Longrightarrow> sm_ok m \<Longrightarrow> sm_find m k = Some p \<Longrightarrow> RemoveAura p m = (True, sm_erase k m)"
proof (induction p m rule: RemoveAura.induct)
  case (2 theAura k' p' m)
  then show ?case
    by (auto simp: sm_ok_Cons split: if_splits dest: sm_find_in) (metis snd_conv image_eqI sm_find_in)+
qed simp

lemma RemoveAura_subset: "set (snd (RemoveAura p m)) \<subseteq> set m"
  by (induction p m rule: RemoveAura.induct) (auto split: prod.splits)

lemma RemoveAura_ok: "sm_ok m \<Longrightarrow> sm_ok (snd (RemoveAura p m))"
proof (induction p m rule: RemoveAura.induct)
  case (2 theAura k' p' m)
  then show ?case using RemoveAura_subset [of theAura m]
    by (auto simp: sm_ok_Cons subset_iff split: prod.splits)
qed simp

text \<open>A unit is found by name exactly when one of that name is in the vector and live.\<close>

lemma GetByName_Some:
  "CreatureDB_GetByName h v s = Inr (Some p) \<Longrightarrow>
     p \<in> set v \<and> (\<exists>c. h p = Some c \<and> m_strName c = c_str s)"
  by (induction h v s rule: CreatureDB_GetByName.induct) (auto split: if_splits)

lemma GetByName_None:
  "CreatureDB_GetByName h v s = Inr None \<Longrightarrow> p \<in> set v \<Longrightarrow>
     \<exists>c. h p = Some c \<and> m_strName c \<noteq> c_str s"
  by (induction h v s rule: CreatureDB_GetByName.induct) (auto split: if_splits)

lemma GetByName_total:
  "\<forall>p \<in> set v. h p \<noteq> None \<Longrightarrow> \<exists>r. CreatureDB_GetByName h v s = Inr r"
proof (induction h v s rule: CreatureDB_GetByName.induct)
  case (2 h p v s)
  then obtain c where "h p = Some c" by auto
  with 2 show ?case by (cases "m_strName c = c_str s") auto
qed simp

end
