(* ===== verification/Sim_Player.thy ===== *)
theory Sim_Player
  imports Sim_Creature
begin

text \<open>
  \<open>Player.h\<close>, \<open>Player.cpp\<close>: the player, its statistics, the conversion between combat
  ratings and percentages, and its cooldowns. The event system the player points to is used
  for its clock only; the game time is an argument.
\<close>

record player =
  p_Intelligence :: stat
  p_Spirit :: stat
  p_SpellPower :: stat
  p_CritRating :: stat
  p_HasteRating :: stat
  p_HitRating :: stat
  p_iAdditionalHastePrecentage :: dbl
  p_dCritBonus :: dbl
  p_iGlabalCooldownRecovery :: u32
  p_CooldownMap :: "(u32, u32) smap"
  p_CastingSpell :: "addr option"
  p_auraMap :: aura_map

definition CRIT_RATING_PRE_PRECENT :: dbl where "CRIT_RATING_PRE_PRECENT = rnd (4591 / 100)"
definition HIT_RATING_PRE_PRECENT :: dbl where "HIT_RATING_PRE_PRECENT = rnd (26232 / 1000)"
definition HASTE_RATING_PRE_PRECENT :: dbl where "HASTE_RATING_PRE_PRECENT = rnd (3279 / 100)"
definition CRIT_PRECENT_PRE_INTELLECT :: dbl where
  "CRIT_PRECENT_PRE_INTELLECT = rnd (1666667 / 10000)"

definition CPlayer_new :: player where
  "CPlayer_new = \<lparr>p_Intelligence = stat_init, p_Spirit = stat_init, p_SpellPower = stat_init,
     p_CritRating = stat_init, p_HasteRating = stat_init, p_HitRating = stat_init,
     p_iAdditionalHastePrecentage = Fin 0, p_dCritBonus = Fin 2,
     p_iGlabalCooldownRecovery = 0, p_CooldownMap = [], p_CastingSpell = None, p_auraMap = []\<rparr>"

definition AddHastePrecentage :: "dbl \<Rightarrow> player \<Rightarrow> player" where
  "AddHastePrecentage x p = p\<lparr>p_iAdditionalHastePrecentage :=
     (if d_less (Fin 0) x
      then d_sub (d_mul (d_add (Fin 1) (p_iAdditionalHastePrecentage p)) (d_add (Fin 1) x)) (Fin 1)
      else d_sub (d_div (d_add (Fin 1) (p_iAdditionalHastePrecentage p)) (d_sub (Fin 1) x)) (Fin 1))\<rparr>"

subsection \<open>Ratings and percentages\<close>

definition PrecentageToRating :: "dbl \<Rightarrow> u32 \<Rightarrow> u32 res" where
  "PrecentageToRating dPrecentage ty =
     (if ty = PP_CRIT_PRECENTAGE then
        dbl_to_u32 (d_mul (d_mul dPrecentage CRIT_RATING_PRE_PRECENT) (Fin 100))
      else if ty = PP_HASTE_PRECENTAGE then
        dbl_to_u32 (d_mul (d_mul dPrecentage HASTE_RATING_PRE_PRECENT) (Fin 100))
      else if ty = PP_HIT_PRECENTAGE then
        dbl_to_u32 (d_mul (d_mul dPrecentage HIT_RATING_PRE_PRECENT) (Fin 100))
      else Inr 0)"

definition RatingToPrecentage :: "u32 \<Rightarrow> u32 \<Rightarrow> dbl" where
  "RatingToPrecentage iRating ty =
     (if ty = PP_CRIT_PRECENTAGE then
        d_div (d_div (u32_to_dbl iRating) CRIT_RATING_PRE_PRECENT) (Fin 100)
      else if ty = PP_HASTE_PRECENTAGE then
        d_div (d_div (u32_to_dbl iRating) HASTE_RATING_PRE_PRECENT) (Fin 100)
      else if ty = PP_HIT_PRECENTAGE then
        d_div (d_div (u32_to_dbl iRating) HIT_RATING_PRE_PRECENT) (Fin 100)
      else Fin 0)"

definition Get_HastePrecentage :: "player \<Rightarrow> dbl res" where
  "Get_HastePrecentage p =
     bindR (stat_Get (p_HasteRating p)) (\<lambda>r.
       Inr (d_mul (RatingToPrecentage r PP_HASTE_PRECENTAGE)
                  (d_add (Fin 1) (p_iAdditionalHastePrecentage p))))"

definition Get_HitPrecentage :: "player \<Rightarrow> dbl res" where
  "Get_HitPrecentage p =
     bindR (stat_Get (p_HitRating p)) (\<lambda>r.
       let ideal = d_add (rnd (83 / 100)) (RatingToPrecentage r PP_HIT_PRECENTAGE)
       in Inr (if d_less (Fin 1) ideal then Fin 1 else ideal))"

definition Get_CritPrecentage :: "player \<Rightarrow> dbl res" where
  "Get_CritPrecentage p =
     bindR (stat_Get (p_CritRating p)) (\<lambda>r.
     bindR (stat_Get (p_Intelligence p)) (\<lambda>n.
       let byRating = RatingToPrecentage r PP_CRIT_PRECENTAGE;
           byIntellect = d_div (d_div (u32_to_dbl n) CRIT_PRECENT_PRE_INTELLECT) (Fin 100);
           byClass = d_div (rnd (124 / 100)) (Fin 100)
       in Inr (d_add (d_add byRating byIntellect) byClass)))"

definition Get_SpellCastTime :: "spell \<Rightarrow> player \<Rightarrow> dbl res" where
  "Get_SpellCastTime sp p =
     bindR (Get_HastePrecentage p) (\<lambda>h.
       Inr (d_div (u32_to_dbl (m_SpellCastTime sp)) (d_add (Fin 1) h)))"

definition Get_GlobalCooldownTime :: "player \<Rightarrow> dbl res" where
  "Get_GlobalCooldownTime p =
     bindR (Get_HastePrecentage p) (\<lambda>h.
       let ideal = d_div (rnd (3 / 2)) (d_add (Fin 1) h)
       in Inr (if d_less ideal (Fin 1) then Fin 1000 else d_mul ideal (Fin 1000)))"

subsection \<open>Idleness and cooldowns\<close>

definition IsIdle :: "u32 \<Rightarrow> player \<Rightarrow> bool" where
  "IsIdle time p \<longleftrightarrow> p_CastingSpell p = None \<and> p_iGlabalCooldownRecovery p \<le> time"

definition Get_SpellCooldown :: "u32 \<Rightarrow> u32 \<Rightarrow> player \<Rightarrow> u32" where
  "Get_SpellCooldown time iSpellID p =
     (let iGCDRemain = (if time < p_iGlabalCooldownRecovery p
                        then p_iGlabalCooldownRecovery p - time else 0);
          iSpellRemain = (case sm_find (p_CooldownMap p) iSpellID of
                            Some c \<Rightarrow> (if time < c then c - time else 0) | None \<Rightarrow> 0)
      in max iSpellRemain iGCDRemain)"

definition IsSpellAvailable :: "u32 \<Rightarrow> u32 \<Rightarrow> player \<Rightarrow> bool" where
  "IsSpellAvailable time iSpellID p \<longleftrightarrow> IsIdle time p \<and> Get_SpellCooldown time iSpellID p = 0"

definition Set_SpellCooldown :: "u32 \<Rightarrow> u32 \<Rightarrow> player \<Rightarrow> player" where
  "Set_SpellCooldown iSpellID iCooldownTime p = p\<lparr>p_CooldownMap :=
     (if sm_find (p_CooldownMap p) iSpellID \<noteq> None
      then sm_assign iSpellID iCooldownTime (p_CooldownMap p)
      else sm_insert iSpellID iCooldownTime (p_CooldownMap p))\<rparr>"

definition Set_GlobalCooldownTime :: "u32 \<Rightarrow> player \<Rightarrow> player" where
  "Set_GlobalCooldownTime iGCDTime p = p\<lparr>p_iGlabalCooldownRecovery := iGCDTime\<rparr>"

definition StopCasting :: "player \<Rightarrow> bool \<times> player" where
  "StopCasting p = (if p_CastingSpell p \<noteq> None then (True, p\<lparr>p_CastingSpell := None\<rparr>) else (False, p))"

end
