(* ===== verification/Sim_World.thy ===== *)
theory Sim_World
  imports Sim_Player
begin

text \<open>
  The state the simulation runs on: the heap of events, auras, spells and units, the event
  queue and clock of \<open>CEventSystem\<close>, the globals of \<open>LuaIntergration.cpp\<close> and
  \<open>DPSCalc.cpp\<close>, and the script interpreter's own state (the type parameter \<open>'l\<close>).

  Pointers to units are \<open>PlayerRef\<close> (the one player object) or the address of a unit of
  the heap. Every \<open>new\<close> takes the next address; \<open>delete\<close> removes the object, so that
  a later access through a stale pointer is the fault \<open>Dangling\<close>.
\<close>

subsection \<open>Events\<close>

datatype cref = PlayerRef | CreatRef addr

text \<open>The members of \<open>CEvent\<close>, and those of its two subclasses.\<close>

record spell_part =
  se_pSpell :: addr
  se_crit :: bool
  se_hit :: "bool option"
  se_CalculatedDamage :: u32
  se_GCDRecovery :: "u32 option"

record aura_part =
  ae_pAura :: addr
  ae_pSpell :: "addr option option"  \<comment> \<open>unset, or set to a possibly null pointer\<close>
  ae_iFadeTimeTillNow :: "u32 option"
  ae_bSetFadeTime :: "bool option"
  ae_iAddStacks :: "u32 option"
  ae_crit :: "bool option"
  ae_CalculatedDamage :: "u32 option"
  ae_iPeriodicTime :: "u32 option"
  ae_AuraGUID :: "u32 option"

datatype event_part = SpellPart spell_part | AuraPart aura_part

record cevent =
  ev_EventType :: u32
  ev_theTarget :: cref
  ev_Parent :: "addr option"
  ev_AdditionalDamage :: i32
  ev_AdditionalDamagePrecentage :: "dbl list"  \<comment> \<open>16 entries\<close>
  ev_AdditionalHastePrecentage :: dbl
  ev_AdditionalCritRaiting :: i32
  ev_AdditionalHasteRaiting :: i32
  ev_AdditionalCastTime :: i32
  ev_AdditionalCooldown :: i32
  ev_AdditionalHitRaiting :: i32
  ev_part :: event_part

definition CEvent_new :: "u32 \<Rightarrow> cref \<Rightarrow> event_part \<Rightarrow> cevent" where
  "CEvent_new ty target part = \<lparr>ev_EventType = ty, ev_theTarget = target, ev_Parent = None,
     ev_AdditionalDamage = 0, ev_AdditionalDamagePrecentage = replicate 16 (Fin 0),
     ev_AdditionalHastePrecentage = Fin 0, ev_AdditionalCritRaiting = 0,
     ev_AdditionalHasteRaiting = 0, ev_AdditionalCastTime = 0, ev_AdditionalCooldown = 0,
     ev_AdditionalHitRaiting = 0, ev_part = part\<rparr>"

definition ResetAdditionals :: "cevent \<Rightarrow> cevent" where
  "ResetAdditionals e = e\<lparr>ev_AdditionalDamage := 0,
     ev_AdditionalDamagePrecentage := replicate 16 (Fin 0),
     ev_AdditionalCritRaiting := 0, ev_AdditionalHasteRaiting := 0, ev_AdditionalCastTime := 0,
     ev_AdditionalCooldown := 0, ev_AdditionalHitRaiting := 0,
     ev_AdditionalHastePrecentage := Fin 0\<rparr>"

definition CSpellEvent_new :: "addr \<Rightarrow> cref \<Rightarrow> cevent" where
  "CSpellEvent_new pSpell theTarget = CEvent_new (EVENT_SPELL_CAST OR EVENT_PRE) theTarget
     (SpellPart \<lparr>se_pSpell = pSpell, se_crit = False, se_hit = None,
                 se_CalculatedDamage = 0, se_GCDRecovery = None\<rparr>)"

definition CAuraEvent_new :: "addr \<Rightarrow> cref \<Rightarrow> u32 \<Rightarrow> u32 \<Rightarrow> bool \<Rightarrow> cevent" where
  "CAuraEvent_new pAura theTarget iAddStacks iFadeTimeTillNow bNotSetFade =
     CEvent_new EVENT_AURA_APPLICATION theTarget
     (AuraPart \<lparr>ae_pAura = pAura, ae_pSpell = Some None,
        ae_iFadeTimeTillNow = Some iFadeTimeTillNow, ae_bSetFadeTime = Some (\<not> bNotSetFade),
        ae_iAddStacks = Some iAddStacks, ae_crit = Some False, ae_CalculatedDamage = Some 0,
        ae_iPeriodicTime = None, ae_AuraGUID = None\<rparr>)"

text \<open>The removal constructor: its fourth parameter \<open>ToRemoveGUID\<close> is stored nowhere, so
  \<open>m_AuraGUID\<close> (like the other members) stays unset.\<close>

definition CAuraEvent_new_removal :: "addr \<Rightarrow> cref \<Rightarrow> u32 \<Rightarrow> cevent" where
  "CAuraEvent_new_removal pAura theTarget ToRemoveGUID =
     CEvent_new EVENT_AURA_REMOVAL theTarget
     (AuraPart \<lparr>ae_pAura = pAura, ae_pSpell = None, ae_iFadeTimeTillNow = None,
        ae_bSetFadeTime = None, ae_iAddStacks = None, ae_crit = None,
        ae_CalculatedDamage = None, ae_iPeriodicTime = None, ae_AuraGUID = None\<rparr>)"

subsection \<open>The world\<close>

record damage_info =
  di_iGameTime :: u32
  di_iDamage :: u32
  di_isCrit :: bool
  di_strSpellName :: string

text \<open>The global \<open>pLuaState\<close>: null, a state that is open, or (after \<open>lua_close\<close>, which
  leaves the variable as it is) a pointer to a state that is closed.\<close>

datatype lua_handle = LuaNull | LuaOpen | LuaClosed

record 'l world =
  w_next :: addr                              \<comment> \<open>next free address\<close>
  w_events :: "addr \<Rightarrow> cevent option"
  w_auras :: aura_heap
  w_spells :: spell_heap
  w_creatures :: creature_heap
  w_iGUIDCounter :: u32                       \<comment> \<open>\<open>CAura::m_iGUIDCounter\<close>\<close>
  w_AuraDB :: aura_db
  w_SpellDB :: spell_db
  w_CreatureDB :: creature_db
  w_iGameTime :: u32                          \<comment> \<open>\<open>CEventSystem::m_iGameTime\<close>\<close>
  w_eventMap :: "(u32, addr list) smap"       \<comment> \<open>\<open>CEventSystem::m_eventMap\<close>\<close>
  w_bExitable :: bool
  w_CurrentEvent :: "addr option"
  w_CurrentTarget :: "cref option"
  w_CurrentPlayer :: "player option"
  w_rand :: nat                               \<comment> \<open>how often \<open>rand\<close> was called\<close>
  w_iDamageCounter :: u32
  w_Reporter :: "damage_info list option"     \<comment> \<open>\<open>pReporter\<close>: null, or its vector\<close>
  w_bNormalizeCrit :: bool
  w_pLuaState :: lua_handle
  w_lua :: 'l                                 \<comment> \<open>what the interpreter state holds\<close>

subsection \<open>Access through pointers\<close>

definition get_event :: "addr \<Rightarrow> 'l world \<Rightarrow> cevent res" where
  "get_event p w = of_opt Dangling (w_events w p)"

definition set_event :: "addr \<Rightarrow> cevent \<Rightarrow> 'l world \<Rightarrow> 'l world" where
  "set_event p e w = w\<lparr>w_events := (w_events w)(p \<mapsto> e)\<rparr>"

definition new_event :: "cevent \<Rightarrow> 'l world \<Rightarrow> addr \<times> 'l world" where
  "new_event e w = (w_next w, w\<lparr>w_next := Suc (w_next w), w_events := (w_events w)(w_next w \<mapsto> e)\<rparr>)"

definition delete_event :: "addr \<Rightarrow> 'l world \<Rightarrow> 'l world" where
  "delete_event p w = w\<lparr>w_events := (w_events w)(p := None)\<rparr>"

definition get_aura :: "addr \<Rightarrow> 'l world \<Rightarrow> aura res" where
  "get_aura p w = of_opt Dangling (w_auras w p)"

definition set_aura :: "addr \<Rightarrow> aura \<Rightarrow> 'l world \<Rightarrow> 'l world" where
  "set_aura p a w = w\<lparr>w_auras := (w_auras w)(p \<mapsto> a)\<rparr>"

definition new_aura :: "aura \<Rightarrow> 'l world \<Rightarrow> addr \<times> 'l world" where
  "new_aura a w = (w_next w, w\<lparr>w_next := Suc (w_next w), w_auras := (w_auras w)(w_next w \<mapsto> a)\<rparr>)"

definition delete_aura :: "addr \<Rightarrow> 'l world \<Rightarrow> 'l world" where
  "delete_aura p w = w\<lparr>w_auras := (w_auras w)(p := None)\<rparr>"

definition get_spell :: "addr \<Rightarrow> 'l world \<Rightarrow> spell res" where
  "get_spell p w = of_opt Dangling (w_spells w p)"

definition new_spell :: "spell \<Rightarrow> 'l world \<Rightarrow> addr \<times> 'l world" where
  "new_spell s w = (w_next w, w\<lparr>w_next := Suc (w_next w), w_spells := (w_spells w)(w_next w \<mapsto> s)\<rparr>)"

definition get_player :: "'l world \<Rightarrow> player res" where
  "get_player w = of_opt NullDeref (w_CurrentPlayer w)"

definition set_player :: "player \<Rightarrow> 'l world \<Rightarrow> 'l world" where
  "set_player p w = w\<lparr>w_CurrentPlayer := Some p\<rparr>"

text \<open>The aura map of a unit, wherever the unit is.\<close>

definition get_auraMap :: "cref \<Rightarrow> 'l world \<Rightarrow> aura_map res" where
  "get_auraMap c w = (case c of
     PlayerRef \<Rightarrow> bindR (get_player w) (\<lambda>p. Inr (p_auraMap p))
   | CreatRef a \<Rightarrow> bindR (of_opt Dangling (w_creatures w a)) (\<lambda>u. Inr (m_auraMap u)))"

definition set_auraMap :: "cref \<Rightarrow> aura_map \<Rightarrow> 'l world \<Rightarrow> 'l world res" where
  "set_auraMap c m w = (case c of
     PlayerRef \<Rightarrow> bindR (get_player w) (\<lambda>p. Inr (set_player (p\<lparr>p_auraMap := m\<rparr>) w))
   | CreatRef a \<Rightarrow> bindR (of_opt Dangling (w_creatures w a)) (\<lambda>u.
       Inr (w\<lparr>w_creatures := (w_creatures w)(a \<mapsto> u\<lparr>m_auraMap := m\<rparr>)\<rparr>)))"

definition unit_GetAuraByID :: "cref \<Rightarrow> u32 \<Rightarrow> 'l world \<Rightarrow> addr option res" where
  "unit_GetAuraByID c iAuraID w = bindR (get_auraMap c w) (\<lambda>m. Inr (Creature_GetAuraByID m iAuraID))"

subsection \<open>The event queue: \<open>CEventSystem::AddEvent\<close>\<close>

text \<open>An event is appended to the list of its due time, which is created when it is the first
  one; the sum wraps as \<open>uint32\<close> does.\<close>

definition queue_add :: "u32 \<Rightarrow> addr \<Rightarrow> (u32, addr list) smap \<Rightarrow> (u32, addr list) smap" where
  "queue_add t p m = (case sm_find m t of
     Some li \<Rightarrow> sm_assign t (li @ [p]) m
   | None \<Rightarrow> sm_insert t [p] m)"

definition AddEvent :: "addr \<Rightarrow> u32 \<Rightarrow> 'l world \<Rightarrow> 'l world" where
  "AddEvent pEvent DelayTime w =
     w\<lparr>w_eventMap := queue_add (w_iGameTime w + DelayTime) pEvent (w_eventMap w)\<rparr>"

definition ReadyExit :: "'l world \<Rightarrow> 'l world" where
  "ReadyExit w = w\<lparr>w_bExitable := True\<rparr>"

definition IsExitable :: "'l world \<Rightarrow> bool" where
  "IsExitable w = w_bExitable w"

subsection \<open>The globals of the Lua interface\<close>

text \<open>Setting a non-null pointer over a non-null one fails an assertion; without assertions
  it is refused.\<close>

definition SetCurrentPlayer :: "bool \<Rightarrow> player option \<Rightarrow> 'l world \<Rightarrow> (bool \<times> 'l world) res" where
  "SetCurrentPlayer dbg pPlayer w =
     (if w_CurrentPlayer w \<noteq> None \<and> pPlayer \<noteq> None
      then (if dbg then Inl AssertFail else Inr (False, w))
      else Inr (True, w\<lparr>w_CurrentPlayer := pPlayer\<rparr>))"

definition SetCurrentTarget :: "bool \<Rightarrow> cref option \<Rightarrow> 'l world \<Rightarrow> (bool \<times> 'l world) res" where
  "SetCurrentTarget dbg pTarget w =
     (if w_CurrentTarget w \<noteq> None \<and> pTarget \<noteq> None
      then (if dbg then Inl AssertFail else Inr (False, w))
      else Inr (True, w\<lparr>w_CurrentTarget := pTarget\<rparr>))"

definition SetCurrentEvent :: "bool \<Rightarrow> addr option \<Rightarrow> 'l world \<Rightarrow> (bool \<times> 'l world) res" where
  "SetCurrentEvent dbg pEvent w =
     (if w_CurrentEvent w \<noteq> None \<and> pEvent \<noteq> None
      then (if dbg then Inl AssertFail else Inr (False, w))
      else Inr (True, w\<lparr>w_CurrentEvent := pEvent\<rparr>))"

end
