(* ===== verification/Sim_Event.thy ===== *)
theory Sim_Event
  imports Sim_World
begin

text \<open>
  \<open>EventSystem.h\<close>, \<open>EventSystem.cpp\<close>: what an event computes without acting - its
  accumulated modifiers, its chances, cast time and damage. The virtual calls dispatch on the
  event's part.

  The environment of a run holds what is not in the repository's C++ code: the scripts, the
  C library's \<open>rand\<close>, the interpreter's number conversions, and whether the build keeps
  assertions.
\<close>

subsection \<open>Scripts and the environment\<close>

datatype lval = LNil | LBool bool | LNum dbl | LStr string

datatype lres = LReturn "lval list" | LError string

text \<open>A script that terminates is a tree: it ends with a new interpreter state, normally or by
  an error it did not catch, or calls a registered function and continues with what the call
  returned (an error included).\<close>

datatype 'l prog = PDone 'l | PFail 'l | PCall string "lval list" "lres \<Rightarrow> 'l prog"

record 'l env =
  e_script :: "string \<Rightarrow> lval list \<Rightarrow> 'l \<Rightarrow> 'l prog"  \<comment> \<open>calling a global function\<close>
  e_loadstring :: "string \<Rightarrow> ('l \<Rightarrow> 'l prog) option"  \<comment> \<open>compiling a chunk; \<open>None\<close>: an error\<close>
  e_loadfile :: "string \<Rightarrow> ('l \<Rightarrow> 'l prog) option"
  e_fopen :: "string \<Rightarrow> string option"  \<comment> \<open>the contents of a file\<close>
  e_rand :: "nat \<Rightarrow> nat"
  e_number2integer :: "dbl \<Rightarrow> int"
  e_str2number :: "string \<Rightarrow> dbl option"
  e_number2str :: "dbl \<Rightarrow> string"
  e_printf_f :: "dbl \<Rightarrow> string"  \<comment> \<open>\<open>sprintf("%f")\<close>\<close>
  e_debug :: bool

definition c_rand :: "'l env \<Rightarrow> 'l world \<Rightarrow> nat \<times> 'l world" where
  "c_rand env w = (e_rand env (w_rand w), w\<lparr>w_rand := Suc (w_rand w)\<rparr>)"

text \<open>\<open>rand() % n\<close> as a double.\<close>

definition rand_mod :: "nat \<Rightarrow> nat \<Rightarrow> dbl" where
  "rand_mod r n = Fin (of_nat (r mod n))"

subsection \<open>Modifiers\<close>

definition Get_AdditionalDamagePrecentage :: "cevent \<Rightarrow> dbl" where
  "Get_AdditionalDamagePrecentage e =
     d_sub (foldl (\<lambda>r x. d_mul r (d_add (Fin 1) x)) (Fin 1)
              (take 15 (ev_AdditionalDamagePrecentage e))) (Fin 1)"

definition Get_AdditionalDamagePrecentageSpecial :: "cevent \<Rightarrow> dbl" where
  "Get_AdditionalDamagePrecentageSpecial e = ev_AdditionalDamagePrecentage e ! 15"

definition AddDamagePrecentage :: "bool \<Rightarrow> dbl \<Rightarrow> u32 \<Rightarrow> cevent \<Rightarrow> cevent res" where
  "AddDamagePrecentage dbg x iIndex e =
     (if \<not> iIndex < 16 then Inl (if dbg then AssertFail else OutOfBounds)
      else let i = unat iIndex; a = ev_AdditionalDamagePrecentage e in
        Inr (e\<lparr>ev_AdditionalDamagePrecentage :=
          (if iIndex < 8 then a[i := d_add (a ! i) x]
           else a[i := d_sub (d_mul (d_add (Fin 1) (a ! i)) (d_add (Fin 1) x)) (Fin 1)])\<rparr>))"

definition AddDamage :: "i32 \<Rightarrow> cevent \<Rightarrow> cevent res" where
  "AddDamage x e = bindR (i32_add (ev_AdditionalDamage e) x)
     (\<lambda>t. Inr (e\<lparr>ev_AdditionalDamage := t\<rparr>))"

definition AddCritRaiting :: "i32 \<Rightarrow> cevent \<Rightarrow> cevent res" where
  "AddCritRaiting x e = bindR (i32_add (ev_AdditionalCritRaiting e) x)
     (\<lambda>t. Inr (e\<lparr>ev_AdditionalCritRaiting := t\<rparr>))"

definition AddHasteRaiting :: "i32 \<Rightarrow> cevent \<Rightarrow> cevent res" where
  "AddHasteRaiting x e = bindR (i32_add (ev_AdditionalHasteRaiting e) x)
     (\<lambda>t. Inr (e\<lparr>ev_AdditionalHasteRaiting := t\<rparr>))"

definition AddHitRaiting :: "i32 \<Rightarrow> cevent \<Rightarrow> cevent res" where
  "AddHitRaiting x e = bindR (i32_add (ev_AdditionalHitRaiting e) x)
     (\<lambda>t. Inr (e\<lparr>ev_AdditionalHitRaiting := t\<rparr>))"

definition AddCastTime :: "i32 \<Rightarrow> cevent \<Rightarrow> cevent res" where
  "AddCastTime x e = bindR (i32_add (ev_AdditionalCastTime e) x)
     (\<lambda>t. Inr (e\<lparr>ev_AdditionalCastTime := t\<rparr>))"

definition AddCooldown :: "i32 \<Rightarrow> cevent \<Rightarrow> cevent res" where
  "AddCooldown x e = bindR (i32_add (ev_AdditionalCooldown e) x)
     (\<lambda>t. Inr (e\<lparr>ev_AdditionalCooldown := t\<rparr>))"

subsection \<open>\<open>CEvent\<close>: chances and cast time\<close>

text \<open>The signed modifiers are handed to an unsigned parameter as they are.\<close>

definition CEvent_Get_CritChance :: "cevent \<Rightarrow> 'l world \<Rightarrow> dbl res" where
  "CEvent_Get_CritChance e w =
     bindR (get_player w) (\<lambda>p.
     bindR (Get_CritPrecentage p) (\<lambda>c.
       Inr (d_add c (RatingToPrecentage (ev_AdditionalCritRaiting e) PP_CRIT_PRECENTAGE))))"

definition CEvent_Get_HitChance :: "cevent \<Rightarrow> 'l world \<Rightarrow> dbl res" where
  "CEvent_Get_HitChance e w =
     bindR (get_player w) (\<lambda>p.
     bindR (Get_HitPrecentage p) (\<lambda>h.
       let ideal = d_add h (RatingToPrecentage (ev_AdditionalHitRaiting e) PP_HIT_PRECENTAGE)
       in Inr (if d_less (Fin 1) ideal then Fin 1 else ideal)))"

definition GetCastTimeWithHaste :: "u32 \<Rightarrow> cevent \<Rightarrow> 'l world \<Rightarrow> u32 res" where
  "GetCastTimeWithHaste iOriginalTime e w =
     bindR (get_player w) (\<lambda>p.
     bindR (Get_HastePrecentage p) (\<lambda>h.
       let haste = d_add h (RatingToPrecentage (ev_AdditionalHasteRaiting e) PP_HASTE_PRECENTAGE)
       in dbl_to_u32 (d_div (d_div (u32_to_dbl iOriginalTime) (d_add (Fin 1) haste))
                            (d_add (Fin 1) (ev_AdditionalHastePrecentage e)))))"

subsection \<open>The damage of a hit\<close>

text \<open>\<open>DamageMin += x\<close> and \<open>DamageMin *= x\<close> for a \<open>uint32\<close> and a \<open>double\<close>.\<close>

definition u32_add_dbl :: "u32 \<Rightarrow> dbl \<Rightarrow> u32 res" where
  "u32_add_dbl n x = dbl_to_u32 (d_add (u32_to_dbl n) x)"

definition u32_mul_dbl :: "u32 \<Rightarrow> dbl \<Rightarrow> u32 res" where
  "u32_mul_dbl n x = dbl_to_u32 (d_mul (u32_to_dbl n) x)"

text \<open>The steps both kinds of damage end with: the collected percentage, the flat bonus, the
  special percentage, and a uniform roll between the two bounds.\<close>

definition modify_bound :: "cevent \<Rightarrow> u32 \<Rightarrow> u32 res" where
  "modify_bound e n =
     bindR (u32_mul_dbl n (d_add (Fin 1) (Get_AdditionalDamagePrecentage e))) (\<lambda>n.
     u32_mul_dbl (n + ev_AdditionalDamage e)
       (d_add (Fin 1) (Get_AdditionalDamagePrecentageSpecial e)))"

definition roll_damage :: "nat \<Rightarrow> u32 \<Rightarrow> u32 \<Rightarrow> u32 res" where
  "roll_damage r DamageMin DamageMax =
     dbl_to_u32 (d_add (u32_to_dbl DamageMin)
       (d_mul (u32_to_dbl (DamageMax - DamageMin)) (d_div (rand_mod r 1001) (Fin 1000))))"

definition Spell_Get_Damage ::
  "'l env \<Rightarrow> cevent \<Rightarrow> spell_part \<Rightarrow> 'l world \<Rightarrow> (u32 \<times> 'l world) res" where
  "Spell_Get_Damage env e sp w =
   bindR (get_spell (se_pSpell sp) w) (\<lambda>s.
   if \<not> has_bits (m_SpellType s) SPELL_DAMAGE \<and> \<not> has_bits (m_SpellType s) SPELL_CHANNEL
   then Inr (0, w)
   else if se_CalculatedDamage sp \<noteq> 0 then Inr (se_CalculatedDamage sp, w)
   else
     let f0 = d_div (d_div (u32_to_dbl (max (m_SpellCastTime s) 1500)) (Fin 1000)) (rnd (7 / 2));
         f1 = (if \<not> d_eq (m_SPPrecentage s) (Fin 0) then m_SPPrecentage s else f0);
         f2 = (if m_iDamageMax s = 0 then Fin 0 else f1);
         f3 = (if has_bits (m_SpellType s) SPELL_CHANNEL
               then d_div f2 (u32_to_dbl (m_ChannelTicks s)) else f2)
     in bindR (get_player w) (\<lambda>p.
        bindR (stat_Get (p_SpellPower p)) (\<lambda>power.
        bindR (u32_add_dbl (m_iDamageMin s) (d_mul (u32_to_dbl power) f3)) (\<lambda>lo.
        bindR (u32_add_dbl (m_iDamageMax s) (d_mul (u32_to_dbl power) f3)) (\<lambda>hi.
        bindR (modify_bound e lo) (\<lambda>lo.
        bindR (modify_bound e hi) (\<lambda>hi.
        case c_rand env w of (r, w) \<Rightarrow>
        bindR (roll_damage r lo hi) (\<lambda>d. Inr (d, w)))))))))"

definition Aura_Get_Damage ::
  "'l env \<Rightarrow> cevent \<Rightarrow> aura_part \<Rightarrow> 'l world \<Rightarrow> (u32 \<times> 'l world) res" where
  "Aura_Get_Damage env e ae w =
   bindR (get_aura (ae_pAura ae) w) (\<lambda>a.
   if \<not> m_bIsPeriodic a then Inr (0, w)
   else
   bindR (of_opt UninitRead (ae_CalculatedDamage ae)) (\<lambda>cd.
   if cd \<noteq> 0 then Inr (cd, w)
   else
   bindR (of_opt UninitRead (m_iPeriodicDamageMin a)) (\<lambda>dmin.
   bindR (of_opt UninitRead (m_iPeriodicDamageMax a)) (\<lambda>dmax.
   bindR (of_opt UninitRead (m_dSpellPowerFactorPreTick a)) (\<lambda>f0.
   bindR (if d_eq f0 (Fin 0) then
            bindR (of_opt UninitRead (ae_pSpell ae)) (\<lambda>ps.
            bindR (of_opt NullDeref ps) (\<lambda>ps.
            bindR (get_spell ps w) (\<lambda>s.
            bindR (of_opt UninitRead (m_iPeriodicEventTime a)) (\<lambda>period.
            if period = 0 then Inl DivByZero
            else Inr (d_div (d_div (u32_to_dbl (m_iAuraFadeTime s)) (Fin 15000))
                            (u32_to_dbl (m_iAuraFadeTime s div period)))))))
          else Inr f0) (\<lambda>factor.
   bindR (of_opt UninitRead (m_iAuraID a)) (\<lambda>i.
   bindR (unit_GetAuraByID (ev_theTarget e) i w) (\<lambda>pt.
   bindR (get_player w) (\<lambda>p.
   bindR (case pt of
            None \<Rightarrow> stat_Get (p_SpellPower p)
          | Some q \<Rightarrow> bindR (get_aura q w) (\<lambda>ta.
              bindR (of_opt UninitRead (m_iSpellPower ta)) (\<lambda>n.
                if n \<noteq> 0 then Inr n else stat_Get (p_SpellPower p)))) (\<lambda>power.
   bindR (u32_add_dbl dmin (d_mul factor (u32_to_dbl power))) (\<lambda>lo.
   bindR (u32_add_dbl dmax (d_mul factor (u32_to_dbl power))) (\<lambda>hi.
   bindR (modify_bound e lo) (\<lambda>lo.
   bindR (modify_bound e hi) (\<lambda>hi.
   case c_rand env w of (r, w) \<Rightarrow>
   bindR (roll_damage r lo hi) (\<lambda>d. Inr (d, w))))))))))))))))"

subsection \<open>The virtual members\<close>

definition Aura_Get_CritChance :: "cevent \<Rightarrow> aura_part \<Rightarrow> 'l world \<Rightarrow> dbl res" where
  "Aura_Get_CritChance e ae w =
   bindR (get_aura (ae_pAura ae) w) (\<lambda>a.
   bindR (of_opt UninitRead (m_bCritEnabled a)) (\<lambda>ce.
   if \<not> ce then
     (if ev_EventType e AND EVENT_POST \<noteq> 0 then
        bindR (of_opt UninitRead (ae_crit ae)) (\<lambda>c. Inr (if c then Fin 1 else Fin 0))
      else CEvent_Get_CritChance e w)
   else Inr (Fin 0)))"

definition Spell_Get_CritChance :: "cevent \<Rightarrow> spell_part \<Rightarrow> 'l world \<Rightarrow> dbl res" where
  "Spell_Get_CritChance e sp w =
   (if has_bits (ev_EventType e) EVENT_POST then Inr (if se_crit sp then Fin 1 else Fin 0)
    else CEvent_Get_CritChance e w)"

definition Spell_Get_HitChance :: "cevent \<Rightarrow> spell_part \<Rightarrow> 'l world \<Rightarrow> dbl res" where
  "Spell_Get_HitChance e sp w =
   (if has_bits (ev_EventType e) EVENT_POST then
      bindR (of_opt UninitRead (se_hit sp)) (\<lambda>h. Inr (if h then Fin 1 else Fin 0))
    else CEvent_Get_HitChance e w)"

definition Aura_Get_HitChance :: "dbl res" where
  "Aura_Get_HitChance = Inr (Fin 1)"

definition Spell_GetCastTime :: "cevent \<Rightarrow> spell_part \<Rightarrow> 'l world \<Rightarrow> dbl res" where
  "Spell_GetCastTime e sp w =
   bindR (get_spell (se_pSpell sp) w) (\<lambda>s.
   bindR (GetCastTimeWithHaste (m_SpellCastTime s) e w) (\<lambda>t.
     Inr (u32_to_dbl (t + ev_AdditionalCastTime e))))"

definition Aura_GetCastTime :: "cevent \<Rightarrow> aura_part \<Rightarrow> 'l world \<Rightarrow> dbl res" where
  "Aura_GetCastTime e ae w =
   bindR (get_aura (ae_pAura ae) w) (\<lambda>a.
   bindR (of_opt UninitRead (m_bHasteEnabled a)) (\<lambda>he.
   bindR (of_opt UninitRead (m_iPeriodicEventTime a)) (\<lambda>period.
     if \<not> he then Inr (u32_to_dbl period)
     else bindR (GetCastTimeWithHaste period e w) (\<lambda>t. Inr (u32_to_dbl t)))))"

definition ev_Get_CritChance :: "cevent \<Rightarrow> 'l world \<Rightarrow> dbl res" where
  "ev_Get_CritChance e w = (case ev_part e of
     SpellPart sp \<Rightarrow> Spell_Get_CritChance e sp w | AuraPart ae \<Rightarrow> Aura_Get_CritChance e ae w)"

definition ev_Get_HitChance :: "cevent \<Rightarrow> 'l world \<Rightarrow> dbl res" where
  "ev_Get_HitChance e w = (case ev_part e of
     SpellPart sp \<Rightarrow> Spell_Get_HitChance e sp w | AuraPart ae \<Rightarrow> Aura_Get_HitChance)"

definition ev_GetCastTime :: "cevent \<Rightarrow> 'l world \<Rightarrow> dbl res" where
  "ev_GetCastTime e w = (case ev_part e of
     SpellPart sp \<Rightarrow> Spell_GetCastTime e sp w | AuraPart ae \<Rightarrow> Aura_GetCastTime e ae w)"

definition ev_Get_Damage :: "'l env \<Rightarrow> cevent \<Rightarrow> 'l world \<Rightarrow> (u32 \<times> 'l world) res" where
  "ev_Get_Damage env e w = (case ev_part e of
     SpellPart sp \<Rightarrow> Spell_Get_Damage env e sp w | AuraPart ae \<Rightarrow> Aura_Get_Damage env e ae w)"

end
