(* ===== verification/Sim_Api.thy ===== *)
theory Sim_Api
  imports Sim_Event
begin

text \<open>
  \<open>LuaIntergration.cpp\<close>: the functions the scripts call. Each takes the arguments on the
  Lua stack and ends by returning values or raising a Lua error; the argument macros of
  \<open>LuaIntergration.h\<close> raise before anything else happens. A script that an engine hook
  runs can touch the world only through these functions.
\<close>

type_synonym 'l api = "'l world \<Rightarrow> (lres \<times> 'l world) res"

definition raise_error :: "string \<Rightarrow> 'l api" where
  "raise_error msg w = Inr (LError msg, w)"

definition return_vals :: "lval list \<Rightarrow> 'l api" where
  "return_vals vs w = Inr (LReturn vs, w)"

subsection \<open>Arguments: \<open>lua_is...\<close>, \<open>lua_to...\<close> and the \<open>LUA_TO_...\<close> macros\<close>

definition arg :: "nat \<Rightarrow> lval list \<Rightarrow> lval option" where
  "arg i args = (if 0 < i \<and> i \<le> length args then Some (args ! (i - 1)) else None)"

definition lua_tonumber :: "'l env \<Rightarrow> lval option \<Rightarrow> dbl option" where
  "lua_tonumber env v = (case v of
     Some (LNum d) \<Rightarrow> Some d | Some (LStr s) \<Rightarrow> e_str2number env s | _ \<Rightarrow> None)"

definition lua_isnumber :: "'l env \<Rightarrow> lval option \<Rightarrow> bool" where
  "lua_isnumber env v \<longleftrightarrow> lua_tonumber env v \<noteq> None"

definition lua_tostring :: "'l env \<Rightarrow> lval option \<Rightarrow> string option" where
  "lua_tostring env v = (case v of
     Some (LStr s) \<Rightarrow> Some s | Some (LNum d) \<Rightarrow> Some (e_number2str env d) | _ \<Rightarrow> None)"

definition digits :: "nat \<Rightarrow> string" where
  "digits i = (if i < 10 then [char_of (48 + i)] else [char_of (48 + i div 10), char_of (48 + i mod 10)])"

definition LUA_TO_STRING :: "'l env \<Rightarrow> lval list \<Rightarrow> nat \<Rightarrow> (string \<Rightarrow> 'l api) \<Rightarrow> 'l api" where
  "LUA_TO_STRING env args i k = (case lua_tostring env (arg i args) of
     None \<Rightarrow> raise_error (''Error parameter #'' @ digits i @ '', string expected'')
   | Some s \<Rightarrow> k s)"

definition LUA_TO_NUMBER :: "'l env \<Rightarrow> lval list \<Rightarrow> nat \<Rightarrow> (dbl \<Rightarrow> 'l api) \<Rightarrow> 'l api" where
  "LUA_TO_NUMBER env args i k = (case lua_tonumber env (arg i args) of
     None \<Rightarrow> raise_error (''Error parameter #'' @ digits i @ '', number expected'')
   | Some d \<Rightarrow> k d)"

definition LUA_TO_INTEGER :: "'l env \<Rightarrow> lval list \<Rightarrow> nat \<Rightarrow> (u32 \<Rightarrow> 'l api) \<Rightarrow> 'l api" where
  "LUA_TO_INTEGER env args i k = (case lua_tonumber env (arg i args) of
     None \<Rightarrow> raise_error (''Error parameter #'' @ digits i @ '', integer expected'')
   | Some d \<Rightarrow> k (word_of_int (e_number2integer env d)))"

definition LUA_TO_BOOLEAN :: "'l env \<Rightarrow> lval list \<Rightarrow> nat \<Rightarrow> (bool \<Rightarrow> 'l api) \<Rightarrow> 'l api" where
  "LUA_TO_BOOLEAN env args i k = (case arg i args of
     None \<Rightarrow> k False | Some LNil \<Rightarrow> k False | Some (LBool b) \<Rightarrow> k b
   | _ \<Rightarrow> raise_error (''Error parameter#'' @ digits i @ '', boolean expected''))"

definition push_u32 :: "u32 \<Rightarrow> lval" where
  "push_u32 n = LNum (u32_to_dbl n)"

subsection \<open>Auras\<close>

definition L_AuraAdd :: "'l env \<Rightarrow> lval list \<Rightarrow> 'l api" where
  "L_AuraAdd env args =
   LUA_TO_STRING env args 1 (\<lambda>AuraName.
   LUA_TO_BOOLEAN env args 2 (\<lambda>isPeriodic.
   let add = (\<lambda>m w.
         bindR m (\<lambda>(a, guid).
         case new_aura a (w\<lparr>w_iGUIDCounter := guid\<rparr>) of (p, w) \<Rightarrow>
         bindR (Sim_Aura.AddAura p (w_AuraDB w, w_auras w)) (\<lambda>(n, db, h).
           return_vals [push_u32 n] (w\<lparr>w_AuraDB := db, w_auras := h\<rparr>))))
   in if isPeriodic then
        LUA_TO_INTEGER env args 3 (\<lambda>PeriodicDamageMin.
        LUA_TO_INTEGER env args 4 (\<lambda>PeriodicDamageMax.
        LUA_TO_INTEGER env args 5 (\<lambda>PeriodicEventTime.
        LUA_TO_INTEGER env args 6 (\<lambda>spellSchool. \<lambda>w.
          add (CAura_new AuraName 1 True PeriodicDamageMin PeriodicDamageMax spellSchool
                 False False PeriodicEventTime (w_iGUIDCounter w)) w))))
      else (\<lambda>w. add (CAura_new AuraName 1 False 0 0 0 False False 0 (w_iGUIDCounter w)) w)))"

definition L_AuraNameToID :: "'l env \<Rightarrow> lval list \<Rightarrow> 'l api" where
  "L_AuraNameToID env args =
   LUA_TO_STRING env args 1 (\<lambda>AuraName. \<lambda>w.
   bindR (GetAuraByName (w_AuraDB w) (w_auras w) AuraName) (\<lambda>r. case r of
     None \<Rightarrow> return_vals [LNil] w
   | Some p \<Rightarrow> bindR (get_aura p w) (\<lambda>a.
       bindR (of_opt UninitRead (m_iAuraID a)) (\<lambda>i. return_vals [push_u32 i] w))))"

definition L_AuraIDToName :: "'l env \<Rightarrow> lval list \<Rightarrow> 'l api" where
  "L_AuraIDToName env args =
   LUA_TO_INTEGER env args 1 (\<lambda>AuraID. \<lambda>w.
   case GetAuraByID (w_AuraDB w) AuraID of
     None \<Rightarrow> return_vals [LNil] w
   | Some p \<Rightarrow> bindR (get_aura p w) (\<lambda>a. return_vals [LStr (m_strAuraName a)] w))"

text \<open>The four switches and the per-tick factor share the lookup and the error.\<close>

definition update_db_aura :: "u32 \<Rightarrow> (aura \<Rightarrow> aura) \<Rightarrow> 'l api" where
  "update_db_aura AuraID f w = (case GetAuraByID (w_AuraDB w) AuraID of
     None \<Rightarrow> raise_error ''Aura not found'' w
   | Some p \<Rightarrow> bindR (get_aura p w) (\<lambda>a. return_vals [] (set_aura p (f a) w)))"

definition L_AuraEnableCrit :: "'l env \<Rightarrow> lval list \<Rightarrow> 'l api" where
  "L_AuraEnableCrit env args = LUA_TO_INTEGER env args 1 (\<lambda>AuraID.
     update_db_aura AuraID (\<lambda>a. a\<lparr>m_bCritEnabled := Some True\<rparr>))"

definition L_AuraDisableCrit :: "'l env \<Rightarrow> lval list \<Rightarrow> 'l api" where
  "L_AuraDisableCrit env args = LUA_TO_INTEGER env args 1 (\<lambda>AuraID.
     update_db_aura AuraID (\<lambda>a. a\<lparr>m_bCritEnabled := Some False\<rparr>))"

definition L_AuraEnableHaste :: "'l env \<Rightarrow> lval list \<Rightarrow> 'l api" where
  "L_AuraEnableHaste env args = LUA_TO_INTEGER env args 1 (\<lambda>AuraID.
     update_db_aura AuraID (\<lambda>a. a\<lparr>m_bHasteEnabled := Some True\<rparr>))"

definition L_AuraDisableHaste :: "'l env \<Rightarrow> lval list \<Rightarrow> 'l api" where
  "L_AuraDisableHaste env args = LUA_TO_INTEGER env args 1 (\<lambda>AuraID.
     update_db_aura AuraID (\<lambda>a. a\<lparr>m_bHasteEnabled := Some False\<rparr>))"

definition L_AuraGetSchool :: "'l env \<Rightarrow> lval list \<Rightarrow> 'l api" where
  "L_AuraGetSchool env args = LUA_TO_INTEGER env args 1 (\<lambda>AuraID. \<lambda>w.
   case GetAuraByID (w_AuraDB w) AuraID of
     None \<Rightarrow> return_vals [LNil] w
   | Some p \<Rightarrow> bindR (get_aura p w) (\<lambda>a.
       bindR (of_opt UninitRead (m_iAuraSchool a)) (\<lambda>s. return_vals [push_u32 s] w)))"

definition L_AuraSetSPPrecentagePreTick :: "'l env \<Rightarrow> lval list \<Rightarrow> 'l api" where
  "L_AuraSetSPPrecentagePreTick env args =
   LUA_TO_INTEGER env args 1 (\<lambda>AuraID.
   LUA_TO_NUMBER env args 2 (\<lambda>dPrecentage.
     update_db_aura AuraID (\<lambda>a. a\<lparr>m_dSpellPowerFactorPreTick := Some dPrecentage\<rparr>)))"

subsection \<open>The current event\<close>

text \<open>Adding to a statistic of the current event. \<open>None\<close> stands for the return value
  \<open>false\<close>: an unknown statistic. Haste percentages are accepted and change nothing.\<close>

definition EventStats_add ::
  "bool \<Rightarrow> u32 \<Rightarrow> dbl \<Rightarrow> u32 \<Rightarrow> player option \<Rightarrow> cevent \<Rightarrow> cevent option res" where
  "EventStats_add dbg iStatsType Value iIndex CurrentPlayer e =
   (let rating = (\<lambda>ty. bindR (of_opt NullDeref CurrentPlayer) (\<lambda>_. PrecentageToRating Value ty));
        via = (\<lambda>conv f. bindR conv (\<lambda>x. bindR (f x e) (\<lambda>e'. Inr (Some e'))))
    in if iStatsType = CS_DAMAGE then via (dbl_to_i32 Value) AddDamage
       else if iStatsType = CS_DAMAGE_PRECENTAGE then
         bindR (AddDamagePrecentage dbg Value iIndex e) (\<lambda>e'. Inr (Some e'))
       else if iStatsType = CS_CRIT_PRECENTAGE then
         via (rating PP_CRIT_PRECENTAGE) AddCritRaiting
       else if iStatsType = CS_HIT_PRECENTAGE then
         via (rating PP_HIT_PRECENTAGE) AddHitRaiting
       else if iStatsType = CS_CRIT_RATING then via (dbl_to_i32 Value) AddCritRaiting
       else if iStatsType = CS_HIT_RATING then via (dbl_to_i32 Value) AddHitRaiting
       else if iStatsType = CS_HASTE_RATING then via (dbl_to_i32 Value) AddHasteRaiting
       else if iStatsType = CS_CAST_TIME then via (dbl_to_i32 Value) AddCastTime
       else if iStatsType = CS_COOLDOWN then via (dbl_to_i32 Value) AddCooldown
       else if iStatsType = CS_HASTE_PRECENTAGE then Inr (Some e)
       else Inr None)"

definition EventStats_get ::
  "'l env \<Rightarrow> u32 \<Rightarrow> cevent \<Rightarrow> 'l world \<Rightarrow> (dbl option \<times> 'l world) res" where
  "EventStats_get env iStatsType e w =
   (if iStatsType = CS_DAMAGE then
      bindR (ev_Get_Damage env e w) (\<lambda>(d, w). Inr (Some (u32_to_dbl d), w))
    else if iStatsType = CS_CRIT_PRECENTAGE then
      bindR (ev_Get_CritChance e w) (\<lambda>d. Inr (Some d, w))
    else if iStatsType = CS_HIT_PRECENTAGE then
      bindR (ev_Get_HitChance e w) (\<lambda>d. Inr (Some d, w))
    else if iStatsType = CS_CAST_TIME then
      bindR (ev_GetCastTime e w) (\<lambda>d. Inr (Some d, w))
    else Inr (None, w))"

definition L_EventAddStats :: "'l env \<Rightarrow> lval list \<Rightarrow> 'l api" where
  "L_EventAddStats env args =
   LUA_TO_INTEGER env args 1 (\<lambda>iStats.
   LUA_TO_NUMBER env args 2 (\<lambda>dValue.
   let iIndex = (case lua_tonumber env (arg 3 args) of
                   None \<Rightarrow> 0 | Some d \<Rightarrow> word_of_int (e_number2integer env d))
   in if lua_isnumber env (arg 3 args) \<and> 16 \<le> iIndex then raise_error ''Invaild Index''
      else (\<lambda>w. case w_CurrentEvent w of
        None \<Rightarrow> raise_error ''Not in a event'' w
      | Some p \<Rightarrow>
          bindR (get_event p w) (\<lambda>e.
          bindR (EventStats_add (e_debug env) iStats dValue iIndex (w_CurrentPlayer w) e) (\<lambda>r. case r of
            None \<Rightarrow> raise_error ''Invaild param #1, COMBAT_STATS expected'' w
          | Some e' \<Rightarrow> return_vals [] (set_event p e' w))))))"

definition L_EventGetStats :: "'l env \<Rightarrow> lval list \<Rightarrow> 'l api" where
  "L_EventGetStats env args =
   LUA_TO_INTEGER env args 1 (\<lambda>iStats. \<lambda>w.
   case w_CurrentEvent w of
     None \<Rightarrow> raise_error ''Not in a event'' w
   | Some p \<Rightarrow>
       bindR (get_event p w) (\<lambda>e.
       bindR (EventStats_get env iStats e w) (\<lambda>(r, w). case r of
         None \<Rightarrow> raise_error ''Invaild param #1, COMBAT_STATS expected'' w
       | Some d \<Rightarrow> return_vals [LNum d] w)))"

subsection \<open>Spells\<close>

definition L_SpellAdd :: "'l env \<Rightarrow> lval list \<Rightarrow> 'l api" where
  "L_SpellAdd env args =
   LUA_TO_STRING env args 1 (\<lambda>spellName.
   LUA_TO_INTEGER env args 2 (\<lambda>spellType.
   LUA_TO_INTEGER env args 3 (\<lambda>castTime.
   LUA_TO_INTEGER env args 4 (\<lambda>cooldownTime.
   let finish = (\<lambda>(school, dmin, dmax, pAura, fade, ticks). \<lambda>w.
         bindR (CSpell_new spellName spellType dmin dmax castTime cooldownTime school pAura fade ticks)
           (\<lambda>s. case new_spell s w of (p, w) \<Rightarrow>
            bindR (AddSpell p (w_SpellDB w, w_spells w)) (\<lambda>(n, db, h).
              return_vals [push_u32 n] (w\<lparr>w_SpellDB := db, w_spells := h\<rparr>))));
       channel = (\<lambda>(school, dmin, dmax, pAura, fade).
         if spellType OR SPELL_CHANNEL = spellType then
           LUA_TO_INTEGER env args 5 (\<lambda>school.
           LUA_TO_INTEGER env args 6 (\<lambda>dmin.
           LUA_TO_INTEGER env args 7 (\<lambda>dmax.
           LUA_TO_INTEGER env args 10 (\<lambda>ticks.
             finish (school, dmin, dmax, pAura, fade, ticks)))))
         else finish (school, dmin, dmax, pAura, fade, 0));
       aura = (\<lambda>(school, dmin, dmax).
         if spellType OR SPELL_AURA_APPLICATION = spellType then
           LUA_TO_INTEGER env args 5 (\<lambda>school.
           LUA_TO_INTEGER env args 8 (\<lambda>auraToApply.
           LUA_TO_INTEGER env args 9 (\<lambda>auraFadeTime. \<lambda>w.
             case GetAuraByID (w_AuraDB w) auraToApply of
               None \<Rightarrow> raise_error ''Invaild aura id'' w
             | Some p \<Rightarrow> channel (school, dmin, dmax, Some p, auraFadeTime) w)))
         else channel (school, dmin, dmax, None, 0))
   in if spellType OR SPELL_DAMAGE = spellType then
        LUA_TO_INTEGER env args 5 (\<lambda>school.
        LUA_TO_INTEGER env args 6 (\<lambda>dmin.
        LUA_TO_INTEGER env args 7 (\<lambda>dmax. aura (school, dmin, dmax))))
      else aura (0, 0, 0)))))"

definition L_SpellNameToID :: "'l env \<Rightarrow> lval list \<Rightarrow> 'l api" where
  "L_SpellNameToID env args =
   LUA_TO_STRING env args 1 (\<lambda>SpellName. \<lambda>w.
   bindR (GetSpellByName (w_SpellDB w) (w_spells w) SpellName) (\<lambda>r. case r of
     None \<Rightarrow> return_vals [LNil] w
   | Some p \<Rightarrow> bindR (get_spell p w) (\<lambda>s.
       bindR (of_opt UninitRead (m_iSpellID s)) (\<lambda>i. return_vals [push_u32 i] w))))"

text \<open>The three accessors of a spell by number.\<close>

definition spell_field :: "'l env \<Rightarrow> (spell \<Rightarrow> lval) \<Rightarrow> lval list \<Rightarrow> 'l api" where
  "spell_field env f args = LUA_TO_INTEGER env args 1 (\<lambda>SpellID. \<lambda>w.
   case GetSpellByID (w_SpellDB w) SpellID of
     None \<Rightarrow> return_vals [LNil] w
   | Some p \<Rightarrow> bindR (get_spell p w) (\<lambda>s. return_vals [f s] w))"

definition L_SpellIDToName :: "'l env \<Rightarrow> lval list \<Rightarrow> 'l api" where
  "L_SpellIDToName env args = spell_field env (\<lambda>s. LStr (m_SpellName s)) args"

definition L_SpellGetCooldown :: "'l env \<Rightarrow> lval list \<Rightarrow> 'l api" where
  "L_SpellGetCooldown env args = spell_field env (\<lambda>s. push_u32 (m_SpellCooldown s)) args"

definition L_SpellGetSchool :: "'l env \<Rightarrow> lval list \<Rightarrow> 'l api" where
  "L_SpellGetSchool env args = spell_field env (\<lambda>s. push_u32 (m_iSpellSchool s)) args"

definition L_SpellSetSPPrecentage :: "'l env \<Rightarrow> lval list \<Rightarrow> 'l api" where
  "L_SpellSetSPPrecentage env args =
   LUA_TO_INTEGER env args 1 (\<lambda>SpellID. \<lambda>w.
   case GetSpellByID (w_SpellDB w) SpellID of
     None \<Rightarrow> return_vals [] w
   | Some p \<Rightarrow> LUA_TO_NUMBER env args 2 (\<lambda>x. \<lambda>w. bindR (get_spell p w) (\<lambda>s.
       return_vals [] (w\<lparr>w_spells := (w_spells w)(p \<mapsto> s\<lparr>m_SPPrecentage := x\<rparr>)\<rparr>))) w)"

end
