(* ===== verification/Sim_Api2.thy ===== *)
theory Sim_Api2
  imports Sim_Api
begin

text \<open>
  \<open>LuaIntergration.cpp\<close>, continued: the functions on the player, the units and the event
  queue, the table they are registered in, and the run of a script as the engine calls it.
\<close>

subsection \<open>The player's statistics\<close>

definition stat_param_ok :: "u32 \<Rightarrow> bool" where
  "stat_param_ok e_Type \<longleftrightarrow> \<not> (e_Type \<le> PS_LEVEL \<or> PS_INVAILD_MAX \<le> e_Type)"

text \<open>Which of the six stats a number selects, and how to write it back.\<close>

definition player_stat :: "u32 \<Rightarrow> player \<Rightarrow> stat option" where
  "player_stat e_Type p =
    (if e_Type = PS_CRIT_RAITING then Some (p_CritRating p)
     else if e_Type = PS_HIT_RAITING then Some (p_HitRating p)
     else if e_Type = PS_HASTE_RAITING then Some (p_HasteRating p)
     else if e_Type = PS_SPELL_POWER then Some (p_SpellPower p)
     else if e_Type = PS_INTELLIGENCE then Some (p_Intelligence p)
     else if e_Type = PS_SPIRIT then Some (p_Spirit p)
     else None)"

definition set_player_stat :: "u32 \<Rightarrow> stat \<Rightarrow> player \<Rightarrow> player" where
  "set_player_stat e_Type s p =
    (if e_Type = PS_CRIT_RAITING then p\<lparr>p_CritRating := s\<rparr>
     else if e_Type = PS_HIT_RAITING then p\<lparr>p_HitRating := s\<rparr>
     else if e_Type = PS_HASTE_RAITING then p\<lparr>p_HasteRating := s\<rparr>
     else if e_Type = PS_SPELL_POWER then p\<lparr>p_SpellPower := s\<rparr>
     else if e_Type = PS_INTELLIGENCE then p\<lparr>p_Intelligence := s\<rparr>
     else if e_Type = PS_SPIRIT then p\<lparr>p_Spirit := s\<rparr>
     else p)"

text \<open>The branch the code marks as never reached: an assertion, then an empty error.\<close>

definition unreachable_default :: "'l env \<Rightarrow> 'l api" where
  "unreachable_default env w = (if e_debug env then Inl AssertFail else raise_error '''' w)"

definition L_PlayerAddStats :: "'l env \<Rightarrow> lval list \<Rightarrow> 'l api" where
  "L_PlayerAddStats env args =
   LUA_TO_INTEGER env args 1 (\<lambda>e_Type.
   LUA_TO_NUMBER env args 2 (\<lambda>iStatValue.
   if \<not> stat_param_ok e_Type then raise_error ''Invaild param #1''
   else (\<lambda>w.
     if e_Type = PS_HASTE_PRECENTAGE then
       bindR (get_player w) (\<lambda>p. return_vals [] (set_player (AddHastePrecentage iStatValue p) w))
     else bindR (get_player w) (\<lambda>p. case player_stat e_Type p of
         None \<Rightarrow> unreachable_default env w
       | Some s \<Rightarrow>
           bindR (dbl_to_i32 iStatValue) (\<lambda>x.
           bindR (stat_Add x s) (\<lambda>s'.
             return_vals [] (set_player (set_player_stat e_Type s' p) w)))))))"

definition L_PlayerGetStats :: "'l env \<Rightarrow> lval list \<Rightarrow> 'l api" where
  "L_PlayerGetStats env args =
   LUA_TO_INTEGER env args 1 (\<lambda>e_Type.
   if \<not> stat_param_ok e_Type then raise_error ''Invaild param #1''
   else (\<lambda>w.
     bindR (get_player w) (\<lambda>p.
     if e_Type = PS_HASTE_PRECENTAGE then
       bindR (Get_HastePrecentage p) (\<lambda>h. return_vals [LNum h] w)
     else case player_stat e_Type p of
         None \<Rightarrow> unreachable_default env w
       | Some s \<Rightarrow> bindR (stat_Get s) (\<lambda>n. return_vals [push_u32 n] w))))"

definition L_PlayerAddStatsMultiplier :: "'l env \<Rightarrow> lval list \<Rightarrow> 'l api" where
  "L_PlayerAddStatsMultiplier env args =
   LUA_TO_INTEGER env args 1 (\<lambda>e_Type.
   LUA_TO_NUMBER env args 2 (\<lambda>Value.
   if \<not> stat_param_ok e_Type then raise_error ''Invaild param #1''
   else if e_Type = PS_HASTE_PRECENTAGE then unreachable_default env
   else (\<lambda>w. bindR (get_player w) (\<lambda>p. case player_stat e_Type p of
         None \<Rightarrow> unreachable_default env w
       | Some s \<Rightarrow> return_vals [] (set_player (set_player_stat e_Type (stat_AddMultiplier Value s) p) w)))))"

definition L_PlayerSetStats :: "'l env \<Rightarrow> lval list \<Rightarrow> 'l api" where
  "L_PlayerSetStats env args =
   LUA_TO_INTEGER env args 1 (\<lambda>e_Type.
   LUA_TO_INTEGER env args 2 (\<lambda>iStatValue.
   if \<not> stat_param_ok e_Type then raise_error ''Invaild param #1''
   else if e_Type = PS_HASTE_PRECENTAGE then unreachable_default env
   else (\<lambda>w. bindR (get_player w) (\<lambda>p. case player_stat e_Type p of
         None \<Rightarrow> unreachable_default env w
       | Some s \<Rightarrow> return_vals [] (set_player (set_player_stat e_Type (stat_Set iStatValue s) p) w)))))"

definition percentage_param_ok :: "u32 \<Rightarrow> bool" where
  "percentage_param_ok e_Type \<longleftrightarrow> \<not> (e_Type \<le> PP_INVAILD_MIN \<or> PP_INVAILD_MAX \<le> e_Type)"

definition L_PlayerGetPrecentage :: "'l env \<Rightarrow> lval list \<Rightarrow> 'l api" where
  "L_PlayerGetPrecentage env args =
   LUA_TO_INTEGER env args 1 (\<lambda>e_Type.
   if \<not> percentage_param_ok e_Type then raise_error ''Invaild parameter #1,e_Type expected''
   else (\<lambda>w. case w_CurrentPlayer w of
       None \<Rightarrow> return_vals [LNil] w
     | Some p \<Rightarrow>
         if e_Type = PP_CRIT_PRECENTAGE then
           bindR (Get_CritPrecentage p) (\<lambda>d. return_vals [LNum d] w)
         else if e_Type = PP_HIT_PRECENTAGE then
           bindR (Get_HitPrecentage p) (\<lambda>d. return_vals [LNum d] w)
         else if e_Type = PP_HASTE_PRECENTAGE then
           bindR (Get_HastePrecentage p) (\<lambda>d. return_vals [LNum d] w)
         else unreachable_default env w))"

subsection \<open>The player's spells\<close>

definition L_PlayerGetSpellCastTime :: "'l env \<Rightarrow> lval list \<Rightarrow> 'l api" where
  "L_PlayerGetSpellCastTime env args = LUA_TO_INTEGER env args 1 (\<lambda>SpellID. \<lambda>w.
   case GetSpellByID (w_SpellDB w) SpellID of
     None \<Rightarrow> return_vals [LNil] w
   | Some q \<Rightarrow> bindR (get_player w) (\<lambda>p. bindR (get_spell q w) (\<lambda>s.
       bindR (Get_SpellCastTime s p) (\<lambda>d. return_vals [LNum d] w))))"

definition L_PlayerGetSpellCooldown :: "'l env \<Rightarrow> lval list \<Rightarrow> 'l api" where
  "L_PlayerGetSpellCooldown env args = LUA_TO_INTEGER env args 1 (\<lambda>SpellID. \<lambda>w.
   case GetSpellByID (w_SpellDB w) SpellID of
     None \<Rightarrow> return_vals [LNil] w
   | Some q \<Rightarrow> bindR (get_player w) (\<lambda>p.
       return_vals [push_u32 (Get_SpellCooldown (w_iGameTime w) SpellID p)] w))"

definition L_PlayerSpellIsAvailable :: "'l env \<Rightarrow> lval list \<Rightarrow> 'l api" where
  "L_PlayerSpellIsAvailable env args = LUA_TO_STRING env args 1 (\<lambda>strSpell. \<lambda>w.
   bindR (GetSpellByName (w_SpellDB w) (w_spells w) strSpell) (\<lambda>r. case r of
     None \<Rightarrow> return_vals [LBool False] w
   | Some q \<Rightarrow> bindR (get_player w) (\<lambda>p. bindR (get_spell q w) (\<lambda>s.
       bindR (of_opt UninitRead (m_iSpellID s)) (\<lambda>i.
         return_vals [LBool (IsSpellAvailable (w_iGameTime w) i p)] w)))))"

definition L_PlayerIsIdle :: "lval list \<Rightarrow> 'l api" where
  "L_PlayerIsIdle args = (\<lambda>w. bindR (get_player w) (\<lambda>p.
     return_vals [LBool (IsIdle (w_iGameTime w) p)] w))"

subsection \<open>Units\<close>

definition GetCreatureByName :: "string \<Rightarrow> 'l world \<Rightarrow> cref option res" where
  "GetCreatureByName name w =
    (if c_str name = ''player'' then
       Inr (if w_CurrentPlayer w = None then None else Some PlayerRef)
     else if c_str name = ''target'' then Inr (w_CurrentTarget w)
     else bindR (CreatureDB_GetByName (w_creatures w) (w_CreatureDB w) name)
            (\<lambda>r. Inr (map_option CreatRef r)))"

definition L_TargetCreate :: "'l env \<Rightarrow> lval list \<Rightarrow> 'l api" where
  "L_TargetCreate env args = LUA_TO_STRING env args 1 (\<lambda>name. \<lambda>w.
   bindR (if c_str name = ''player'' \<or> c_str name = ''target'' then Inr True
          else bindR (GetCreatureByName name w) (\<lambda>r. Inr (r \<noteq> None))) (\<lambda>exists.
   if exists then raise_error ''Target already exists'' w
   else bindR (CCreature_new name) (\<lambda>c.
     return_vals [] (w\<lparr>w_next := Suc (w_next w), w_creatures := (w_creatures w)(w_next w \<mapsto> c),
                       w_CreatureDB := AddCreature (w_next w) (w_CreatureDB w)\<rparr>))))"

definition L_TargetDestory :: "'l env \<Rightarrow> lval list \<Rightarrow> 'l api" where
  "L_TargetDestory env args = LUA_TO_STRING env args 1 (\<lambda>name. \<lambda>w.
   bindR (RemoveCreatureByName (w_creatures w) (w_CreatureDB w) name) (\<lambda>(h, v).
     return_vals [] (w\<lparr>w_creatures := h, w_CreatureDB := v\<rparr>)))"

subsection \<open>Casting, auras, time\<close>

definition L_CastSpellByName :: "'l env \<Rightarrow> lval list \<Rightarrow> 'l api" where
  "L_CastSpellByName env args =
   LUA_TO_STRING env args 1 (\<lambda>strSpellName.
   LUA_TO_STRING env args 2 (\<lambda>strTargetName. \<lambda>w.
   bindR (GetSpellByName (w_SpellDB w) (w_spells w) strSpellName) (\<lambda>pSpell.
   bindR (GetCreatureByName strTargetName w) (\<lambda>pTarget.
   bindR (get_player w) (\<lambda>p.
   case (pSpell, pTarget) of
     (Some s, Some t) \<Rightarrow>
       if \<not> IsIdle (w_iGameTime w) p then return_vals [] w
       else (case new_event (CSpellEvent_new s t) w of (q, w) \<Rightarrow> return_vals [] (AddEvent q 0 w))
   | _ \<Rightarrow> return_vals [] w)))))"

definition L_UnitApplyAura :: "'l env \<Rightarrow> lval list \<Rightarrow> 'l api" where
  "L_UnitApplyAura env args =
   LUA_TO_STRING env args 1 (\<lambda>strTargetName.
   LUA_TO_INTEGER env args 2 (\<lambda>auraID.
   let iAddStacks = (case lua_tonumber env (arg 3 args) of
                       None \<Rightarrow> 1 | Some d \<Rightarrow> word_of_int (e_number2integer env d));
       iFadeTime = (case lua_tonumber env (arg 4 args) of
                      None \<Rightarrow> 0 | Some d \<Rightarrow> word_of_int (e_number2integer env d))
   in LUA_TO_BOOLEAN env args 5 (\<lambda>bNotSetFade. \<lambda>w.
   bindR (GetCreatureByName strTargetName w) (\<lambda>r. case r of
     None \<Rightarrow> return_vals [] w
   | Some t \<Rightarrow> (case GetAuraByID (w_AuraDB w) auraID of
       None \<Rightarrow> return_vals [] w
     | Some a \<Rightarrow> (case new_event (CAuraEvent_new a t iAddStacks iFadeTime bNotSetFade) w of
         (q, w) \<Rightarrow> return_vals [] (AddEvent q 0 w)))))))"

definition L_UnitAuraApplied :: "'l env \<Rightarrow> lval list \<Rightarrow> 'l api" where
  "L_UnitAuraApplied env args =
   LUA_TO_STRING env args 1 (\<lambda>UnitID.
   LUA_TO_INTEGER env args 2 (\<lambda>auraID. \<lambda>w.
   bindR (GetCreatureByName UnitID w) (\<lambda>r.
   bindR (case r of None \<Rightarrow> Inr None | Some u \<Rightarrow> unit_GetAuraByID u auraID w) (\<lambda>q. case q of
     None \<Rightarrow> return_vals [LNil, LNil] w
   | Some a \<Rightarrow> bindR (get_aura a w) (\<lambda>a.
       bindR (of_opt UninitRead (m_iFadeTime a)) (\<lambda>f.
         return_vals [push_u32 (m_iTicks a),
                      if f \<noteq> 0 then push_u32 (f - w_iGameTime w) else LNil] w))))))"

definition L_StopCasting :: "lval list \<Rightarrow> 'l api" where
  "L_StopCasting args = (\<lambda>w. case w_CurrentPlayer w of
     None \<Rightarrow> return_vals [] w
   | Some p \<Rightarrow> return_vals [] (set_player (snd (StopCasting p)) w))"

definition L_PlayerSleep :: "'l env \<Rightarrow> lval list \<Rightarrow> 'l api" where
  "L_PlayerSleep env args = LUA_TO_INTEGER env args 1 (\<lambda>iSleepTime. \<lambda>w.
   case w_CurrentPlayer w of
     None \<Rightarrow> return_vals [] w
   | Some p \<Rightarrow> return_vals []
       (if IsIdle (w_iGameTime w) p
        then set_player (Set_GlobalCooldownTime (w_iGameTime w + iSleepTime) p) w else w))"

definition L_PlayerRatingToPrecentage :: "'l env \<Rightarrow> lval list \<Rightarrow> 'l api" where
  "L_PlayerRatingToPrecentage env args =
   LUA_TO_INTEGER env args 2 (\<lambda>iRating.
   LUA_TO_INTEGER env args 1 (\<lambda>e_Type.
   if \<not> percentage_param_ok e_Type then raise_error ''Invaild parameter #1,e_Type expected''
   else (\<lambda>w. case w_CurrentPlayer w of
       None \<Rightarrow> return_vals [LNil] w
     | Some p \<Rightarrow> return_vals [LNum (RatingToPrecentage iRating e_Type)] w)))"

definition L_PlayerPrecentageToRating :: "'l env \<Rightarrow> lval list \<Rightarrow> 'l api" where
  "L_PlayerPrecentageToRating env args =
   LUA_TO_NUMBER env args 2 (\<lambda>dPrecentage.
   LUA_TO_INTEGER env args 1 (\<lambda>e_Type.
   if \<not> percentage_param_ok e_Type then raise_error ''Invaild parameter #1,e_Type expected''
   else (\<lambda>w. case w_CurrentPlayer w of
       None \<Rightarrow> return_vals [LNil] w
     | Some p \<Rightarrow> bindR (PrecentageToRating dPrecentage e_Type) (\<lambda>n. return_vals [push_u32 n] w))))"

definition L_GetGameTime :: "lval list \<Rightarrow> 'l api" where
  "L_GetGameTime args = (\<lambda>w. return_vals [push_u32 (w_iGameTime w)] w)"

definition L_FinalizeCalculation :: "lval list \<Rightarrow> 'l api" where
  "L_FinalizeCalculation args = (\<lambda>w. return_vals [] (ReadyExit w))"

definition L_PlayerSetCritBonus :: "'l env \<Rightarrow> lval list \<Rightarrow> 'l api" where
  "L_PlayerSetCritBonus env args = LUA_TO_NUMBER env args 1 (\<lambda>dCritBonus. \<lambda>w.
   case w_CurrentPlayer w of
     None \<Rightarrow> return_vals [] w
   | Some p \<Rightarrow> return_vals [] (set_player (p\<lparr>p_dCritBonus := dCritBonus\<rparr>) w))"

subsection \<open>The registered functions, and running a script\<close>

text \<open>The table \<open>Lua_Initialize\<close> fills. The routine names stand for the do-nothing
  defaults that a script may replace; any other name is a nil global.\<close>

definition dummy_routines :: "string list" where
  "dummy_routines = [''PlayerIdleRoutine'', ''PreCastingSpellRoutine'', ''PostCastingSpellRoutine'',
     ''PreSpellChannelRoutine'', ''PostSpellChannelRoutine'', ''AuraApplicationRoutine'',
     ''AuraFadeRoutine'', ''PrePeriodicEventRoutine'', ''PostPeriodicEventRoutine'',
     ''OnTestStartRoutine'', ''OnTestFinishRoutine'']"

definition api_table :: "'l env \<Rightarrow> (string \<times> (lval list \<Rightarrow> 'l api)) list" where
  "api_table env = map (\<lambda>n. (n, \<lambda>args. return_vals [])) dummy_routines @
    [(''AuraAdd'', L_AuraAdd env), (''AuraNameToID'', L_AuraNameToID env),
     (''AuraIDToName'', L_AuraIDToName env), (''AuraEnableCrit'', L_AuraEnableCrit env),
     (''AuraEnableHaste'', L_AuraEnableHaste env), (''AuraDisableCrit'', L_AuraDisableCrit env),
     (''AuraDisableHaste'', L_AuraDisableHaste env), (''AuraGetSchool'', L_AuraGetSchool env),
     (''AuraSetSPPrecentagePreTick'', L_AuraSetSPPrecentagePreTick env),
     (''EventAddStats'', L_EventAddStats env), (''EventGetStats'', L_EventGetStats env),
     (''SpellAdd'', L_SpellAdd env), (''SpellNameToID'', L_SpellNameToID env),
     (''SpellIDToName'', L_SpellIDToName env), (''SpellGetCooldown'', L_SpellGetCooldown env),
     (''SpellGetSchool'', L_SpellGetSchool env),
     (''SpellSetSPPrecentage'', L_SpellSetSPPrecentage env),
     (''PlayerRatingToPrecentage'', L_PlayerRatingToPrecentage env),
     (''PlayerPrecentageToRating'', L_PlayerPrecentageToRating env),
     (''PlayerGetSpellCastTime'', L_PlayerGetSpellCastTime env),
     (''PlayerGetSpellCooldown'', L_PlayerGetSpellCooldown env),
     (''PlayerSpellIsAvailable'', L_PlayerSpellIsAvailable env),
     (''PlayerIsIdle'', L_PlayerIsIdle), (''PlayerGetStats'', L_PlayerGetStats env),
     (''PlayerSetStats'', L_PlayerSetStats env),
     (''PlayerAddStatsMultiplier'', L_PlayerAddStatsMultiplier env),
     (''PlayerAddStats'', L_PlayerAddStats env),
     (''PlayerGetPrecentage'', L_PlayerGetPrecentage env), (''PlayerSleep'', L_PlayerSleep env),
     (''PlayerSetCritBonus'', L_PlayerSetCritBonus env), (''StopCasting'', L_StopCasting),
     (''CastSpellByName'', L_CastSpellByName env), (''UnitApplyAura'', L_UnitApplyAura env),
     (''UnitAuraApplied'', L_UnitAuraApplied env), (''TargetCreate'', L_TargetCreate env),
     (''TargetDestory'', L_TargetDestory env), (''GetGameTime'', L_GetGameTime),
     (''FinalizeCalculation'', L_FinalizeCalculation)]"

definition api_call :: "'l env \<Rightarrow> string \<Rightarrow> lval list \<Rightarrow> 'l api" where
  "api_call env f args = (case map_of (api_table env) f of
     None \<Rightarrow> raise_error ''attempt to call a nil value''
   | Some g \<Rightarrow> g args)"

primrec run_prog :: "'l env \<Rightarrow> 'l prog \<Rightarrow> 'l world \<Rightarrow> (bool \<times> 'l world) res" where
  "run_prog env (PDone l) w = Inr (True, w\<lparr>w_lua := l\<rparr>)"
| "run_prog env (PFail l) w = Inr (False, w\<lparr>w_lua := l\<rparr>)"
| "run_prog env (PCall f args k) w =
     bindR (api_call env f args w) (\<lambda>(r, w'). run_prog env (k r) w')"

text \<open>Every use of the interpreter goes through \<open>pLuaState\<close>.\<close>

definition get_lua :: "'l world \<Rightarrow> 'l res" where
  "get_lua w = (case w_pLuaState w of
     LuaNull \<Rightarrow> Inl NullDeref | LuaClosed \<Rightarrow> Inl Dangling | LuaOpen \<Rightarrow> Inr (w_lua w))"

text \<open>A hook is called with its number, or with no argument when the number is zero; an error
  in it is reported by the traceback handler and ends the hook only.\<close>

definition CallLuaFunction :: "'l env \<Rightarrow> string \<Rightarrow> u32 \<Rightarrow> 'l world \<Rightarrow> 'l world res" where
  "CallLuaFunction env strFunctionName nParam w =
     bindR (get_lua w) (\<lambda>l.
     bindR (run_prog env (e_script env strFunctionName
       (if nParam \<noteq> 0 then [LNum (i32_to_dbl nParam)] else []) l) w)
     (\<lambda>(ok, w). Inr w))"

definition RunLuaCode :: "'l env \<Rightarrow> string \<Rightarrow> 'l world \<Rightarrow> (bool \<times> 'l world) res" where
  "RunLuaCode env strCode w =
     (if w_pLuaState w = LuaNull then Inr (False, w)
      else bindR (get_lua w) (\<lambda>l. case e_loadstring env strCode of
        None \<Rightarrow> Inr (False, w)
      | Some f \<Rightarrow> run_prog env (f l) w))"

end
