(* ===== verification/Sim_Actions.thy ===== *)
theory Sim_Actions
  imports Sim_Api2
begin

text \<open>
  \<open>EventSystem.cpp\<close>: what happens when an event comes due. Each handler works on the
  event at address \<open>p\<close> (the code's \<open>this\<close>), whose members a script may change while
  it runs, so they are read again after every hook. The returned bit is the handler's
  \<open>int\<close>: true when the event has come to an end and is to be deleted.
\<close>

subsection \<open>Reporting\<close>

definition ReportDamage :: "bool \<Rightarrow> string \<Rightarrow> u32 \<Rightarrow> u32 \<Rightarrow> bool \<Rightarrow> 'l world \<Rightarrow> 'l world res" where
  "ReportDamage dbg strSpellName iDamage iGameTime isCrit w =
    (if dbg \<and> \<not> iDamage < 20000 then Inl AssertFail
     else if iDamage = 0 then Inr w
     else Inr (w\<lparr>w_iDamageCounter := w_iDamageCounter w + iDamage,
       w_Reporter := map_option (\<lambda>v. v @ [\<lparr>di_iGameTime = iGameTime, di_iDamage = iDamage,
                        di_isCrit = isCrit, di_strSpellName = strSpellName\<rparr>]) (w_Reporter w)\<rparr>))"

text \<open>The damage a hit is reported with: averaged over the critical chance, or doubled on a
  critical hit.\<close>

definition report_hit :: "'l env \<Rightarrow> string \<Rightarrow> u32 \<Rightarrow> bool \<Rightarrow> cevent \<Rightarrow> 'l world \<Rightarrow> 'l world res" where
  "report_hit env name CalculatedDamage crit e w =
   bindR (get_player w) (\<lambda>p.
   bindR (if w_bNormalizeCrit w then
            bindR (CEvent_Get_CritChance e w) (\<lambda>c.
              u32_mul_dbl CalculatedDamage
                (d_add (Fin 1) (d_mul (d_sub (p_dCritBonus p) (Fin 1)) c)))
          else if crit then u32_mul_dbl CalculatedDamage (p_dCritBonus p)
          else Inr CalculatedDamage) (\<lambda>d.
   ReportDamage (e_debug env) name d (w_iGameTime w) crit w))"

subsection \<open>Access to the parts of \<open>this\<close>\<close>

definition get_spell_event :: "addr \<Rightarrow> 'l world \<Rightarrow> (cevent \<times> spell_part) res" where
  "get_spell_event p w = bindR (get_event p w) (\<lambda>e. case ev_part e of
     SpellPart sp \<Rightarrow> Inr (e, sp) | AuraPart ae \<Rightarrow> Inl Dangling)"

definition get_aura_event :: "addr \<Rightarrow> 'l world \<Rightarrow> (cevent \<times> aura_part) res" where
  "get_aura_event p w = bindR (get_event p w) (\<lambda>e. case ev_part e of
     AuraPart ae \<Rightarrow> Inr (e, ae) | SpellPart sp \<Rightarrow> Inl Dangling)"

definition put_spell_part :: "addr \<Rightarrow> (spell_part \<Rightarrow> spell_part) \<Rightarrow> 'l world \<Rightarrow> 'l world res" where
  "put_spell_part p f w = bindR (get_spell_event p w) (\<lambda>(e, sp).
     Inr (set_event p (e\<lparr>ev_part := SpellPart (f sp)\<rparr>) w))"

definition put_aura_part :: "addr \<Rightarrow> (aura_part \<Rightarrow> aura_part) \<Rightarrow> 'l world \<Rightarrow> 'l world res" where
  "put_aura_part p f w = bindR (get_aura_event p w) (\<lambda>(e, ae).
     Inr (set_event p (e\<lparr>ev_part := AuraPart (f ae)\<rparr>) w))"

definition SetApplySpell :: "addr option \<Rightarrow> cevent \<Rightarrow> cevent" where
  "SetApplySpell pSpell e = (case ev_part e of
     AuraPart ae \<Rightarrow> e\<lparr>ev_part := AuraPart (ae\<lparr>ae_pSpell := Some pSpell\<rparr>)\<rparr>
   | SpellPart sp \<Rightarrow> e)"

definition update_player :: "(player \<Rightarrow> player) \<Rightarrow> 'l world \<Rightarrow> 'l world res" where
  "update_player f w = bindR (get_player w) (\<lambda>p. Inr (set_player (f p) w))"

definition Set_CastingSpell :: "addr option \<Rightarrow> player \<Rightarrow> player" where
  "Set_CastingSpell c p = p\<lparr>p_CastingSpell := c\<rparr>"

definition is_cast :: "cevent \<Rightarrow> bool" where
  "is_cast e = has_bits (ev_EventType e) EVENT_SPELL_CAST"

text \<open>\<open>(rand() % 1000) < chance * 1000\<close>.\<close>

definition roll_below :: "'l env \<Rightarrow> dbl \<Rightarrow> 'l world \<Rightarrow> bool \<times> 'l world" where
  "roll_below env chance w = (case c_rand env w of (r, w) \<Rightarrow>
     (d_less (rand_mod r 1000) (d_mul chance (Fin 1000)), w))"

subsection \<open>Casting\<close>

text \<open>The loop that schedules the ticks of a channelled spell: tick \<open>i\<close> of \<open>n\<close> is due
  one unit before its share of the cast time.\<close>

fun channel_ticks :: "addr \<Rightarrow> addr \<Rightarrow> cref \<Rightarrow> dbl \<Rightarrow> u32 \<Rightarrow> nat list \<Rightarrow> 'l world \<Rightarrow> 'l world res" where
  "channel_ticks p pSpell target castTime ticks [] w = Inr w"
| "channel_ticks p pSpell target castTime ticks (i # is) w =
     (let e = (CSpellEvent_new pSpell target)\<lparr>ev_EventType := EVENT_SPELL_CHANNEL OR EVENT_PRE,
                                            ev_Parent := Some p\<rparr>
      in case new_event e w of (q, w) \<Rightarrow>
         bindR (dbl_to_u32 (d_sub (d_mul (d_div castTime (u32_to_dbl ticks)) (Fin (of_nat i))) (Fin 1)))
           (\<lambda>delay. channel_ticks p pSpell target castTime ticks is (AddEvent q delay w)))"

definition Spell_PreAction :: "'l env \<Rightarrow> addr \<Rightarrow> 'l world \<Rightarrow> (bool \<times> 'l world) res" where
  "Spell_PreAction env p w =
   bindR (get_spell_event p w) (\<lambda>(e, sp).
   bindR (get_spell (se_pSpell sp) w) (\<lambda>s.
   bindR (of_opt UninitRead (m_iSpellID s)) (\<lambda>i.
   if is_cast e then
     bindR (CallLuaFunction env ''PreCastingSpellRoutine'' i w) (\<lambda>w.
     bindR (update_player (Set_CastingSpell (Some p)) w) (\<lambda>w.
     bindR (get_player w) (\<lambda>pl.
     bindR (Get_GlobalCooldownTime pl) (\<lambda>g.
     bindR (dbl_to_u32 (d_add (u32_to_dbl (w_iGameTime w)) g)) (\<lambda>gcd.
     bindR (put_spell_part p (\<lambda>sp. sp\<lparr>se_GCDRecovery := Some gcd\<rparr>) w) (\<lambda>w.
     bindR (get_spell_event p w) (\<lambda>(e, sp).
     bindR (get_spell (se_pSpell sp) w) (\<lambda>s.
     if has_bits (m_SpellType s) SPELL_CHANNEL then
       bindR (CEvent_Get_HitChance e w) (\<lambda>h.
       case roll_below env h w of (hit, w) \<Rightarrow>
       bindR (put_spell_part p (\<lambda>sp. sp\<lparr>se_hit := Some hit\<rparr>) w) (\<lambda>w.
       if \<not> hit then
         bindR (update_player (\<lambda>pl. Set_CastingSpell None (Set_GlobalCooldownTime gcd pl)) w)
           (\<lambda>w. Inr (True, w))
       else if m_ChannelTicks s = - 1 then Inl OutOfFuel
       else
         bindR (Spell_GetCastTime e sp w) (\<lambda>ct.
         bindR (channel_ticks p (se_pSpell sp) (ev_theTarget e) ct (m_ChannelTicks s)
                  [1..<Suc (unat (m_ChannelTicks s))] w) (\<lambda>w. Inr (False, w)))))
     else Inr (False, w)))))))))
   else
     bindR (get_player w) (\<lambda>pl.
     if p_CastingSpell pl = ev_Parent e then
       bindR (CallLuaFunction env ''PreSpellChannelRoutine'' i w) (\<lambda>w. Inr (False, w))
     else Inr (False, w)))))"

text \<open>The aura a spell applies: an old one on the player is marked for removal, and an event
  for the new one is added.\<close>

definition spell_apply_aura :: "addr \<Rightarrow> 'l world \<Rightarrow> 'l world res" where
  "spell_apply_aura p w =
   bindR (get_spell_event p w) (\<lambda>(e, sp).
   bindR (get_spell (se_pSpell sp) w) (\<lambda>s.
   bindR (of_opt NullDeref (m_pAuraToApply s)) (\<lambda>pAura.
   bindR (get_aura pAura w) (\<lambda>a.
   bindR (of_opt UninitRead (m_iAuraID a)) (\<lambda>i.
   bindR (unit_GetAuraByID PlayerRef i w) (\<lambda>pt.
   bindR (case pt of
            None \<Rightarrow> Inr w
          | Some q \<Rightarrow> bindR (get_aura q w) (\<lambda>ta.
              let w = set_aura q (ta\<lparr>m_iFadeTime := Some 1\<rparr>) w;
                  ne = SetApplySpell (Some (se_pSpell sp))
                         (CAuraEvent_new_removal pAura (ev_theTarget e) (m_iGUID ta))
              in case new_event ne w of (r, w) \<Rightarrow> Inr (AddEvent r 0 w))) (\<lambda>w.
   let ne = SetApplySpell (Some (se_pSpell sp))
              (CAuraEvent_new pAura (ev_theTarget e) 1 (m_iAuraFadeTime s) False)
   in case new_event ne w of (r, w) \<Rightarrow> Inr (AddEvent r 0 w))))))))"

definition Spell_PostAction :: "'l env \<Rightarrow> addr \<Rightarrow> 'l world \<Rightarrow> 'l world res" where
  "Spell_PostAction env p w =
   bindR (get_spell_event p w) (\<lambda>(e, sp).
   bindR (CEvent_Get_HitChance e w) (\<lambda>h.
   case roll_below env h w of (hit, w) \<Rightarrow>
   bindR (put_spell_part p (\<lambda>sp. sp\<lparr>se_hit := Some hit\<rparr>) w) (\<lambda>w.
   if \<not> hit then
     (if is_cast e then
        bindR (of_opt UninitRead (se_GCDRecovery sp)) (\<lambda>gcd.
        update_player (\<lambda>pl. Set_CastingSpell None (Set_GlobalCooldownTime gcd pl)) w)
      else Inr w)
   else
   bindR (get_spell (se_pSpell sp) w) (\<lambda>s.
   bindR (of_opt UninitRead (m_iSpellID s)) (\<lambda>i.
   bindR (if m_SpellType s AND SPELL_DAMAGE \<noteq> 0 \<or> has_bits (ev_EventType e) EVENT_SPELL_CHANNEL then
            bindR (CEvent_Get_CritChance e w) (\<lambda>c.
            case c_rand env w of (r, w) \<Rightarrow>
            put_spell_part p (\<lambda>sp. sp\<lparr>se_crit := d_le (rand_mod r 1000) (d_mul c (Fin 1000))\<rparr>) w)
          else Inr w) (\<lambda>w.
   bindR (if m_SpellType s AND SPELL_AURA_APPLICATION \<noteq> 0 then spell_apply_aura p w else Inr w) (\<lambda>w.
   bindR (if is_cast e then
            bindR (CallLuaFunction env ''PostCastingSpellRoutine'' i w) (\<lambda>w.
            bindR (get_spell_event p w) (\<lambda>(e, sp).
            bindR (if m_SpellCooldown s \<noteq> 0 then
                     update_player (Set_SpellCooldown i
                       (w_iGameTime w + m_SpellCooldown s + ev_AdditionalCooldown e)) w
                   else Inr w) (\<lambda>w.
            bindR (of_opt UninitRead (se_GCDRecovery sp)) (\<lambda>gcd.
            update_player (\<lambda>pl. Set_CastingSpell None (Set_GlobalCooldownTime gcd pl)) w))))
          else CallLuaFunction env ''PostSpellChannelRoutine'' i w) (\<lambda>w.
   bindR (if \<not> is_cast e \<or> m_SpellType s AND SPELL_CHANNEL = 0 then
            bindR (get_spell_event p w) (\<lambda>(e, sp).
            bindR (Spell_Get_Damage env e sp w) (\<lambda>(d, w).
            put_spell_part p (\<lambda>sp. sp\<lparr>se_CalculatedDamage := d\<rparr>) w))
          else Inr w) (\<lambda>w.
   bindR (get_spell_event p w) (\<lambda>(e, sp).
   report_hit env (m_SpellName s) (se_CalculatedDamage sp) (se_crit sp) e w))))))))))"

definition flip_phase :: "cevent \<Rightarrow> cevent" where
  "flip_phase e = e\<lparr>ev_EventType := (ev_EventType e XOR EVENT_PRE) XOR EVENT_POST\<rparr>"

definition Spell_run :: "'l env \<Rightarrow> addr \<Rightarrow> 'l world \<Rightarrow> (bool \<times> 'l world) res" where
  "Spell_run env p w =
   bindR (get_spell_event p w) (\<lambda>(e, sp).
   bindR (get_player w) (\<lambda>pl.
   if has_bits (ev_EventType e) EVENT_PRE then
     (if is_cast e \<and> \<not> IsIdle (w_iGameTime w) pl then Inr (True, w)
      else if \<not> is_cast e \<and> p_CastingSpell pl \<noteq> ev_Parent e then Inr (True, w)
      else
        bindR (Spell_PreAction env p w) (\<lambda>(result, w).
        bindR (get_spell_event p w) (\<lambda>(e, sp).
        let e = flip_phase e; w = set_event p e w
        in if is_cast e then
             (if \<not> result then
                bindR (Spell_GetCastTime e sp w) (\<lambda>ct.
                bindR (dbl_to_u32 ct) (\<lambda>delay. Inr (False, AddEvent p delay w)))
              else Inr (True, w))
           else Inr (False, AddEvent p 0 w))))
   else if has_bits (ev_EventType e) EVENT_POST then
     bindR (if p_CastingSpell pl = (if is_cast e then Some p else ev_Parent e)
            then Spell_PostAction env p w else Inr w) (\<lambda>w. Inr (True, w))
   else Inr (False, w)))"

subsection \<open>Auras\<close>

text \<open>Step 1: the target has the aura. Stacks are added, spell power and fade time renewed.\<close>

definition aura_refresh :: "addr \<Rightarrow> addr \<Rightarrow> 'l world \<Rightarrow> 'l world res" where
  "aura_refresh p q w =
   bindR (get_aura_event p w) (\<lambda>(e, ae).
   bindR (get_aura (ae_pAura ae) w) (\<lambda>a.
   bindR (get_aura q w) (\<lambda>ta.
   bindR (of_opt UninitRead (ae_iAddStacks ae)) (\<lambda>stacks.
   let w = set_aura q (ta\<lparr>m_iTicks := m_iTicks ta + stacks\<rparr>) w
   in bindR (if m_bIsPeriodic a then
               bindR (get_player w) (\<lambda>pl. bindR (stat_Get (p_SpellPower pl)) (\<lambda>sp.
               bindR (get_aura q w) (\<lambda>ta. Inr (set_aura q (ta\<lparr>m_iSpellPower := Some sp\<rparr>) w))))
             else Inr w) (\<lambda>w.
   bindR (of_opt UninitRead (ae_bSetFadeTime ae)) (\<lambda>setFade.
   if setFade then
     bindR (of_opt UninitRead (ae_iFadeTimeTillNow ae)) (\<lambda>fade.
     bindR (of_opt UninitRead (m_bHasteEnabled a)) (\<lambda>hasted.
     bindR (if hasted then GetCastTimeWithHaste fade e w else Inr fade) (\<lambda>fade.
     bindR (put_aura_part p (\<lambda>ae. ae\<lparr>ae_iFadeTimeTillNow := Some fade\<rparr>) w) (\<lambda>w.
     bindR (get_aura q w) (\<lambda>ta.
     Inr (set_aura q (ta\<lparr>m_iFadeTime :=
           Some (if fade \<noteq> 0 then fade + w_iGameTime w + 1 else 0)\<rparr>) w))))))
   else Inr w))))))"

text \<open>Step 3: the events of a new aura. Both carry the identity of the applied object, so that
  they do nothing once it has been replaced.\<close>

definition aura_follow_up :: "u32 \<Rightarrow> u32 \<Rightarrow> addr option \<Rightarrow> cevent \<Rightarrow> aura_part \<Rightarrow> cevent" where
  "aura_follow_up ty guid pSpell e ae =
     SetApplySpell pSpell
       ((CEvent_new ty (ev_theTarget e) (AuraPart \<lparr>ae_pAura = ae_pAura ae, ae_pSpell = Some None,
          ae_iFadeTimeTillNow = Some 0, ae_bSetFadeTime = Some True, ae_iAddStacks = Some 1,
          ae_crit = Some False, ae_CalculatedDamage = Some 0, ae_iPeriodicTime = None,
          ae_AuraGUID = Some guid\<rparr>)))"

definition aura_schedule_removal :: "cevent \<Rightarrow> aura_part \<Rightarrow> u32 \<Rightarrow> u32 \<Rightarrow> 'l world \<Rightarrow> 'l world res" where
  "aura_schedule_removal e ae guid fade w =
   (if fade = 0 then Inr w
    else bindR (of_opt UninitRead (ae_pSpell ae)) (\<lambda>pSpell.
      case new_event (aura_follow_up EVENT_AURA_REMOVAL guid pSpell e ae) w of (r, w) \<Rightarrow>
      Inr (AddEvent r (fade + 1) w)))"

definition aura_schedule_periodic ::
  "cevent \<Rightarrow> aura_part \<Rightarrow> aura \<Rightarrow> u32 \<Rightarrow> addr \<Rightarrow> 'l world \<Rightarrow> 'l world res" where
  "aura_schedule_periodic e ae a guid q w =
   (if \<not> m_bIsPeriodic a then Inr w
    else bindR (of_opt UninitRead (ae_pSpell ae)) (\<lambda>pSpell.
      case new_event (aura_follow_up EVENT_AURA_PERIODIC_EVENT guid pSpell e ae) w of (r, w) \<Rightarrow>
      bindR (Aura_GetCastTime e ae w) (\<lambda>ct.
      bindR (dbl_to_u32 ct) (\<lambda>pt.
      bindR (put_aura_part r (\<lambda>x. x\<lparr>ae_iPeriodicTime := Some pt\<rparr>) w) (\<lambda>w.
      let w = AddEvent r pt w
      in bindR (get_player w) (\<lambda>pl.
         bindR (stat_Get (p_SpellPower pl)) (\<lambda>sp.
         bindR (get_aura q w) (\<lambda>ta.
         Inr (set_aura q (ta\<lparr>m_iSpellPower := Some sp\<rparr>) w)))))))))"

text \<open>Step 2: the target does not have the aura. A copy of the database's aura is applied to it,
  with a fade time that keeps the number of ticks when haste shortens them.\<close>

definition aura_apply_new :: "addr \<Rightarrow> 'l world \<Rightarrow> 'l world res" where
  "aura_apply_new p w =
   bindR (get_aura_event p w) (\<lambda>(e, ae).
   bindR (get_aura (ae_pAura ae) w) (\<lambda>a.
   bindR (of_opt UninitRead (ae_iAddStacks ae)) (\<lambda>stacks.
   case CAura_copy a (w_iGUIDCounter w) of (na, guid) \<Rightarrow>
   case new_aura (na\<lparr>m_iTicks := stacks\<rparr>) (w\<lparr>w_iGUIDCounter := guid\<rparr>) of (q, w) \<Rightarrow>
   bindR (of_opt UninitRead (ae_iFadeTimeTillNow ae)) (\<lambda>fade.
   bindR (of_opt UninitRead (m_bHasteEnabled a)) (\<lambda>hasted.
   bindR (if hasted \<and> fade \<noteq> 0 then
            bindR (of_opt UninitRead (m_iPeriodicEventTime a)) (\<lambda>period.
            if period = 0 then Inl DivByZero
            else bindR (Aura_GetCastTime e ae w) (\<lambda>ct.
              dbl_to_u32 (d_mul ct (u32_to_dbl (fade div period)))))
          else Inr fade) (\<lambda>fade.
   bindR (put_aura_part p (\<lambda>ae. ae\<lparr>ae_iFadeTimeTillNow := Some fade\<rparr>) w) (\<lambda>w.
   bindR (get_aura q w) (\<lambda>ta.
   let w = set_aura q (ta\<lparr>m_iFadeTime :=
             Some (if fade \<noteq> 0 then fade + w_iGameTime w + 1 else 0)\<rparr>) w
   in bindR (get_auraMap (ev_theTarget e) w) (\<lambda>m.
      bindR (ApplyAura (w_auras w) q m) (\<lambda>(b, m).
      bindR (set_auraMap (ev_theTarget e) m w) (\<lambda>w.
      bindR (aura_schedule_removal e ae guid fade w) (\<lambda>w.
      aura_schedule_periodic e ae a guid q w))))))))))))"

definition AuraApplication :: "'l env \<Rightarrow> addr \<Rightarrow> 'l world \<Rightarrow> (bool \<times> 'l world) res" where
  "AuraApplication env p w =
   bindR (get_aura_event p w) (\<lambda>(e, ae).
   bindR (get_aura (ae_pAura ae) w) (\<lambda>a.
   bindR (of_opt UninitRead (m_iAuraID a)) (\<lambda>i.
   bindR (CallLuaFunction env ''AuraApplicationRoutine'' i w) (\<lambda>w.
   bindR (unit_GetAuraByID (ev_theTarget e) i w) (\<lambda>pt.
   bindR (case pt of Some q \<Rightarrow> aura_refresh p q w | None \<Rightarrow> aura_apply_new p w) (\<lambda>w.
   Inr (True, w)))))))"

definition AuraRemoval :: "'l env \<Rightarrow> addr \<Rightarrow> 'l world \<Rightarrow> (bool \<times> 'l world) res" where
  "AuraRemoval env p w =
   bindR (get_aura_event p w) (\<lambda>(e, ae).
   bindR (get_aura (ae_pAura ae) w) (\<lambda>a.
   bindR (of_opt UninitRead (m_iAuraID a)) (\<lambda>i.
   bindR (unit_GetAuraByID (ev_theTarget e) i w) (\<lambda>pt.
   case pt of
     None \<Rightarrow> Inr (True, w)
   | Some q \<Rightarrow>
     bindR (get_aura q w) (\<lambda>ta.
     bindR (of_opt UninitRead (ae_AuraGUID ae)) (\<lambda>guid.
     if m_iGUID ta \<noteq> guid then Inr (True, w)
     else
     bindR (of_opt UninitRead (m_iFadeTime ta)) (\<lambda>fade.
     if w_iGameTime w < fade then Inr (False, AddEvent p (fade - w_iGameTime w) w)
     else
     bindR (CallLuaFunction env ''AuraFadeRoutine'' i w) (\<lambda>w.
     bindR (get_auraMap (ev_theTarget e) w) (\<lambda>m.
     bindR (set_auraMap (ev_theTarget e) (snd (RemoveAura q m)) w) (\<lambda>w.
     Inr (True, delete_aura q w)))))))))))"

definition AuraPeriodic :: "'l env \<Rightarrow> addr \<Rightarrow> 'l world \<Rightarrow> (bool \<times> 'l world) res" where
  "AuraPeriodic env p w =
   bindR (get_aura_event p w) (\<lambda>(e, ae).
   bindR (get_aura (ae_pAura ae) w) (\<lambda>a.
   bindR (of_opt UninitRead (m_iAuraID a)) (\<lambda>i.
   bindR (unit_GetAuraByID (ev_theTarget e) i w) (\<lambda>pt.
   case pt of
     None \<Rightarrow> Inr (True, w)
   | Some q \<Rightarrow>
     bindR (get_aura q w) (\<lambda>ta.
     bindR (of_opt UninitRead (ae_AuraGUID ae)) (\<lambda>guid.
     if m_iGUID ta \<noteq> guid then Inr (True, w)
     else
     bindR (CallLuaFunction env ''PrePeriodicEventRoutine'' i w) (\<lambda>w.
     bindR (get_aura_event p w) (\<lambda>(e, ae).
     bindR (CEvent_Get_CritChance e w) (\<lambda>c.
     case roll_below env c w of (crit, w) \<Rightarrow>
     bindR (put_aura_part p (\<lambda>ae. ae\<lparr>ae_crit := Some crit\<rparr>) w) (\<lambda>w.
     bindR (get_aura_event p w) (\<lambda>(e, ae).
     bindR (Aura_Get_Damage env e ae w) (\<lambda>(d, w).
     bindR (put_aura_part p (\<lambda>ae. ae\<lparr>ae_CalculatedDamage := Some d\<rparr>) w) (\<lambda>w.
     bindR (report_hit env (m_strAuraName a) d crit e w) (\<lambda>w.
     bindR (CallLuaFunction env ''PostPeriodicEventRoutine'' i w) (\<lambda>w.
     bindR (get_aura_event p w) (\<lambda>(e, ae).
     let w = set_event p (ResetAdditionals (e\<lparr>ev_part :=
                 AuraPart (ae\<lparr>ae_CalculatedDamage := Some 0\<rparr>)\<rparr>)) w
     in bindR (of_opt UninitRead (ae_iPeriodicTime ae)) (\<lambda>period.
        bindR (get_aura q w) (\<lambda>ta.
        bindR (of_opt UninitRead (m_iFadeTime ta)) (\<lambda>fade.
        if w_iGameTime w + period \<le> fade then Inr (False, AddEvent p period w)
        else Inr (True, w))))))))))))))))))))"

definition Aura_run :: "'l env \<Rightarrow> addr \<Rightarrow> 'l world \<Rightarrow> (bool \<times> 'l world) res" where
  "Aura_run env p w =
   bindR (get_aura_event p w) (\<lambda>(e, ae).
   if has_bits (ev_EventType e) EVENT_AURA_APPLICATION then AuraApplication env p w
   else if has_bits (ev_EventType e) EVENT_AURA_REMOVAL then AuraRemoval env p w
   else if has_bits (ev_EventType e) EVENT_AURA_PERIODIC_EVENT then AuraPeriodic env p w
   else Inr (True, w))"

text \<open>The virtual call \<open>pEvent->operator()(0)\<close>.\<close>

definition event_run :: "'l env \<Rightarrow> addr \<Rightarrow> 'l world \<Rightarrow> (bool \<times> 'l world) res" where
  "event_run env p w = bindR (get_event p w) (\<lambda>e. case ev_part e of
     SpellPart sp \<Rightarrow> Spell_run env p w | AuraPart ae \<Rightarrow> Aura_run env p w)"

end
