(* ===== verification/Sim_Reporter.thy ===== *)
theory Sim_Reporter
  imports Sim_Actions "HOL-Library.List_Lexorder" "HOL-Library.Char_ord"
begin

text \<open>
  \<open>Reporter.h\<close>, \<open>Reporter.cpp\<close> and \<open>GetDamageInfo\<close> of \<open>DPSCalc.cpp\<close>: the detailed
  report. Its destructor folds the recorded hits into three maps ordered by \<open>strcmp\<close>, and
  fills the 100 slots of \<open>pDamageInfo\<close> that the host application reads. What it writes
  to the two log files when \<open>isSave\<close> is set is output only and is not modelled.
\<close>

record damage_info_vb =
  vb_Index :: u32
  vb_Damage :: u32
  vb_Count :: u32
  vb_CritCount :: u32
  vb_lpSpellName :: string

type_synonym damage_slots = "damage_info_vb option list"  \<comment> \<open>\<open>pDamageInfo[100]\<close>\<close>

definition DAMAGE_SLOTS :: nat where "DAMAGE_SLOTS = 100"

text \<open>The constructor empties the slots.\<close>

definition CDefaultReporter_new :: "damage_slots \<Rightarrow> damage_slots" where
  "CDefaultReporter_new slots = replicate DAMAGE_SLOTS None"

definition tally :: "string \<Rightarrow> u32 \<Rightarrow> (string, u32) smap \<Rightarrow> (string, u32) smap" where
  "tally k n m = (case sm_find m k of
     Some v \<Rightarrow> sm_assign k (v + n) m | None \<Rightarrow> sm_insert k n m)"

type_synonym tallies = "u32 \<times> (string, u32) smap \<times> (string, u32) smap \<times> (string, u32) smap"

fun collect :: "damage_info list \<Rightarrow> tallies \<Rightarrow> tallies" where
  "collect [] t = t"
| "collect (d # ds) (tot, m, m2, mcrit) =
     collect ds (tot + di_iDamage d, tally (di_strSpellName d) (di_iDamage d) m,
       tally (di_strSpellName d) 1 m2,
       if di_isCrit d then tally (di_strSpellName d) 1 mcrit else mcrit)"

text \<open>One slot per spell. The iterators into the count maps are dereferenced as they are:
  \<open>_mcrit.find\<close> gives \<open>end()\<close> for a spell that never had a critical hit.\<close>

fun fill_slots ::
  "(string \<times> u32) list \<Rightarrow> (string, u32) smap \<Rightarrow> (string, u32) smap \<Rightarrow> nat \<Rightarrow> damage_slots \<Rightarrow> damage_slots res" where
  "fill_slots [] m2 mcrit j slots = Inr slots"
| "fill_slots ((name, dmg) # m) m2 mcrit j slots =
     bindR (guardR OutOfBounds (j < length slots)) (\<lambda>_.
     bindR (of_opt OutOfBounds (sm_find m2 name)) (\<lambda>count.
     bindR (of_opt OutOfBounds (sm_find mcrit name)) (\<lambda>crits.
     fill_slots m m2 mcrit (Suc j)
       (slots[j := Some \<lparr>vb_Index = of_nat j, vb_Damage = dmg, vb_Count = count,
                         vb_CritCount = crits, vb_lpSpellName = name\<rparr>]))))"

definition CDefaultReporter_destroy :: "damage_info list \<Rightarrow> damage_slots \<Rightarrow> damage_slots res" where
  "CDefaultReporter_destroy v slots = (case collect v (0, [], [], []) of (tot, m, m2, mcrit) \<Rightarrow>
     fill_slots m m2 mcrit 0 slots)"

text \<open>The host reads slot after slot: it passes the index and gets the contents and the next
  index, or index 0 and the answer 0 past the end.\<close>

definition GetDamageInfo :: "damage_slots \<Rightarrow> damage_info_vb \<Rightarrow> int \<times> damage_info_vb" where
  "GetDamageInfo slots pSpell =
     (if 100 \<le> vb_Index pSpell then (0, pSpell\<lparr>vb_Index := 0\<rparr>)
      else case slots ! unat (vb_Index pSpell) of
        None \<Rightarrow> (0, pSpell\<lparr>vb_Index := 0\<rparr>)
      | Some d \<Rightarrow> (1, pSpell\<lparr>vb_Count := vb_Count d, vb_CritCount := vb_CritCount d,
                          vb_Damage := vb_Damage d, vb_lpSpellName := vb_lpSpellName d,
                          vb_Index := vb_Index pSpell + 1\<rparr>))"

end
