(* ===== verification/Sim_Engine.thy ===== *)
theory Sim_Engine
  imports Sim_Reporter
begin

text \<open>
  \<open>CEventSystem::ProcessEvent\<close>, the script loader and \<open>Perform\<close>: the discrete-event loop
  and one whole run. Loops whose end depends on the scripts take fuel; running out of it is
  the fault \<open>OutOfFuel\<close>.
\<close>

subsection \<open>The event loop\<close>

text \<open>\<open>l.pop_front()\<close> on the list of time \<open>t\<close>, and the removal of the list once empty.\<close>

definition queue_pop :: "u32 \<Rightarrow> (u32, addr list) smap \<Rightarrow> (u32, addr list) smap res" where
  "queue_pop t m = bindR (of_opt Dangling (sm_find m t)) (\<lambda>l. case l of
     [] \<Rightarrow> Inl OutOfBounds
   | x # xs \<Rightarrow> Inr (if xs = [] then sm_erase t m else sm_assign t xs m))"

text \<open>One due event: it becomes the current one, runs, and is deleted when it has ended.\<close>

definition dispatch_event :: "'l env \<Rightarrow> u32 \<Rightarrow> addr \<Rightarrow> 'l world \<Rightarrow> 'l world res" where
  "dispatch_event env t p w =
   bindR (SetCurrentEvent (e_debug env) (Some p) w) (\<lambda>(_, w).
   bindR (get_event p w) (\<lambda>e.
   bindR (SetCurrentTarget (e_debug env) (Some (ev_theTarget e)) w) (\<lambda>(_, w).
   bindR (event_run env p w) (\<lambda>(ended, w).
   let w = (if ended then delete_event p w else w)
   in bindR (SetCurrentTarget (e_debug env) None w) (\<lambda>(_, w).
      bindR (SetCurrentEvent (e_debug env) None w) (\<lambda>(_, w).
      bindR (queue_pop t (w_eventMap w)) (\<lambda>m. Inr (w\<lparr>w_eventMap := m\<rparr>))))))))"

text \<open>Nothing is due: the clock moves to the next event, but not past the time the player can
  act again.\<close>

definition advance_clock :: "u32 \<Rightarrow> 'l world \<Rightarrow> 'l world" where
  "advance_clock NextPlayerAvailableTime w = w\<lparr>w_iGameTime :=
     (case w_eventMap w of
        [] \<Rightarrow> w_iGameTime w + NextPlayerAvailableTime
      | (t, l) # m \<Rightarrow> if NextPlayerAvailableTime \<noteq> 0
                      then min t (w_iGameTime w + NextPlayerAvailableTime) else t)\<rparr>"

definition head_due :: "'l world \<Rightarrow> bool" where
  "head_due w = (case w_eventMap w of [] \<Rightarrow> False | (t, l) # m \<Rightarrow> t \<le> w_iGameTime w)"

fun ProcessEvent :: "nat \<Rightarrow> 'l env \<Rightarrow> u32 \<Rightarrow> 'l world \<Rightarrow> (bool \<times> 'l world) res" where
  "ProcessEvent 0 env nxt w = Inl OutOfFuel"
| "ProcessEvent (Suc n) env nxt w =
     (if \<not> head_due w then Inr (False, advance_clock nxt w)
      else case w_eventMap w of
        [] \<Rightarrow> Inr (False, advance_clock nxt w)
      | (t, l) # m \<Rightarrow>
          bindR (case l of
                   [] \<Rightarrow> Inr (w\<lparr>w_eventMap := m\<rparr>)
                 | p # _ \<Rightarrow> dispatch_event env t p w) (\<lambda>w.
          if head_due w then ProcessEvent n env nxt w else Inr (True, w)))"

text \<open>The destructor deletes every queued event.\<close>

fun delete_events :: "addr list \<Rightarrow> 'l world \<Rightarrow> 'l world res" where
  "delete_events [] w = Inr w"
| "delete_events (p # ps) w = bindR (get_event p w) (\<lambda>_. delete_events ps (delete_event p w))"

definition CEventSystem_destroy :: "'l world \<Rightarrow> 'l world res" where
  "CEventSystem_destroy w =
     bindR (delete_events (concat (map snd (w_eventMap w))) w) (\<lambda>w. Inr (w\<lparr>w_eventMap := []\<rparr>))"

subsection \<open>Loading the scripts\<close>

text \<open>\<open>fgets(Buffer, 256, fp)\<close> until the end of the file: lines with their newline, cut
  at 255 bytes. The text is what the C library delivers for a file opened with mode \<open>r\<close>: where it
  translates line ends, \<open>e_fopen\<close> gives the translated text. Fuel: the length of the text, since every chunk takes at least one byte.\<close>

definition next_chunk :: "string \<Rightarrow> string" where
  "next_chunk s = (let line = takeWhile (\<lambda>c. c \<noteq> CHR 0x0A) s;
                       full = (if length line < length s then line @ [CHR 0x0A] else line)
                   in take (MAX_STRING_LENGTH - 1) full)"

fun fgets_chunks :: "nat \<Rightarrow> string \<Rightarrow> string list" where
  "fgets_chunks 0 s = []"
| "fgets_chunks (Suc n) s =
     (if s = [] then [] else next_chunk s # fgets_chunks n (drop (length (next_chunk s)) s))"

text \<open>Cut at the first carriage return, then at the first newline (\<open>Buffer\<close> is a C string).\<close>

definition strip_line :: "string \<Rightarrow> string" where
  "strip_line b = takeWhile (\<lambda>c. c \<noteq> CHR 0x0D \<and> c \<noteq> CHR 0x0A) (c_str b)"

fun is_prefix :: "string \<Rightarrow> string \<Rightarrow> bool" where
  "is_prefix [] s = True"
| "is_prefix (c # cs) [] = False"
| "is_prefix (c # cs) (d # ds) = (c = d \<and> is_prefix cs ds)"

fun strstr :: "string \<Rightarrow> string \<Rightarrow> bool" where
  "strstr [] p = is_prefix p []"
| "strstr (c # cs) p = (is_prefix p (c # cs) \<or> strstr cs p)"

definition script_path :: "string \<Rightarrow> string res" where
  "script_path name = (let s = ''lua'' @ [CHR 0x5C] @ name in
     if length s < MAX_STRING_LENGTH then Inr s else Inl OutOfBounds)"

fun LoadTOCFile :: "nat \<Rightarrow> 'l env \<Rightarrow> string \<Rightarrow> 'l world \<Rightarrow> (bool \<times> 'l world) res"
and load_lines :: "nat \<Rightarrow> 'l env \<Rightarrow> string list \<Rightarrow> 'l world \<Rightarrow> (bool \<times> 'l world) res" where
  "LoadTOCFile 0 env fileName w = Inl OutOfFuel"
| "LoadTOCFile (Suc n) env fileName w =
     bindR (script_path fileName) (\<lambda>path. case e_fopen env path of
       None \<Rightarrow> Inr (False, w)
     | Some text \<Rightarrow> load_lines n env (fgets_chunks (length text) text) w)"
| "load_lines n env [] w = Inr (True, w)"
| "load_lines n env (b # bs) w =
     (if b \<noteq> [] \<and> hd b = CHR ''#'' then load_lines n env bs w
      else
        bindR (script_path (strip_line b)) (\<lambda>path.
        if strstr path ''.toc'' then
          bindR (LoadTOCFile n env (strip_line b) w) (\<lambda>(ok, w).
            if ok then load_lines n env bs w else Inr (False, w))
        else bindR (get_lua w) (\<lambda>l. case e_loadfile env path of
          None \<Rightarrow> Inr (False, w)
        | Some f \<Rightarrow> bindR (run_prog env (f l) w) (\<lambda>(ok, w).
            if ok then load_lines n env bs w else Inr (False, w)))))"

text \<open>\<open>lua_open\<close> is taken to succeed (memory does not run out); \<open>fresh\<close> is the state
  it makes, with the libraries and the hooks registered.\<close>

definition Lua_Initialize :: "nat \<Rightarrow> 'l env \<Rightarrow> string \<Rightarrow> 'l \<Rightarrow> 'l world \<Rightarrow> (bool \<times> 'l world) res" where
  "Lua_Initialize fuel env PreloadAdditionalLua fresh w =
   (let w = w\<lparr>w_AuraDB := CAuraDB_init, w_SpellDB := CSpellDB_init, w_CreatureDB := [],
              w_pLuaState := LuaOpen, w_lua := fresh\<rparr>
    in bindR (RunLuaCode env PreloadAdditionalLua w) (\<lambda>(_, w).
       LoadTOCFile fuel env ''main.toc'' w))"

text \<open>The interpreter is closed, but \<open>pLuaState\<close> keeps pointing to it; the three databases
  are deleted and their globals set to null.\<close>

definition Lua_CleanUp :: "'l world \<Rightarrow> 'l world" where
  "Lua_CleanUp w = w\<lparr>w_pLuaState := (if w_pLuaState w = LuaNull then LuaNull else LuaClosed),
     w_auras := CAuraDB_destroy (w_AuraDB w) (w_auras w),
     w_spells := CSpellDB_destroy (w_SpellDB w) (w_spells w),
     w_creatures := CCreatureDB_destroy (w_creatures w) (w_CreatureDB w),
     w_AuraDB := CAuraDB_init, w_SpellDB := CSpellDB_init, w_CreatureDB := []\<rparr>"

subsection \<open>A run\<close>

definition MAX_GAME_TIME :: u32 where "MAX_GAME_TIME = 2000000000"

fun perform_loop :: "nat \<Rightarrow> nat \<Rightarrow> 'l env \<Rightarrow> 'l world \<Rightarrow> 'l world res" where
  "perform_loop 0 m env w = Inl OutOfFuel"
| "perform_loop (Suc n) m env w =
     (if IsExitable w \<or> \<not> w_iGameTime w < MAX_GAME_TIME then Inr w
      else
        bindR (get_player w) (\<lambda>pl.
        bindR (ProcessEvent m env (Get_SpellCooldown (w_iGameTime w) 0 pl) w) (\<lambda>(_, w).
        bindR (get_player w) (\<lambda>pl.
        bindR (if IsIdle (w_iGameTime w) pl then CallLuaFunction env ''PlayerIdleRoutine'' 0 w
               else Inr w) (\<lambda>w.
        perform_loop n m env w)))))"

definition start_run :: "bool \<Rightarrow> 'l world \<Rightarrow> 'l world" where
  "start_run isDetail w = w\<lparr>w_iDamageCounter := 0, w_iGameTime := 0, w_eventMap := [],
     w_bExitable := False, w_CurrentPlayer := Some CPlayer_new, w_bNormalizeCrit := \<not> isDetail,
     w_Reporter := (if isDetail then Some [] else None)\<rparr>"

text \<open>\<open>Perform\<close>. The first component of the result is the damage per second as a
  \<open>float\<close>; the slots are those of \<open>pDamageInfo\<close>.\<close>

definition Perform ::
  "nat \<Rightarrow> nat \<Rightarrow> 'l env \<Rightarrow> string \<Rightarrow> string \<Rightarrow> bool \<Rightarrow> 'l \<Rightarrow> damage_slots \<Rightarrow> 'l world \<Rightarrow> (dbl \<times> damage_slots \<times> 'l world) res" where
  "Perform n m env AdditionalLua PreloadAdditionalLua isDetail fresh slots w =
   (if w_CurrentPlayer w \<noteq> None then Inl (if e_debug env then AssertFail else StaleGlobals)
    else
    let w = start_run isDetail w;
        slots = (if isDetail then CDefaultReporter_new slots else slots)
    in bindR (Lua_Initialize n env PreloadAdditionalLua fresh w) (\<lambda>(ok, w).
    if \<not> ok then Inr (Fin 0, slots, w)
    else
    bindR (RunLuaCode env AdditionalLua w) (\<lambda>(_, w).
    bindR (CallLuaFunction env ''OnTestStartRoutine'' 0 w) (\<lambda>w.
    bindR (perform_loop n m env w) (\<lambda>w.
    bindR (RunLuaCode env (''dps='' @ e_printf_f env
             (f_div (rndf (of_nat (unat (w_iDamageCounter w)))) (Fin 5000))) w) (\<lambda>(_, w).
    bindR (CallLuaFunction env ''OnTestFinishRoutine'' 0 w) (\<lambda>w.
    let fDPS = f_div (rndf (of_nat (unat (w_iDamageCounter w))))
                 (f_div (rndf (of_nat (unat (w_iGameTime w)))) (Fin 1000))
    in bindR (CEventSystem_destroy (w\<lparr>w_CurrentPlayer := None\<rparr>)) (\<lambda>w.
       bindR (case w_Reporter w of None \<Rightarrow> Inr slots
              | Some v \<Rightarrow> CDefaultReporter_destroy v slots) (\<lambda>slots.
       Inr (fDPS, slots, Lua_CleanUp (w\<lparr>w_Reporter := None\<rparr>)))))))))))"

end
