(* ===== verification/Sim_Queue.thy ===== *)
theory Sim_Queue
  imports Sim_Engine "HOL-Library.Multiset"
begin

text \<open>
  The event queue as a data structure: \<open>queue_add\<close> and \<open>queue_pop\<close> on the ordered map
  of lists implement a stable priority queue, the sequence of pending events sorted by due time
  and, within one time, by order of arrival.
\<close>

type_synonym queue = "(u32, addr list) smap"

definition qlist :: "queue \<Rightarrow> u32 \<Rightarrow> addr list" where
  "qlist m t = (case sm_find m t of None \<Rightarrow> [] | Some l \<Rightarrow> l)"

definition queued :: "queue \<Rightarrow> addr list" where
  "queued m = concat (map snd m)"

definition queue_ok :: "queue \<Rightarrow> bool" where
  "queue_ok m \<longleftrightarrow> sm_ok m \<and> (\<forall>l \<in> snd ` set m. l \<noteq> [])"

text \<open>The abstract queue: pending events with their due times, in the order they will run.\<close>

definition agenda :: "queue \<Rightarrow> (u32 \<times> addr) list" where
  "agenda m = concat (map (\<lambda>(t, l). map (Pair t) l) m)"

definition agenda_add :: "u32 \<Rightarrow> addr \<Rightarrow> (u32 \<times> addr) list \<Rightarrow> (u32 \<times> addr) list" where
  "agenda_add t p a = takeWhile (\<lambda>x. fst x \<le> t) a @ (t, p) # dropWhile (\<lambda>x. fst x \<le> t) a"

subsection \<open>Adding\<close>

lemma queue_ok_Nil [simp]: "queue_ok []"
  by (simp add: queue_ok_def)

lemma queue_ok_Cons: "queue_ok ((t, l) # m) \<longleftrightarrow> queue_ok m \<and> l \<noteq> [] \<and> (\<forall>k \<in> fst ` set m. t < k)"
  by (auto simp: queue_ok_def sm_ok_Cons)

lemma queue_add_Nil: "queue_add t p [] = [(t, [p])]"
  by (simp add: queue_add_def)

lemma queue_add_Cons:
  assumes "queue_ok ((k, l) # m)"
  shows "queue_add t p ((k, l) # m) =
    (if t < k then (t, [p]) # (k, l) # m
     else if t = k then (k, l @ [p]) # m else (k, l) # queue_add t p m)"
proof -
  have "t < k \<Longrightarrow> sm_find m t = None"
    using assms by (force simp: queue_ok_Cons sm_find_None_iff)
  then show ?thesis by (auto simp: queue_add_def split: option.splits)
qed

lemma queue_add_keys: "queue_ok m \<Longrightarrow> fst ` set (queue_add t p m) = insert t (fst ` set m)"
proof (induction m)
  case (Cons a m)
  then show ?case by (cases a) (auto simp: queue_add_Cons queue_ok_Cons)
qed (simp add: queue_add_Nil)

lemma queue_add_ok: "queue_ok m \<Longrightarrow> queue_ok (queue_add t p m)"
proof (induction m)
  case (Cons a m)
  obtain k l where a: "a = (k, l)" by fastforce
  with Cons have ok: "queue_ok m" "\<forall>j \<in> fst ` set m. k < j" "l \<noteq> []" "queue_ok ((k, l) # m)"
    by (auto simp: queue_ok_Cons)
  then have "t \<noteq> k \<Longrightarrow> \<not> t < k \<Longrightarrow> \<forall>j \<in> fst ` set (queue_add t p m). k < j"
    by (simp add: queue_add_keys)
  with ok Cons.IH show ?case
    by (auto simp: a queue_add_Cons queue_ok_Cons intro: less_trans)
qed (simp add: queue_add_Nil queue_ok_Cons)

lemma mset_queue_add: "queue_ok m \<Longrightarrow> mset (queued (queue_add t p m)) = add_mset p (mset (queued m))"
proof (induction m)
  case (Cons a m)
  then show ?case by (cases a) (auto simp: queue_add_Cons queue_ok_Cons queued_def)
qed (simp add: queue_add_Nil queued_def)

lemma qlist_queue_add:
  "queue_ok m \<Longrightarrow> qlist (queue_add t p m) k = (if k = t then qlist m t @ [p] else qlist m k)"
  by (auto simp: queue_add_def qlist_def queue_ok_def sm_find_insert sm_find_assign split: option.splits)

text \<open>Adding is stable insertion into the abstract queue.\<close>

lemma agenda_keys: "x \<in> set (agenda m) \<Longrightarrow> fst x \<in> fst ` set m"
  by (induction m) (auto simp: agenda_def)

lemma agenda_add_below:
  "\<forall>x \<in> set a. t < fst x \<Longrightarrow> agenda_add t p a = (t, p) # a"
  by (cases a) (auto simp: agenda_add_def not_le)

lemma agenda_add_append:
  "\<forall>x \<in> set a. fst x \<le> t \<Longrightarrow> agenda_add t p (a @ b) = a @ agenda_add t p b"
  by (simp add: agenda_add_def)

lemma agenda_queue_add: "queue_ok m \<Longrightarrow> agenda (queue_add t p m) = agenda_add t p (agenda m)"
proof (induction m)
  case Nil
  then show ?case by (simp add: queue_add_Nil agenda_def agenda_add_def)
next
  case (Cons a m)
  obtain k l where a: "a = (k, l)" by fastforce
  have ok: "queue_ok m" "\<forall>j \<in> fst ` set m. k < j" using Cons.prems by (auto simp: a queue_ok_Cons)
  have above: "\<forall>x \<in> set (agenda m). k < fst x" using ok agenda_keys by blast
  have split: "agenda (a # m) = map (Pair k) l @ agenda m" by (simp add: a agenda_def)
  consider "t < k" | "t = k" | "k < t" by fastforce
  then show ?case
  proof cases
    case 1
    with above have "\<forall>x \<in> set (agenda (a # m)). t < fst x" by (auto simp: split)
    with 1 Cons.prems show ?thesis
      by (simp add: a queue_add_Cons agenda_add_below) (simp add: agenda_def)
  next
    case 2
    with above have "agenda_add t p (agenda (a # m)) = map (Pair k) l @ (t, p) # agenda m"
      by (simp add: split agenda_add_append agenda_add_below)
    with 2 Cons.prems show ?thesis by (simp add: a queue_add_Cons agenda_def)
  next
    case 3
    then have "agenda_add t p (agenda (a # m)) = map (Pair k) l @ agenda_add t p (agenda m)"
      unfolding split by (intro agenda_add_append) auto
    moreover have "agenda (queue_add t p (a # m)) = map (Pair k) l @ agenda (queue_add t p m)"
      using 3 Cons.prems less_not_sym [OF 3] less_imp_neq [OF 3] by (simp add: a queue_add_Cons agenda_def)
    ultimately show ?thesis using Cons.IH [OF ok(1)] by simp
  qed
qed

lemma agenda_sorted: "queue_ok m \<Longrightarrow> sorted (map fst (agenda m))"
proof (induction m)
  case (Cons a m)
  obtain k l where a: "a = (k, l)" by fastforce
  have ok: "queue_ok m" "\<forall>j \<in> fst ` set m. k < j" using Cons.prems by (auto simp: a queue_ok_Cons)
  then have above: "\<forall>x \<in> set (agenda m). k < fst x" using agenda_keys by blast
  have "agenda (a # m) = map (Pair k) l @ agenda m" by (simp add: a agenda_def)
  then show ?case
    using Cons.IH [OF ok(1)] above
    by (auto simp: sorted_append less_imp_le comp_def map_replicate_const)
qed (simp add: agenda_def)

subsection \<open>Removing the head\<close>

lemma queue_pop_Cons:
  "queue_pop t ((t, x # xs) # m) = Inr (if xs = [] then m else (t, xs) # m)"
  by (simp add: queue_pop_def)

lemma queue_pop_hd:
  assumes "queue_ok m" and "qlist m t = x # xs"
  shows "\<exists>m'. queue_pop t m = Inr m' \<and> queue_ok m' \<and>
    mset (queued m) = add_mset x (mset (queued m')) \<and>
    (\<forall>k. qlist m' k = (if k = t then xs else qlist m k))"
proof -
  have ok: "sm_ok m" using assms(1) by (simp add: queue_ok_def)
  have f: "sm_find m t = Some (x # xs)" using assms(2) by (auto simp: qlist_def split: option.splits)
  let ?m = "if xs = [] then sm_erase t m else sm_assign t xs m"
  have pop: "queue_pop t m = Inr ?m" by (simp add: queue_pop_def f)
  have q: "\<forall>k. qlist ?m k = (if k = t then xs else qlist m k)"
    using ok f by (auto simp: qlist_def sm_find_erase sm_find_assign)
  have "queue_ok m \<Longrightarrow> sm_find m t = Some (x # xs) \<Longrightarrow>
     queue_ok ?m \<and> mset (queued m) = add_mset x (mset (queued ?m))"
  proof (induction m)
    case (Cons a m)
    obtain k l where a: "a = (k, l)" by fastforce
    show ?case
    proof (cases "k = t")
      case True
      with Cons.prems show ?thesis by (auto simp: a queue_ok_Cons queued_def)
    next
      case False
      have sub: "fst ` set (if xs = [] then sm_erase t m else sm_assign t xs m) \<subseteq> fst ` set m"
        using sm_erase_subset [of t m] by auto
      have IH: "queue_ok (if xs = [] then sm_erase t m else sm_assign t xs m) \<and> mset (queued m) =
          add_mset x (mset (queued (if xs = [] then sm_erase t m else sm_assign t xs m)))"
        using Cons False by (simp add: a queue_ok_Cons)
      show ?thesis
        using IH sub False Cons.prems(1)
        by (cases "xs = []") (auto simp: a queue_ok_Cons queued_def dest: subsetD [OF sm_erase_subset])
    qed
  qed simp
  with assms(1) f pop q show ?thesis by blast
qed

end
