(* ===== verification/Sim_Script.thy ===== *)
theory Sim_Script
  imports Sim_Queue
begin

text \<open>
  What a script can do to the world. \<open>script_step\<close> has one rule per effect of the
  registered functions; \<open>api_call_steps\<close> shows that a call is a run of such steps, whatever
  its arguments, and \<open>hook_steps\<close> lifts it to a whole hook. The locale \<open>script_closed\<close>
  turns that into preservation: a relation to the starting world that every step keeps is
  kept by every script.
\<close>

subsection \<open>The effects\<close>

definition same_event :: "cevent \<Rightarrow> cevent \<Rightarrow> bool" where
  "same_event e e' \<longleftrightarrow> ev_EventType e' = ev_EventType e \<and> ev_theTarget e' = ev_theTarget e \<and>
     ev_Parent e' = ev_Parent e \<and> ev_part e' = ev_part e \<and>
     length (ev_AdditionalDamagePrecentage e') = length (ev_AdditionalDamagePrecentage e)"

definition same_aura :: "aura \<Rightarrow> aura \<Rightarrow> bool" where
  "same_aura a a' \<longleftrightarrow> m_iAuraID a' = m_iAuraID a \<and> m_strAuraName a' = m_strAuraName a \<and>
     m_bIsPeriodic a' = m_bIsPeriodic a \<and> m_iGUID a' = m_iGUID a \<and> m_iFadeTime a' = m_iFadeTime a"

definition same_spell :: "spell \<Rightarrow> spell \<Rightarrow> bool" where
  "same_spell s s' \<longleftrightarrow> (\<exists>x. s' = s\<lparr>m_SPPrecentage := x\<rparr>)"

definition queue_new :: "cevent \<Rightarrow> 'l world \<Rightarrow> 'l world" where
  "queue_new e w = AddEvent (w_next w) 0 (snd (new_event e w))"

inductive script_step :: "'l world \<Rightarrow> 'l world \<Rightarrow> bool" where
  lua: "script_step w (w\<lparr>w_lua := l\<rparr>)"
| rand: "script_step w (w\<lparr>w_rand := n\<rparr>)"
| ready_exit: "script_step w (w\<lparr>w_bExitable := True\<rparr>)"
| player: "w_CurrentPlayer w = Some p \<Longrightarrow> p_auraMap p' = p_auraMap p \<Longrightarrow>
    p_CastingSpell p' = p_CastingSpell p \<or> p_CastingSpell p' = None \<Longrightarrow>
    script_step w (w\<lparr>w_CurrentPlayer := Some p'\<rparr>)"
| modify_event: "w_CurrentEvent w = Some q \<Longrightarrow> w_events w q = Some e \<Longrightarrow> same_event e e' \<Longrightarrow>
    script_step w (w\<lparr>w_events := (w_events w)(q \<mapsto> e')\<rparr>)"
| new_aura: "CAura_new nm 1 per lo hi school False False period (w_iGUIDCounter w) = Inr (a, g) \<Longrightarrow>
    Sim_Aura.AddAura (w_next w) (w_AuraDB w, (w_auras w)(w_next w \<mapsto> a)) = Inr (n, db, h) \<Longrightarrow>
    script_step w (w\<lparr>w_next := Suc (w_next w), w_iGUIDCounter := g, w_AuraDB := db, w_auras := h\<rparr>)"
| modify_aura: "GetAuraByID (w_AuraDB w) i = Some q \<Longrightarrow> w_auras w q = Some a \<Longrightarrow> same_aura a a' \<Longrightarrow>
    script_step w (w\<lparr>w_auras := (w_auras w)(q \<mapsto> a')\<rparr>)"
| new_spell: "CSpell_new nm ty lo hi cast cd school pa fade ticks = Inr s \<Longrightarrow>
    (\<forall>p. pa = Some p \<longrightarrow> (\<exists>i. GetAuraByID (w_AuraDB w) i = Some p)) \<Longrightarrow>
    AddSpell (w_next w) (w_SpellDB w, (w_spells w)(w_next w \<mapsto> s)) = Inr (n, db, h) \<Longrightarrow>
    script_step w (w\<lparr>w_next := Suc (w_next w), w_SpellDB := db, w_spells := h\<rparr>)"
| modify_spell: "GetSpellByID (w_SpellDB w) i = Some q \<Longrightarrow> w_spells w q = Some s \<Longrightarrow> same_spell s s' \<Longrightarrow>
    script_step w (w\<lparr>w_spells := (w_spells w)(q \<mapsto> s')\<rparr>)"
| new_unit: "CCreature_new nm = Inr c \<Longrightarrow> c_str nm \<noteq> ''player'' \<Longrightarrow> c_str nm \<noteq> ''target'' \<Longrightarrow>
    CreatureDB_GetByName (w_creatures w) (w_CreatureDB w) nm = Inr None \<Longrightarrow>
    script_step w (w\<lparr>w_next := Suc (w_next w), w_creatures := (w_creatures w)(w_next w \<mapsto> c),
                     w_CreatureDB := AddCreature (w_next w) (w_CreatureDB w)\<rparr>)"
| delete_unit: "RemoveCreatureByName (w_creatures w) (w_CreatureDB w) nm = Inr (h, v) \<Longrightarrow>
    script_step w (w\<lparr>w_creatures := h, w_CreatureDB := v\<rparr>)"
| cast: "w_CurrentPlayer w = Some p \<Longrightarrow> IsIdle (w_iGameTime w) p \<Longrightarrow>
    GetSpellByName (w_SpellDB w) (w_spells w) nm = Inr (Some s) \<Longrightarrow>
    script_step w (queue_new (CSpellEvent_new s t) w)"
| apply_aura: "GetAuraByID (w_AuraDB w) i = Some a \<Longrightarrow>
    script_step w (queue_new (CAuraEvent_new a t n f b) w)"

abbreviation script_steps :: "'l world \<Rightarrow> 'l world \<Rightarrow> bool" where
  "script_steps \<equiv> script_step\<^sup>*\<^sup>*"

subsection \<open>Every registered function is a run of them\<close>

definition api_at :: "'l world \<Rightarrow> 'l api \<Rightarrow> bool" where
  "api_at w f \<longleftrightarrow> (\<forall>r w'. f w = Inr (r, w') \<longrightarrow> script_steps w w')"

named_theorems api_intros

lemma api_atI: "(\<And>r w'. f w = Inr (r, w') \<Longrightarrow> script_steps w w') \<Longrightarrow> api_at w f"
  by (simp add: api_at_def)

lemma api_atD: "api_at w f \<Longrightarrow> f w = Inr (r, w') \<Longrightarrow> script_steps w w'"
  by (simp add: api_at_def)

lemma api_ok_basic [api_intros]:
  "api_at w (raise_error msg)" "api_at w (return_vals vs)"
  by (auto simp: api_at_def raise_error_def return_vals_def)

lemma api_ok_string [api_intros]: "(\<And>s. api_at w (k s)) \<Longrightarrow> api_at w (LUA_TO_STRING env args i k)"
  by (auto simp: LUA_TO_STRING_def intro: api_ok_basic split: option.splits)

lemma api_ok_number [api_intros]: "(\<And>d. api_at w (k d)) \<Longrightarrow> api_at w (LUA_TO_NUMBER env args i k)"
  by (auto simp: LUA_TO_NUMBER_def intro: api_ok_basic split: option.splits)

lemma api_ok_integer [api_intros]: "(\<And>n. api_at w (k n)) \<Longrightarrow> api_at w (LUA_TO_INTEGER env args i k)"
  by (auto simp: LUA_TO_INTEGER_def intro: api_ok_basic split: option.splits)

lemma api_ok_boolean [api_intros]: "(\<And>b. api_at w (k b)) \<Longrightarrow> api_at w (LUA_TO_BOOLEAN env args i k)"
  by (auto simp: LUA_TO_BOOLEAN_def intro: api_ok_basic split: option.splits lval.splits)

lemma api_ok_if [api_intros]: "api_at w f \<Longrightarrow> api_at w g \<Longrightarrow> api_at w (if b then f else g)"
  by simp

lemma api_ok_unreachable [api_intros]: "api_at w (unreachable_default env)"
  by (auto simp: api_at_def unreachable_default_def raise_error_def split: if_splits)

lemma unreachable_steps: "unreachable_default env w = Inr (r, w') \<Longrightarrow> script_steps w w'"
  by (rule api_atD [OF api_ok_unreachable])

lemma same_spell_SP: "same_spell s (s\<lparr>m_SPPrecentage := x\<rparr>)"
  by (auto simp: same_spell_def)

text \<open>The rules in the form the proofs apply them: the new world is given by an equation.\<close>

lemma step_eq: "script_step w w2 \<Longrightarrow> w' = w2 \<Longrightarrow> script_steps w w'" by simp

lemmas steps = script_step.lua [THEN step_eq] script_step.rand [THEN step_eq]
  script_step.ready_exit [THEN step_eq] script_step.player [THEN step_eq]
  script_step.modify_event [THEN step_eq] script_step.new_aura [THEN step_eq]
  script_step.modify_aura [THEN step_eq] script_step.new_spell [THEN step_eq]
  script_step.modify_spell [THEN step_eq] script_step.new_unit [THEN step_eq]
  script_step.delete_unit [THEN step_eq] script_step.cast [THEN step_eq]
  script_step.apply_aura [THEN step_eq]

lemmas api_unfold = raise_error_def return_vals_def Let_def

lemma api_ok_update_db_aura [api_intros]:
  assumes "\<And>a. same_aura a (f a)"
  shows "api_at w (update_db_aura i f)"
proof (rule api_atI, goal_cases)
  case (1 r w')
  then show ?case using assms
    by (auto simp: update_db_aura_def api_unfold get_aura_def set_aura_def
        split: option.splits intro: steps)
qed

lemma api_ok_AuraAdd [api_intros]: "api_at w (L_AuraAdd env args)"
proof -
  have add: "api_at w (\<lambda>w. bindR (CAura_new nm 1 per lo hi school False False period (w_iGUIDCounter w))
     (\<lambda>(a, guid). case new_aura a (w\<lparr>w_iGUIDCounter := guid\<rparr>) of (p, w) \<Rightarrow>
         bindR (Sim_Aura.AddAura p (w_AuraDB w, w_auras w)) (\<lambda>(n, db, h).
           return_vals [push_u32 n] (w\<lparr>w_AuraDB := db, w_auras := h\<rparr>))))" for nm per lo hi school period
  proof (rule api_atI, goal_cases)
    case (1 r w')
    then obtain a g n db h where a: "CAura_new nm 1 per lo hi school False False period (w_iGUIDCounter w) = Inr (a, g)"
      and n: "Sim_Aura.AddAura (w_next w) (w_AuraDB w, (w_auras w)(w_next w \<mapsto> a)) = Inr (n, db, h)"
      and w': "w' = w\<lparr>w_next := Suc (w_next w), w_iGUIDCounter := g, w_AuraDB := db, w_auras := h\<rparr>"
      by (auto simp: new_aura_def return_vals_def)
    then show ?case using script_step.new_aura [OF a n] by simp
  qed
  show ?thesis unfolding L_AuraAdd_def Let_def by (intro api_intros add)
qed

lemma api_ok_aura_queries [api_intros]:
  "api_at w (L_AuraNameToID env args)" "api_at w (L_AuraIDToName env args)"
  "api_at w (L_AuraGetSchool env args)"
  unfolding L_AuraNameToID_def L_AuraIDToName_def L_AuraGetSchool_def
  by ((intro api_intros)?; auto intro!: api_atI simp: api_unfold split: option.splits)+

lemma api_ok_aura_flags [api_intros]:
  "api_at w (L_AuraEnableCrit env args)" "api_at w (L_AuraDisableCrit env args)"
  "api_at w (L_AuraEnableHaste env args)" "api_at w (L_AuraDisableHaste env args)"
  "api_at w (L_AuraSetSPPrecentagePreTick env args)"
  unfolding L_AuraEnableCrit_def L_AuraDisableCrit_def L_AuraEnableHaste_def L_AuraDisableHaste_def
    L_AuraSetSPPrecentagePreTick_def
  by (intro api_intros; simp add: same_aura_def)+

lemmas event_adders = AddDamage_def AddDamagePrecentage_def AddCritRaiting_def AddHasteRaiting_def
  AddHitRaiting_def AddCastTime_def AddCooldown_def

lemma EventStats_add_same:
  "EventStats_add dbg ty v i pl e = Inr (Some e') \<Longrightarrow> same_event e e'"
  by (auto simp: EventStats_add_def event_adders same_event_def Let_def split: if_splits)

lemma api_ok_EventAddStats [api_intros]: "api_at w (L_EventAddStats env args)"
proof -
  have "api_at w (\<lambda>w. case w_CurrentEvent w of
        None \<Rightarrow> raise_error ''Not in a event'' w
      | Some p \<Rightarrow>
          bindR (get_event p w) (\<lambda>e.
          bindR (EventStats_add dbg iStats dValue iIndex (w_CurrentPlayer w) e) (\<lambda>r. case r of
            None \<Rightarrow> raise_error ''Invaild param #1, COMBAT_STATS expected'' w
          | Some e' \<Rightarrow> return_vals [] (set_event p e' w))))" for dbg iStats dValue iIndex
    by (rule api_atI) (auto simp: api_unfold get_event_def set_event_def
        split: option.splits dest: EventStats_add_same intro: steps)
  then show ?thesis unfolding L_EventAddStats_def Let_def by (intro api_intros)
qed

text \<open>Reading a statistic may roll the dice, and does nothing else.\<close>

lemma c_rand_world: "c_rand env w = (r, w') \<Longrightarrow> w' = w\<lparr>w_rand := Suc (w_rand w)\<rparr>"
  by (simp add: c_rand_def)

lemma Spell_Get_Damage_rand:
  "safeR (\<lambda>(d, w'). \<exists>n. w' = w\<lparr>w_rand := n\<rparr>) (Spell_Get_Damage env e sp w)"
  unfolding Spell_Get_Damage_def Let_def
  by (intro safe_intros) (auto dest!: c_rand_world intro: exI [of _ "w_rand w"])

lemma Aura_Get_Damage_rand:
  "safeR (\<lambda>(d, w'). \<exists>n. w' = w\<lparr>w_rand := n\<rparr>) (Aura_Get_Damage env e ae w)"
  unfolding Aura_Get_Damage_def Let_def
  by (intro safe_intros) (auto dest!: c_rand_world intro: exI [of _ "w_rand w"])

lemma ev_Get_Damage_rand: "ev_Get_Damage env e w = Inr (d, w') \<Longrightarrow> \<exists>n. w' = w\<lparr>w_rand := n\<rparr>"
  by (auto simp: ev_Get_Damage_def split: event_part.splits
      dest: safeR_D [OF Spell_Get_Damage_rand] safeR_D [OF Aura_Get_Damage_rand])

lemma EventStats_get_rand: "EventStats_get env ty e w = Inr (d, w') \<Longrightarrow> \<exists>n. w' = w\<lparr>w_rand := n\<rparr>"
  by (auto simp: EventStats_get_def split: if_splits dest: ev_Get_Damage_rand
      intro: exI [of _ "w_rand w"])

lemma step_rand: "script_steps w (w\<lparr>w_rand := n\<rparr>)"
  using script_step.rand by blast

lemma api_ok_EventGetStats [api_intros]: "api_at w (L_EventGetStats env args)"
  unfolding L_EventGetStats_def
  by ((intro api_intros)?; auto intro!: api_atI step_rand simp: api_unfold split: option.splits
      dest!: EventStats_get_rand)

lemma api_ok_finish_spell:
  assumes "\<forall>p. pa = Some p \<longrightarrow> (\<exists>i. GetAuraByID (w_AuraDB w) i = Some p)"
  shows "api_at w (\<lambda>w. bindR (CSpell_new nm ty lo hi cast cd school pa fade ticks)
           (\<lambda>s. case new_spell s w of (p, w) \<Rightarrow>
            bindR (AddSpell p (w_SpellDB w, w_spells w)) (\<lambda>(n, db, h).
              return_vals [push_u32 n] (w\<lparr>w_SpellDB := db, w_spells := h\<rparr>))))"
proof (rule api_atI, goal_cases)
  case (1 r w')
  then obtain s n db h where s: "CSpell_new nm ty lo hi cast cd school pa fade ticks = Inr s"
    and n: "AddSpell (w_next w) (w_SpellDB w, (w_spells w)(w_next w \<mapsto> s)) = Inr (n, db, h)"
    and w': "w' = w\<lparr>w_next := Suc (w_next w), w_SpellDB := db, w_spells := h\<rparr>"
    by (auto simp: Sim_World.new_spell_def return_vals_def)
  then show ?case using script_step.new_spell [OF s assms n] by simp
qed

lemma api_at_case_option [api_intros]:
  "(x w = None \<Longrightarrow> api_at w (\<lambda>w. f w)) \<Longrightarrow> (\<And>y. x w = Some y \<Longrightarrow> api_at w (\<lambda>w. g y w)) \<Longrightarrow>
   api_at w (\<lambda>w. case x w of None \<Rightarrow> f w | Some y \<Rightarrow> g y w)"
  by (cases "x w") (auto simp: api_at_def)

lemma api_at_bind:
  "(\<And>x. m w = Inr x \<Longrightarrow> api_at w (\<lambda>w. g x w)) \<Longrightarrow> api_at w (\<lambda>w. bindR (m w) (\<lambda>x. g x w))"
  by (cases "m w") (auto simp: api_at_def)

lemma api_at_if:
  "(c w \<Longrightarrow> api_at w (\<lambda>w. f w)) \<Longrightarrow> (\<not> c w \<Longrightarrow> api_at w (\<lambda>w. g w)) \<Longrightarrow>
   api_at w (\<lambda>w. if c w then f w else g w)"
  by (simp add: api_at_def)

lemmas api_struct = api_at_bind api_at_if

lemma api_ok_SpellAdd [api_intros]: "api_at w (L_SpellAdd env args)"
  unfolding L_SpellAdd_def Let_def
  by (intro api_intros; simp only: prod.case; intro api_intros; (intro api_ok_finish_spell)?; auto)

lemma api_ok_SpellNameToID [api_intros]: "api_at w (L_SpellNameToID env args)"
  unfolding L_SpellNameToID_def
  by ((intro api_intros)?; auto intro!: api_atI simp: api_unfold split: option.splits)

lemma api_ok_spell_field [api_intros]: "api_at w (spell_field env f args)"
  unfolding spell_field_def
  by ((intro api_intros)?; auto intro!: api_atI simp: api_unfold split: option.splits)

lemma api_ok_SpellSetSP [api_intros]: "api_at w (L_SpellSetSPPrecentage env args)"
proof -
  have "api_at w (\<lambda>w. bindR (get_spell p w) (\<lambda>s.
       return_vals [] (w\<lparr>w_spells := (w_spells w)(p \<mapsto> s\<lparr>m_SPPrecentage := x\<rparr>)\<rparr>)))"
    if "GetSpellByID (w_SpellDB w) i = Some p" for i p x
    using that by (auto intro!: api_atI simp: api_unfold get_spell_def
        intro!: r_into_rtranclp script_step.modify_spell [OF _ _ same_spell_SP])
  then show ?thesis unfolding L_SpellSetSPPrecentage_def by (intro api_intros)
qed

text \<open>Changes to the player never touch its auras, and can only interrupt a cast.\<close>

lemma step_player:
  "get_player w = Inr p \<Longrightarrow> p_auraMap p' = p_auraMap p \<Longrightarrow>
   p_CastingSpell p' = p_CastingSpell p \<or> p_CastingSpell p' = None \<Longrightarrow> script_steps w (set_player p' w)"
  by (auto simp: get_player_def set_player_def intro: steps)

lemma set_player_stat_frame:
  "p_auraMap (set_player_stat ty s p) = p_auraMap p"
  "p_CastingSpell (set_player_stat ty s p) = p_CastingSpell p"
  by (auto simp: set_player_stat_def)

lemmas player_frame = AddHastePrecentage_def Set_GlobalCooldownTime_def StopCasting_def
  set_player_stat_frame

lemma get_player_Some: "w_CurrentPlayer w = Some p \<Longrightarrow> get_player w = Inr p"
  by (simp add: get_player_def)

lemma api_ok_PlayerAddStats [api_intros]: "api_at w (L_PlayerAddStats env args)"
  unfolding L_PlayerAddStats_def
  by ((intro api_intros api_struct)?; auto intro!: api_atI simp: api_unfold player_frame ReadyExit_def
      split: option.split_asm if_splits dest: unreachable_steps intro: steps get_player_Some;
      ((erule step_player [OF get_player_Some] step_player; simp add: player_frame)?))

lemma api_ok_PlayerAddStatsMultiplier [api_intros]: "api_at w (L_PlayerAddStatsMultiplier env args)"
  unfolding L_PlayerAddStatsMultiplier_def
  by ((intro api_intros api_struct)?; auto intro!: api_atI simp: api_unfold player_frame ReadyExit_def
      split: option.split_asm if_splits dest: unreachable_steps intro: steps get_player_Some;
      ((erule step_player [OF get_player_Some] step_player; simp add: player_frame)?))

lemma api_ok_PlayerSetStats [api_intros]: "api_at w (L_PlayerSetStats env args)"
  unfolding L_PlayerSetStats_def
  by ((intro api_intros api_struct)?; auto intro!: api_atI simp: api_unfold player_frame ReadyExit_def
      split: option.split_asm if_splits dest: unreachable_steps intro: steps get_player_Some;
      ((erule step_player [OF get_player_Some] step_player; simp add: player_frame)?))

lemma api_ok_PlayerGetStats [api_intros]: "api_at w (L_PlayerGetStats env args)"
  unfolding L_PlayerGetStats_def
  by ((intro api_intros api_struct)?; auto intro!: api_atI simp: api_unfold split: option.split_asm if_splits
      dest: unreachable_steps)

lemma api_ok_PlayerGetPrecentage [api_intros]: "api_at w (L_PlayerGetPrecentage env args)"
  unfolding L_PlayerGetPrecentage_def
  by ((intro api_intros api_struct)?; auto intro!: api_atI simp: api_unfold split: option.split_asm if_splits
      dest: unreachable_steps)

lemma api_ok_PlayerGetSpellCastTime [api_intros]: "api_at w (L_PlayerGetSpellCastTime env args)"
  unfolding L_PlayerGetSpellCastTime_def
  by ((intro api_intros api_struct)?; auto intro!: api_atI simp: api_unfold split: option.split_asm if_splits
      dest: unreachable_steps)

lemma api_ok_PlayerGetSpellCooldown [api_intros]: "api_at w (L_PlayerGetSpellCooldown env args)"
  unfolding L_PlayerGetSpellCooldown_def
  by ((intro api_intros api_struct)?; auto intro!: api_atI simp: api_unfold split: option.split_asm if_splits
      dest: unreachable_steps)

lemma api_ok_PlayerSpellIsAvailable [api_intros]: "api_at w (L_PlayerSpellIsAvailable env args)"
  unfolding L_PlayerSpellIsAvailable_def
  by ((intro api_intros api_struct)?; auto intro!: api_atI simp: api_unfold split: option.split_asm if_splits
      dest: unreachable_steps)

lemma api_ok_PlayerIsIdle [api_intros]: "api_at w (L_PlayerIsIdle args)"
  unfolding L_PlayerIsIdle_def
  by ((intro api_intros api_struct)?; auto intro!: api_atI simp: api_unfold split: option.split_asm if_splits
      dest: unreachable_steps)

lemma api_ok_PlayerRatingToPrecentage [api_intros]: "api_at w (L_PlayerRatingToPrecentage env args)"
  unfolding L_PlayerRatingToPrecentage_def
  by ((intro api_intros api_struct)?; auto intro!: api_atI simp: api_unfold split: option.split_asm if_splits
      dest: unreachable_steps)

lemma api_ok_PlayerPrecentageToRating [api_intros]: "api_at w (L_PlayerPrecentageToRating env args)"
  unfolding L_PlayerPrecentageToRating_def
  by ((intro api_intros api_struct)?; auto intro!: api_atI simp: api_unfold split: option.split_asm if_splits
      dest: unreachable_steps)

lemma api_ok_GetGameTime [api_intros]: "api_at w (L_GetGameTime args)"
  unfolding L_GetGameTime_def
  by ((intro api_intros api_struct)?; auto intro!: api_atI simp: api_unfold split: option.split_asm if_splits
      dest: unreachable_steps)

lemma api_ok_UnitAuraApplied [api_intros]: "api_at w (L_UnitAuraApplied env args)"
  unfolding L_UnitAuraApplied_def
  by ((intro api_intros api_struct)?; auto intro!: api_atI simp: api_unfold split: option.split_asm if_splits
      dest: unreachable_steps)

lemma api_ok_StopCasting [api_intros]: "api_at w (L_StopCasting args)"
  unfolding L_StopCasting_def
  by ((intro api_intros api_struct)?; auto intro!: api_atI simp: api_unfold player_frame ReadyExit_def
      split: option.split_asm if_splits dest: unreachable_steps intro: steps get_player_Some;
      ((erule step_player [OF get_player_Some] step_player; simp add: player_frame)?))

lemma api_ok_PlayerSleep [api_intros]: "api_at w (L_PlayerSleep env args)"
  unfolding L_PlayerSleep_def
  by ((intro api_intros api_struct)?; auto intro!: api_atI simp: api_unfold player_frame ReadyExit_def
      split: option.split_asm if_splits dest: unreachable_steps intro: steps get_player_Some;
      ((erule step_player [OF get_player_Some] step_player; simp add: player_frame)?))

lemma api_ok_FinalizeCalculation [api_intros]: "api_at w (L_FinalizeCalculation args)"
  unfolding L_FinalizeCalculation_def
  by ((intro api_intros api_struct)?; auto intro!: api_atI simp: api_unfold player_frame ReadyExit_def
      split: option.split_asm if_splits dest: unreachable_steps intro: steps get_player_Some;
      ((erule step_player [OF get_player_Some] step_player; simp add: player_frame)?))

lemma api_ok_PlayerSetCritBonus [api_intros]: "api_at w (L_PlayerSetCritBonus env args)"
  unfolding L_PlayerSetCritBonus_def
  by ((intro api_intros api_struct)?; auto intro!: api_atI simp: api_unfold player_frame ReadyExit_def
      split: option.split_asm if_splits dest: unreachable_steps intro: steps get_player_Some;
      ((erule step_player [OF get_player_Some] step_player; simp add: player_frame)?))

lemma api_ok_units [api_intros]:
  "api_at w (L_TargetCreate env args)" "api_at w (L_TargetDestory env args)"
  unfolding L_TargetCreate_def L_TargetDestory_def
  by ((intro api_intros api_struct)?; auto intro!: api_atI simp: api_unfold GetCreatureByName_def
      split: option.split_asm if_splits intro: steps)+

lemma step_cast:
  "w_CurrentPlayer w = Some p \<Longrightarrow> IsIdle (w_iGameTime w) p \<Longrightarrow>
   GetSpellByName (w_SpellDB w) (w_spells w) nm = Inr (Some s) \<Longrightarrow>
   script_steps w (queue_new (CSpellEvent_new s t) w)"
  using script_step.cast by blast

lemma api_ok_cast [api_intros]: "api_at w (L_CastSpellByName env args)"
  unfolding L_CastSpellByName_def
  by (intro api_intros api_struct; auto intro!: api_atI simp: api_unfold get_player_def
      split: option.split_asm if_splits; drule (2) step_cast; simp add: queue_new_def new_event_def)

lemma api_ok_apply_aura [api_intros]: "api_at w (L_UnitApplyAura env args)"
  unfolding L_UnitApplyAura_def Let_def
  by ((intro api_intros api_struct)?; auto intro!: api_atI simp: api_unfold queue_new_def new_event_def
      split: option.split_asm if_splits intro: steps)

subsection \<open>Scripts\<close>

lemma api_call_at: "api_at w (api_call env f args)"
proof (cases "map_of (api_table env) f")
  case None
  then show ?thesis by (simp add: api_call_def api_ok_basic)
next
  case (Some g)
  then have "(f, g) \<in> set (api_table env)" by (rule map_of_SomeD)
  then have "api_at w (g args)"
    by (auto simp: api_table_def L_SpellIDToName_def L_SpellGetCooldown_def L_SpellGetSchool_def
        intro!: api_intros)
  with Some show ?thesis by (simp add: api_call_def)
qed

lemma api_call_steps: "api_call env f args w = Inr (r, w') \<Longrightarrow> script_steps w w'"
  by (rule api_atD [OF api_call_at])

lemma run_prog_steps: "run_prog env pr w = Inr (ok, w') \<Longrightarrow> script_steps w w'"
proof (induction pr arbitrary: w)
  case (PCall f args k)
  from PCall.prems obtain r w1 where "api_call env f args w = Inr (r, w1)"
    and k: "run_prog env (k r) w1 = Inr (ok, w')" by auto
  then have "script_steps w w1" using api_call_steps by blast
  also have "script_steps w1 w'" using PCall.IH k by blast
  finally show ?case .
qed (auto intro: script_step.lua)

lemma hook_steps: "CallLuaFunction env f n w = Inr w' \<Longrightarrow> script_steps w w'"
  by (auto simp: CallLuaFunction_def dest: run_prog_steps)

lemma chunk_steps: "RunLuaCode env code w = Inr (ok, w') \<Longrightarrow> script_steps w w'"
  by (auto simp: RunLuaCode_def split: option.split_asm if_split_asm dest: run_prog_steps)

end
