(* ===== verification/Sim_Inv.thy ===== *)
theory Sim_Inv
  imports Sim_Script
begin

text \<open>
  The invariant of the simulation loop. \<open>grows w w'\<close> says how the code may change the world
  while an event is handled: time stands still, nothing is dequeued or deleted, every new event
  is queued exactly once, behind what is there, and a cast is at most interrupted. Scripts only
  make it grow, whatever they do (\<open>hook_grows\<close>); the handlers do, but for the event they
  handle (\<open>event_run_contract\<close>); so \<open>ProcessEvent\<close> keeps \<open>world_ok\<close>: an event is live
  exactly while it is queued, and the spell being cast is one of them.
\<close>

subsection \<open>Events and their phases\<close>

definition is_spell_event :: "cevent \<Rightarrow> bool" where
  "is_spell_event e = (case ev_part e of SpellPart sp \<Rightarrow> True | AuraPart ae \<Rightarrow> False)"

definition same_kind :: "cevent \<Rightarrow> cevent \<Rightarrow> bool" where
  "same_kind e e' \<longleftrightarrow> ev_EventType e' = ev_EventType e \<and> ev_Parent e' = ev_Parent e \<and>
     ev_theTarget e' = ev_theTarget e \<and> is_spell_event e' = is_spell_event e"

definition phase_ok :: "cevent \<Rightarrow> bool" where
  "phase_ok e \<longleftrightarrow> (is_spell_event e \<longrightarrow> ev_EventType e \<in>
     {EVENT_SPELL_CAST OR EVENT_PRE, EVENT_SPELL_CAST OR EVENT_POST,
      EVENT_SPELL_CHANNEL OR EVENT_PRE, EVENT_SPELL_CHANNEL OR EVENT_POST})"

lemma phase_cases:
  assumes "phase_ok e" and "is_spell_event e"
  obtains (pre) "has_bits (ev_EventType e) EVENT_PRE" "\<not> has_bits (ev_EventType e) EVENT_POST"
      "has_bits (ev_EventType (flip_phase e)) EVENT_POST"
    | (post) "has_bits (ev_EventType e) EVENT_POST" "\<not> has_bits (ev_EventType e) EVENT_PRE"
  using assms by (auto simp: phase_ok_def has_bits_def flip_phase_def game_consts)

lemma flip_phase_ok: "phase_ok e \<Longrightarrow> has_bits (ev_EventType e) EVENT_PRE \<Longrightarrow> phase_ok (flip_phase e)"
  by (auto simp: phase_ok_def has_bits_def flip_phase_def game_consts is_spell_event_def)

lemma flip_phase_cast: "phase_ok e \<Longrightarrow> is_spell_event e \<Longrightarrow> is_cast (flip_phase e) = is_cast e"
  by (auto simp: phase_ok_def has_bits_def flip_phase_def game_consts is_cast_def)

lemma same_kind_refl [simp]: "same_kind e e"
  by (simp add: same_kind_def)

lemma same_kind_trans: "same_kind e1 e2 \<Longrightarrow> same_kind e2 e3 \<Longrightarrow> same_kind e1 e3"
  by (simp add: same_kind_def)

lemma same_event_kind: "same_event e e' \<Longrightarrow> same_kind e e'"
  by (simp add: same_event_def same_kind_def is_spell_event_def)

lemma phase_ok_same_kind: "same_kind e e' \<Longrightarrow> phase_ok e' = phase_ok e"
  by (simp add: phase_ok_def same_kind_def)

lemma is_cast_same_kind: "same_kind e e' \<Longrightarrow> is_cast e' = is_cast e"
  by (simp add: is_cast_def same_kind_def)

lemma new_events_phase_ok [simp]:
  "phase_ok (CSpellEvent_new s t)" "phase_ok (CAuraEvent_new a t n f b)"
  "phase_ok (CAuraEvent_new_removal a t g)" "phase_ok (aura_follow_up ty g ps e ae)"
  "phase_ok (e\<lparr>ev_part := AuraPart x\<rparr>)"
  by (simp_all add: phase_ok_def CSpellEvent_new_def CEvent_new_def CAuraEvent_new_def
      CAuraEvent_new_removal_def aura_follow_up_def SetApplySpell_def is_spell_event_def)

subsection \<open>How the world grows\<close>

definition live :: "'l world \<Rightarrow> addr \<Rightarrow> bool" where
  "live w p \<longleftrightarrow> w_events w p \<noteq> None"

definition store_ok :: "'l world \<Rightarrow> bool" where
  "store_ok w \<longleftrightarrow> queue_ok (w_eventMap w) \<and> (\<forall>p. live w p \<longrightarrow> p < w_next w)"

definition times_queued :: "'l world \<Rightarrow> addr \<Rightarrow> nat" where
  "times_queued w p = count (mset (queued (w_eventMap w))) p"

definition casting :: "'l world \<Rightarrow> addr option" where
  "casting w = (case w_CurrentPlayer w of None \<Rightarrow> None | Some pl \<Rightarrow> p_CastingSpell pl)"

text \<open>The part that concerns the scheduler's fields, and the part that concerns the events.\<close>

definition fixed_part :: "'l world \<Rightarrow> 'l world \<Rightarrow> bool" where
  "fixed_part w w' \<longleftrightarrow> w_iGameTime w' = w_iGameTime w \<and> w_CurrentEvent w' = w_CurrentEvent w \<and>
     w_CurrentTarget w' = w_CurrentTarget w \<and> w_pLuaState w' = w_pLuaState w \<and>
     (w_CurrentPlayer w' = None \<longleftrightarrow> w_CurrentPlayer w = None) \<and>
     (casting w' = casting w \<or> casting w' = None)"

definition queue_part :: "'l world \<Rightarrow> 'l world \<Rightarrow> bool" where
  "queue_part w w' \<longleftrightarrow> w_next w \<le> w_next w' \<and>
     (\<forall>t. \<exists>xs. qlist (w_eventMap w') t = qlist (w_eventMap w) t @ xs) \<and>
     (\<forall>p. times_queued w' p = times_queued w p + (if live w' p \<and> \<not> live w p then 1 else 0)) \<and>
     (\<forall>p e. w_events w p = Some e \<longrightarrow> (\<exists>e'. w_events w' p = Some e' \<and> same_kind e e')) \<and>
     (\<forall>p e. w_events w' p = Some e \<longrightarrow> \<not> live w p \<longrightarrow> w_next w \<le> p \<and> phase_ok e)"

definition grows :: "'l world \<Rightarrow> 'l world \<Rightarrow> bool" where
  "grows w w' \<longleftrightarrow> fixed_part w w' \<and> (store_ok w \<longrightarrow> store_ok w' \<and> queue_part w w')"

lemma fixed_part_trans: "fixed_part w1 w2 \<Longrightarrow> fixed_part w2 w3 \<Longrightarrow> fixed_part w1 w3"
  by (auto simp: fixed_part_def)

lemma queue_part_live: "queue_part w w' \<Longrightarrow> live w p \<Longrightarrow> live w' p"
  by (fastforce simp: queue_part_def live_def)

lemma queue_part_trans:
  assumes 1: "queue_part w1 w2" and 2: "queue_part w2 w3"
  shows "queue_part w1 w3"
proof -
  have "w_next w1 \<le> w_next w3" using 1 2 by (auto simp: queue_part_def)
  moreover have "\<exists>xs. qlist (w_eventMap w3) t = qlist (w_eventMap w1) t @ xs" for t
  proof -
    obtain xs ys where "qlist (w_eventMap w2) t = qlist (w_eventMap w1) t @ xs"
      and "qlist (w_eventMap w3) t = qlist (w_eventMap w2) t @ ys"
      using 1 2 unfolding queue_part_def by blast
    then show ?thesis by simp
  qed
  moreover have "times_queued w3 p = times_queued w1 p + (if live w3 p \<and> \<not> live w1 p then 1 else 0)" for p
  proof -
    have "times_queued w3 p = times_queued w2 p + (if live w3 p \<and> \<not> live w2 p then 1 else 0)"
      and "times_queued w2 p = times_queued w1 p + (if live w2 p \<and> \<not> live w1 p then 1 else 0)"
      using 1 2 by (auto simp: queue_part_def)
    moreover have "live w1 p \<Longrightarrow> live w2 p" "live w2 p \<Longrightarrow> live w3 p"
      using queue_part_live 1 2 by blast+
    ultimately show ?thesis by (cases "live w1 p"; cases "live w2 p"; cases "live w3 p") simp_all
  qed
  moreover have "\<exists>e'. w_events w3 p = Some e' \<and> same_kind e e'" if "w_events w1 p = Some e" for p e
    using that 1 2 same_kind_trans unfolding queue_part_def by meson
  moreover have "w_next w1 \<le> p \<and> phase_ok e" if e: "w_events w3 p = Some e" and n: "\<not> live w1 p" for p e
  proof (cases "live w2 p")
    case True
    then obtain e2 where e2: "w_events w2 p = Some e2" by (auto simp: live_def)
    then have "w_next w1 \<le> p" "phase_ok e2" using 1 n by (auto simp: queue_part_def)
    moreover have "same_kind e2 e" using 2 e e2 by (fastforce simp: queue_part_def)
    ultimately show ?thesis by (simp add: phase_ok_same_kind)
  next
    case False
    then show ?thesis using 1 2 e by (fastforce simp: queue_part_def)
  qed
  ultimately show ?thesis by (simp add: queue_part_def)
qed

lemma grows_refl [simp]: "grows w w"
  by (auto simp: grows_def fixed_part_def queue_part_def live_def)

lemma grows_trans [trans]: "grows w1 w2 \<Longrightarrow> grows w2 w3 \<Longrightarrow> grows w1 w3"
  unfolding grows_def using fixed_part_trans queue_part_trans by blast

subsection \<open>Single changes\<close>

lemma grows_frame:
  assumes "w_next w \<le> w_next w'" and "w_events w' = w_events w" and "w_eventMap w' = w_eventMap w"
    and "fixed_part w w'"
  shows "grows w w'"
  using assms by (fastforce simp: grows_def store_ok_def queue_part_def live_def times_queued_def)

lemma grows_set_event:
  "w_events w p = Some e \<Longrightarrow> same_kind e e' \<Longrightarrow> grows w (set_event p e' w)"
  by (auto simp: grows_def fixed_part_def store_ok_def queue_part_def live_def times_queued_def
      set_event_def casting_def)

lemma grows_queue_new:
  assumes "phase_ok e"
  shows "grows w (AddEvent (w_next w) d (snd (new_event e w)))"
  using assms
  by (auto simp: grows_def fixed_part_def store_ok_def queue_part_def live_def times_queued_def
      new_event_def AddEvent_def casting_def queue_add_ok mset_queue_add qlist_queue_add less_Suc_eq
      intro: less_SucI)

lemma grows_player:
  "w_CurrentPlayer w = Some pl \<Longrightarrow> p_CastingSpell pl' = p_CastingSpell pl \<or> p_CastingSpell pl' = None \<Longrightarrow>
   grows w (set_player pl' w)"
  by (rule grows_frame) (auto simp: set_player_def fixed_part_def casting_def)

lemma script_step_grows: "script_step w w' \<Longrightarrow> grows w w'"
proof (induction rule: script_step.induct)
  case (modify_event w q e e')
  then show ?case using grows_set_event same_event_kind by (fastforce simp: set_event_def)
next
  case (player w p p')
  then show ?case using grows_player [of w p p'] by (simp add: set_player_def)
qed (auto simp: queue_new_def intro!: grows_queue_new intro: grows_frame
      simp: fixed_part_def casting_def)

lemma script_steps_grows: "script_steps w w' \<Longrightarrow> grows w w'"
  by (induction rule: rtranclp_induct) (auto intro: grows_trans script_step_grows)

lemma hook_grows: "CallLuaFunction env f n w = Inr w' \<Longrightarrow> grows w w'"
  by (intro script_steps_grows hook_steps)

lemma chunk_grows: "RunLuaCode env code w = Inr (ok, w') \<Longrightarrow> grows w w'"
  by (intro script_steps_grows chunk_steps)

end
