(* ===== verification/Sim_Handlers.thy ===== *)
theory Sim_Handlers
  imports Sim_Inv
begin

text \<open>
  What each event handler does to the world, as contracts relative to \<open>grows\<close>: the event
  comes to its end, or it is queued once more; a cast puts itself into the player's hands
  before its cast time and lets go when it is done.
\<close>

subsection \<open>Rules for walking through a handler\<close>

definition ended_or_requeued :: "addr \<Rightarrow> 'l world \<Rightarrow> bool \<times> 'l world \<Rightarrow> bool" where
  "ended_or_requeued p w r \<longleftrightarrow> (case r of (b, w') \<Rightarrow>
     if b then grows w w' else \<exists>w1 d. grows w w1 \<and> w' = AddEvent p d w1)"

lemma ended_or_requeued_simps [simp]:
  "ended_or_requeued p w (True, w') = grows w w'"
  "ended_or_requeued p w (False, w') = (\<exists>w1 d. grows w w1 \<and> w' = AddEvent p d w1)"
  by (simp_all add: ended_or_requeued_def)

lemma grows_to_safe: "grows w0 w \<Longrightarrow> (\<And>w'. m = Inr w' \<Longrightarrow> grows w w') \<Longrightarrow> safeR (grows w0) m"
  by (cases m) (auto intro: grows_trans)

lemma then_grows:
  "safeR (grows w0) m \<Longrightarrow> (\<And>w'. m = Inr w' \<Longrightarrow> grows w0 w' \<Longrightarrow> safeR P (f w')) \<Longrightarrow> safeR P (bindR m f)"
  by (cases m) auto

lemma then_grows_pair:
  "safeR (\<lambda>(x, w'). grows w0 w') m \<Longrightarrow>
   (\<And>x w'. m = Inr (x, w') \<Longrightarrow> grows w0 w' \<Longrightarrow> safeR P (f x w')) \<Longrightarrow>
   safeR P (bindR m (\<lambda>(x, w). f x w))"
  by (cases m) auto

lemma then_pair: "(\<And>x w'. r = (x, w') \<Longrightarrow> grows w0 w' \<Longrightarrow> safeR P (f x w')) \<Longrightarrow> grows w0 (snd r) \<Longrightarrow>
   safeR P (case r of (x, w) \<Rightarrow> f x w)"
  by (cases r) auto

named_theorems grow_steps

lemma hook_step [grow_steps]: "grows w0 w \<Longrightarrow> safeR (grows w0) (CallLuaFunction env f i w)"
  by (rule grows_to_safe) (auto intro: hook_grows)

lemma grows_rand: "grows w (w\<lparr>w_rand := n\<rparr>)"
  by (rule script_step_grows) (rule script_step.rand)

lemma rand_step [grow_steps]: "grows w0 w \<Longrightarrow> grows w0 (snd (c_rand env w))"
  using grows_trans grows_rand by (fastforce simp: c_rand_def)

lemma roll_step [grow_steps]: "grows w0 w \<Longrightarrow> grows w0 (snd (roll_below env h w))"
  using grows_trans grows_rand by (fastforce simp: c_rand_def roll_below_def)

lemma player_step [grow_steps]:
  "grows w0 w \<Longrightarrow> (\<And>pl. p_CastingSpell (f pl) = p_CastingSpell pl \<or> p_CastingSpell (f pl) = None) \<Longrightarrow>
   safeR (grows w0) (update_player f w)"
  by (rule grows_to_safe) (auto simp: update_player_def get_player_def intro: grows_player)

lemma get_spell_event_Inr:
  "get_spell_event p w = Inr (e, sp) \<longleftrightarrow> w_events w p = Some e \<and> ev_part e = SpellPart sp"
  by (cases "w_events w p"; cases "ev_part e"; auto simp: get_spell_event_def get_event_def
      split: event_part.split_asm)

lemma get_aura_event_Inr:
  "get_aura_event p w = Inr (e, ae) \<longleftrightarrow> w_events w p = Some e \<and> ev_part e = AuraPart ae"
  by (cases "w_events w p"; cases "ev_part e"; auto simp: get_aura_event_def get_event_def
      split: event_part.split_asm)

lemma spell_part_step [grow_steps]: "grows w0 w \<Longrightarrow> safeR (grows w0) (put_spell_part p f w)"
  by (rule grows_to_safe)
    (auto simp: put_spell_part_def get_spell_event_Inr same_kind_def is_spell_event_def
      intro!: grows_set_event)

lemma aura_part_step [grow_steps]: "grows w0 w \<Longrightarrow> safeR (grows w0) (put_aura_part p f w)"
  by (rule grows_to_safe)
    (auto simp: put_aura_part_def get_aura_event_Inr same_kind_def is_spell_event_def
      intro!: grows_set_event)

lemma set_aura_grows: "grows w (set_aura q a w)"
  by (rule grows_frame) (auto simp: set_aura_def fixed_part_def casting_def)

lemma set_aura_step [grow_steps]: "grows w0 w \<Longrightarrow> grows w0 (set_aura q a w)"
  using grows_trans set_aura_grows by blast

lemma new_aura_step [grow_steps]:
  "grows w0 w \<Longrightarrow> grows w0 (snd (new_aura a (w\<lparr>w_iGUIDCounter := g\<rparr>)))"
  by (rule grows_trans, assumption, rule grows_frame)
    (auto simp: new_aura_def fixed_part_def casting_def)

lemma delete_aura_step [grow_steps]: "grows w0 w \<Longrightarrow> grows w0 (delete_aura q w)"
  by (rule grows_trans, assumption, rule grows_frame)
    (auto simp: delete_aura_def fixed_part_def casting_def)

lemma queue_event_step [grow_steps]:
  "grows w0 w \<Longrightarrow> phase_ok e \<Longrightarrow> safeR (grows w0) (case new_event e w of (r, w) \<Rightarrow> Inr (AddEvent r d w))"
  using grows_trans grows_queue_new by (fastforce simp: new_event_def)

lemma auraMap_step [grow_steps]: "grows w0 w \<Longrightarrow> safeR (grows w0) (set_auraMap c m w)"
proof (rule grows_to_safe)
  fix w'
  assume "set_auraMap c m w = Inr w'"
  then show "grows w w'"
    by (auto simp: set_auraMap_def get_player_def split: cref.splits intro!: grows_player)
      (rule grows_frame, auto simp: fixed_part_def casting_def)
qed

lemma ReportDamage_grows: "ReportDamage dbg n d t c w = Inr w' \<Longrightarrow> grows w w'"
  unfolding ReportDamage_def
  by (auto split: if_split_asm intro!: grows_frame simp: fixed_part_def casting_def)

lemma report_step [grow_steps]: "grows w0 w \<Longrightarrow> safeR (grows w0) (report_hit env n d c e w)"
  unfolding report_hit_def
  by (rule grows_to_safe, assumption) (auto simp only: bindR_eq_Inr dest: ReportDamage_grows)

lemma spell_damage_step [grow_steps]:
  "grows w0 w \<Longrightarrow> safeR (\<lambda>(d, w'). grows w0 w') (Spell_Get_Damage env e sp w)"
  using grows_trans grows_rand by (fastforce intro!: safeR_I dest: safeR_D [OF Spell_Get_Damage_rand])

lemma aura_damage_step [grow_steps]:
  "grows w0 w \<Longrightarrow> safeR (\<lambda>(d, w'). grows w0 w') (Aura_Get_Damage env e ae w)"
  using grows_trans grows_rand by (fastforce intro!: safeR_I dest: safeR_D [OF Aura_Get_Damage_rand])

lemma ret_step [grow_steps]: "grows w0 w \<Longrightarrow> safeR (grows w0) (Inr w)"
  by simp

lemma let_step [grow_steps]: "safeR P (f a) \<Longrightarrow> safeR P (Let a f)"
  by simp

subsection \<open>Auras\<close>

lemma aura_refresh_step [grow_steps]: "grows w0 w \<Longrightarrow> safeR (grows w0) (aura_refresh p q w)"
  unfolding aura_refresh_def
  by (assumption | rule grow_steps | rule then_grows [of w0] | rule safe_intros | simp only:)+

lemma schedule_removal_step [grow_steps]:
  "grows w0 w \<Longrightarrow> safeR (grows w0) (aura_schedule_removal e ae guid fade w)"
  unfolding aura_schedule_removal_def
  by (assumption | rule grow_steps safe_intros | simp only: new_events_phase_ok)+

lemma aura_follow_up_part: "\<exists>x. ev_part (aura_follow_up ty guid ps e ae) = AuraPart x"
  by (simp add: aura_follow_up_def SetApplySpell_def CEvent_new_def)

text \<open>The periodic event is entered into the queue only after its period has been computed; in
  between it is a live event that is not queued, so the two steps are one.\<close>

lemma queue_updated_new:
  assumes "phase_ok e" and "ev_part e = AuraPart x"
    and "put_aura_part (w_next w) f (snd (new_event e w)) = Inr w'"
  shows "grows w (AddEvent (w_next w) d w')"
proof -
  have "w' = snd (new_event (e\<lparr>ev_part := AuraPart (f x)\<rparr>) w)"
    using assms by (auto simp: put_aura_part_def get_aura_event_Inr new_event_def set_event_def)
  then show ?thesis by (simp add: grows_queue_new)
qed

lemma schedule_periodic_step [grow_steps]:
  assumes "grows w0 w"
  shows "safeR (grows w0) (aura_schedule_periodic e ae a guid q w)"
proof (rule safeR_I)
  fix w'
  assume r: "aura_schedule_periodic e ae a guid q w = Inr w'"
  show "grows w0 w'"
  proof (cases "m_bIsPeriodic a")
    case False
    with r assms show ?thesis by (simp add: aura_schedule_periodic_def)
  next
    case True
    with r obtain ps f d w2 ta where
      put: "put_aura_part (w_next w) f (snd (new_event (aura_follow_up EVENT_AURA_PERIODIC_EVENT guid ps e ae) w)) = Inr w2"
      and w': "w' = set_aura q ta (AddEvent (w_next w) d w2)"
      by (auto simp: aura_schedule_periodic_def new_event_def Let_def)
    obtain x where "ev_part (aura_follow_up EVENT_AURA_PERIODIC_EVENT guid ps e ae) = AuraPart x"
      using aura_follow_up_part by blast
    then have "grows w (AddEvent (w_next w) d w2)" using put by (intro queue_updated_new) auto
    then show ?thesis using assms grows_trans set_aura_grows w' by blast
  qed
qed

lemma case_CAura_copy_step:
  "(\<And>na g. safeR P (f na g)) \<Longrightarrow> safeR P (case CAura_copy a c of (na, g) \<Rightarrow> f na g)"
  by (cases "CAura_copy a c") auto

lemma aura_apply_new_step [grow_steps]: "grows w0 w \<Longrightarrow> safeR (grows w0) (aura_apply_new p w)"
  unfolding aura_apply_new_def
  by (assumption | rule grow_steps case_CAura_copy_step | rule then_pair [of _ w0] then_grows [of w0]
      | rule safe_intros)+

lemma ended_step [grow_steps]: "grows w0 w \<Longrightarrow> ended_or_requeued p w0 (True, w)"
  by simp

lemma requeued_step [grow_steps]: "grows w0 w \<Longrightarrow> ended_or_requeued p w0 (False, AddEvent p d w)"
  by auto

lemma reset_step [grow_steps]:
  "grows w0 w \<Longrightarrow> get_aura_event p w = Inr (e, ae) \<Longrightarrow>
   grows w0 (set_event p (ResetAdditionals (e\<lparr>ev_part := AuraPart x\<rparr>)) w)"
  by (rule grows_trans, assumption, rule grows_set_event)
    (auto simp: get_aura_event_Inr same_kind_def is_spell_event_def ResetAdditionals_def)

lemma AuraApplication_contract: "safeR (ended_or_requeued p w) (AuraApplication env p w)"
  unfolding AuraApplication_def
  by (assumption | rule grows_refl grow_steps | rule then_grows [of w] | rule safe_intros
      | hypsubst)+

lemma AuraRemoval_contract: "safeR (ended_or_requeued p w) (AuraRemoval env p w)"
  unfolding AuraRemoval_def
  by (assumption | rule grows_refl grow_steps | rule then_grows [of w] | rule safe_intros
      | hypsubst)+

lemma AuraPeriodic_contract: "safeR (ended_or_requeued p w) (AuraPeriodic env p w)"
  unfolding AuraPeriodic_def
  by (assumption | rule grows_refl grow_steps | rule then_grows [of w] then_grows_pair [of w] then_pair [of _ w] | rule safe_intros
      | hypsubst)+

subsection \<open>Spells\<close>

lemma phase_ok_SetApplySpell [simp]:
  "phase_ok (SetApplySpell ps (CAuraEvent_new a t n f b))"
  "phase_ok (SetApplySpell ps (CAuraEvent_new_removal a t g))"
  by (simp_all add: phase_ok_def CEvent_new_def CAuraEvent_new_def SetApplySpell_def
      CAuraEvent_new_removal_def is_spell_event_def)

lemma phase_ok_tick [simp]:
  "phase_ok ((CSpellEvent_new s t)\<lparr>ev_EventType := EVENT_SPELL_CHANNEL OR EVENT_PRE, ev_Parent := x\<rparr>)"
  by (simp add: phase_ok_def)

lemma channel_ticks_step [grow_steps]:
  "grows w0 w \<Longrightarrow> safeR (grows w0) (channel_ticks p s t ct n is w)"
proof (induction "is" arbitrary: w)
  case (Cons i "is")
  show ?case
    using Cons.IH grows_trans [OF Cons.prems grows_queue_new]
    by (auto intro!: safe_intros simp: new_event_def)
qed simp

lemma spell_apply_aura_step [grow_steps]: "grows w0 w \<Longrightarrow> safeR (grows w0) (spell_apply_aura p w)"
  unfolding spell_apply_aura_def
  by (assumption | rule grow_steps then_grows [of w0] | rule safe_intros
      | simp only: phase_ok_SetApplySpell)+

text \<open>Letting go of the cast, and what keeps it so.\<close>

definition let_go :: "bool \<Rightarrow> 'l world \<Rightarrow> 'l world \<Rightarrow> bool" where
  "let_go c w w' \<longleftrightarrow> grows w w' \<and> (c \<longrightarrow> casting w' = None)"

lemma casting_update_player:
  "update_player (\<lambda>pl. Set_CastingSpell None (f pl)) w = Inr w' \<Longrightarrow> casting w' = None"
  by (auto simp: update_player_def casting_def set_player_def Set_CastingSpell_def)

lemma grows_casting_None: "grows w w' \<Longrightarrow> casting w = None \<Longrightarrow> casting w' = None"
  by (auto simp: grows_def fixed_part_def)

lemma get_spell_event_cast:
  "grows w w' \<Longrightarrow> store_ok w \<Longrightarrow> get_spell_event p w = Inr (e, sp) \<Longrightarrow> get_spell_event p w' = Inr (e', sp') \<Longrightarrow>
   same_kind e e'"
  by (fastforce simp: get_spell_event_Inr grows_def queue_part_def)

lemma then_finish_cast:
  assumes "grows w0 w" and "\<And>w'. safeR (grows w') (f w')"
  shows "safeR (let_go True w0) (bindR
     (update_player (\<lambda>pl. Set_CastingSpell None (Set_GlobalCooldownTime rec pl)) w) f)"
proof (rule safeR_I)
  fix w2
  assume "bindR (update_player (\<lambda>pl. Set_CastingSpell None (Set_GlobalCooldownTime rec pl)) w) f = Inr w2"
  then obtain w1 where u: "update_player (\<lambda>pl. Set_CastingSpell None (Set_GlobalCooldownTime rec pl)) w = Inr w1"
    and f: "f w1 = Inr w2" by auto
  have "safeR (grows w0) (update_player (\<lambda>pl. Set_CastingSpell None (Set_GlobalCooldownTime rec pl)) w)"
    using assms(1) by (rule player_step) (simp add: Set_CastingSpell_def)
  with u have 1: "grows w0 w1" by (simp add: safeR_D)
  moreover have "casting w1 = None" using u by (rule casting_update_player)
  moreover have 2: "grows w1 w2" using safeR_D [OF assms(2) f] .
  ultimately show "let_go True w0 w2"
    by (auto simp: let_go_def intro: grows_trans grows_casting_None)
qed

lemma bindR_Inr_right: "bindR m Inr = m"
  by (cases m) auto

lemmas finish_cast = then_finish_cast [where f = Inr, unfolded bindR_Inr_right]

lemma then_same:
  "safeR (grows w0) m \<Longrightarrow> (\<And>w'. grows w0 w' \<Longrightarrow> safeR (grows w0) (f w')) \<Longrightarrow> safeR (grows w0) (bindR m f)"
  "safeR (\<lambda>(x, w'). grows w0 w') m' \<Longrightarrow> (\<And>x w'. grows w0 w' \<Longrightarrow> safeR (grows w0) (g x w')) \<Longrightarrow>
   safeR (grows w0) (bindR m' (\<lambda>(x, w). g x w))"
  "grows w0 (snd r) \<Longrightarrow> (\<And>x w'. grows w0 w' \<Longrightarrow> safeR (grows w0) (g x w')) \<Longrightarrow>
   safeR (grows w0) (case r of (x, w) \<Rightarrow> g x w)"
    apply (cases m; simp)
   apply (cases m'; auto)
  apply (cases r; simp)
  done

lemma bindR_case_prod: "bindR (case r of (a, b) \<Rightarrow> m a b) g = (case r of (a, b) \<Rightarrow> bindR (m a b) g)"
  by (cases r) simp

lemma let_go_False: "let_go False w0 = grows w0"
  by (simp add: let_go_def fun_eq_iff)

lemma Spell_PostAction_contract:
  assumes "get_spell_event p w = Inr (e, sp)"
  shows "safeR (let_go (is_cast e) w) (Spell_PostAction env p w)"
proof (cases "is_cast e")
  case True
  then show ?thesis
    unfolding Spell_PostAction_def
    by (simp only: assms bindR_simps prod.case if_True not_True_eq_False simp_thms if_False bindR_assoc
        bindR_case_prod)
      (assumption | rule grows_refl then_finish_cast finish_cast | rule grow_steps | rule then_same
        | rule then_grows [of w] then_pair [of _ w] | rule safe_intros
        | simp add: Set_CastingSpell_def Set_SpellCooldown_def)+
next
  case False
  then show ?thesis
    unfolding Spell_PostAction_def
    by (simp only: assms bindR_simps prod.case if_False not_False_eq_True simp_thms if_True let_go_False)
      (assumption | rule grows_refl grow_steps | rule then_same | rule safe_intros)+
qed

text \<open>Before its cast time a cast enters the player's hands, and leaves them when it misses.\<close>

definition start_cast :: "addr \<Rightarrow> 'l world \<Rightarrow> 'l world \<Rightarrow> bool" where
  "start_cast p w w' \<longleftrightarrow> (\<exists>pl. w_CurrentPlayer w = Some pl \<and> w' = set_player (Set_CastingSpell (Some p) pl) w)"

lemma finish_cast_pair:
  assumes "grows w0 w"
  shows "safeR (\<lambda>(r, w'). let_go r w0 w') (bindR
     (update_player (\<lambda>pl. Set_CastingSpell None (Set_GlobalCooldownTime rec pl)) w) (\<lambda>w. Inr (True, w)))"
  using finish_cast [OF assms, of rec]
  by (cases "update_player (\<lambda>pl. Set_CastingSpell None (Set_GlobalCooldownTime rec pl)) w") auto

lemma let_go_False_pair: "grows w0 w \<Longrightarrow> safeR (\<lambda>(r, w'). let_go r w0 w') (Inr (False, w))"
  by (simp add: let_go_False)

lemma Spell_PreAction_cast:
  assumes "get_spell_event p w = Inr (e, sp)" and "is_cast e"
    and "Spell_PreAction env p w = Inr (r, w')"
  shows "\<exists>w1 w2. grows w w1 \<and> start_cast p w1 w2 \<and> let_go r w2 w'"
proof -
  define tail where "tail = (\<lambda>w. bindR (get_player w) (\<lambda>pl.
     bindR (Get_GlobalCooldownTime pl) (\<lambda>g.
     bindR (dbl_to_u32 (d_add (u32_to_dbl (w_iGameTime w)) g)) (\<lambda>rec.
     bindR (put_spell_part p (\<lambda>sp. sp\<lparr>se_GCDRecovery := Some rec\<rparr>) w) (\<lambda>w.
     bindR (get_spell_event p w) (\<lambda>(e, sp).
     bindR (get_spell (se_pSpell sp) w) (\<lambda>s.
     if has_bits (m_SpellType s) SPELL_CHANNEL then
       bindR (CEvent_Get_HitChance e w) (\<lambda>h.
       case roll_below env h w of (hit, w) \<Rightarrow>
       bindR (put_spell_part p (\<lambda>sp. sp\<lparr>se_hit := Some hit\<rparr>) w) (\<lambda>w.
       if \<not> hit then
         bindR (update_player (\<lambda>pl. Set_CastingSpell None (Set_GlobalCooldownTime rec pl)) w)
           (\<lambda>w. Inr (True, w))
       else if m_ChannelTicks s = - 1 then Inl OutOfFuel
       else
         bindR (Spell_GetCastTime e sp w) (\<lambda>ct.
         bindR (channel_ticks p (se_pSpell sp) (ev_theTarget e) ct (m_ChannelTicks s)
                  [1..<Suc (unat (m_ChannelTicks s))] w) (\<lambda>w. Inr (False, w)))))
     else Inr (False, w))))))))"
  have tail: "safeR (\<lambda>(r, w'). let_go r w2 w') (tail w2)" for w2
    unfolding tail_def
    by (assumption | rule grows_refl finish_cast_pair let_go_False_pair grow_steps
        | rule then_grows [of w2] then_pair [of _ w2] | rule safe_intros)+
  have "bindR (get_spell (se_pSpell sp) w) (\<lambda>s. bindR (of_opt UninitRead (m_iSpellID s)) (\<lambda>i.
      bindR (CallLuaFunction env ''PreCastingSpellRoutine'' i w) (\<lambda>w.
      bindR (update_player (Set_CastingSpell (Some p)) w) tail))) = Inr (r, w')"
    using assms unfolding Spell_PreAction_def tail_def by (simp only: bindR_simps prod.case if_True)
  then obtain w1 w2 where "grows w w1" and "start_cast p w1 w2" and "tail w2 = Inr (r, w')"
    by (auto simp: update_player_def start_cast_def get_player_def dest!: hook_grows)
  with safeR_D [OF tail [of w2]] show ?thesis by blast
qed

lemma Spell_PreAction_channel:
  assumes "get_spell_event p w = Inr (e, sp)" and "\<not> is_cast e"
    and "Spell_PreAction env p w = Inr (r, w')"
  shows "grows w w' \<and> \<not> r"
  using assms by (auto simp: Spell_PreAction_def split: if_split_asm dest: hook_grows)

end
