(* ===== verification/Sim_Loop.thy ===== *)
theory Sim_Loop
  imports Sim_Handlers
begin

text \<open>
  The invariant of the loop and its preservation by \<open>ProcessEvent\<close>: every live event is
  queued exactly once and nothing else is queued, spell events are in one of their four phases,
  and the spell in the player's hands is a live cast that waits for its end. It makes the
  destructor of the event system free every event once.
\<close>

definition is_post :: "cevent \<Rightarrow> bool" where
  "is_post e \<longleftrightarrow> has_bits (ev_EventType e) EVENT_POST"

text \<open>\<open>x\<close> is the cast that is just being started, if any.\<close>

definition casting_ok :: "addr option \<Rightarrow> 'l world \<Rightarrow> bool" where
  "casting_ok x w \<longleftrightarrow> (\<forall>q. casting w = Some q \<longrightarrow>
     (\<exists>e. w_events w q = Some e \<and> is_spell_event e \<and> is_cast e \<and> (is_post e \<or> x = Some q)))"

definition core :: "addr option \<Rightarrow> 'l world \<Rightarrow> bool" where
  "core x w \<longleftrightarrow> store_ok w \<and> (\<forall>p. times_queued w p = (if live w p then 1 else 0)) \<and>
     (\<forall>p e. w_events w p = Some e \<longrightarrow> phase_ok e) \<and> casting_ok x w"

definition world_ok :: "'l world \<Rightarrow> bool" where
  "world_ok w \<longleftrightarrow> core None w \<and> w_CurrentEvent w = None \<and> w_CurrentTarget w = None"

text \<open>What no event changes.\<close>

definition steady :: "'l world \<Rightarrow> 'l world \<Rightarrow> bool" where
  "steady w w' \<longleftrightarrow> w_iGameTime w' = w_iGameTime w \<and> w_CurrentEvent w' = w_CurrentEvent w \<and>
     w_CurrentTarget w' = w_CurrentTarget w \<and> w_pLuaState w' = w_pLuaState w \<and>
     (w_CurrentPlayer w' = None \<longleftrightarrow> w_CurrentPlayer w = None)"

lemma steady_trans: "steady w1 w2 \<Longrightarrow> steady w2 w3 \<Longrightarrow> steady w1 w3"
  by (simp add: steady_def)

lemma grows_steady: "grows w w' \<Longrightarrow> steady w w'"
  by (simp add: grows_def fixed_part_def steady_def)

lemma core_store: "core x w \<Longrightarrow> store_ok w"
  by (simp add: core_def)

lemma is_post_same_kind: "same_kind e e' \<Longrightarrow> is_post e' = is_post e"
  by (simp add: is_post_def same_kind_def)

lemma grows_event:
  "grows w w' \<Longrightarrow> store_ok w \<Longrightarrow> w_events w p = Some e \<Longrightarrow> \<exists>e'. w_events w' p = Some e' \<and> same_kind e e'"
  by (auto simp: grows_def queue_part_def)

lemma grows_qlist: "grows w w' \<Longrightarrow> store_ok w \<Longrightarrow> \<exists>xs. qlist (w_eventMap w') t = qlist (w_eventMap w) t @ xs"
  by (auto simp: grows_def queue_part_def)

subsection \<open>What keeps the core\<close>

lemma core_grows:
  assumes c: "core x w" and g: "grows w w'"
  shows "core x w'"
proof -
  have s: "store_ok w" and s': "store_ok w'" and q: "queue_part w w'"
    using assms by (auto simp: core_def grows_def)
  have "times_queued w' p = (if live w' p then 1 else 0)" for p
    using c q queue_part_live [OF q, of p] by (auto simp: core_def queue_part_def)
  moreover have "phase_ok e'" if "w_events w' p = Some e'" for p e'
  proof (cases "w_events w p")
    case None
    with that q show ?thesis by (auto simp: queue_part_def live_def)
  next
    case (Some e)
    then show ?thesis using c that grows_event [OF g s Some] phase_ok_same_kind
      by (auto simp: core_def)
  qed
  moreover have "casting_ok x w'"
    unfolding casting_ok_def
  proof (intro allI impI)
    fix p
    assume p: "casting w' = Some p"
    then have "casting w = Some p" using g by (auto simp: grows_def fixed_part_def)
    then obtain e where e: "w_events w p = Some e" "is_spell_event e" "is_cast e" "is_post e \<or> x = Some p"
      using c by (auto simp: core_def casting_ok_def)
    then obtain e' where e': "w_events w' p = Some e'" "same_kind e e'" using grows_event [OF g s] by blast
    then have "is_spell_event e'" "is_cast e'" "is_post e' \<or> x = Some p"
      using e is_cast_same_kind [OF e'(2)] is_post_same_kind [OF e'(2)] by (auto simp: same_kind_def)
    with e'(1) show "\<exists>e. w_events w' p = Some e \<and> is_spell_event e \<and> is_cast e \<and> (is_post e \<or> x = Some p)"
      by blast
  qed
  ultimately show ?thesis using s' by (simp add: core_def)
qed

lemma core_start_cast:
  assumes "core None w" and "start_cast p w w'" and "w_events w p = Some e" "is_spell_event e" "is_cast e"
  shows "core (Some p) w'"
  using assms
  by (auto simp: core_def start_cast_def store_ok_def casting_ok_def set_player_def live_def
      times_queued_def casting_def Set_CastingSpell_def simp del: count_mset_0_iff)

lemma core_flip:
  assumes "core x w" and "x = None \<or> x = Some p" and "w_events w p = Some e"
    and "has_bits (ev_EventType e) EVENT_PRE" and "is_spell_event e"
  shows "core None (set_event p (flip_phase e) w)"
proof -
  have e: "phase_ok e" using assms by (auto simp: core_def)
  have f: "phase_ok (flip_phase e)" "is_spell_event (flip_phase e)" "is_cast (flip_phase e) = is_cast e"
    "is_post (flip_phase e)"
    using flip_phase_ok [OF e assms(4)] flip_phase_cast [OF e assms(5)] assms(4,5)
      phase_cases [OF e assms(5)]
    by (auto simp: is_spell_event_def flip_phase_def is_post_def)
  let ?w = "set_event p (flip_phase e) w"
  have live: "live ?w q = live w q" for q using assms(3) by (simp add: live_def set_event_def)
  have store: "store_ok ?w" using assms(1) live by (simp add: core_def store_ok_def) (simp add: set_event_def)
  have times: "times_queued ?w q = (if live ?w q then 1 else 0)" for q
    using assms(1) live by (simp add: core_def) (simp add: set_event_def times_queued_def)
  have phases: "phase_ok e'" if "w_events ?w q = Some e'" for q e'
    using assms(1) f(1) that by (auto simp: core_def set_event_def split: if_splits)
  have "casting_ok None ?w"
    unfolding casting_ok_def
  proof (intro allI impI)
    fix q
    assume "casting ?w = Some q"
    then have "casting w = Some q" by (simp add: casting_def set_event_def)
    then obtain e' where e': "w_events w q = Some e'" "is_spell_event e'" "is_cast e'" "is_post e' \<or> x = Some q"
      using assms(1) by (auto simp: core_def casting_ok_def)
    show "\<exists>e. w_events ?w q = Some e \<and> is_spell_event e \<and> is_cast e \<and> (is_post e \<or> None = Some q)"
    proof (cases "q = p")
      case True
      with e' f assms(3) show ?thesis by (simp add: set_event_def)
    next
      case False
      with e' assms(2) show ?thesis by (auto simp: set_event_def)
    qed
  qed
  with store times phases show ?thesis by (simp add: core_def)
qed

lemma casting_not_pre:
  assumes "core None w" "w_events w p = Some e" "\<not> is_post e \<or> \<not> is_cast e \<or> \<not> is_spell_event e"
  shows "casting w \<noteq> Some p"
  using assms by (auto simp: core_def casting_ok_def)

lemma core_end:
  assumes c: "core None w" and t: "qlist (w_eventMap w) t = p # xs" and n: "casting w \<noteq> Some p"
  shows "\<exists>m. queue_pop t (w_eventMap w) = Inr m \<and> core None ((delete_event p w)\<lparr>w_eventMap := m\<rparr>)"
proof -
  have ok: "queue_ok (w_eventMap w)" using c by (simp add: core_def store_ok_def)
  obtain m where m: "queue_pop t (w_eventMap w) = Inr m" "queue_ok m"
    "mset (queued (w_eventMap w)) = add_mset p (mset (queued m))"
    using queue_pop_hd [OF ok t] by blast
  have one: "times_queued w q = (if live w q then 1 else 0)" for q using c by (simp add: core_def)
  have "times_queued w p = Suc (count (mset (queued m)) p)" by (simp add: times_queued_def m)
  then have "count (mset (queued m)) p = 0" using one [of p] by (simp split: if_splits)
  moreover have "count (mset (queued m)) q = (if live w q then 1 else 0)" if "q \<noteq> p" for q
    using one [of q] that by (simp add: times_queued_def m)
  ultimately show ?thesis using c n m(1,2)
    by (auto simp: core_def store_ok_def times_queued_def live_def delete_event_def casting_ok_def casting_def
        simp del: count_mset_0_iff)
qed

lemma core_requeue:
  assumes c: "core None w" and t: "qlist (w_eventMap w) t = p # xs"
  shows "\<exists>m. queue_pop t (w_eventMap (AddEvent p d w)) = Inr m \<and> core None (w\<lparr>w_eventMap := m\<rparr>)"
proof -
  let ?q = "w_eventMap (AddEvent p d w)"
  have ok: "queue_ok (w_eventMap w)" using c by (simp add: core_def store_ok_def)
  then have ok': "queue_ok ?q" by (simp add: AddEvent_def queue_add_ok)
  have "\<exists>ys. qlist ?q t = p # ys" using t ok by (auto simp: AddEvent_def qlist_queue_add)
  then obtain m where m: "queue_pop t ?q = Inr m" "queue_ok m"
    "mset (queued ?q) = add_mset p (mset (queued m))"
    using queue_pop_hd [OF ok'] by blast
  have "mset (queued ?q) = add_mset p (mset (queued (w_eventMap w)))"
    using ok by (simp add: AddEvent_def mset_queue_add)
  with m have "mset (queued m) = mset (queued (w_eventMap w))" by simp
  then show ?thesis using c m(1,2)
    by (auto simp: core_def store_ok_def times_queued_def live_def casting_ok_def casting_def)
qed

subsection \<open>One event\<close>

definition keeps :: "addr option \<Rightarrow> 'l world \<Rightarrow> 'l world \<Rightarrow> bool" where
  "keeps x w w' \<longleftrightarrow> core x w' \<and> steady w w' \<and>
     (\<forall>t. \<exists>xs. qlist (w_eventMap w') t = qlist (w_eventMap w) t @ xs)"

definition handled :: "addr \<Rightarrow> 'l world \<Rightarrow> bool \<times> 'l world \<Rightarrow> bool" where
  "handled p w r \<longleftrightarrow> (case r of (b, w') \<Rightarrow>
     if b then keeps None w w' \<and> casting w' \<noteq> Some p else \<exists>w1 d. keeps None w w1 \<and> w' = AddEvent p d w1)"

lemma keeps_core: "keeps x w w' \<Longrightarrow> core x w'"
  by (simp add: keeps_def)

lemma keeps_head:
  "keeps x w w' \<Longrightarrow> qlist (w_eventMap w) t = p # xs \<Longrightarrow> \<exists>ys. qlist (w_eventMap w') t = p # ys"
  by (metis keeps_def append_Cons)

lemma keeps_grows: "core x w \<Longrightarrow> grows w w' \<Longrightarrow> keeps x w w'"
  by (simp add: keeps_def core_grows grows_steady grows_qlist core_store)

lemma keeps_trans: "keeps x w1 w2 \<Longrightarrow> keeps y w2 w3 \<Longrightarrow> keeps y w1 w3"
proof -
  assume 1: "keeps x w1 w2" and 2: "keeps y w2 w3"
  have "\<exists>xs. qlist (w_eventMap w3) t = qlist (w_eventMap w1) t @ xs" for t
  proof -
    obtain xs ys where "qlist (w_eventMap w2) t = qlist (w_eventMap w1) t @ xs"
      and "qlist (w_eventMap w3) t = qlist (w_eventMap w2) t @ ys"
      using 1 2 unfolding keeps_def by blast
    then show ?thesis by simp
  qed
  then show ?thesis using 1 2 steady_trans by (auto simp: keeps_def)
qed

lemma grows_not_casting: "grows w w' \<Longrightarrow> casting w \<noteq> Some p \<Longrightarrow> casting w' \<noteq> Some p"
  by (auto simp: grows_def fixed_part_def)

lemma handled_aura:
  assumes "core None w" and "w_events w p = Some e" "\<not> is_spell_event e"
    and "ended_or_requeued p w (b, w')"
  shows "handled p w (b, w')"
  using assms casting_not_pre [OF assms(1,2)] keeps_grows [OF assms(1)] grows_not_casting
  unfolding handled_def ended_or_requeued_def by (auto split: if_split_asm)

lemma not_is_spell_event: "get_aura_event p w = Inr (e, ae) \<Longrightarrow> w_events w p = Some e \<and> \<not> is_spell_event e"
  by (simp add: get_aura_event_Inr is_spell_event_def)

lemma is_spell_event_get: "get_spell_event p w = Inr (e, sp) \<Longrightarrow> w_events w p = Some e \<and> is_spell_event e"
  by (simp add: get_spell_event_Inr is_spell_event_def)

lemma Aura_run_handled:
  assumes "core None w"
  shows "safeR (handled p w) (Aura_run env p w)"
proof (rule safeR_I)
  fix r
  assume r: "Aura_run env p w = Inr r"
  then obtain e ae where e: "get_aura_event p w = Inr (e, ae)" by (auto simp: Aura_run_def)
  with r have "ended_or_requeued p w r"
    using safeR_D [OF AuraApplication_contract [of p w env]] safeR_D [OF AuraRemoval_contract [of p w env]]
      safeR_D [OF AuraPeriodic_contract [of p w env]]
    by (auto simp: Aura_run_def split: if_split_asm)
  then show "handled p w r"
    using handled_aura [OF assms] not_is_spell_event [OF e] by (cases r) auto
qed

lemma handled_end: "core None w \<Longrightarrow> grows w w' \<Longrightarrow> casting w' \<noteq> Some p \<Longrightarrow> handled p w (True, w')"
  by (simp add: handled_def keeps_grows)

lemma post_handled:
  assumes c: "core None w" and e: "get_spell_event p w = Inr (e, sp)" and pl: "w_CurrentPlayer w = Some pl"
    and r: "(if p_CastingSpell pl = (if is_cast e then Some p else ev_Parent e)
             then Spell_PostAction env p w else Inr w) = Inr w'"
  shows "handled p w (True, w')"
proof (cases "p_CastingSpell pl = (if is_cast e then Some p else ev_Parent e)")
  case True
  with r have l: "let_go (is_cast e) w w'"
    using safeR_D [OF Spell_PostAction_contract [OF e]] by simp
  have "casting w' \<noteq> Some p"
  proof (cases "is_cast e")
    case False
    then have "casting w \<noteq> Some p" using casting_not_pre [OF c] is_spell_event_get [OF e] by blast
    with l grows_not_casting show ?thesis by (auto simp: let_go_def)
  qed (use l in \<open>simp add: let_go_def\<close>)
  with l show ?thesis using c by (intro handled_end) (auto simp: let_go_def)
next
  case False
  have "casting w \<noteq> Some p"
  proof (cases "is_cast e")
    case True
    with False pl show ?thesis by (simp add: casting_def)
  next
    case False
    then show ?thesis using casting_not_pre [OF c] is_spell_event_get [OF e] by blast
  qed
  with False r c show ?thesis by (intro handled_end) auto
qed

text \<open>The steps of the first phase: the hooks, the player's hands, the flip of the phase bits.\<close>

lemma keeps_start_cast:
  assumes "core None w" "start_cast p w w'" "w_events w p = Some e" "is_spell_event e" "is_cast e"
  shows "keeps (Some p) w w'"
  using core_start_cast [OF assms] assms(2)
  by (auto simp: keeps_def steady_def start_cast_def set_player_def)

lemma keeps_flip:
  assumes "core x w" "x = None \<or> x = Some p" "w_events w p = Some e"
    "has_bits (ev_EventType e) EVENT_PRE" "is_spell_event e"
  shows "keeps None w (set_event p (flip_phase e) w)"
  using core_flip [OF assms] by (simp add: keeps_def) (simp add: steady_def set_event_def)

lemma pre_cast:
  assumes c: "core None w" and e: "get_spell_event p w = Inr (e, sp)"
    and pre: "has_bits (ev_EventType e) EVENT_PRE" and cast: "is_cast e"
    and r: "Spell_PreAction env p w = Inr (b, w1)" and e1: "get_spell_event p w1 = Inr (e1, sp1)"
  shows "keeps None w (set_event p (flip_phase e1) w1) \<and> is_cast e1 \<and> is_spell_event e1 \<and>
    phase_ok e1 \<and> (b \<longrightarrow> casting w1 = None)"
proof -
  note es = is_spell_event_get [OF e]
  obtain wa wb where a: "grows w wa" and s: "start_cast p wa wb" and l: "let_go b wb w1"
    using Spell_PreAction_cast [OF e cast r] by blast
  obtain ea where ea: "w_events wa p = Some ea" "same_kind e ea"
    using grows_event [OF a core_store [OF c]] es by blast
  have ka: "keeps None w wa" using keeps_grows [OF c a] .
  have kb: "keeps (Some p) wa wb"
    using keeps_start_cast [OF _ s ea(1)] ka ea(2) es cast is_cast_same_kind [OF ea(2)]
    by (auto simp: keeps_def same_kind_def)
  have g: "grows wb w1" using l by (simp add: let_go_def)
  have k1: "keeps (Some p) wb w1" using keeps_grows [OF keeps_core [OF kb] g] .
  have "w_events wb p = Some ea" using s ea(1) by (auto simp: start_cast_def set_player_def)
  then have "same_kind ea e1"
    using grows_event [OF g] kb is_spell_event_get [OF e1] by (fastforce simp: keeps_def core_def)
  then have k: "same_kind e e1" using ea(2) same_kind_trans by blast
  then have "has_bits (ev_EventType e1) EVENT_PRE" "is_spell_event e1" "is_cast e1"
    using pre es cast is_cast_same_kind by (auto simp: same_kind_def)
  moreover have "keeps None w1 (set_event p (flip_phase e1) w1)"
    using calculation k1 is_spell_event_get [OF e1] by (intro keeps_flip [where x = "Some p"]) (auto simp: keeps_def)
  moreover have "phase_ok e1" using phase_ok_same_kind [OF k] c es by (auto simp: core_def)
  ultimately show ?thesis using ka kb k1 l keeps_trans by (blast intro: let_go_def [THEN iffD1, THEN conjunct2, rule_format])
qed

lemma pre_channel:
  assumes c: "core None w" and e: "get_spell_event p w = Inr (e, sp)"
    and pre: "has_bits (ev_EventType e) EVENT_PRE" and chan: "\<not> is_cast e"
    and r: "Spell_PreAction env p w = Inr (b, w1)" and e1: "get_spell_event p w1 = Inr (e1, sp1)"
  shows "keeps None w (set_event p (flip_phase e1) w1) \<and> \<not> is_cast e1 \<and> is_spell_event e1 \<and> phase_ok e1"
proof -
  note es = is_spell_event_get [OF e]
  have g: "grows w w1" using Spell_PreAction_channel [OF e chan r] by simp
  have k1: "keeps None w w1" using keeps_grows [OF c g] .
  have k: "same_kind e e1"
    using grows_event [OF g core_store [OF c]] es is_spell_event_get [OF e1] by fastforce
  then have "has_bits (ev_EventType e1) EVENT_PRE" "is_spell_event e1" "\<not> is_cast e1"
    using pre es chan is_cast_same_kind by (auto simp: same_kind_def)
  moreover have "keeps None w1 (set_event p (flip_phase e1) w1)"
    using calculation k1 is_spell_event_get [OF e1] by (intro keeps_flip [where x = None]) (auto simp: keeps_def)
  moreover have "phase_ok e1" using phase_ok_same_kind [OF k] c es by (auto simp: core_def)
  ultimately show ?thesis using k1 keeps_trans by blast
qed

lemma Spell_run_handled:
  assumes c: "core None (w :: 'l world)"
  shows "safeR (handled p w) (Spell_run env p w)"
proof (rule safeR_I)
  fix r
  assume r: "Spell_run env p w = Inr r"
  then obtain e sp pl where e: "get_spell_event p w = Inr (e, sp)" and pl: "w_CurrentPlayer w = Some pl"
    by (auto simp: Spell_run_def get_player_def)
  note es = is_spell_event_get [OF e]
  have ph: "phase_ok e" using c es by (auto simp: core_def)
  have stay: "handled p w (True, w)" if "\<not> is_post e"
    using handled_end [OF c grows_refl] casting_not_pre [OF c] es that by blast
  from ph es show "handled p w r"
  proof (cases rule: phase_cases [OF ph conjunct2 [OF es]])
    case 1
    then have np: "\<not> is_post e" by (simp add: is_post_def)
    show ?thesis
    proof (cases "(is_cast e \<and> \<not> IsIdle (w_iGameTime w) pl) \<or> (\<not> is_cast e \<and> p_CastingSpell pl \<noteq> ev_Parent e)")
      case True
      with r e pl 1 have "r = (True, w)" by (auto simp: Spell_run_def get_player_def)
      with stay np show ?thesis by simp
    next
      case False
      define tail where "tail = (\<lambda>b e1 (sp1 :: spell_part) (w1 :: 'l world).
          let e = flip_phase e1; w = set_event p e w1
          in if is_cast e then
             (if \<not> b then bindR (Spell_GetCastTime e sp1 w) (\<lambda>ct.
                bindR (dbl_to_u32 ct) (\<lambda>delay. Inr (False, AddEvent p delay w)))
              else Inr (True, w))
           else Inr (False, AddEvent p 0 w))"
      have "(is_cast e \<and> \<not> IsIdle (w_iGameTime w) pl) = False"
        and "(\<not> is_cast e \<and> p_CastingSpell pl \<noteq> ev_Parent e) = False" using False by auto
      then have "bindR (Spell_PreAction env p w) (\<lambda>(b, w1). bindR (get_spell_event p w1)
           (\<lambda>(e1, sp1). tail b e1 sp1 w1)) = Inr r"
        using r 1(1) unfolding Spell_run_def e get_player_def pl tail_def
        by (simp only: bindR_simps of_opt_simps prod.case if_True if_False)
      then obtain b w1 e1 sp1 where pa: "Spell_PreAction env p w = Inr (b, w1)"
        and e1: "get_spell_event p w1 = Inr (e1, sp1)" and tl: "tail b e1 sp1 w1 = Inr r"
        by (auto simp: split_paired_Ex)
      show ?thesis
      proof (cases "is_cast e")
        case True
        note k = pre_cast [OF c e 1(1) True pa e1]
        then have "is_cast (flip_phase e1)" using flip_phase_cast by blast
        with tl k show ?thesis
          by (auto simp: tail_def handled_def Let_def casting_def split: if_split_asm)
            (simp_all add: set_event_def)
      next
        case False
        note k = pre_channel [OF c e 1(1) False pa e1]
        then have "\<not> is_cast (flip_phase e1)" using flip_phase_cast by blast
        with tl k show ?thesis by (auto simp: tail_def handled_def Let_def)
      qed
    qed
  next
    case 2
    with r e pl obtain w1 where "r = (True, w1)"
      and "(if p_CastingSpell pl = (if is_cast e then Some p else ev_Parent e)
             then Spell_PostAction env p w else Inr w) = Inr w1"
      by (auto simp: Spell_run_def get_player_def)
    with post_handled [OF c e pl] show ?thesis by simp
  qed
qed

lemma event_run_handled: "core None w \<Longrightarrow> safeR (handled p w) (event_run env p w)"
  using Spell_run_handled Aura_run_handled
  by (auto simp: event_run_def intro!: safe_intros split: event_part.splits)

subsection \<open>The loop\<close>

lemma core_current [simp]:
  "core x (w\<lparr>w_CurrentEvent := a\<rparr>) = core x w" "core x (w\<lparr>w_CurrentTarget := b\<rparr>) = core x w"
  by (simp_all add: core_def store_ok_def times_queued_def live_def casting_ok_def casting_def)

lemma core_clock [simp]: "core x (w\<lparr>w_iGameTime := t\<rparr>) = core x w"
  by (simp add: core_def store_ok_def times_queued_def live_def casting_ok_def casting_def)

lemma dispatch_world_ok:
  assumes w: "world_ok w" and q: "qlist (w_eventMap w) t = p # xs"
    and r: "dispatch_event env t p w = Inr w'"
  shows "world_ok w' \<and> w_iGameTime w' = w_iGameTime w \<and>
    (w_CurrentPlayer w' = None \<longleftrightarrow> w_CurrentPlayer w = None) \<and> w_pLuaState w' = w_pLuaState w"
proof -
  obtain e where e: "w_events w p = Some e" using r
    by (auto simp: dispatch_event_def SetCurrentEvent_def get_event_def split: if_split_asm)
  let ?w = "w\<lparr>w_CurrentEvent := Some p, w_CurrentTarget := Some (ev_theTarget e)\<rparr>"
  let ?fin = "\<lambda>w. w\<lparr>w_CurrentTarget := None, w_CurrentEvent := None\<rparr>"
  have c: "core None ?w" using w by (simp add: world_ok_def)
  obtain b w1 m where run: "event_run env p ?w = Inr (b, w1)"
    and m: "queue_pop t (w_eventMap w1) = Inr m"
    and w': "w' = ?fin (if b then delete_event p w1 else w1)\<lparr>w_eventMap := m\<rparr>"
    using r e w by (auto simp: dispatch_event_def SetCurrentEvent_def SetCurrentTarget_def get_event_def
        world_ok_def delete_event_def Let_def split: if_split_asm)
  have h: "handled p ?w (b, w1)" using safeR_D [OF event_run_handled [OF c] run] .
  show ?thesis
  proof (cases b)
    case True
    with h have k: "keeps None ?w w1" and n: "casting w1 \<noteq> Some p" by (auto simp: handled_def)
    obtain ys where "qlist (w_eventMap w1) t = p # ys" using keeps_head [OF k, of t p xs] q by auto
    with core_end [OF keeps_core [OF k] this n] m have "core None ((delete_event p w1)\<lparr>w_eventMap := m\<rparr>)" by auto
    then show ?thesis using w' True k
      by (simp add: world_ok_def core_def store_ok_def times_queued_def live_def casting_ok_def casting_def
          delete_event_def keeps_def steady_def)
  next
    case False
    with h obtain w2 d where k: "keeps None ?w w2" and w1: "w1 = AddEvent p d w2" by (auto simp: handled_def)
    obtain ys where "qlist (w_eventMap w2) t = p # ys" using keeps_head [OF k, of t p xs] q by auto
    with core_requeue [OF keeps_core [OF k] this, of d] m w1 have "core None (w2\<lparr>w_eventMap := m\<rparr>)" by auto
    then show ?thesis using w' w1 False k
      by (simp add: world_ok_def core_def store_ok_def times_queued_def live_def casting_ok_def casting_def
          AddEvent_def keeps_def steady_def)
  qed
qed

end
