(* ===== verification/Sim_Run.thy ===== *)
theory Sim_Run
  imports Sim_Loop
begin

text \<open>
  The loop as a whole: \<open>ProcessEvent\<close> and \<open>Perform\<close> keep the invariant, the clock moves
  to the next thing to do and never past it, and the destructor frees every event exactly once.
\<close>

subsection \<open>Processing\<close>

lemma head_due_cases:
  assumes "queue_ok (w_eventMap w)" "head_due w"
  obtains t p xs m where "w_eventMap w = (t, p # xs) # m" "t \<le> w_iGameTime w"
    "qlist (w_eventMap w) t = p # xs"
proof -
  obtain t l m where m: "w_eventMap w = (t, l) # m" "t \<le> w_iGameTime w"
    using assms(2) by (auto simp: head_due_def split: list.splits)
  then obtain p xs where "l = p # xs" using assms(1) by (cases l) (auto simp: queue_ok_Cons)
  with m show ?thesis by (intro that) (auto simp: qlist_def)
qed

lemma world_ok_queue: "world_ok w \<Longrightarrow> queue_ok (w_eventMap w)"
  by (simp add: world_ok_def core_def store_ok_def)

lemma world_ok_advance: "world_ok (advance_clock nxt w) = world_ok w"
  by (simp add: world_ok_def advance_clock_def)

lemma ProcessEvent_keeps:
  "world_ok w \<Longrightarrow> ProcessEvent n env nxt w = Inr (b, w') \<Longrightarrow>
   world_ok w' \<and> (w_CurrentPlayer w' = None \<longleftrightarrow> w_CurrentPlayer w = None) \<and>
   w_pLuaState w' = w_pLuaState w \<and>
   (if b then w_iGameTime w' = w_iGameTime w \<and> \<not> head_due w'
    else \<not> head_due w \<and> w' = advance_clock nxt w)"
proof (induction n arbitrary: w)
  case (Suc n)
  show ?case
  proof (cases "head_due w")
    case False
    with Suc.prems show ?thesis by (auto simp: world_ok_advance) (simp_all add: advance_clock_def)
  next
    case True
    obtain t p xs m where m: "w_eventMap w = (t, p # xs) # m" "qlist (w_eventMap w) t = p # xs"
      using head_due_cases [OF world_ok_queue [OF Suc.prems(1)] True] .
    with Suc.prems True obtain w1 where d: "dispatch_event env t p w = Inr w1"
      and k: "(if head_due w1 then ProcessEvent n env nxt w1 else Inr (True, w1)) = Inr (b, w')" by auto
    note w1 = dispatch_world_ok [OF Suc.prems(1) m(2) d]
    show ?thesis
    proof (cases "head_due w1")
      case False
      with k w1 show ?thesis by auto
    next
      case due: True
      with k have r: "ProcessEvent n env nxt w1 = Inr (b, w')" by simp
      from Suc.IH [OF _ r] w1 due show ?thesis by (auto split: if_split_asm)
    qed
  qed
qed simp

subsection \<open>The clock\<close>

lemma advance_clock_bounds:
  assumes q: "queue_ok (w_eventMap w)" and d: "\<not> head_due w"
    and nw: "unat (w_iGameTime w) + unat nxt < 2 ^ 32"
  shows "w_iGameTime w \<le> w_iGameTime (advance_clock nxt w)"
    and "\<forall>x \<in> set (agenda (w_eventMap w)). w_iGameTime (advance_clock nxt w) \<le> fst x"
    and "nxt \<noteq> 0 \<Longrightarrow> w_iGameTime (advance_clock nxt w) \<le> w_iGameTime w + nxt"
    and "w_eventMap w \<noteq> [] \<or> nxt \<noteq> 0 \<Longrightarrow> w_iGameTime w < w_iGameTime (advance_clock nxt w)"
proof -
  have le: "w_iGameTime w \<le> w_iGameTime w + nxt" using nw by (rule u32_le_add)
  have lt: "nxt \<noteq> 0 \<Longrightarrow> w_iGameTime w < w_iGameTime w + nxt" using le by (simp add: order_less_le)
  have hd: "w_iGameTime w < t \<and> (\<forall>x \<in> set (agenda (w_eventMap w)). t \<le> fst x)"
    if m: "w_eventMap w = (t, l) # m" for t l m
  proof -
    have "\<forall>k \<in> fst ` set m. t < k" using q m by (simp add: queue_ok_Cons)
    then have "\<forall>k \<in> fst ` set ((t, l) # m). t \<le> k" by auto
    then have "\<forall>x \<in> set (agenda ((t, l) # m)). t \<le> fst x" using agenda_keys by blast
    then show ?thesis using d m by (simp add: head_due_def not_le)
  qed
  show "w_iGameTime w \<le> w_iGameTime (advance_clock nxt w)"
    using le hd by (auto simp: advance_clock_def split: list.splits)
  show "\<forall>x \<in> set (agenda (w_eventMap w)). w_iGameTime (advance_clock nxt w) \<le> fst x"
    using hd by (fastforce simp: advance_clock_def agenda_def [of "[]"] min.coboundedI1 split: list.splits)
  show "nxt \<noteq> 0 \<Longrightarrow> w_iGameTime (advance_clock nxt w) \<le> w_iGameTime w + nxt"
    by (auto simp: advance_clock_def split: list.splits)
  show "w_eventMap w \<noteq> [] \<or> nxt \<noteq> 0 \<Longrightarrow> w_iGameTime w < w_iGameTime (advance_clock nxt w)"
    using lt hd by (auto simp: advance_clock_def split: list.splits)
qed

subsection \<open>Destruction\<close>

lemma delete_events_ok:
  "distinct ps \<Longrightarrow> (\<forall>p \<in> set ps. live w p) \<Longrightarrow>
   delete_events ps w = Inr (w\<lparr>w_events := (\<lambda>p. if p \<in> set ps then None else w_events w p)\<rparr>)"
proof (induction ps arbitrary: w)
  case (Cons p ps)
  have "delete_events ps (delete_event p w) =
      Inr ((delete_event p w)\<lparr>w_events := (\<lambda>q. if q \<in> set ps then None else w_events (delete_event p w) q)\<rparr>)"
    using Cons.prems by (intro Cons.IH) (auto simp: live_def delete_event_def)
  moreover have "(\<lambda>q. if q \<in> set ps then None else w_events (delete_event p w) q) =
      (\<lambda>q. if q \<in> set (p # ps) then None else w_events w q)"
    by (auto simp: delete_event_def)
  ultimately show ?case using Cons.prems
    by (auto simp: get_event_def live_def delete_event_def)
qed simp

lemma core_queued: "core x w \<Longrightarrow> distinct (queued (w_eventMap w)) \<and> set (queued (w_eventMap w)) = {p. live w p}"
proof -
  assume c: "core x w"
  then have one: "count (mset (queued (w_eventMap w))) p = (if live w p then 1 else 0)" for p
    by (simp add: core_def times_queued_def del: count_mset_0_iff)
  then have "p \<in> set (queued (w_eventMap w)) \<longleftrightarrow> live w p" for p
    using count_mset_0_iff [of "queued (w_eventMap w)" p] by (simp del: count_mset_0_iff split: if_split_asm)
  moreover have "distinct (queued (w_eventMap w))"
    unfolding distinct_count_atmost_1 using one calculation by auto
  ultimately show ?thesis by auto
qed

lemma destroy_frees_all:
  assumes "world_ok w"
  shows "CEventSystem_destroy w = Inr (w\<lparr>w_events := (\<lambda>p. None), w_eventMap := []\<rparr>)"
proof -
  have q: "distinct (queued (w_eventMap w))" "set (queued (w_eventMap w)) = {p. live w p}"
    using core_queued assms by (auto simp: world_ok_def)
  have none: "(\<lambda>p. if p \<in> set (queued (w_eventMap w)) then None else w_events w p) = (\<lambda>p. None)"
    by (auto simp: q(2) live_def)
  have "delete_events (queued (w_eventMap w)) w = Inr (w\<lparr>w_events := (\<lambda>p. None)\<rparr>)"
    using delete_events_ok [OF q(1), of w] unfolding none by (simp add: q(2))
  then show ?thesis by (simp add: CEventSystem_destroy_def queued_def)
qed

subsection \<open>A run\<close>

lemma world_ok_grows: "world_ok w \<Longrightarrow> grows w w' \<Longrightarrow> world_ok w'"
  using core_grows [of None w w'] grows_steady [of w w'] by (simp add: world_ok_def steady_def)

lemma grows_handle: "grows w w' \<Longrightarrow> w_pLuaState w' = w_pLuaState w"
  by (simp add: grows_def fixed_part_def)

lemma perform_loop_keeps:
  "world_ok w \<Longrightarrow> perform_loop n m env w = Inr w' \<Longrightarrow> world_ok w' \<and> w_pLuaState w' = w_pLuaState w"
proof (induction n arbitrary: w)
  case (Suc n)
  show ?case
  proof (cases "IsExitable w \<or> \<not> w_iGameTime w < MAX_GAME_TIME")
    case True
    with Suc.prems show ?thesis by (simp split: if_split_asm)
  next
    case False
    with Suc.prems(2) obtain pl b w1 pl1 w2
      where p: "ProcessEvent m env (Get_SpellCooldown (w_iGameTime w) 0 pl) w = Inr (b, w1)"
        and i: "(if IsIdle (w_iGameTime w1) pl1 then CallLuaFunction env ''PlayerIdleRoutine'' 0 w1
                 else Inr w1) = Inr w2"
        and r: "perform_loop n m env w2 = Inr w'"
      by (auto simp: get_player_def)
    have "world_ok w1" "w_pLuaState w1 = w_pLuaState w" using ProcessEvent_keeps [OF Suc.prems(1) p] by simp_all
    moreover have "grows w1 w2" using i by (auto split: if_split_asm intro: hook_grows)
    ultimately have "world_ok w2" "w_pLuaState w2 = w_pLuaState w" using world_ok_grows grows_handle by metis+
    then show ?thesis using Suc.IH r by metis
  qed
qed simp

text \<open>No event and no stale global is left: the state in which \<open>Perform\<close> may be called.\<close>

definition world_clean :: "'l world \<Rightarrow> bool" where
  "world_clean w \<longleftrightarrow> (\<forall>p. \<not> live w p) \<and> w_CurrentEvent w = None \<and> w_CurrentTarget w = None"

lemma start_run_ok: "world_clean w \<Longrightarrow> world_ok (start_run d w)"
  by (auto simp: world_clean_def world_ok_def core_def store_ok_def times_queued_def live_def casting_ok_def
      casting_def start_run_def CPlayer_new_def queued_def)

lemma run_prog_grows: "run_prog env pr w = Inr (ok, w') \<Longrightarrow> grows w w'"
  by (intro script_steps_grows run_prog_steps)

lemma loading_grows:
  "LoadTOCFile n env fileName w = Inr (ok, w') \<Longrightarrow> grows w w'"
  "load_lines n env bs w = Inr (ok, w') \<Longrightarrow> grows w w'"
proof (induction n env fileName w and n env bs w arbitrary: ok w' and ok w' rule: LoadTOCFile_load_lines.induct)
  case (4 n env b bs w)
  note IH = "4.IH" and r = "4.prems"
  show ?case
  proof (cases "b \<noteq> [] \<and> hd b = CHR ''#''")
    case True
    with r "4.IH"(1) show ?thesis by simp
  next
    case False
    with r obtain path where path: "script_path (strip_line b) = Inr path" by auto
    show ?thesis
    proof (cases "strstr path ''.toc''")
      case True
      with r False path obtain k w1 where t: "LoadTOCFile n env (strip_line b) w = Inr (k, w1)"
        and l: "(if k then load_lines n env bs w1 else Inr (False, w1)) = Inr (ok, w')" by auto
      then show ?thesis using "4.IH"(2) [OF False path True t] "4.IH"(3) [OF False path True t refl]
        by (auto split: if_split_asm intro: grows_trans)
    next
      case plain: False
      show ?thesis
      proof (cases "e_loadfile env path")
        case None
        with r False path plain show ?thesis by auto
      next
        case (Some f)
        with r False path plain obtain g k w1 where g: "get_lua w = Inr g"
        and t: "run_prog env (f g) w = Inr (k, w1)"
        and l: "(if k then load_lines n env bs w1 else Inr (False, w1)) = Inr (ok, w')"
        by auto
      then show ?thesis using run_prog_grows [OF t] "4.IH"(4) [OF False path plain g Some t refl]
        by (auto split: if_split_asm intro: grows_trans)
      qed
    qed
  qed
qed (auto split: option.split_asm)

text \<open>The first part of \<open>Lua_Initialize\<close> fills globals the invariant does not speak of.\<close>

lemma Lua_Initialize_ok:
  assumes w: "world_ok w" and "Lua_Initialize fuel env pre fresh w = Inr (ok, w')"
  shows "world_ok w' \<and> (w_CurrentPlayer w' = None \<longleftrightarrow> w_CurrentPlayer w = None) \<and> w_pLuaState w' = LuaOpen"
proof -
  let ?w = "w\<lparr>w_AuraDB := CAuraDB_init, w_SpellDB := CSpellDB_init, w_CreatureDB := [], w_pLuaState := LuaOpen, w_lua := fresh\<rparr>"
  have w0: "world_ok ?w"
    using w by (simp add: world_ok_def core_def store_ok_def times_queued_def live_def casting_ok_def casting_def)
  obtain b w1 where "RunLuaCode env pre ?w = Inr (b, w1)"
    and "LoadTOCFile fuel env ''main.toc'' w1 = Inr (ok, w')"
    using assms(2) by (auto simp: Lua_Initialize_def)
  then have g: "grows ?w w'" using grows_trans [OF chunk_grows loading_grows(1)] by blast
  then have "steady ?w w'" by (rule grows_steady)
  then show ?thesis using world_ok_grows [OF w0 g] by (simp add: steady_def)
qed

lemma CleanUp_clean: "world_clean w \<Longrightarrow> world_clean (Lua_CleanUp w)"
  by (simp add: world_clean_def Lua_CleanUp_def live_def)

text \<open>A run that comes back leaves no event behind, no global set and the interpreter closed;
  only a run whose scripts could not be loaded stops before it has cleaned up.\<close>

definition cleaned_up :: "'l world \<Rightarrow> bool" where
  "cleaned_up w \<longleftrightarrow> world_clean w \<and> w_eventMap w = [] \<and> w_CurrentPlayer w = None \<and> w_Reporter w = None \<and>
     w_AuraDB w = CAuraDB_init \<and> w_SpellDB w = CSpellDB_init \<and> w_CreatureDB w = []"

lemma Perform_leaves_clean:
  assumes w: "world_clean w" and r: "Perform n m env add pre d fresh slots w = Inr (dps, slots', w')"
  shows "w_CurrentPlayer w = None \<and>
    (\<exists>ok w1. Lua_Initialize n env pre fresh (start_run d w) = Inr (ok, w1) \<and>
      (if ok then cleaned_up w' \<and> w_pLuaState w' = LuaClosed
       else dps = Fin 0 \<and> w' = w1 \<and> world_ok w1 \<and> w_CurrentPlayer w1 \<noteq> None \<and> w_pLuaState w1 = LuaOpen))"
proof -
  have p: "w_CurrentPlayer w = None" using r by (simp only: Perform_def split: if_split_asm) simp_all
  let ?s = "if d then CDefaultReporter_new slots else slots"
  obtain ok w1 where i: "Lua_Initialize n env pre fresh (start_run d w) = Inr (ok, w1)"
    using r p by (auto simp: Perform_def Let_def)
  note ok1 = Lua_Initialize_ok [OF start_run_ok [OF w] i]
  show ?thesis
  proof (cases ok)
    case False
    with r p i have "dps = Fin 0" "w' = w1" by (simp_all add: Perform_def Let_def)
    then show ?thesis using p i ok1 False by (auto simp: start_run_def)
  next
    case True
    with r p i obtain b2 w2 w3 w4 b5 w5 w6 w7 where
      2: "RunLuaCode env add w1 = Inr (b2, w2)" and
      3: "CallLuaFunction env ''OnTestStartRoutine'' 0 w2 = Inr w3" and
      4: "perform_loop n m env w3 = Inr w4" and
      5: "RunLuaCode env (''dps='' @ e_printf_f env
             (f_div (rndf (of_nat (unat (w_iDamageCounter w4)))) (Fin 5000))) w4 = Inr (b5, w5)" and
      6: "CallLuaFunction env ''OnTestFinishRoutine'' 0 w5 = Inr w6" and
      7: "CEventSystem_destroy (w6\<lparr>w_CurrentPlayer := None\<rparr>) = Inr w7" and
      8: "w' = Lua_CleanUp (w7\<lparr>w_Reporter := None\<rparr>)"
      by (auto simp: Perform_def Let_def)
    have g3: "grows w1 w3" using grows_trans [OF chunk_grows [OF 2] hook_grows [OF 3]] .
    have g6: "grows w4 w6" using grows_trans [OF chunk_grows [OF 5] hook_grows [OF 6]] .
    have w3: "world_ok w3" using world_ok_grows [OF _ g3] ok1 by blast
    have w6: "world_ok w6" using world_ok_grows [OF _ g6] perform_loop_keeps [OF w3 4] by blast
    have h: "w_pLuaState w6 = LuaOpen"
      using grows_handle [OF g3] grows_handle [OF g6] perform_loop_keeps [OF w3 4] ok1 by simp
    have "world_ok (w6\<lparr>w_CurrentPlayer := None\<rparr>)"
      using w6 by (auto simp: world_ok_def core_def store_ok_def times_queued_def live_def casting_ok_def casting_def)
    with 7 have "w7 = w6\<lparr>w_CurrentPlayer := None, w_events := (\<lambda>p. None), w_eventMap := []\<rparr>"
      using destroy_frees_all by fastforce
    then have "cleaned_up w' \<and> w_pLuaState w' = LuaClosed"
      using w6 h unfolding 8 by (simp add: cleaned_up_def world_clean_def live_def world_ok_def Lua_CleanUp_def)
    then show ?thesis using p i True by auto
  qed
qed

end
