(* ===== verification/Sim_Props.thy ===== *)
theory Sim_Props
  imports Sim_Run
begin

text \<open>
  What the simulator guarantees, for every script: the invariant of the event loop, the clean
  end of a run, the order of events, the clock, and what scripts cannot do. Each property is
  followed by an instance on a small world.
\<close>

subsection \<open>A small world\<close>

text \<open>Every hook returns at once, except the one at the start of a test, which ends the run;
  \<open>main.toc\<close> is empty. The world holds one aura (number 1, address 0) and two events: a
  stale removal (address 1) due now and an application (address 2) due at time 5.\<close>

definition quiet_env :: "unit env" where
  "quiet_env = \<lparr>e_script = (\<lambda>f args l. if f = ''OnTestStartRoutine''
       then PCall ''FinalizeCalculation'' [] (\<lambda>r. PDone ()) else PDone ()),
     e_loadstring = (\<lambda>s. None), e_loadfile = (\<lambda>s. None),
     e_fopen = (\<lambda>s. if s = ''lua'' @ [CHR 0x5C] @ ''main.toc'' then Some [] else None), e_rand = (\<lambda>n. 0), e_number2integer = (\<lambda>d. 0),
     e_str2number = (\<lambda>s. None), e_number2str = (\<lambda>d. []), e_printf_f = (\<lambda>d. ''0''),
     e_debug = False\<rparr>"

definition quiet_aura :: aura where
  "quiet_aura = \<lparr>m_iAuraID = Some 1, m_iTicks = 1, m_iPeriodicEventTime = Some 0,
     m_strAuraName = ''Bless'', m_bIsPeriodic = False, m_bCritEnabled = Some False,
     m_bHasteEnabled = Some False, m_iPeriodicDamageMin = Some 0, m_iPeriodicDamageMax = Some 0,
     m_iFadeTime = None, m_iAuraSchool = Some 0, m_iGUID = 1,
     m_dSpellPowerFactorPreTick = Some (Fin 0), m_iSpellPower = Some 0\<rparr>"

definition quiet_world :: "unit world" where
  "quiet_world = \<lparr>w_next = 3,
     w_events = [1 \<mapsto> CAuraEvent_new_removal 0 PlayerRef 7, 2 \<mapsto> CAuraEvent_new 0 PlayerRef 1 0 False],
     w_auras = [0 \<mapsto> quiet_aura], w_spells = Map.empty, w_creatures = Map.empty,
     w_iGUIDCounter = 1, w_AuraDB = CAuraDB_init, w_SpellDB = CSpellDB_init, w_CreatureDB = [],
     w_iGameTime = 0, w_eventMap = [(0, [1]), (5, [2])], w_bExitable = False, w_CurrentEvent = None,
     w_CurrentTarget = None, w_CurrentPlayer = Some CPlayer_new, w_rand = 0, w_iDamageCounter = 0,
     w_Reporter = None, w_bNormalizeCrit = False, w_pLuaState = LuaOpen, w_lua = ()\<rparr>"

definition empty_world :: "unit world" where
  "empty_world = quiet_world\<lparr>w_events := Map.empty, w_eventMap := [], w_CurrentPlayer := None, w_pLuaState := LuaNull\<rparr>"

lemmas quiet_eval = quiet_env_def quiet_world_def quiet_aura_def

lemma quiet_world_ok: "world_ok quiet_world"
  by (auto simp: world_ok_def core_def store_ok_def queue_ok_Cons times_queued_def live_def casting_ok_def
      casting_def quiet_world_def CPlayer_new_def queued_def)

lemma quiet_run:
  "\<exists>w'. ProcessEvent (Suc 0) quiet_env 0 quiet_world = Inr (True, w')"
  by (simp add: head_due_def quiet_eval dispatch_event_def SetCurrentEvent_def SetCurrentTarget_def
      get_event_def event_run_def CAuraEvent_new_removal_def CEvent_new_def Aura_run_def get_aura_event_def
      has_bits_def game_consts AuraRemoval_def get_aura_def unit_GetAuraByID_def get_auraMap_def
      get_player_def CPlayer_new_def Creature_GetAuraByID_def delete_event_def queue_pop_def Let_def)

subsection \<open>The event loop\<close>

text \<open>C1: The invariant of the event loop is kept by processing events, whatever the scripts do: an
  event is live exactly while it is queued, once; spell events are in one of their four phases;
  the spell being cast is a live cast that waits for its end. When events were due the clock has
  stood still and none is due any more; otherwise only the clock has moved.\<close>

theorem event_loop_invariant:
  assumes "world_ok w" and "ProcessEvent n env nxt w = Inr (b, w')"
  shows "world_ok w' \<and> (if b then w_iGameTime w' = w_iGameTime w \<and> \<not> head_due w'
    else \<not> head_due w \<and> w' = advance_clock nxt w)"
  using ProcessEvent_keeps [OF assms] by simp

theorem event_loop_invariant_witness:
  "\<exists>w'. ProcessEvent (Suc 0) quiet_env 0 quiet_world = Inr (True, w') \<and> world_ok w' \<and> \<not> head_due w'"
proof -
  obtain w' where r: "ProcessEvent (Suc 0) quiet_env 0 quiet_world = Inr (True, w')" using quiet_run by blast
  then show ?thesis using event_loop_invariant [OF quiet_world_ok r] by simp
qed

text \<open>C2: Destroying the event system after any run frees every event there is, each exactly once:
  the loop over the lists never meets a pointer to a freed event.\<close>

theorem destructor_frees_every_event:
  assumes "world_ok w"
  shows "CEventSystem_destroy w = Inr (w\<lparr>w_events := (\<lambda>p. None), w_eventMap := []\<rparr>)"
  using assms by (rule destroy_frees_all)

theorem destructor_frees_every_event_witness:
  "CEventSystem_destroy quiet_world = Inr (quiet_world\<lparr>w_events := (\<lambda>p. None), w_eventMap := []\<rparr>)"
  by (rule destructor_frees_every_event [OF quiet_world_ok])

text \<open>C3: \<open>Perform\<close> cleans up. Called with no event alive and the globals null, a run that comes back
  has loaded its scripts or it has not. If they were loaded, whatever they did and however much
  damage they dealt, no event is left, the current event, target and player, the reporter and
  the three databases are null again, and the interpreter is closed (\<open>pLuaState\<close> keeps
  pointing to the closed state). If they could not be loaded, the answer is 0 and everything is
  left as the loading left it: the player set and the interpreter open.\<close>

theorem run_leaves_no_event:
  assumes "world_clean w" and "Perform n m env add pre d fresh slots w = Inr (dps, slots', w')"
  shows "w_CurrentPlayer w = None \<and>
    (\<exists>ok w1. Lua_Initialize n env pre fresh (start_run d w) = Inr (ok, w1) \<and>
      (if ok then cleaned_up w' \<and> w_pLuaState w' = LuaClosed
       else dps = Fin 0 \<and> w' = w1 \<and> world_ok w1 \<and> w_CurrentPlayer w1 \<noteq> None \<and> w_pLuaState w1 = LuaOpen))"
  using assms by (rule Perform_leaves_clean)

lemma quiet_initialize:
  "\<exists>w1. Lua_Initialize 2 quiet_env [] () (start_run d empty_world) = Inr (True, w1)"
  by (simp add: numeral_2_eq_2 empty_world_def quiet_eval start_run_def Lua_Initialize_def Let_def
      RunLuaCode_def get_lua_def script_path_def MAX_STRING_LENGTH_def)

lemma quiet_perform:
  "\<exists>r. Perform 2 0 quiet_env [] [] False () [] empty_world = Inr r"
  by (simp add: numeral_2_eq_2 Perform_def empty_world_def quiet_eval start_run_def Lua_Initialize_def Let_def
      RunLuaCode_def get_lua_def script_path_def MAX_STRING_LENGTH_def CallLuaFunction_def api_call_def api_table_def
      L_FinalizeCalculation_def return_vals_def ReadyExit_def IsExitable_def dummy_routines_def
      CEventSystem_destroy_def)

theorem run_leaves_no_event_witness:
  "\<exists>dps slots w'. Perform 2 0 quiet_env [] [] False () [] empty_world = Inr (dps, slots, w') \<and>
     cleaned_up w' \<and> w_pLuaState w' = LuaClosed"
proof -
  obtain dps slots w' where r: "Perform 2 0 quiet_env [] [] False () [] empty_world = Inr (dps, slots, w')"
    using quiet_perform by (metis prod_cases3)
  have "world_clean empty_world" by (simp add: world_clean_def live_def empty_world_def quiet_world_def)
  then show ?thesis using run_leaves_no_event [OF _ r] quiet_initialize [of False] r by auto
qed

subsection \<open>Order and time\<close>

lemma agenda_head:
  assumes "queue_ok m" and "agenda m = (t, p) # a"
  obtains xs m' where "m = (t, p # xs) # m'" and "a = map (Pair t) xs @ agenda m'"
proof -
  obtain k l m' where m: "m = (k, l) # m'" using assms(2) by (cases m) (auto simp: agenda_def)
  then obtain x xs where "l = x # xs" using assms(1) by (cases l) (auto simp: queue_ok_Cons)
  with m assms(2) show ?thesis by (intro that) (auto simp: agenda_def)
qed

text \<open>C4: The queue of events is a stable priority queue. Adding an event puts it behind every event
  that is due at the same time or earlier and before every later one; the pending events are
  always sorted by due time; and the event that is taken out is the first of them.\<close>

theorem queue_is_stable_priority_queue:
  assumes "queue_ok m"
  shows "agenda (queue_add t p m) = agenda_add t p (agenda m) \<and> queue_ok (queue_add t p m) \<and>
    sorted (map fst (agenda m)) \<and>
    (\<forall>k x a. agenda m = (k, x) # a \<longrightarrow>
      (\<exists>m'. queue_pop k m = Inr m' \<and> queue_ok m' \<and> agenda m' = a))"
proof -
  have "\<exists>m'. queue_pop k m = Inr m' \<and> queue_ok m' \<and> agenda m' = a" if h: "agenda m = (k, x) # a" for k x a
  proof -
    obtain xs m' where m: "m = (k, x # xs) # m'" and a: "a = map (Pair k) xs @ agenda m'"
      using agenda_head [OF assms h] by blast
    have "queue_pop k m = Inr (if xs = [] then m' else (k, xs) # m')" by (simp add: m queue_pop_Cons)
    moreover have "queue_ok (if xs = [] then m' else (k, xs) # m')" using assms by (simp add: m queue_ok_Cons)
    moreover have "agenda (if xs = [] then m' else (k, xs) # m') = a" by (simp add: a agenda_def)
    ultimately show ?thesis by blast
  qed
  then show ?thesis using agenda_queue_add queue_add_ok agenda_sorted assms by blast
qed

theorem queue_is_stable_priority_queue_witness:
  "agenda (queue_add 5 7 (w_eventMap quiet_world)) = [(0, 1), (5, 2), (5, 7)]"
proof -
  have "queue_ok (w_eventMap quiet_world)" by (rule world_ok_queue [OF quiet_world_ok])
  from queue_is_stable_priority_queue [OF this, of 5 7] show ?thesis
    by (simp add: quiet_world_def agenda_def agenda_add_def)
qed

text \<open>C5: When nothing is due and the sum of the clock and the time the player is busy fits 32 bits,
  the clock never goes back, never passes an event, and moves no further than the time the player
  is busy. If an event is pending or the player is busy it moves strictly forward; if the queue
  is empty and the player is idle it stands still.\<close>

theorem clock_moves_to_next_event:
  assumes "queue_ok (w_eventMap w)" and "\<not> head_due w"
    and "unat (w_iGameTime w) + unat nxt < 2 ^ 32"
  shows "w_iGameTime w \<le> w_iGameTime (advance_clock nxt w) \<and>
    (\<forall>x \<in> set (agenda (w_eventMap w)). w_iGameTime (advance_clock nxt w) \<le> fst x) \<and>
    (nxt \<noteq> 0 \<longrightarrow> w_iGameTime (advance_clock nxt w) \<le> w_iGameTime w + nxt) \<and>
    (w_eventMap w \<noteq> [] \<or> nxt \<noteq> 0 \<longleftrightarrow> w_iGameTime w < w_iGameTime (advance_clock nxt w)) \<and>
    (w_eventMap w = [] \<and> nxt = 0 \<longrightarrow> advance_clock nxt w = w)"
proof -
  have "advance_clock nxt w = w" if "w_eventMap w = []" "nxt = 0"
    using that by (simp add: advance_clock_def)
  then show ?thesis using advance_clock_bounds [OF assms] by auto
qed

theorem clock_moves_to_next_event_witness:
  "w_iGameTime (quiet_world\<lparr>w_eventMap := [(5, [2])]\<rparr>) < w_iGameTime (advance_clock 3 (quiet_world\<lparr>w_eventMap := [(5, [2])]\<rparr>))"
  using clock_moves_to_next_event [of "quiet_world\<lparr>w_eventMap := [(5, [2])]\<rparr>" 3]
  by (simp add: queue_ok_Cons head_due_def quiet_world_def)

subsection \<open>What scripts cannot do\<close>

text \<open>C6: A hook, whatever its script, cannot turn the clock, cannot take an event out of the queue or
  put one before those that are waiting, cannot free an event, and can only interrupt the cast
  the player is busy with, not start one in its place.\<close>

theorem script_is_contained:
  assumes "store_ok w" and "CallLuaFunction env f n w = Inr w'"
  shows "w_iGameTime w' = w_iGameTime w \<and> store_ok w' \<and>
    (\<forall>t. \<exists>xs. qlist (w_eventMap w') t = qlist (w_eventMap w) t @ xs) \<and>
    (\<forall>p. live w p \<longrightarrow> live w' p) \<and>
    (casting w' = casting w \<or> casting w' = None)"
proof -
  have g: "grows w w'" using assms(2) by (rule hook_grows)
  then have "queue_part w w'" "store_ok w'" "fixed_part w w'" using assms(1) by (auto simp: grows_def)
  then show ?thesis using queue_part_live by (auto simp: fixed_part_def queue_part_def)
qed

theorem script_is_contained_witness:
  "\<exists>w'. CallLuaFunction quiet_env ''OnTestStartRoutine'' 0 quiet_world = Inr w' \<and> w_bExitable w' \<and>
     w_iGameTime w' = w_iGameTime quiet_world \<and> store_ok w'"
proof -
  have s: "store_ok quiet_world" using quiet_world_ok by (simp add: world_ok_def core_def)
  have c: "CallLuaFunction quiet_env ''OnTestStartRoutine'' 0 quiet_world = Inr (quiet_world\<lparr>w_bExitable := True\<rparr>)"
    by (simp add: quiet_env_def quiet_world_def CallLuaFunction_def get_lua_def api_call_def api_table_def dummy_routines_def
        L_FinalizeCalculation_def return_vals_def ReadyExit_def)
  then show ?thesis using script_is_contained [OF s c] by simp
qed

end
