(* ===== verification/Sim_Bounds.thy ===== *)
theory Sim_Bounds
  imports Sim_Run
begin

text \<open>
  Bounds of the game's formulas in floating-point arithmetic: rounding, truncation and the
  conversions between \<open>uint32\<close> and \<open>double\<close> are those of the code, so the bounds hold of
  the numbers the program computes.
\<close>

subsection \<open>Rolling the damage\<close>

lemma u32_to_dbl_int: "u32_to_dbl n = Fin (of_int (uint n))"
  by (simp add: u32_to_dbl_def)

lemma uint_small: "\<bar>uint (n :: u32)\<bar> < 2 ^ 53"
  using uint_lt2p [of n] by simp

text \<open>C8: A damage roll always succeeds and lies between the two bounds it is rolled between,
  whatever the random number, and in spite of the three roundings on the way.\<close>

theorem roll_damage_between:
  assumes "lo \<le> hi"
  shows "\<exists>d. roll_damage r lo hi = Inr d \<and> lo \<le> d \<and> d \<le> hi"
proof -
  have diff: "uint (hi - lo) = uint hi - uint lo"
    using assms by (simp add: uint_sub_if' word_le_def)
  have k: "(of_nat (r mod 1001) :: rat) \<le> 1000"
    using of_nat_mono [of "r mod 1001" 1000] by simp
  obtain x where x: "d_div (rand_mod r 1001) (Fin 1000) = Fin x" "0 \<le> x" "x \<le> 1"
    using rnd_between_ints [of 0 "of_nat (r mod 1001) / 1000" 1] k by (auto simp: rand_mod_def)
  have "0 \<le> (of_int (uint (hi - lo)) :: rat)" by (simp only: of_int_0_le_iff uint_ge_0)
  then obtain y where y: "d_mul (u32_to_dbl (hi - lo)) (Fin x) = Fin y"
    "0 \<le> y" "y \<le> of_int (uint (hi - lo))"
    using rnd_between_ints [of 0 "of_int (uint (hi - lo)) * x" "uint (hi - lo)"] x(2,3) uint_small
    by (auto simp: u32_to_dbl_int mult_left_le)
  obtain z where z: "d_add (u32_to_dbl lo) (Fin y) = Fin z"
    "of_int (uint lo) \<le> z" "z \<le> of_int (uint hi)"
    using rnd_between_ints [of "uint lo" "of_int (uint lo) + y" "uint hi"] y(2,3) diff uint_small
    by (auto simp: u32_to_dbl_int)
  then show ?thesis using dbl_to_u32_between [of lo z hi] by (simp add: roll_damage_def x y)
qed

theorem roll_damage_between_witness: "\<exists>d. roll_damage 7 100 150 = Inr d \<and> 100 \<le> d \<and> d \<le> 150"
  by (rule roll_damage_between) simp

subsection \<open>Haste\<close>

text \<open>The percentage a rating gives is a finite number between 0 and the rating itself.\<close>

lemma haste_constant: "\<exists>c. HASTE_RATING_PRE_PRECENT = Fin c \<and> 32 \<le> c \<and> c \<le> 33"
  unfolding HASTE_RATING_PRE_PRECENT_def using rnd_between_ints [of 32 "3279 / 100" 33] by simp

lemma RatingToPrecentage_haste:
  "\<exists>x. RatingToPrecentage n PP_HASTE_PRECENTAGE = Fin x \<and> 0 \<le> x \<and> x \<le> of_int (uint n)"
proof -
  obtain c where c: "HASTE_RATING_PRE_PRECENT = Fin c" "32 \<le> c" using haste_constant by blast
  have n: "0 \<le> (of_int (uint n) :: rat)" by (simp only: of_int_0_le_iff uint_ge_0)
  obtain y where y: "d_div (u32_to_dbl n) HASTE_RATING_PRE_PRECENT = Fin y" "0 \<le> y" "y \<le> of_int (uint n)"
    using rnd_between_ints [of 0 "of_int (uint n) / c" "uint n"] c n uint_small [of n]
    unfolding c(1) by (auto simp: u32_to_dbl_int divide_le_eq mult_le_cancel_left1)
  obtain z where z: "d_div (Fin y) (Fin 100) = Fin z" "0 \<le> z" "z \<le> of_int (uint n)"
    using rnd_between_ints [of 0 "y / 100" "uint n"] y uint_small [of n] by (auto simp: divide_le_eq)
  then show ?thesis using y(1) by (auto simp: RatingToPrecentage_def game_consts)
qed

text \<open>With a bonus between 0 and 1000 (that is 100,000%) the player's haste is a finite
  non-negative number.\<close>

lemma haste_nonneg:
  assumes "p_iAdditionalHastePrecentage p = Fin a" "0 \<le> a" "a \<le> 1000"
    and "Get_HastePrecentage p = Inr h"
  shows "\<exists>x. h = Fin x \<and> 0 \<le> x \<and> x \<le> 2 ^ 42"
proof -
  obtain n where n: "stat_Get (p_HasteRating p) = Inr n"
    and h: "h = d_mul (RatingToPrecentage n PP_HASTE_PRECENTAGE) (d_add (Fin 1) (Fin a))"
    using assms(1,4) by (auto simp: Get_HastePrecentage_def)
  obtain x where x: "RatingToPrecentage n PP_HASTE_PRECENTAGE = Fin x" "0 \<le> x" "x \<le> of_int (uint n)"
    using RatingToPrecentage_haste by blast
  obtain y where y: "d_add (Fin 1) (Fin a) = Fin y" "1 \<le> y" "y \<le> 1001"
    using rnd_between_ints [of 1 "1 + a" 1001] assms(2,3) by auto
  have "of_int (uint n) \<le> (of_int (2 ^ 32) :: rat)"
    using uint_lt2p [of n] by (simp only: of_int_le_iff) simp
  then have x32: "x \<le> 2 ^ 32" using x(3) by simp
  have "x * y \<le> 2 ^ 32 * 1001" using x32 x(2) y by (intro mult_mono) auto
  then have "0 \<le> x * y" "x * y \<le> of_int (2 ^ 42)" using x(2) y(2) by auto
  then show ?thesis using rnd_between_ints [of 0 "x * y" "2 ^ 42"] unfolding h x(1) y(1) by simp
qed

lemma one_plus: "0 \<le> x \<Longrightarrow> x \<le> 2 ^ 43 \<Longrightarrow> \<exists>y. d_add (Fin 1) (Fin x) = Fin y \<and> 1 \<le> y \<and> y \<le> 2 ^ 44"
  using rnd_between_ints [of 1 "1 + x" "2 ^ 44"] by simp

text \<open>C9: Haste shortens the global cooldown, but never below one second, and it is never longer
  than a second and a half.\<close>

theorem global_cooldown_bounds:
  assumes "p_iAdditionalHastePrecentage p = Fin a" "0 \<le> a" "a \<le> 1000"
    and "stat_Get (p_HasteRating p) = Inr n"
  shows "\<exists>g. Get_GlobalCooldownTime p = Inr (Fin g) \<and> 1000 \<le> g \<and> g \<le> 1500"
proof -
  obtain h where h: "Get_HastePrecentage p = Inr h" using assms by (simp add: Get_HastePrecentage_def)
  then obtain x where x: "h = Fin x" "0 \<le> x" "x \<le> 2 ^ 42" using haste_nonneg assms(1-3) by blast
  obtain y where y: "d_add (Fin 1) h = Fin y" "1 \<le> y" "y \<le> 2 ^ 44"
    using one_plus [of x] x by auto
  have c: "rnd (3 / 2) = Fin (3 / 2)" by (simp add: d_eval)
  have r: "repr 53 (- 1074) (3 / 2)"
    unfolding repr_def by (rule exI [of _ 3], rule exI [of _ "- 1"]) (simp add: p2_def)
  have "3 / 2 < p2 1024" using p2_53_le by simp
  then obtain z where z: "d_div (rnd (3 / 2)) (d_add (Fin 1) h) = Fin z" "0 \<le> z" "z \<le> 3 / 2"
    using rnd_between [of 0 "3 / 2" "3 / 2 / y"] y r by (auto simp: c divide_le_eq)
  show ?thesis
  proof (cases "z < 1")
    case True
    then show ?thesis using h z by (simp add: Get_GlobalCooldownTime_def Let_def)
  next
    case False
    then obtain g where "d_mul (Fin z) (Fin 1000) = Fin g" "1000 \<le> g" "g \<le> 1500"
      using rnd_between_ints [of 1000 "z * 1000" 1500] z by auto
    then show ?thesis using False h z by (simp add: Get_GlobalCooldownTime_def Let_def)
  qed
qed

theorem global_cooldown_bounds_witness:
  "\<exists>g. Get_GlobalCooldownTime (CPlayer_new\<lparr>p_HasteRating := \<lparr>st_base = 400, st_additional = 100, st_multiplier = Fin 0\<rparr>\<rparr>) =
     Inr (Fin g) \<and> 1000 \<le> g \<and> g \<le> 1500"
  by (rule global_cooldown_bounds [of _ 0]) (simp_all add: CPlayer_new_def stat_Get_def d_eval)

end
