(* ===== verification/Sim_Props2.thy ===== *)
theory Sim_Props2
  imports Sim_Props Sim_Bounds
begin

text \<open>
  Guarantees of the parts around the loop: one cast at a time, cooldowns, haste
  and cast times, the databases, the names of units, and the reading of \<open>.toc\<close> files.
\<close>

subsection \<open>One cast at a time\<close>

lemma grows_hands: "grows w w' \<Longrightarrow> casting w' = casting w \<or> casting w' = None"
  by (simp add: grows_def fixed_part_def)

lemma casting_updates [simp]:
  "casting (AddEvent p d w) = casting w" "casting (set_event q e w) = casting w"
  by (simp_all add: casting_def AddEvent_def set_event_def)

lemma Aura_run_hands:
  "Aura_run env p w = Inr (b, w') \<Longrightarrow> casting w' = casting w \<or> casting w' = None"
proof -
  assume "Aura_run env p w = Inr (b, w')"
  then have "ended_or_requeued p w (b, w')"
    using safeR_D [OF AuraApplication_contract [of p w env]] safeR_D [OF AuraRemoval_contract [of p w env]]
      safeR_D [OF AuraPeriodic_contract [of p w env]]
    by (auto simp: Aura_run_def split: if_split_asm)
  then show ?thesis by (auto simp: ended_or_requeued_def split: if_split_asm dest: grows_hands)
qed

text \<open>A cast in its first phase that finds the player idle is the only way into the player's
  hands.\<close>

lemma Spell_PreAction_hands:
  assumes "get_spell_event p w = Inr (e, sp)" and "Spell_PreAction env p w = Inr (r, w')"
  shows "if is_cast e then casting w' = Some p \<or> casting w' = None
    else casting w' = casting w \<or> casting w' = None"
proof (cases "is_cast e")
  case True
  then obtain w1 w2 where "start_cast p w1 w2" and "let_go r w2 w'"
    using Spell_PreAction_cast [OF assms(1) _ assms(2)] by blast
  then show ?thesis using True grows_hands [of w2 w']
    by (auto simp: start_cast_def let_go_def casting_def [of w2] set_player_def Set_CastingSpell_def)
next
  case False
  then show ?thesis using Spell_PreAction_channel [OF assms(1) _ assms(2)] grows_hands [of w w'] by auto
qed

lemma Spell_run_hands:
  assumes r: "Spell_run env p w = Inr (b, w')" and e: "get_spell_event p w = Inr (e, sp)"
    and pl: "w_CurrentPlayer w = Some pl"
  shows "casting w' = casting w \<or> casting w' = None \<or>
    casting w' = Some p \<and> is_cast e \<and> has_bits (ev_EventType e) EVENT_PRE \<and> IsIdle (w_iGameTime w) pl"
proof (cases "has_bits (ev_EventType e) EVENT_PRE")
  case pre: True
  show ?thesis
  proof (cases "(is_cast e \<and> \<not> IsIdle (w_iGameTime w) pl) \<or> (\<not> is_cast e \<and> p_CastingSpell pl \<noteq> ev_Parent e)")
    case True
    then have "w' = w" using r e pl pre by (auto simp: Spell_run_def get_player_def)
    then show ?thesis by simp
  next
    case False
    then obtain c w1 where pa: "Spell_PreAction env p w = Inr (c, w1)" and "casting w' = casting w1"
      using r e pl pre by (auto simp: Spell_run_def get_player_def Let_def split: if_split_asm)
    then show ?thesis using Spell_PreAction_hands [OF e pa] pre False by (auto split: if_split_asm)
  qed
next
  case False
  then have "let_go (is_cast e) w w' \<or> w' = w"
    using r e pl safeR_D [OF Spell_PostAction_contract [OF e, of env]]
    by (auto simp: Spell_run_def get_player_def split: if_split_asm)
  then show ?thesis using grows_hands [of w w'] by (auto simp: let_go_def)
qed

text \<open>C12: One cast at a time. Whatever event runs and whatever the scripts do: a cast in the player's
  hands stays there or is let go, it is never replaced by another; a cast gets into empty hands
  only when its own event runs, once the global cooldown is over, and that event then stays
  queued; and a cast whose event comes due while another is in progress, or within the global
  cooldown, is dropped without any effect.\<close>

theorem one_cast_at_a_time:
  assumes "core None w" and "event_run env p w = Inr (b, w')" and "w_CurrentPlayer w = Some pl"
  shows "(\<forall>q. casting w = Some q \<longrightarrow> casting w' = Some q \<or> casting w' = None) \<and>
    (casting w = None \<longrightarrow> casting w' = None \<or>
       casting w' = Some p \<and> \<not> b \<and> p_iGlabalCooldownRecovery pl \<le> w_iGameTime w) \<and>
    (\<forall>e. w_events w p = Some e \<and> is_spell_event e \<and> is_cast e \<and> has_bits (ev_EventType e) EVENT_PRE \<and>
       (casting w \<noteq> None \<or> w_iGameTime w < p_iGlabalCooldownRecovery pl) \<longrightarrow> b \<and> w' = w)"
proof -
  have c: "casting w = p_CastingSpell pl" using assms(3) by (simp add: casting_def)
  have ended: "b \<Longrightarrow> casting w' \<noteq> Some p"
    using safeR_D [OF event_run_handled [OF assms(1)] assms(2)] by (simp add: handled_def)
  obtain e where e: "w_events w p = Some e" using assms(2) by (auto simp: event_run_def get_event_def)
  show ?thesis
  proof (cases "ev_part e")
    case (SpellPart sp)
    with e have g: "get_spell_event p w = Inr (e, sp)" by (simp add: get_spell_event_Inr)
    have r: "Spell_run env p w = Inr (b, w')"
      using assms(2) e SpellPart by (simp add: event_run_def get_event_def)
    have "b \<and> w' = w" if "is_cast e" "has_bits (ev_EventType e) EVENT_PRE" "\<not> IsIdle (w_iGameTime w) pl"
      using that r g assms(3) by (simp add: Spell_run_def get_player_def)
    then show ?thesis using Spell_run_hands [OF r g assms(3)] ended e c
      by (auto simp: IsIdle_def not_le)
  next
    case (AuraPart ae)
    have "Aura_run env p w = Inr (b, w')" using assms(2) e AuraPart by (simp add: event_run_def get_event_def)
    from Aura_run_hands [OF this] show ?thesis using ended e AuraPart by (auto simp: is_spell_event_def)
  qed
qed

definition busy_world :: "unit world" where
  "busy_world = quiet_world\<lparr>w_events := [1 \<mapsto> CSpellEvent_new 0 PlayerRef], w_eventMap := [(0, [1])],
     w_CurrentPlayer := Some (CPlayer_new\<lparr>p_iGlabalCooldownRecovery := 900\<rparr>)\<rparr>"

theorem one_cast_at_a_time_witness:
  "event_run quiet_env 1 busy_world = Inr (True, busy_world)"
proof -
  have c: "core None busy_world"
    by (auto simp: core_def store_ok_def queue_ok_Cons times_queued_def live_def casting_ok_def casting_def
        busy_world_def quiet_world_def CPlayer_new_def queued_def phase_ok_def CSpellEvent_new_def CEvent_new_def
        is_spell_event_def game_consts)
  have "event_run quiet_env 1 busy_world = Inr (True, busy_world)"
    by (simp add: busy_world_def quiet_world_def event_run_def get_event_def Spell_run_def get_spell_event_def
        get_player_def CSpellEvent_new_def CEvent_new_def has_bits_def game_consts is_cast_def IsIdle_def CPlayer_new_def)
  then obtain b w' where r: "event_run quiet_env 1 busy_world = Inr (b, w')" by blast
  have "w_CurrentPlayer busy_world = Some (CPlayer_new\<lparr>p_iGlabalCooldownRecovery := 900\<rparr>)"
    by (simp add: busy_world_def)
  from one_cast_at_a_time [OF c r this, THEN conjunct2, THEN conjunct2, rule_format, of "CSpellEvent_new 0 PlayerRef"]
  have "b \<and> w' = busy_world"
    by (simp add: busy_world_def CSpellEvent_new_def CEvent_new_def has_bits_def game_consts
        is_cast_def is_spell_event_def quiet_world_def)
  with r show ?thesis by simp
qed

subsection \<open>Cooldowns\<close>

lemma find_cooldown:
  "sm_ok (p_CooldownMap p) \<Longrightarrow> sm_find (p_CooldownMap (Set_SpellCooldown i t p)) j =
     (if j = i then Some t else sm_find (p_CooldownMap p) j)"
  using sm.put_find [of "p_CooldownMap p" i t j] by (auto simp: Set_SpellCooldown_def)

text \<open>C13: After a cooldown until time \<open>t\<close> is set, the spell is unavailable exactly until \<open>t\<close> (or
  until the global cooldown ends, if that is later), the answer being the time that remains; no
  other spell's cooldown changes; setting it again replaces it.\<close>

theorem cooldown_set_get:
  assumes "sm_ok (p_CooldownMap p)"
  shows "Get_SpellCooldown now i (Set_SpellCooldown i t p) =
      max (if now < t then t - now else 0)
          (if now < p_iGlabalCooldownRecovery p then p_iGlabalCooldownRecovery p - now else 0) \<and>
    (IsSpellAvailable now i (Set_SpellCooldown i t p) \<longleftrightarrow> IsIdle now p \<and> t \<le> now) \<and>
    (j \<noteq> i \<longrightarrow> Get_SpellCooldown now j (Set_SpellCooldown i t p) = Get_SpellCooldown now j p) \<and>
    sm_ok (p_CooldownMap (Set_SpellCooldown i t p))"
proof -
  have g: "p_iGlabalCooldownRecovery (Set_SpellCooldown i t p) = p_iGlabalCooldownRecovery p"
    and c: "IsIdle now (Set_SpellCooldown i t p) = IsIdle now p" by (simp_all add: Set_SpellCooldown_def IsIdle_def)
  have "sm_ok (p_CooldownMap (Set_SpellCooldown i t p))"
    using sm.put_ok [OF assms, of i t] by (auto simp: Set_SpellCooldown_def)
  moreover have 1: "Get_SpellCooldown now i (Set_SpellCooldown i t p) =
      max (if now < t then t - now else 0)
          (if now < p_iGlabalCooldownRecovery p then p_iGlabalCooldownRecovery p - now else 0)"
    by (simp add: Get_SpellCooldown_def find_cooldown [OF assms] g Let_def)
  moreover have "IsSpellAvailable now i (Set_SpellCooldown i t p) \<longleftrightarrow> IsIdle now p \<and> t \<le> now"
    unfolding IsSpellAvailable_def 1 c by (auto simp: IsIdle_def max_def not_less)
  moreover have "Get_SpellCooldown now j (Set_SpellCooldown i t p) = Get_SpellCooldown now j p" if "j \<noteq> i"
    using that by (simp add: Get_SpellCooldown_def find_cooldown [OF assms] g)
  ultimately show ?thesis by blast
qed

theorem cooldown_set_get_witness:
  "Get_SpellCooldown 100 7 (Set_SpellCooldown 7 160 (CPlayer_new\<lparr>p_iGlabalCooldownRecovery := 120\<rparr>)) = 60"
  using cooldown_set_get [of "CPlayer_new\<lparr>p_iGlabalCooldownRecovery := 120\<rparr>" 100 7 160]
  by (simp add: CPlayer_new_def)

subsection \<open>Haste\<close>

text \<open>C14: Haste only ever shortens a cast or a tick: with non-negative modifiers (and a rating
  modifier that is not negative) the hasted time is defined and not longer than the original.\<close>

theorem haste_shortens:
  assumes "w_CurrentPlayer w = Some p" and "p_iAdditionalHastePrecentage p = Fin a" "0 \<le> a" "a \<le> 1000"
    and "stat_Get (p_HasteRating p) = Inr n"
    and "ev_AdditionalHastePrecentage e = Fin b" "0 \<le> b" "b \<le> 1000"
  shows "\<exists>t'. GetCastTimeWithHaste t e w = Inr t' \<and> t' \<le> t"
proof -
  obtain h where h: "Get_HastePrecentage p = Inr h" using assms by (simp add: Get_HastePrecentage_def)
  then obtain x where x: "h = Fin x" "0 \<le> x" "x \<le> 2 ^ 42" using haste_nonneg assms(2-4) by blast
  obtain r where r: "RatingToPrecentage (ev_AdditionalHasteRaiting e) PP_HASTE_PRECENTAGE = Fin r" "0 \<le> r"
    "r \<le> of_int (uint (ev_AdditionalHasteRaiting e))"
    using RatingToPrecentage_haste by blast
  have "of_int (uint (ev_AdditionalHasteRaiting e)) \<le> (of_int (2 ^ 32) :: rat)"
    using uint_lt2p [of "ev_AdditionalHasteRaiting e"] by (simp only: of_int_le_iff) simp
  with r(3) have "x + r \<le> 2 ^ 43" using x(3) by simp
  then obtain z where z: "d_add (Fin x) (Fin r) = Fin z" "0 \<le> z" "z \<le> 2 ^ 43"
    using rnd_between_ints [of 0 "x + r" "2 ^ 43"] x(2) r(2) by auto
  obtain y where y: "d_add (Fin 1) (Fin z) = Fin y" "1 \<le> y" using one_plus z(2,3) by blast
  obtain c where c: "d_add (Fin 1) (Fin b) = Fin c" "1 \<le> c"
    using one_plus [of b] assms(7,8) by fastforce
  have n: "0 \<le> (of_int (uint t) :: rat)" by (simp only: of_int_0_le_iff uint_ge_0)
  have shrink: "0 \<le> u / v \<and> u / v \<le> of_int (uint t)" if "0 \<le> u" "u \<le> of_int (uint t)" "1 \<le> v" for u v :: rat
    using that mult_mono [of u "of_int (uint t)" 1 v] by (auto simp: divide_le_eq)
  obtain u where u: "d_div (u32_to_dbl t) (Fin y) = Fin u" "0 \<le> u" "u \<le> of_int (uint t)"
    using rnd_between_ints [of 0 "of_int (uint t) / y" "uint t"] shrink [OF n order_refl y(2)] y(2) uint_small [of t]
    by (auto simp: u32_to_dbl_int)
  obtain v where v: "d_div (Fin u) (Fin c) = Fin v" "0 \<le> v" "v \<le> of_int (uint t)"
    using rnd_between_ints [of 0 "u / c" "uint t"] shrink [OF u(2,3) c(2)] c(2) uint_small [of t] by auto
  obtain t' where t': "dbl_to_u32 (Fin v) = Inr t'" "t' \<le> t"
    using dbl_to_u32_between [of 0 v t] v(2,3) by auto
  show ?thesis
    unfolding GetCastTimeWithHaste_def get_player_def assms(1) assms(6)
    by (simp only: of_opt_simps bindR_simps h x(1) Let_def r(1) z(1) y(1) c(1) u(1) v(1) t'(1)) (use t'(2) in simp)
qed

theorem haste_shortens_witness:
  "\<exists>t'. GetCastTimeWithHaste 2500 (CSpellEvent_new 0 PlayerRef) quiet_world = Inr t' \<and> t' \<le> 2500"
  by (rule haste_shortens [of _ CPlayer_new 0 0 _ 0])
    (simp_all add: quiet_world_def CPlayer_new_def CSpellEvent_new_def CEvent_new_def stat_Get_def stat_init_def d_eval)

subsection \<open>The databases\<close>

text \<open>C15: Registering an aura or a spell gives it the next number; from then on the number leads to
  it, every earlier number still leads where it led, the object knows its number, and the
  databases stay consistent.\<close>

theorem registered_is_found:
  assumes "aura_db_ok adb ah" "adb_counter adb \<noteq> - 1" "ah p = Some a" "\<forall>k. GetAuraByID adb k \<noteq> Some p"
    and "spell_db_ok sdb sh" "sdb_counter sdb \<noteq> - 1" "sh q = Some s" "\<forall>k. GetSpellByID sdb k \<noteq> Some q"
  shows "(\<exists>n adb' ah'. AddAura p (adb, ah) = Inr (n, adb', ah') \<and> aura_db_ok adb' ah' \<and>
      GetAuraByID adb' = (GetAuraByID adb)(n \<mapsto> p) \<and> GetAuraByID adb n = None) \<and>
    (\<exists>n sdb' sh'. AddSpell q (sdb, sh) = Inr (n, sdb', sh') \<and> spell_db_ok sdb' sh' \<and>
      GetSpellByID sdb' = (GetSpellByID sdb)(n \<mapsto> q) \<and> GetSpellByID sdb n = None)"
proof -
  obtain n adb' ah' where a: "AddAura p (adb, ah) = Inr (n, adb', ah')"
    using adb.add_total [of ah p a adb] assms(3) by (metis prod_cases3)
  obtain m sdb' sh' where s: "AddSpell q (sdb, sh) = Inr (m, sdb', sh')"
    using sdb.add_total [of sh q s sdb] assms(7) by (metis prod_cases3)
  have "GetAuraByID adb n = None"
    using numbered_fresh [of "adb_map adb" "adb_counter adb" m_iAuraID ah] adb.add_id [OF a] assms(1,2)
    by (simp add: GetAuraByID_def aura_db_ok_def)
  moreover have "GetSpellByID sdb m = None"
    using numbered_fresh [of "sdb_map sdb" "sdb_counter sdb" m_iSpellID sh] sdb.add_id [OF s] assms(5,6)
    by (simp add: GetSpellByID_def spell_db_ok_def)
  ultimately show ?thesis
    using a s adb.add_get [OF assms(1,2) a] adb.add_ok [OF assms(1,2,4) a]
      sdb.add_get [OF assms(5,6) s] sdb.add_ok [OF assms(5,6,8) s] by blast
qed

definition demo_spell :: spell where
  "demo_spell = \<lparr>m_SpellName = ''Bolt'', m_SpellType = 1, m_iDamageMin = 1, m_iDamageMax = 2, m_iSpellID = None,
     m_SpellCastTime = 0, m_SpellCooldown = 0, m_ChannelTicks = 0, m_iSpellSchool = 0, m_pAuraToApply = None,
     m_iAuraFadeTime = 0, m_SPPrecentage = Fin 0\<rparr>"

theorem registered_is_found_witness:
  "(\<exists>n adb' ah'. AddAura 0 (CAuraDB_init, [0 \<mapsto> quiet_aura]) = Inr (n, adb', ah') \<and> aura_db_ok adb' ah' \<and>
      GetAuraByID adb' = (GetAuraByID CAuraDB_init)(n \<mapsto> 0) \<and> GetAuraByID CAuraDB_init n = None) \<and>
    (\<exists>n sdb' sh'. AddSpell 3 (CSpellDB_init, [3 \<mapsto> demo_spell]) = Inr (n, sdb', sh') \<and> spell_db_ok sdb' sh' \<and>
      GetSpellByID sdb' = (GetSpellByID CSpellDB_init)(n \<mapsto> 3) \<and> GetSpellByID CSpellDB_init n = None)"
  by (rule registered_is_found)
    (simp_all add: aura_db_ok_def spell_db_ok_def numbered_ok_def CAuraDB_init_def CSpellDB_init_def
      GetAuraByID_def GetSpellByID_def)

subsection \<open>Units\<close>


definition units_ok :: "'l world \<Rightarrow> bool" where
  "units_ok w \<longleftrightarrow> distinct (w_CreatureDB w) \<and>
     (\<forall>p \<in> set (w_CreatureDB w). p < w_next w \<and> (\<exists>c. w_creatures w p = Some c \<and>
        m_strName c \<notin> {''player'', ''target''})) \<and>
     (\<forall>p \<in> set (w_CreatureDB w). \<forall>q \<in> set (w_CreatureDB w). \<forall>c d.
        w_creatures w p = Some c \<longrightarrow> w_creatures w q = Some d \<longrightarrow> m_strName c = m_strName d \<longrightarrow> p = q)"

lemma GetByName_iff:
  assumes "units_ok w"
  shows "CreatureDB_GetByName (w_creatures w) (w_CreatureDB w) s = Inr (Some p) \<longleftrightarrow>
    p \<in> set (w_CreatureDB w) \<and> (\<exists>c. w_creatures w p = Some c \<and> m_strName c = c_str s)"
proof
  assume p: "p \<in> set (w_CreatureDB w) \<and> (\<exists>c. w_creatures w p = Some c \<and> m_strName c = c_str s)"
  have "\<forall>p \<in> set (w_CreatureDB w). w_creatures w p \<noteq> None" using assms by (auto simp: units_ok_def)
  then obtain r where r: "CreatureDB_GetByName (w_creatures w) (w_CreatureDB w) s = Inr r"
    using GetByName_total by blast
  show "CreatureDB_GetByName (w_creatures w) (w_CreatureDB w) s = Inr (Some p)"
  proof (cases r)
    case None
    with r p GetByName_None show ?thesis by fastforce
  next
    case (Some q)
    with r have q: "q \<in> set (w_CreatureDB w)" "\<exists>d. w_creatures w q = Some d \<and> m_strName d = c_str s"
      using GetByName_Some by metis+
    obtain c d where "w_creatures w p = Some c" "w_creatures w q = Some d" "m_strName c = m_strName d"
      using p q(2) by auto
    then have "p = q" using assms p q(1) by (auto simp: units_ok_def)
    with r Some show ?thesis by simp
  qed
qed (use GetByName_Some in blast)

lemma remove_unit:
  "distinct v \<Longrightarrow> (\<forall>p \<in> set v. \<exists>c. h p = Some c) \<Longrightarrow>
   (\<forall>p \<in> set v. \<forall>q \<in> set v. m_strName (the (h p)) = m_strName (the (h q)) \<longrightarrow> p = q) \<Longrightarrow>
   \<exists>h' v'. RemoveCreatureByName h v s = Inr (h', v') \<and> distinct v' \<and>
     set v' = {p \<in> set v. m_strName (the (h p)) \<noteq> c_str s} \<and>
     (\<forall>p. m_strName (the (h p)) \<noteq> c_str s \<longrightarrow> h' p = h p) \<and>
     (\<forall>p. p \<notin> set v \<longrightarrow> h' p = h p)"
proof (induction v)
  case (Cons p v)
  obtain c where c: "h p = Some c" using Cons.prems(2) by auto
  show ?case
  proof (cases "m_strName c = c_str s")
    case True
    then have "\<forall>q \<in> set v. m_strName (the (h q)) \<noteq> c_str s" using Cons.prems c by fastforce
    with True c Cons.prems(1) show ?thesis by auto
  next
    case False
    with Cons c show ?thesis by fastforce
  qed
qed simp

text \<open>C16: Units keep unique names, as long as these are shorter than 256 bytes (the buffer a name is
  copied to). Creating a unit fails exactly for the reserved names and for a
  name in use; otherwise the new unit, and no other, is found under its name. Destroying a unit
  removes the one of that name and no other, and its name can be used again.\<close>

theorem unit_names_are_unique:
  assumes "units_ok w" and "length (c_str nm) < MAX_STRING_LENGTH"
  shows "(\<exists>r w'. L_TargetCreate env [LStr nm] w = Inr (r, w') \<and> units_ok w' \<and>
      (if c_str nm \<in> {''player'', ''target''} \<or>
          (\<exists>p. CreatureDB_GetByName (w_creatures w) (w_CreatureDB w) nm = Inr (Some p))
       then r = LError ''Target already exists'' \<and> w' = w
       else r = LReturn [] \<and> CreatureDB_GetByName (w_creatures w') (w_CreatureDB w') nm = Inr (Some (w_next w)))) \<and>
    (\<exists>w'. L_TargetDestory env [LStr nm] w = Inr (LReturn [], w') \<and> units_ok w' \<and>
      CreatureDB_GetByName (w_creatures w') (w_CreatureDB w') nm = Inr None \<and>
      (\<forall>s p. c_str s \<noteq> c_str nm \<longrightarrow>
         CreatureDB_GetByName (w_creatures w') (w_CreatureDB w') s = Inr (Some p) \<longleftrightarrow>
         CreatureDB_GetByName (w_creatures w) (w_CreatureDB w) s = Inr (Some p)))"
proof
  have live: "\<forall>p \<in> set (w_CreatureDB w). \<exists>c. w_creatures w p = Some c" using assms by (auto simp: units_ok_def)
  then obtain r where r: "CreatureDB_GetByName (w_creatures w) (w_CreatureDB w) nm = Inr r"
    using GetByName_total [of "w_CreatureDB w" "w_creatures w" nm] by auto
  let ?c = "\<lparr>m_strName = c_str nm, m_auraMap = []\<rparr>"
  let ?w = "w\<lparr>w_next := Suc (w_next w), w_creatures := (w_creatures w)(w_next w \<mapsto> ?c),
              w_CreatureDB := w_CreatureDB w @ [w_next w]\<rparr>"
  show "\<exists>r w'. L_TargetCreate env [LStr nm] w = Inr (r, w') \<and> units_ok w' \<and>
      (if c_str nm \<in> {''player'', ''target''} \<or>
          (\<exists>p. CreatureDB_GetByName (w_creatures w) (w_CreatureDB w) nm = Inr (Some p))
       then r = LError ''Target already exists'' \<and> w' = w
       else r = LReturn [] \<and> CreatureDB_GetByName (w_creatures w') (w_CreatureDB w') nm = Inr (Some (w_next w)))"
  proof (cases "c_str nm \<in> {''player'', ''target''} \<or> r \<noteq> None")
    case True
    with r assms(1) show ?thesis
      by (auto simp: L_TargetCreate_def LUA_TO_STRING_def lua_tostring_def arg_def GetCreatureByName_def raise_error_def)
  next
    case False
    have new: "\<forall>p \<in> set (w_CreatureDB w). \<forall>c. w_creatures w p = Some c \<longrightarrow> m_strName c \<noteq> c_str nm"
      using False r GetByName_None [of "w_creatures w" "w_CreatureDB w" nm] by fastforce
    have fresh: "w_next w \<notin> set (w_CreatureDB w)" using assms(1) by (auto simp: units_ok_def)
    have ok: "units_ok ?w" using assms(1) new fresh False unfolding units_ok_def by (auto simp: less_Suc_eq)
    then have "CreatureDB_GetByName (w_creatures ?w) (w_CreatureDB ?w) nm = Inr (Some (w_next w))"
      unfolding GetByName_iff [OF ok] by simp
    moreover have "L_TargetCreate env [LStr nm] w = Inr (LReturn [], ?w)"
      using False r assms(2) by (simp add: L_TargetCreate_def LUA_TO_STRING_def lua_tostring_def arg_def
          GetCreatureByName_def CCreature_new_def strcpy256_def return_vals_def AddCreature_def)
    ultimately show ?thesis using ok r False by auto
  qed
next
  have live: "\<forall>p \<in> set (w_CreatureDB w). \<exists>c. w_creatures w p = Some c" using assms by (auto simp: units_ok_def)
  have uniq: "\<forall>p \<in> set (w_CreatureDB w). \<forall>q \<in> set (w_CreatureDB w).
      m_strName (the (w_creatures w p)) = m_strName (the (w_creatures w q)) \<longrightarrow> p = q"
    using assms(1) live unfolding units_ok_def by (metis option.sel)
  obtain h v where x: "RemoveCreatureByName (w_creatures w) (w_CreatureDB w) nm = Inr (h, v)" "distinct v"
    "set v = {p \<in> set (w_CreatureDB w). m_strName (the (w_creatures w p)) \<noteq> c_str nm}"
    "\<forall>p. m_strName (the (w_creatures w p)) \<noteq> c_str nm \<longrightarrow> h p = w_creatures w p"
    using remove_unit [OF _ live uniq, of nm] assms(1) by (auto simp: units_ok_def)
  let ?w = "w\<lparr>w_creatures := h, w_CreatureDB := v\<rparr>"
  have ok: "units_ok ?w" using assms(1) x(2-4) unfolding units_ok_def by auto
  have find: "CreatureDB_GetByName h v s = Inr (Some p) \<longleftrightarrow>
      CreatureDB_GetByName (w_creatures w) (w_CreatureDB w) s = Inr (Some p)" if "c_str s \<noteq> c_str nm" for s p
    using GetByName_iff [OF ok, of s p] GetByName_iff [OF assms(1), of s p] x(3,4) that live by fastforce
  obtain r where r: "CreatureDB_GetByName h v nm = Inr r"
    using GetByName_total [of v h nm] ok by (fastforce simp: units_ok_def)
  have "r = None"
  proof (cases r)
    case (Some p)
    then have "p \<in> set v" "\<exists>c. h p = Some c \<and> m_strName c = c_str nm"
      using GetByName_Some r by blast+
    then show ?thesis using x(3,4) by auto
  qed
  then show "\<exists>w'. L_TargetDestory env [LStr nm] w = Inr (LReturn [], w') \<and> units_ok w' \<and>
      CreatureDB_GetByName (w_creatures w') (w_CreatureDB w') nm = Inr None \<and>
      (\<forall>s p. c_str s \<noteq> c_str nm \<longrightarrow>
         CreatureDB_GetByName (w_creatures w') (w_CreatureDB w') s = Inr (Some p) \<longleftrightarrow>
         CreatureDB_GetByName (w_creatures w) (w_CreatureDB w) s = Inr (Some p))"
    using ok r find x(1) by (intro exI [of _ ?w]) (simp add: L_TargetDestory_def LUA_TO_STRING_def lua_tostring_def arg_def return_vals_def)
qed

theorem unit_names_are_unique_witness:
  "\<exists>w'. L_TargetDestory quiet_env [LStr ''boss''] quiet_world = Inr (LReturn [], w') \<and> units_ok w'"
  using unit_names_are_unique [of quiet_world "''boss''" quiet_env]
  by (auto simp: units_ok_def quiet_world_def c_str_def MAX_STRING_LENGTH_def)

subsection \<open>Loading the scripts\<close>

text \<open>What a line of a \<open>.toc\<close> file asks for: another \<open>.toc\<close> file, or a script to run. And
  doing things in order, up to and including the first that fails.\<close>

definition run_entry :: "nat \<Rightarrow> 'l env \<Rightarrow> string \<Rightarrow> 'l world \<Rightarrow> (bool \<times> 'l world) res" where
  "run_entry n env l w = (let path = ''lua'' @ [CHR 0x5C] @ l in
     if strstr path ''.toc'' then LoadTOCFile n env l w
     else bindR (get_lua w) (\<lambda>g. case e_loadfile env path of
            None \<Rightarrow> Inr (False, w) | Some f \<Rightarrow> run_prog env (f g) w))"

fun in_order :: "('l world \<Rightarrow> (bool \<times> 'l world) res) list \<Rightarrow> 'l world \<Rightarrow> (bool \<times> 'l world) res" where
  "in_order [] w = Inr (True, w)"
| "in_order (f # fs) w = bindR (f w) (\<lambda>(ok, w). if ok then in_order fs w else Inr (False, w))"

text \<open>A line of the file: its text, and whether a carriage return stands before the newline.\<close>

definition toc_line :: "string \<times> bool \<Rightarrow> string" where
  "toc_line lc = fst lc @ (if snd lc then [CHR 0x0D] else []) @ [CHR 0x0A]"

definition plain_line :: "string \<Rightarrow> bool" where
  "plain_line l \<longleftrightarrow> length l < 252 \<and> (\<forall>c \<in> set l. c \<noteq> CHR 0x00 \<and> c \<noteq> CHR 0x0D \<and> c \<noteq> CHR 0x0A)"

definition is_comment :: "string \<Rightarrow> bool" where
  "is_comment l \<longleftrightarrow> l \<noteq> [] \<and> hd l = CHR ''#''"

lemma take_line:
  assumes "CHR 0x0A \<notin> set b"
  shows "takeWhile (\<lambda>c. c \<noteq> CHR 0x0A) (b @ CHR 0x0A # s) = b"
    and "takeWhile (\<lambda>c. c \<noteq> CHR 0x0A) b = b"
  using assms by (induction b) auto

lemma chunks_line:
  assumes "CHR 0x0A \<notin> set b" and "length b < 255"
  shows "fgets_chunks (Suc n) (b @ CHR 0x0A # s) = (b @ [CHR 0x0A]) # fgets_chunks n s"
    and "b \<noteq> [] \<Longrightarrow> fgets_chunks (Suc n) b = [b]"
proof -
  have "next_chunk (b @ CHR 0x0A # s) = b @ [CHR 0x0A]" and b: "next_chunk b = b"
    using assms by (simp_all add: next_chunk_def take_line MAX_STRING_LENGTH_def)
  then show "fgets_chunks (Suc n) (b @ CHR 0x0A # s) = (b @ [CHR 0x0A]) # fgets_chunks n s" by simp
  have "fgets_chunks n [] = []" by (cases n) simp_all
  then show "b \<noteq> [] \<Longrightarrow> fgets_chunks (Suc n) b = [b]" using b by simp
qed

lemma strip_plain:
  assumes "plain_line l"
  shows "strip_line (toc_line (l, c)) = l" and "strip_line l = l"
  using assms unfolding plain_line_def by (induction l) (auto simp: strip_line_def toc_line_def c_str_def)

lemma chunks_toc:
  assumes "\<forall>lc \<in> set ls. plain_line (fst lc)" and "plain_line r"
    and "length (concat (map toc_line ls) @ r) \<le> n"
  shows "fgets_chunks n (concat (map toc_line ls) @ r) = map toc_line ls @ (if r = [] then [] else [r])"
  using assms
proof (induction ls arbitrary: n)
  case Nil
  then show ?case using chunks_line(2) [of r] by (cases n) (auto simp: plain_line_def)
next
  case (Cons lc ls)
  let ?b = "fst lc @ (if snd lc then [CHR 0x0D] else [])"
  have l: "plain_line (fst lc)" using Cons.prems(1) by simp
  then have "CHR 0x0A \<notin> set (fst lc)" unfolding plain_line_def by blast
  then have b: "CHR 0x0A \<notin> set ?b" by (simp split: if_split)
  have b2: "length ?b < 255" using l unfolding plain_line_def by (simp split: if_split)
  have b3: "toc_line lc = ?b @ [CHR 0x0A]" by (simp add: toc_line_def)
  obtain m where n: "n = Suc m" using Cons.prems(3) b3 by (cases n) auto
  have "length (concat (map toc_line ls) @ r) \<le> m" using Cons.prems(3) b3 n by simp
  with Cons have "fgets_chunks m (concat (map toc_line ls) @ r) = map toc_line ls @ (if r = [] then [] else [r])"
    by simp
  then show ?case using chunks_line(1) [OF b b2, of m "concat (map toc_line ls) @ r"] b3 n by simp
qed

lemma load_one:
  assumes "strip_line b = l" and "plain_line l" and "(b \<noteq> [] \<and> hd b = CHR ''#'') = is_comment l"
  shows "load_lines n env (b # bs) w =
    (if is_comment l then load_lines n env bs w
     else bindR (run_entry n env l w) (\<lambda>(ok, w). if ok then load_lines n env bs w else Inr (False, w)))"
proof -
  have p: "script_path l = Inr (''lua'' @ [CHR 0x5C] @ l)"
    using assms(2) by (simp add: script_path_def plain_line_def MAX_STRING_LENGTH_def)
  show ?thesis
  proof (cases "is_comment l")
    case False
    have f: "\<not> (b \<noteq> [] \<and> hd b = CHR ''#'')" using assms(3) False by blast
    show ?thesis using False unfolding load_lines.simps(2) if_not_P [OF f] assms(1) p run_entry_def Let_def
      by (cases "get_lua w") (auto split: option.split)
  qed (use assms(3) in simp)
qed

lemma load_toc:
  assumes "\<forall>lc \<in> set ls. plain_line (fst lc)" and "plain_line r"
  shows "load_lines n env (map toc_line ls @ (if r = [] then [] else [r])) w =
    in_order (map (run_entry n env) (filter (\<lambda>l. \<not> is_comment l) (map fst ls @ (if r = [] then [] else [r])))) w"
  using assms(1)
proof (induction ls arbitrary: w)
  case Nil
  show ?case
  proof (cases "r = []")
    case False
    have "load_lines n env [r] w = (if is_comment r then load_lines n env [] w
     else bindR (run_entry n env r w) (\<lambda>(ok, w). if ok then load_lines n env [] w else Inr (False, w)))"
      using strip_plain(2) [OF assms(2)] assms(2) by (intro load_one) (simp_all add: is_comment_def)
    with False show ?thesis by (simp del: load_lines.simps(2) cong: if_cong)
  qed simp
next
  case (Cons lc ls)
  obtain l c where lc: "lc = (l, c)" by (cases lc)
  have l: "plain_line l" using Cons.prems lc by simp
  have h: "(toc_line lc \<noteq> [] \<and> hd (toc_line lc) = CHR ''#'') = is_comment l"
    by (cases l) (auto simp: lc toc_line_def is_comment_def)
  have s: "strip_line (toc_line lc) = l" using strip_plain(1) [OF l] lc by simp
  define rs where "rs = (if r = [] then [] else [r])"
  have IH: "load_lines n env (map toc_line ls @ rs) w =
    in_order (map (run_entry n env) (filter (\<lambda>l. \<not> is_comment l) (map fst ls @ rs))) w" for w
    using Cons unfolding rs_def by simp
  show ?case unfolding rs_def [symmetric] using load_one [OF s l h, of n env "map toc_line ls @ rs" w] IH
    by (simp add: lc del: load_lines.simps(2) filter_append map_append cong: if_cong)
qed

text \<open>C36: Loading a \<open>.toc\<close> file runs its lines. For a file of lines that end in LF or CR LF (the last may
  lack its end), shorter than 252 bytes and without NUL, the loader skips the lines that begin
  with \<open>#\<close> and does what the others ask for, in the order of the file, a line that contains
  \<open>.toc\<close> by loading that file and any other by running the script of that name under \<open>lua\<close>, and
  stops at the first that fails, whose failure it returns. (A blank line is no exception: it asks
  for the script with the empty name. \<open>n\<close> is the depth to which \<open>.toc\<close> files may be nested.)\<close>

theorem toc_runs_its_lines:
  assumes "script_path name = Inr path" and "e_fopen env path = Some (concat (map toc_line ls) @ r)"
    and "\<forall>lc \<in> set ls. plain_line (fst lc)" and "plain_line r"
  shows "LoadTOCFile (Suc n) env name w =
    in_order (map (run_entry n env) (filter (\<lambda>l. \<not> is_comment l) (map fst ls @ (if r = [] then [] else [r])))) w"
proof -
  let ?s = "concat (map toc_line ls) @ r"
  have "LoadTOCFile (Suc n) env name w = load_lines n env (fgets_chunks (length ?s) ?s) w"
    using assms(1,2) by simp
  then show ?thesis unfolding chunks_toc [OF assms(3,4) order_refl] load_toc [OF assms(3,4)] .
qed

text \<open>A file of a comment, a script that exists, a blank line and a script that is not reached.\<close>

definition toc_env :: "unit env" where
  "toc_env = quiet_env\<lparr>e_fopen := (\<lambda>s. Some (concat (map toc_line
       [(''# list'', True), (''a.lua'', True), ([], False)]) @ ''b.lua'')),
     e_loadfile := (\<lambda>s. if s = ''lua'' @ [CHR 0x5C] @ ''a.lua''
       then Some (\<lambda>l. PCall ''FinalizeCalculation'' [] (\<lambda>r. PDone ())) else None)\<rparr>"

theorem toc_runs_its_lines_witness:
  "LoadTOCFile 1 toc_env ''main.toc'' quiet_world = Inr (False, quiet_world\<lparr>w_bExitable := True\<rparr>)"
proof -
  have p: "script_path ''main.toc'' = Inr (''lua'' @ [CHR 0x5C] @ ''main.toc'')"
    by (simp add: script_path_def MAX_STRING_LENGTH_def)
  have "LoadTOCFile (Suc 0) toc_env ''main.toc'' quiet_world =
    in_order (map (run_entry 0 toc_env) (filter (\<lambda>l. \<not> is_comment l)
      (map fst [(''# list'', True), (''a.lua'', True), ([], False)] @ (if ''b.lua'' = [] then [] else [''b.lua'']))))
      quiet_world"
    by (rule toc_runs_its_lines [OF p]) (simp_all add: toc_env_def plain_line_def)
  also have "\<dots> = Inr (False, quiet_world\<lparr>w_bExitable := True\<rparr>)"
    by (simp add: is_comment_def run_entry_def toc_env_def quiet_env_def get_lua_def quiet_world_def api_call_def
        api_table_def L_FinalizeCalculation_def return_vals_def ReadyExit_def dummy_routines_def)
  finally show ?thesis by simp
qed

end
