(* ===== verification/Sim_Report.thy ===== *)
theory Sim_Report
  imports Sim_Reporter
begin

text \<open>
  The report is right: the tallies the reporter's destructor collects are the sums over the
  recorded hits, the slots hold one entry per spell in the order of their names, and the host
  that reads slot after slot gets all of them. The destructor reads past the end of a map exactly
  when some spell never had a critical hit, and past the slots when there are more than 100.
\<close>

subsection \<open>The tallies\<close>

definition hits_of :: "string \<Rightarrow> damage_info list \<Rightarrow> damage_info list" where
  "hits_of k v = filter (\<lambda>d. di_strSpellName d = k) v"

definition names_of :: "damage_info list \<Rightarrow> string set" where
  "names_of v = di_strSpellName ` set v"

abbreviation tl_of :: "(string, u32) smap \<Rightarrow> string \<Rightarrow> u32" where
  "tl_of m k \<equiv> (case sm_find m k of None \<Rightarrow> 0 | Some x \<Rightarrow> x)"

definition tallied :: "(string, u32) smap \<Rightarrow> string set \<Rightarrow> (string \<Rightarrow> u32) \<Rightarrow> bool" where
  "tallied m D f \<longleftrightarrow> sm_ok m \<and> (\<forall>k. sm_find m k = (if k \<in> D then Some (f k) else None))"

lemma tallied_tally: "tallied m D f \<Longrightarrow> tallied (tally k n m) (insert k D) (f(k := (if k \<in> D then f k else 0) + n))"
  by (auto simp: tallied_def tally_def sm_ok_assign sm_ok_insert sm_find_assign sm_find_insert split: option.splits)

lemma tallied_cong: "tallied m D f \<Longrightarrow> D = D' \<Longrightarrow> (\<And>k. k \<in> D' \<Longrightarrow> f k = g k) \<Longrightarrow> tallied m D' g"
  by (auto simp: tallied_def)

definition dmg_of :: "damage_info list \<Rightarrow> string \<Rightarrow> u32" where
  "dmg_of v k = sum_list (map di_iDamage (hits_of k v))"

definition crits_of :: "damage_info list \<Rightarrow> damage_info list" where
  "crits_of v = filter di_isCrit v"

definition count_of :: "damage_info list \<Rightarrow> string \<Rightarrow> u32" where
  "count_of v k = of_nat (length (hits_of k v))"

lemma hits_of_append: "hits_of k (v @ w) = hits_of k v @ hits_of k w"
  "hits_of k [d] = (if di_strSpellName d = k then [d] else [])"
  by (simp_all add: hits_of_def)

lemma hits_of_none: "k \<notin> names_of v \<Longrightarrow> hits_of k v = []"
  by (auto simp: hits_of_def names_of_def filter_empty_conv)

lemma collect_tallies:
  "tallied m (names_of v) (dmg_of v) \<Longrightarrow> tallied m2 (names_of v) (count_of v) \<Longrightarrow>
   tallied mc (names_of (crits_of v)) (count_of (crits_of v)) \<Longrightarrow> tot = sum_list (map di_iDamage v) \<Longrightarrow>
   \<exists>m' m2' mc'. collect w (tot, m, m2, mc) = (sum_list (map di_iDamage (v @ w)), m', m2', mc') \<and>
     tallied m' (names_of (v @ w)) (dmg_of (v @ w)) \<and> tallied m2' (names_of (v @ w)) (count_of (v @ w)) \<and>
     tallied mc' (names_of (crits_of (v @ w))) (count_of (crits_of (v @ w)))"
proof (induction w arbitrary: v m m2 mc tot)
  case (Cons d w)
  let ?k = "di_strSpellName d"
  have "tallied (tally ?k (di_iDamage d) m) (names_of (v @ [d])) (dmg_of (v @ [d]))"
    by (rule tallied_cong [OF tallied_tally [OF Cons.prems(1)]])
      (auto simp: names_of_def dmg_of_def hits_of_append hits_of_none [unfolded names_of_def]) 
  moreover have "tallied (tally ?k 1 m2) (names_of (v @ [d])) (count_of (v @ [d]))"
    by (rule tallied_cong [OF tallied_tally [OF Cons.prems(2)]])
      (auto simp: names_of_def count_of_def hits_of_append hits_of_none [unfolded names_of_def])
  moreover have "tallied (if di_isCrit d then tally ?k 1 mc else mc)
      (names_of (crits_of (v @ [d]))) (count_of (crits_of (v @ [d])))"
  proof (cases "di_isCrit d")
    case True
    then have "crits_of (v @ [d]) = crits_of v @ [d]" by (simp add: crits_of_def)
    moreover have "tallied (tally ?k 1 mc) (names_of (crits_of v @ [d])) (count_of (crits_of v @ [d]))"
      by (rule tallied_cong [OF tallied_tally [OF Cons.prems(3)]])
        (auto simp: names_of_def count_of_def hits_of_append hits_of_none [unfolded names_of_def])
    ultimately show ?thesis using True by simp
  next
    case False
    with Cons.prems(3) show ?thesis by (simp add: crits_of_def)
  qed
  ultimately show ?case
    using Cons.IH [of _ "v @ [d]"] Cons.prems(4) by simp
qed auto

lemma collect_all:
  "\<exists>m m2 mc. collect v (0, [], [], []) = (sum_list (map di_iDamage v), m, m2, mc) \<and>
     tallied m (names_of v) (dmg_of v) \<and> tallied m2 (names_of v) (count_of v) \<and>
     tallied mc (names_of (crits_of v)) (count_of (crits_of v))"
  using collect_tallies [of "[]" "[]" "[]" "[]" 0 v]
  by (simp add: tallied_def names_of_def crits_of_def)

subsection \<open>The slots\<close>

text \<open>The names in the order the map iterates them.\<close>

definition report_names :: "damage_info list \<Rightarrow> string list" where
  "report_names v = sorted_list_of_set (names_of v)"

definition slot :: "damage_info list \<Rightarrow> nat \<Rightarrow> string \<Rightarrow> damage_info_vb" where
  "slot v j k = \<lparr>vb_Index = of_nat j, vb_Damage = dmg_of v k, vb_Count = count_of v k,
     vb_CritCount = count_of (crits_of v) k, vb_lpSpellName = k\<rparr>"

lemma tallied_list: "tallied m D f \<Longrightarrow> m = map (\<lambda>k. (k, f k)) (sorted_list_of_set D)"
proof -
  assume t: "tallied m D f"
  then have ok: "sm_ok m" by (simp add: tallied_def)
  have "k \<in> fst ` set m \<longleftrightarrow> k \<in> D" for k
    using t sm_find_None_iff [of m k] by (simp add: tallied_def split: if_splits)
  then have D: "fst ` set m = D" by blast
  have "sorted_wrt (<) (map fst m)" using ok by (simp add: sm_ok_def)
  then have keys: "sorted_list_of_set D = map fst m"
    using D sorted_list_of_set_unique [of D "map fst m"] distinct_card [of "map fst m"]
    by (auto simp: strict_sorted_iff)
  have "x = (fst x, f (fst x))" if "x \<in> set m" for x
    using t sm_in_find [OF ok, of "fst x" "snd x"] that by (auto simp: tallied_def split: if_splits)
  then show ?thesis by (simp add: keys map_idI)
qed

lemma fill_slots_spec:
  "(\<forall>k \<in> set ks. sm_find m2 k = Some (c k)) \<Longrightarrow>
   fill_slots (map (\<lambda>k. (k, f k)) ks) m2 mc j slots =
     (if (\<forall>k \<in> set ks. sm_find mc k \<noteq> None) \<and> (ks = [] \<or> j + length ks \<le> length slots)
      then Inr (take j slots @ map (\<lambda>(i, k). Some \<lparr>vb_Index = of_nat i, vb_Damage = f k, vb_Count = c k,
             vb_CritCount = the (sm_find mc k), vb_lpSpellName = k\<rparr>) (enumerate j ks) @ drop (j + length ks) slots)
      else Inl OutOfBounds)"
proof (induction ks arbitrary: j slots)
  case (Cons k ks)
  show ?case
  proof (cases "j < length slots \<and> sm_find mc k \<noteq> None")
    case True
    then show ?thesis using Cons by (auto simp: guardR_def take_Suc_conv_app_nth)
  next
    case False
    with Cons.prems show ?thesis by (auto simp: guardR_def)
  qed
qed simp

lemma report_spec:
  "CDefaultReporter_destroy v slots =
    (if names_of v \<subseteq> names_of (crits_of v) \<and> (v = [] \<or> card (names_of v) \<le> length slots)
     then Inr (map (\<lambda>(j, k). Some (slot v j k)) (enumerate 0 (report_names v)) @ drop (card (names_of v)) slots)
     else Inl OutOfBounds)"
proof -
  obtain m m2 mc where c: "collect v (0, [], [], []) = (sum_list (map di_iDamage v), m, m2, mc)"
    and m: "tallied m (names_of v) (dmg_of v)" and m2: "tallied m2 (names_of v) (count_of v)"
    and mc: "tallied mc (names_of (crits_of v)) (count_of (crits_of v))" using collect_all by blast
  have fin: "finite (names_of v)" by (simp add: names_of_def)
  then have set: "set (report_names v) = names_of v" and len: "length (report_names v) = card (names_of v)"
    by (simp_all add: report_names_def)
  have nil: "report_names v = [] \<longleftrightarrow> v = []"
    using set by (cases v) (auto simp: names_of_def)
  have all: "(\<forall>k \<in> set (report_names v). sm_find mc k \<noteq> None) \<longleftrightarrow> names_of v \<subseteq> names_of (crits_of v)"
    using mc by (auto simp: set tallied_def split: if_splits)
  have "CDefaultReporter_destroy v slots = fill_slots (map (\<lambda>k. (k, dmg_of v k)) (report_names v)) m2 mc 0 slots"
    by (simp add: CDefaultReporter_destroy_def c tallied_list [OF m] report_names_def)
  also have "\<dots> = (if names_of v \<subseteq> names_of (crits_of v) \<and> (v = [] \<or> card (names_of v) \<le> length slots)
     then Inr (map (\<lambda>(i, k). Some \<lparr>vb_Index = of_nat i, vb_Damage = dmg_of v k, vb_Count = count_of v k,
             vb_CritCount = the (sm_find mc k), vb_lpSpellName = k\<rparr>) (enumerate 0 (report_names v)) @ drop (card (names_of v)) slots)
     else Inl OutOfBounds)"
    using m2 unfolding all [symmetric] nil [symmetric] len [symmetric]
    by (subst fill_slots_spec [where c = "count_of v"]) (auto simp: set tallied_def)
  also have "map (\<lambda>(i, k). Some \<lparr>vb_Index = of_nat i, vb_Damage = dmg_of v k, vb_Count = count_of v k,
             vb_CritCount = the (sm_find mc k), vb_lpSpellName = k\<rparr>) (enumerate 0 (report_names v)) =
      map (\<lambda>(j, k). Some (slot v j k)) (enumerate 0 (report_names v))"
    if "names_of v \<subseteq> names_of (crits_of v)"
  proof -
    have "sm_find mc k = Some (count_of (crits_of v) k)" if "k \<in> names_of v" for k
      using mc that \<open>names_of v \<subseteq> _\<close> by (auto simp: tallied_def)
    then show ?thesis using nth_mem [of _ "report_names v"] by (auto simp: slot_def in_set_enumerate_eq set)
  qed
  ultimately show ?thesis by (auto split: if_splits)
qed

lemma sum_by_key:
  "finite A \<Longrightarrow> names_of v \<subseteq> A \<Longrightarrow> (\<Sum>k \<in> A. dmg_of v k) = sum_list (map di_iDamage v)"
proof (induction v)
  case (Cons d v)
  have "dmg_of (d # v) k = (if k = di_strSpellName d then di_iDamage d else 0) + dmg_of v k" for k
    by (simp add: dmg_of_def hits_of_def)
  then have "(\<Sum>k \<in> A. dmg_of (d # v) k) =
      (\<Sum>k \<in> A. if k = di_strSpellName d then di_iDamage d else 0) + (\<Sum>k \<in> A. dmg_of v k)"
    by (simp add: sum.distrib)
  with Cons show ?case by (simp add: names_of_def)
qed (simp add: dmg_of_def hits_of_def)

text \<open>C10: The report is complete and correct. If every spell that hit also had a critical hit and the
  slots suffice, there is one slot per spell, in the order of the names, with the summed damage and
  the numbers of hits and of critical hits of that spell, and the damage of the slots adds up to
  the damage of all hits (modulo \<open>2 ^ 32\<close>); otherwise the destructor reads or writes out of
  bounds.\<close>

theorem report_is_correct:
  "CDefaultReporter_destroy v slots =
    (if names_of v \<subseteq> names_of (crits_of v) \<and> (v = [] \<or> card (names_of v) \<le> length slots)
     then Inr (map (\<lambda>(j, k). Some (slot v j k)) (enumerate 0 (report_names v)) @ drop (card (names_of v)) slots)
     else Inl OutOfBounds) \<and>
   sum_list (map (dmg_of v) (report_names v)) = sum_list (map di_iDamage v)"
proof -
  have "finite (names_of v)" by (simp add: names_of_def)
  then have "sum_list (map (dmg_of v) (report_names v)) = (\<Sum>k \<in> names_of v. dmg_of v k)"
    by (simp add: report_names_def sum.distinct_set_conv_list [symmetric])
  with sum_by_key [of "names_of v" v] show ?thesis by (simp add: report_spec names_of_def)
qed

subsection \<open>The host's loop\<close>

text \<open>The host calls \<open>GetDamageInfo\<close> with the same structure until the answer is 0.\<close>

fun host_read :: "nat \<Rightarrow> damage_slots \<Rightarrow> damage_info_vb \<Rightarrow> damage_info_vb list" where
  "host_read 0 slots q = []"
| "host_read (Suc n) slots q = (case GetDamageInfo slots q of (r, q') \<Rightarrow>
     if r = 0 then [] else q' # host_read n slots q')"

lemma host_read_slots:
  assumes "slots = map Some ds @ replicate (100 - length ds) None" "length ds \<le> 100"
  shows "i \<le> length ds \<Longrightarrow> unat (vb_Index q) = i \<Longrightarrow> length ds - i < n \<Longrightarrow>
    map (\<lambda>d. d\<lparr>vb_Index := 0\<rparr>) (host_read n slots q) = map (\<lambda>d. d\<lparr>vb_Index := 0\<rparr>) (drop i ds)"
proof (induction n arbitrary: i q)
  case (Suc n)
  have big: "100 \<le> vb_Index q \<longleftrightarrow> 100 \<le> i" using Suc.prems(2) by (simp add: word_le_nat_alt)
  show ?case
  proof (cases "i < length ds")
    case True
    have "unat (vb_Index q + 1) = Suc i"
      using u32_add_unat [of "vb_Index q" 1] True assms(2) Suc.prems(2) by simp
    moreover have "slots ! i = Some (ds ! i)" using True assms(1) by (simp add: nth_append)
    moreover have "drop i ds = ds ! i # drop (Suc i) ds" using True by (simp add: Cons_nth_drop_Suc)
    moreover have "GetDamageInfo slots q = (1, (ds ! i)\<lparr>vb_Index := vb_Index q + 1\<rparr>)"
      using calculation(2) Suc.prems(2) True assms(2) big by (auto simp: GetDamageInfo_def)
    ultimately show ?thesis
      using Suc.IH [of "Suc i" "(ds ! i)\<lparr>vb_Index := vb_Index q + 1\<rparr>"] Suc.prems True by auto
  next
    case False
    then show ?thesis using Suc.prems big assms
      by (cases "i = 100") (auto simp: GetDamageInfo_def nth_append)
  qed
qed simp

text \<open>C11: The host, starting at index 0, reads back exactly the entries of the report, in order, and
  then gets the answer 0.\<close>

theorem host_reads_the_report:
  assumes "CDefaultReporter_destroy v (CDefaultReporter_new old) = Inr slots" and "vb_Index q = 0"
  shows "map (\<lambda>d. d\<lparr>vb_Index := 0\<rparr>) (host_read 101 slots q) = map (slot v 0) (report_names v)"
proof -
  let ?ds = "map (\<lambda>(j, k). slot v j k) (enumerate 0 (report_names v))"
  have len: "length (report_names v) = card (names_of v)" by (simp add: report_names_def names_of_def)
  have c: "v = [] \<or> card (names_of v) \<le> 100"
    and s: "slots = map Some ?ds @ drop (card (names_of v)) (replicate 100 None)"
    using assms(1) by (auto simp: report_spec CDefaultReporter_new_def DAMAGE_SLOTS_def comp_def
        split: if_split_asm prod.splits)
  have l: "length ?ds \<le> 100" using c by (auto simp: len) (simp add: names_of_def)
  have "slots = map Some ?ds @ replicate (100 - length ?ds) None" using s by (simp add: len)
  from host_read_slots [OF this l, of 0 q 101] assms(2) l
  have "map (\<lambda>d. d\<lparr>vb_Index := 0\<rparr>) (host_read 101 slots q) = map (\<lambda>d. d\<lparr>vb_Index := 0\<rparr>) ?ds" by simp
  also have "\<dots> = map (slot v 0) (report_names v)"
    by (rule nth_equalityI) (auto simp: slot_def nth_enumerate_eq)
  finally show ?thesis .
qed

text \<open>Two spells, three hits.\<close>

definition demo_hits :: "damage_info list" where
  "demo_hits = [\<lparr>di_iGameTime = 1, di_iDamage = 30, di_isCrit = True, di_strSpellName = ''b''\<rparr>,
     \<lparr>di_iGameTime = 2, di_iDamage = 5, di_isCrit = True, di_strSpellName = ''a''\<rparr>,
     \<lparr>di_iGameTime = 3, di_iDamage = 12, di_isCrit = False, di_strSpellName = ''b''\<rparr>]"

lemma demo_report: "\<exists>slots. CDefaultReporter_destroy demo_hits (CDefaultReporter_new []) = Inr slots"
  by (simp add: report_spec demo_hits_def names_of_def crits_of_def CDefaultReporter_new_def DAMAGE_SLOTS_def
      card_insert_if)

theorem host_reads_the_report_witness:
  "\<exists>slots. CDefaultReporter_destroy demo_hits (CDefaultReporter_new []) = Inr slots \<and>
     map (\<lambda>d. d\<lparr>vb_Index := 0\<rparr>) (host_read 101 slots (slot [] 0 [])) =
       map (slot demo_hits 0) (report_names demo_hits)"
proof -
  obtain slots where s: "CDefaultReporter_destroy demo_hits (CDefaultReporter_new []) = Inr slots"
    using demo_report by blast
  have "vb_Index (slot [] 0 []) = 0" by (simp add: slot_def)
  from host_reads_the_report [OF s this] s show ?thesis by blast
qed

end
