(* ===== verification/Lua_Value.thy ===== *)
theory Lua_Value
  imports IEEE_Double
begin

text \<open>
  The values of the embedded Lua 5.1 interpreter (\<open>lua/*.c\<close>), shared by the theories on its
  C files: tagged values, interned strings, the errors a call into the core can end in, and
  the part of \<open>luaconf.h\<close> and of the C library the sources take as given.

  The interpreter's headers are not part of the repository. What they fix by the Lua 5.1
  manual (\<open>lua_Number\<close> is a double, \<open>LUA_QL\<close> quotes, the type tags) is defined here; what they
  leave to the platform is a field of \<open>luaconf\<close>, an argument of every definition that uses it.
\<close>

subsection \<open>Tagged values\<close>

text \<open>A \<open>TString\<close> never changes after \<open>luaS_newlstr\<close> has built it, so a pointer to one is the
  record of its address, its \<open>hash\<close> field and its bytes; equal pointers are equal addresses.\<close>

record tstring =
  ts_ptr :: addr
  ts_hash :: u32
  ts_str :: string

datatype gckind = KTable | KFunction | KUserdata | KThread

datatype tvalue =
    TNil
  | TBool bool
  | TLight addr              \<comment> \<open>\<open>LUA_TLIGHTUSERDATA\<close>\<close>
  | TNum dbl
  | TStr tstring
  | TGC gckind addr          \<comment> \<open>table, function, full userdata, thread\<close>
  | TDead addr               \<comment> \<open>\<open>LUA_TDEADKEY\<close>: a collected key left in a hash node\<close>

definition ttisnil :: "tvalue \<Rightarrow> bool" where
  "ttisnil v = (v = TNil)"

definition l_isfalse :: "tvalue \<Rightarrow> bool" where
  "l_isfalse v = (v = TNil \<or> v = TBool False)"

fun gcvalue :: "tvalue \<Rightarrow> addr option" where
  "gcvalue (TStr s) = Some (ts_ptr s)"
| "gcvalue (TGC k p) = Some p"
| "gcvalue (TDead p) = Some p"
| "gcvalue _ = None"

fun iscollectable :: "tvalue \<Rightarrow> bool" where
  "iscollectable (TStr s) = True"
| "iscollectable (TGC k p) = True"
| "iscollectable _ = False"

subsection \<open>Errors\<close>

datatype lua_error =
    LuaErr string        \<comment> \<open>\<open>luaG_runerror\<close>, \<open>luaL_error\<close>: a message, \<open>LUA_ERRRUN\<close>\<close>
  | LuaMemErr            \<comment> \<open>\<open>luaD_throw(L, LUA_ERRMEM)\<close>\<close>
  | LuaFault fault       \<comment> \<open>a point with no defined behaviour, or a spent bound of the model\<close>

type_synonym 'a lres = "lua_error + 'a"

text \<open>The result is an error message, or a value on which \<open>P\<close> holds: never a fault.\<close>

definition lua_ok :: "('a \<Rightarrow> bool) \<Rightarrow> 'a lres \<Rightarrow> bool" where
  "lua_ok P r = (case r of Inl e \<Rightarrow> \<exists>m. e = LuaErr m | Inr x \<Rightarrow> P x)"

lemma lua_ok_simps [simp]: "lua_ok P (Inr x) = P x" "lua_ok P (Inl (LuaErr m))"
  by (simp_all add: lua_ok_def)

lemma lua_ok_bind: "lua_ok Q m \<Longrightarrow> (\<And>x. m = Inr x \<Longrightarrow> Q x \<Longrightarrow> lua_ok P (f x)) \<Longrightarrow> lua_ok P (bindR m f)"
  by (cases m) (auto simp: lua_ok_def)

lemma lua_ok_mono: "lua_ok Q m \<Longrightarrow> (\<And>x. m = Inr x \<Longrightarrow> Q x \<Longrightarrow> P x) \<Longrightarrow> lua_ok P m"
  by (cases m) (auto simp: lua_ok_def)

lemma lua_ok_D: "lua_ok P m \<Longrightarrow> m = Inr x \<Longrightarrow> P x"
  by simp

definition LUA_QL :: "string \<Rightarrow> string" where
  "LUA_QL s = CHR 0x27 # s @ [CHR 0x27]"

subsection \<open>The configuration\<close>

text \<open>\<open>number2int\<close> is the macro \<open>lua_number2int\<close> (its rounding of a fraction is the
  platform's choice), \<open>int_point\<close> the cast of a pointer to \<open>unsigned int\<close>, \<open>str2number\<close> the
  macro \<open>lua_str2number\<close> (\<open>strtod\<close>: the value and the number of characters read),
  \<open>number2str\<close> the macro \<open>lua_number2str\<close> and \<open>ptr2str\<close> the \<open>%p\<close> conversion.\<close>

record luaconf =
  number2int :: "dbl \<Rightarrow> int"
  int_point :: "addr \<Rightarrow> u32"
  str2number :: "string \<Rightarrow> dbl \<times> nat"
  number2str :: "dbl \<Rightarrow> string"
  ptr2str :: "addr \<Rightarrow> string"

definition is_int :: "int \<Rightarrow> bool" where
  "is_int k = (- (2 ^ 31) \<le> k \<and> k < 2 ^ 31)"

text \<open>What the sources rely on: the conversion of a number that is an \<open>int\<close> is that \<open>int\<close>, and
  its result is an \<open>int\<close> always.\<close>

definition conf_ok :: "'a luaconf_scheme \<Rightarrow> bool" where
  "conf_ok C = ((\<forall>k. is_int k \<longrightarrow> number2int C (Fin (of_int k)) = k) \<and> (\<forall>n. is_int (number2int C n)))"

definition cast_num :: "int \<Rightarrow> dbl" where
  "cast_num k = Fin (of_int k)"

lemma cast_num_eq [simp]: "cast_num j = cast_num k \<longleftrightarrow> j = k"
  by (simp add: cast_num_def)

lemma cast_num_neq [simp]: "cast_num k \<noteq> NaN" "cast_num k \<noteq> Infty s"
  by (simp_all add: cast_num_def)

lemma d_eq_iff: "d_eq x y \<longleftrightarrow> x = y \<and> x \<noteq> NaN"
  by (cases "(x, y)" rule: d_eq.cases) auto

text \<open>A configuration that truncates, as the portable definition of the macro does.\<close>

definition trunc_conf :: luaconf where
  "trunc_conf = \<lparr> number2int = (\<lambda>n. case dbl_to_i32 n of Inr w \<Rightarrow> sint w | Inl _ \<Rightarrow> - (2 ^ 31)),
     int_point = of_nat, str2number = (\<lambda>s. (Fin 0, 0)), number2str = (\<lambda>n. []),
     ptr2str = (\<lambda>p. []) \<rparr>"

lemma trunc_of_int [simp]: "trunc (of_int k) = k"
  by (simp add: trunc_def)

lemma sint_is_int: "is_int (sint (w :: i32))"
  using sint_lt [of w] sint_ge [of w] by (simp add: is_int_def)

lemma sint_of_int: "is_int k \<Longrightarrow> sint (word_of_int k :: i32) = k"
  by (simp add: is_int_def signed_of_int signed_take_bit_int_eq_self)

lemma trunc_conf_ok: "conf_ok trunc_conf"
proof -
  have "number2int trunc_conf (Fin (of_int k)) = k" if "is_int k" for k
    using that sint_of_int [OF that] by (simp add: trunc_conf_def is_int_def)
  moreover have "is_int (number2int trunc_conf n)" for n
    using sint_is_int by (auto simp: trunc_conf_def is_int_def split: sum.splits)
  ultimately show ?thesis by (simp add: conf_ok_def)
qed

subsection \<open>Characters of the C library\<close>

definition isspace_c :: "char \<Rightarrow> bool" where
  "isspace_c c = (c \<in> set [CHR 0x20, CHR 0x09, CHR 0x0A, CHR 0x0B, CHR 0x0C, CHR 0x0D])"

definition char_val :: "char \<Rightarrow> nat" where
  "char_val c = of_char c"

definition isdigit_c :: "char \<Rightarrow> bool" where
  "isdigit_c c = (48 \<le> char_val c \<and> char_val c \<le> 57)"

definition islower_c :: "char \<Rightarrow> bool" where
  "islower_c c = (97 \<le> char_val c \<and> char_val c \<le> 122)"

definition isupper_c :: "char \<Rightarrow> bool" where
  "isupper_c c = (65 \<le> char_val c \<and> char_val c \<le> 90)"

definition isalpha_c :: "char \<Rightarrow> bool" where
  "isalpha_c c = (islower_c c \<or> isupper_c c)"

definition isalnum_c :: "char \<Rightarrow> bool" where
  "isalnum_c c = (isalpha_c c \<or> isdigit_c c)"

definition isxdigit_c :: "char \<Rightarrow> bool" where
  "isxdigit_c c = (isdigit_c c \<or> 97 \<le> char_val c \<and> char_val c \<le> 102 \<or> 65 \<le> char_val c \<and> char_val c \<le> 70)"

definition iscntrl_c :: "char \<Rightarrow> bool" where
  "iscntrl_c c = (char_val c < 32 \<or> char_val c = 127)"

definition ispunct_c :: "char \<Rightarrow> bool" where
  "ispunct_c c = (33 \<le> char_val c \<and> char_val c \<le> 126 \<and> \<not> isalnum_c c)"

definition hex_val :: "char \<Rightarrow> nat" where
  "hex_val c = (if isdigit_c c then char_val c - 48
     else if 97 \<le> char_val c then char_val c - 87 else char_val c - 55)"

definition tolower_c :: "char \<Rightarrow> char" where
  "tolower_c c = (if isupper_c c then char_of (char_val c + 32) else c)"

definition toupper_c :: "char \<Rightarrow> char" where
  "toupper_c c = (if islower_c c then char_of (char_val c - 32) else c)"

text \<open>\<open>strtoul(s, &end, 16)\<close> with a 32-bit \<open>long\<close>: blanks, a sign, an optional \<open>0x\<close>, digits; the
  value saturates at \<open>ULONG_MAX\<close>, and without a digit nothing is read.\<close>

definition strtoul16 :: "string \<Rightarrow> u32 \<times> nat" where
  "strtoul16 s = (let t = dropWhile isspace_c s;
     (neg, t1) = (case t of c # r \<Rightarrow> if c = CHR ''-'' then (True, r) else if c = CHR ''+'' then (False, r) else (False, t)
                  | [] \<Rightarrow> (False, t));
     t2 = (case t1 of z # x # d # r \<Rightarrow>
             if z = CHR ''0'' \<and> (x = CHR ''x'' \<or> x = CHR ''X'') \<and> isxdigit_c d then d # r else t1
           | _ \<Rightarrow> t1);
     ds = takeWhile isxdigit_c t2; v = foldl (\<lambda>a d. 16 * a + hex_val d) 0 ds;
     w = (if v < 2 ^ 32 then (if neg then - of_nat v else of_nat v) else - 1)
     in if ds = [] then (0, 0) else (w, length s - length t2 + length ds))"

end
