(* ===== verification/Lua_Object.thy ===== *)
theory Lua_Object
  imports Lua_Value
begin

text \<open>
  \<open>lua/lobject.c\<close>: the ``floating point byte'' of the table constructor's size hints, the binary
  logarithm of the table's size computation, raw equality, number parsing, the formatter behind
  every error message and the display form of a chunk's name.
\<close>

unbundle bit_operations_syntax

subsection \<open>Floating point bytes\<close>

function int2fb_loop :: "u32 \<Rightarrow> nat \<Rightarrow> u32 \<times> nat" where
  "int2fb_loop x e = (if 16 \<le> x then int2fb_loop (drop_bit 1 (x + 1)) (e + 1) else (x, e))"
  by auto

lemma half_up_less: "16 \<le> (x :: u32) \<Longrightarrow> unat (drop_bit (Suc 0) (x + 1)) < unat x"
proof -
  assume x: "16 \<le> x"
  then have "16 \<le> unat x" by (simp add: word_le_nat_alt)
  moreover have "unat (drop_bit (Suc 0) (x + 1)) = unat (x + 1) div 2"
    by (simp add: drop_bit_Suc unat_div_distrib)
  moreover have "unat (x + 1) \<le> unat x + 1" by (simp add: unat_word_ariths)
  ultimately show ?thesis by linarith
qed

termination int2fb_loop
  by (relation "measure (\<lambda>(x, e). unat x)") (simp_all add: half_up_less)

declare int2fb_loop.simps [simp del]

definition luaO_int2fb :: "u32 \<Rightarrow> int" where
  "luaO_int2fb x = (let (y, e) = int2fb_loop x 0 in
     if y < 8 then int (unat y) else int (push_bit 3 (e + 1)) OR (int (unat y) - 8))"

text \<open>The shift of an \<open>int\<close> past its width is a fault.\<close>

definition luaO_fb2int :: "int \<Rightarrow> int res" where
  "luaO_fb2int x = (let e = nat (drop_bit 3 x AND 31); v = push_bit (e - 1) ((x AND 7) + 8) in
     if e = 0 then Inr x else if v < 2 ^ 31 then Inr v else Inl SignedOverflow)"

subsection \<open>The binary logarithm\<close>

definition log_2 :: "nat list" where
  "log_2 = [0, 1] @ replicate 2 2 @ replicate 4 3 @ replicate 8 4 @ replicate 16 5 @
     replicate 32 6 @ replicate 64 7 @ replicate 128 8"

function log2_loop :: "u32 \<Rightarrow> int \<Rightarrow> u32 \<times> int" where
  "log2_loop x l = (if 256 \<le> x then log2_loop (drop_bit 8 x) (l + 8) else (x, l))"
  by auto
termination log2_loop
  by (relation "measure (\<lambda>(x, l). unat x)")
    (auto simp: drop_bit_eq_div word_le_nat_alt unat_div_distrib)

declare log2_loop.simps [simp del]

definition luaO_log2 :: "u32 \<Rightarrow> int" where
  "luaO_log2 x = (let (y, l) = log2_loop x (- 1) in l + int (log_2 ! unat y))"

text \<open>\<open>ceillog2(x)\<close>, the header's macro over it.\<close>

definition ceillog2 :: "u32 \<Rightarrow> int" where
  "ceillog2 x = luaO_log2 (x - 1) + 1"

subsection \<open>Raw equality\<close>

fun luaO_rawequalObj :: "tvalue \<Rightarrow> tvalue \<Rightarrow> bool" where
  "luaO_rawequalObj TNil TNil = True"
| "luaO_rawequalObj (TNum a) (TNum b) = d_eq a b"
| "luaO_rawequalObj (TBool a) (TBool b) = (a = b)"
| "luaO_rawequalObj (TLight a) (TLight b) = (a = b)"
| "luaO_rawequalObj (TStr a) (TStr b) = (ts_ptr a = ts_ptr b)"
| "luaO_rawequalObj (TGC k a) (TGC k' b) = (k = k' \<and> a = b)"
| "luaO_rawequalObj (TDead a) (TDead b) = (a = b)"
| "luaO_rawequalObj _ _ = False"

subsection \<open>Numbers from strings\<close>

definition luaO_str2d :: "'a luaconf_scheme \<Rightarrow> string \<Rightarrow> dbl option" where
  "luaO_str2d C s0 = (let s = c_str s0; (r, n) = str2number C s in
     if n = 0 then None
     else let (r, rest) = (case drop n s of
              c # _ \<Rightarrow> if c = CHR ''x'' \<or> c = CHR ''X''
                        then let (w, m) = strtoul16 s in (u32_to_dbl w, drop m s) else (r, drop n s)
            | [] \<Rightarrow> (r, [])) in
       if rest = [] then Some r
       else if dropWhile isspace_c rest = [] then Some r else None)"

subsection \<open>Formatting\<close>

datatype fmtarg = FStr "string option" | FChar char | FInt int | FNum dbl | FPtr addr

text \<open>The values \<open>luaO_pushvfstring\<close> leaves on the stack for \<open>luaV_concat\<close>, in order, and the
  number \<open>n\<close> it pops. An argument of another type than the directive asks for has no defined
  value.\<close>

fun vf_arg :: "'a luaconf_scheme \<Rightarrow> char \<Rightarrow> fmtarg list \<Rightarrow> (string \<times> fmtarg list) lres" where
  "vf_arg C d args = (
     if d = CHR ''s'' then (case args of FStr s # r \<Rightarrow>
         Inr (case s of None \<Rightarrow> ''(null)'' | Some t \<Rightarrow> c_str t, r) | _ \<Rightarrow> Inl (LuaFault UninitRead))
     else if d = CHR ''c'' then (case args of FChar c # r \<Rightarrow> Inr (c_str [c], r) | _ \<Rightarrow> Inl (LuaFault UninitRead))
     else if d = CHR ''d'' then (case args of FInt k # r \<Rightarrow> Inr (number2str C (cast_num k), r)
                                  | _ \<Rightarrow> Inl (LuaFault UninitRead))
     else if d = CHR ''f'' then (case args of FNum x # r \<Rightarrow> Inr (number2str C x, r) | _ \<Rightarrow> Inl (LuaFault UninitRead))
     else if d = CHR ''p'' then (case args of FPtr p # r \<Rightarrow> Inr (ptr2str C p, r) | _ \<Rightarrow> Inl (LuaFault UninitRead))
     else if d = CHR ''%'' then Inr (''%'', args)
     else Inr (c_str [CHR ''%'', d], args))"

function vf_pieces :: "'a luaconf_scheme \<Rightarrow> string \<Rightarrow> fmtarg list \<Rightarrow> string list lres" where
  "vf_pieces C fmt args = (
     let pre = takeWhile (\<lambda>c. c \<noteq> CHR ''%'') fmt in
     case dropWhile (\<lambda>c. c \<noteq> CHR ''%'') fmt of
       [] \<Rightarrow> Inr [fmt]
     | [_] \<Rightarrow> Inl (LuaFault OutOfBounds)  \<comment> \<open>\<open>e+2\<close> is past the terminator\<close>
     | _ # d # r \<Rightarrow> bindR (vf_arg C d args) (\<lambda>(s, args').
         bindR (vf_pieces C r args') (\<lambda>ps. Inr (pre # s # ps))))"
  by pat_completeness auto
termination vf_pieces
proof (relation "measure (\<lambda>(C, fmt, args). length fmt)", goal_cases)
  case (2 C fmt args x a x21 aa d r)
  have "length (dropWhile (\<lambda>c. c \<noteq> CHR ''%'') fmt) \<le> length fmt" by (rule length_dropWhile_le)
  with 2 show ?case by simp
qed simp

declare vf_pieces.simps [simp del]

definition luaO_pushvfstring :: "'a luaconf_scheme \<Rightarrow> string \<Rightarrow> fmtarg list \<Rightarrow> string lres" where
  "luaO_pushvfstring C fmt args =
     bindR (vf_pieces C (c_str fmt) args) (\<lambda>ps. Inr (concat ([] # ps)))"

definition luaO_pushfstring :: "'a luaconf_scheme \<Rightarrow> string \<Rightarrow> fmtarg list \<Rightarrow> string lres" where
  "luaO_pushfstring C fmt args = luaO_pushvfstring C fmt args"

subsection \<open>The display form of a chunk's name\<close>

text \<open>\<open>bufflen\<close> is a \<open>size_t\<close>: its subtractions wrap. \<open>put cap s\<close> is the buffer's content after
  the last write, a fault when the string and its terminator do not fit.\<close>

type_synonym size_t = "64 word"

definition put :: "size_t \<Rightarrow> string \<Rightarrow> string res" where
  "put cap s = (if length s < unat cap then Inr s else Inl OutOfBounds)"

definition luaO_chunkid :: "string \<Rightarrow> size_t \<Rightarrow> string res" where
  "luaO_chunkid src bufflen = (case c_str src of
     [] \<Rightarrow> put bufflen (''[string '' @ [CHR 0x22] @ [CHR 0x22] @ '']'')
   | c # s \<Rightarrow>
     if c = CHR ''='' then
       (if bufflen = 0 then Inl OutOfBounds else put bufflen (take (unat (bufflen - 1)) s))
     else if c = CHR ''@'' then
       (let b = bufflen - 8; l = length s in
        put bufflen (if unat b < l then ''...'' @ drop (l - unat b) s else s))
     else
       (let len0 = length (takeWhile (\<lambda>x. x \<notin> {CHR 0x0A, CHR 0x0D}) (c # s));
            b = bufflen - 17; len = (if unat b < len0 then unat b else len0) in
        put bufflen (''[string '' @ [CHR 0x22] @
          (if len < length (c # s) then take len (c # s) @ ''...'' else c # s) @ [CHR 0x22] @ '']'')))"


subsection \<open>The size byte rounds up, by less than one part in seven\<close>

lemma half_up: "x \<noteq> - 1 \<Longrightarrow> unat (drop_bit (Suc 0) (x + 1 :: u32)) = (unat x + 1) div 2"
  using u32_succ(3) [of x] by (simp add: drop_bit_Suc unat_div_distrib)

lemma int2fb_loop_spec:
  assumes "int2fb_loop x e = (y, e')" "x \<noteq> - 1"
  shows "e \<le> e' \<and> y < 16 \<and> unat x \<le> unat y * 2 ^ (e' - e) \<and> unat y * 2 ^ (e' - e) < unat x + 2 ^ (e' - e) \<and>
    (e < e' \<longrightarrow> 8 \<le> y \<and> 15 * 2 ^ (e' - e - 1) < unat x) \<and> (e = e' \<longrightarrow> y = x)"
  using assms
proof (induction x e arbitrary: y e' rule: int2fb_loop.induct)
  case (1 x e)
  show ?case
  proof (cases "16 \<le> x")
    case False
    with 1 show ?thesis by (auto simp: int2fb_loop.simps [of x])
  next
    case True
    let ?h = "drop_bit 1 (x + 1)"
    have x16: "16 \<le> unat x" using True by (simp add: word_le_nat_alt)
    have h: "unat ?h = (unat x + 1) div 2" using half_up [OF 1(3)] by simp
    have "?h \<noteq> - 1"
    proof
      assume "?h = - 1"
      then have "unat ?h = 2 ^ 32 - 1" by (simp add: unsigned_minus_1_eq_mask mask_eq_exp_minus_1)
      moreover have "unat x < 2 ^ 32" using unsigned_less [of x, where ?'a = nat] by simp
      ultimately show False using h by simp
    qed
    moreover have "int2fb_loop ?h (e + 1) = (y, e')"
      using 1(2) True int2fb_loop.simps [of x e] by simp
    ultimately have IH: "e + 1 \<le> e'" "y < 16" "unat ?h \<le> unat y * 2 ^ (e' - (e + 1))"
      "unat y * 2 ^ (e' - (e + 1)) < unat ?h + 2 ^ (e' - (e + 1))"
      "e + 1 < e' \<Longrightarrow> 8 \<le> y \<and> 15 * 2 ^ (e' - (e + 1) - 1) < unat ?h"
      "e + 1 = e' \<Longrightarrow> y = ?h"
      using 1(1) [OF True] by blast+
    obtain k where k: "e' = Suc (e + k)" using IH(1) by (auto simp: le_iff_add)
    show ?thesis
    proof (cases k)
      case 0
      then have "y = ?h" using IH(6) k by simp
      then show ?thesis using h x16 IH(2) k 0 by (auto simp: word_le_nat_alt)
    next
      case (Suc m)
      have y8: "8 \<le> y" and b: "15 * 2 ^ m < unat ?h" using IH(5) k Suc by auto
      have p: "(2::nat) ^ (e' - e) = 2 * 2 ^ k" "(2::nat) ^ (e' - e - 1) = 2 * 2 ^ m" using k Suc by simp_all
      have "unat ?h \<le> unat y * 2 ^ k" "unat y * 2 ^ k < unat ?h + 2 ^ k" using IH(3,4) k by simp_all
      moreover have "unat x \<le> 2 * unat ?h" "2 * unat ?h \<le> unat x + 1" using h by simp_all
      ultimately have "unat x \<le> unat y * (2 * 2 ^ k)" "unat y * (2 * 2 ^ k) < unat x + 2 * 2 ^ k"
        "15 * (2 * 2 ^ m) < unat x"
        using b by simp_all
      then show ?thesis using IH(2) y8 k p by simp
    qed
  qed
qed

lemma and_low: "0 \<le> k \<Longrightarrow> k < 2 ^ n \<Longrightarrow> k AND mask n = (k :: int)"
  by (simp add: take_bit_int_eq_self flip: take_bit_eq_mask)

lemma and_low_add: "0 \<le> k \<Longrightarrow> k < 2 ^ n \<Longrightarrow> (2 ^ n * m + k) AND mask n = (k :: int)"
  by (simp add: take_bit_eq_mod flip: take_bit_eq_mask)

lemma fifteenth: "15 * p < X \<Longrightarrow> E = 2 * p \<Longrightarrow> V < X + E \<Longrightarrow> 15 * (V - X) \<le> 2 * (X :: int)"
  by simp

text \<open>A table-size hint survives the one-byte encoding of the bytecode: decoding the encoded
  hint gives a size at least as large, and larger by less than one part in seven.\<close>

theorem size_byte_rounds_up:
  assumes "unat x \<le> 15 * 2 ^ 27"
  shows "\<exists>v. luaO_fb2int (luaO_int2fb x) = Inr v \<and> int (unat x) \<le> v \<and> 15 * (v - int (unat x)) \<le> 2 * int (unat x)"
proof -
  obtain y e where l: "int2fb_loop x 0 = (y, e)" by fastforce
  have "x \<noteq> - 1" using assms by (auto simp: unsigned_minus_1_eq_mask mask_eq_exp_minus_1)
  note s = int2fb_loop_spec [OF l this]
  have y16: "unat y < 16" using s by (simp add: word_less_nat_alt)
  show ?thesis
  proof (cases "y < 8")
    case True
    then have "e = 0" "y = x" using s by (auto simp: word_less_nat_alt word_le_nat_alt)
    moreover have "unat x < 8" using True \<open>y = x\<close> by (simp add: word_less_nat_alt)
    moreover have "uint x div 8 = 0"
      using of_nat_less_iff [of "unat x" 8, where ?'a = int] \<open>unat x < 8\<close> by (simp add: div_pos_pos_trivial)
    then have "nat (drop_bit 3 (int (unat x)) AND 31) = 0" by (simp add: drop_bit_eq_div)
    ultimately show ?thesis using True l by (simp add: luaO_int2fb_def luaO_fb2int_def)
  next
    case False
    then have y8: "8 \<le> unat y" by (simp add: word_less_nat_alt)
    define Y where "Y = unat y"
    have Y: "unat y = Y" by (simp add: Y_def)
    let ?d = "int Y - 8" and ?b = "8 * (int e + 1)"
    have d: "0 \<le> ?d" "?d < 8" using y8 y16 unfolding Y by linarith+
    have v: "int Y * 2 ^ e < int (unat x) + 2 ^ e" "int (unat x) \<le> int Y * 2 ^ e"
    proof -
      have "Y * 2 ^ e < unat x + 2 ^ e" "unat x \<le> Y * 2 ^ e" using s by (simp_all add: Y)
      then have "int (Y * 2 ^ e) < int (unat x + 2 ^ e)" "int (unat x) \<le> int (Y * 2 ^ e)"
        by (simp_all only: of_nat_less_iff of_nat_le_iff)
      then show "int Y * 2 ^ e < int (unat x) + 2 ^ e" "int (unat x) \<le> int Y * 2 ^ e"
        by (simp_all only: of_nat_add of_nat_mult of_nat_power of_nat_numeral)
    qed
    have e15: "e > 0 \<Longrightarrow> 15 * 2 ^ (e - 1) < unat x" using s by simp
    have e28: "e < 28"
    proof (rule ccontr)
      assume "\<not> e < 28"
      then have "(2::nat) ^ 27 \<le> 2 ^ (e - 1)" by (intro power_increasing) simp_all
      then show False using e15 \<open>\<not> e < 28\<close> assms by simp
    qed
    have enc: "luaO_int2fb x = ?b + ?d"
    proof -
      have "?b OR ?d = ?b + ?d"
      proof (rule disjunctive_add [symmetric])
        fix n
        have "\<not> bit ?d n" if "3 \<le> n"
        proof -
          have "?d < 2 ^ n" using d(2) power_increasing [OF that, of "2::int"] by simp
          then show ?thesis using d(1) by (simp add: bit_iff_odd)
        qed
        moreover have "\<not> bit ?b n" if "n < 3"
        proof -
          have "?b = push_bit 3 (int e + 1)" by (simp add: push_bit_eq_mult)
          then show ?thesis using that by (simp add: bit_push_bit_iff)
        qed
        ultimately show "\<not> bit ?b n \<or> \<not> bit ?d n" by (meson not_less)
      qed
      moreover have "int (push_bit 3 (e + 1)) = ?b" by (simp add: push_bit_eq_mult)
      ultimately show ?thesis using l False Y by (simp add: luaO_int2fb_def)
    qed
    have dec: "nat (drop_bit 3 (?b + ?d) AND 31) = e + 1" "(?b + ?d) AND 7 = ?d"
    proof -
      have "drop_bit 3 (?b + ?d) = int e + 1" using d by (simp add: drop_bit_eq_div)
      moreover have "(int e + 1) AND 31 = int e + 1"
        using e28 and_low [of "int e + 1" 5] by (simp add: mask_eq_exp_minus_1)
      ultimately show "nat (drop_bit 3 (?b + ?d) AND 31) = e + 1" by simp
      show "(?b + ?d) AND 7 = ?d"
        using and_low_add [of ?d 3 "int e + 1"] d by (simp add: mask_eq_exp_minus_1)
    qed
    have "int Y * 2 ^ e < 2 ^ 31"
    proof -
      have "int Y * 2 ^ e \<le> 15 * 2 ^ 27"
        using e28 y16 unfolding Y by (intro mult_mono power_increasing) simp_all
      then show ?thesis by simp
    qed
    moreover have "push_bit e (?d + 8) = int Y * 2 ^ e" by (simp add: push_bit_eq_mult)
    ultimately have "luaO_fb2int (luaO_int2fb x) = Inr (int Y * 2 ^ e)"
      unfolding enc luaO_fb2int_def dec Let_def by (simp only: add_diff_cancel_right') simp
    moreover have "15 * (int Y * 2 ^ e - int (unat x)) \<le> 2 * int (unat x)"
    proof (cases e)
      case 0
      then have "Y = unat x" using s Y by simp
      then have "int Y = int (unat x)" by (rule arg_cong)
      then show ?thesis using 0 by simp
    next
      case (Suc m)
      then have "15 * 2 ^ m < unat x" using e15 by simp
      then have "int (15 * 2 ^ m) < int (unat x)" by (simp only: of_nat_less_iff)
      then have "15 * 2 ^ m < int (unat x)" by (simp only: of_nat_mult of_nat_power of_nat_numeral)
      moreover have "(2::int) ^ e = 2 * 2 ^ m" using Suc by simp
      ultimately show ?thesis using fifteenth [OF _ _ v(1)] by blast
    qed
    ultimately show ?thesis using v(2) by simp
  qed
qed

lemma size_byte_rounds_up_witness:
  "\<exists>v. luaO_fb2int (luaO_int2fb 1000) = Inr v \<and> 1000 \<le> v \<and> 15 * (v - 1000) \<le> 2000"
  using size_byte_rounds_up [of 1000] by simp


subsection \<open>The logarithm's table and loop\<close>

lemma log_2_table:
  "list_all (\<lambda>(n, l). if n = 0 then l = 0 else 0 < l \<and> 2 ^ (l - 1) \<le> n \<and> n < 2 ^ l) (zip [0..<256] log_2)
   \<and> length log_2 = 256"
  by code_simp

lemma log_2_nth: "n < 256 \<Longrightarrow> if n = 0 then log_2 ! n = 0
    else 0 < log_2 ! n \<and> 2 ^ (log_2 ! n - 1) \<le> n \<and> n < 2 ^ (log_2 ! n)"
  using log_2_table by (auto simp: list_all_length)

lemma log2_loop_spec:
  "log2_loop x l = (y, l') \<Longrightarrow> \<exists>k. l' = l + 8 * int k \<and> y < 256 \<and> unat y = unat x div 256 ^ k \<and> (0 < x \<longrightarrow> 0 < y)"
proof (induction x l arbitrary: y l' rule: log2_loop.induct)
  case (1 x l)
  show ?case
  proof (cases "256 \<le> x")
    case False
    with 1(2) show ?thesis by (intro exI [of _ 0]) (auto simp: log2_loop.simps [of x])
  next
    case True
    then have "log2_loop (drop_bit 8 x) (l + 8) = (y, l')" using 1(2) log2_loop.simps [of x l] by simp
    from 1(1) [OF True this] obtain k where k: "l' = l + 8 + 8 * int k" "y < 256"
      "unat y = unat (drop_bit 8 x) div 256 ^ k" "0 < drop_bit 8 x \<longrightarrow> 0 < y" by blast
    have u: "unat (drop_bit 8 x) = unat x div 256" by (simp add: drop_bit_eq_div unat_div_distrib)
    have "256 \<le> unat x" using True by (simp add: word_le_nat_alt)
    then have "0 < drop_bit 8 x" unfolding word_less_nat_alt using u by simp
    then show ?thesis using k u by (intro exI [of _ "Suc k"]) (simp add: div_mult2_eq)
  qed
qed

text \<open>The table-driven logarithm is the reference: the exponent of the largest power of two
  not above its argument, and \<open>-1\<close> for zero.\<close>

theorem log2_is_floor_log:
  "if x = 0 then luaO_log2 x = - 1
   else 0 \<le> luaO_log2 x \<and> 2 ^ nat (luaO_log2 x) \<le> unat x \<and> unat x < 2 ^ (nat (luaO_log2 x) + 1)"
proof -
  obtain y l where yl: "log2_loop x (- 1) = (y, l)" by fastforce
  from log2_loop_spec [OF this] obtain k where k: "l = - 1 + 8 * int k" "y < 256"
    "unat y = unat x div 256 ^ k" "0 < x \<longrightarrow> 0 < y" by blast
  have y: "unat y < 256" using k(2) by (simp add: word_less_nat_alt)
  let ?t = "log_2 ! unat y"
  have l: "luaO_log2 x = int (8 * k + ?t) - 1" using yl k(1) by (simp add: luaO_log2_def)
  show ?thesis
  proof (cases "x = 0")
    case True
    then have "log2_loop x (- 1) = (0, - 1)" by (simp add: log2_loop.simps)
    then show ?thesis using True log_2_nth [of 0] by (simp add: luaO_log2_def)
  next
    case False
    then have "0 < unat y" using k(4) by (simp add: word_less_nat_alt unat_gt_0)
    then have t: "0 < ?t" "2 ^ (?t - 1) \<le> unat y" "unat y < 2 ^ ?t" using log_2_nth [OF y] by auto
    have n: "nat (luaO_log2 x) = 8 * k + (?t - 1)" "0 \<le> luaO_log2 x" using l t(1) by simp_all
    have p: "(256::nat) ^ k = 2 ^ (8 * k)" by (simp add: power_mult)
    have "2 ^ (?t - 1) * 256 ^ k \<le> unat x"
      using t(2) k(3) by (simp add: less_eq_div_iff_mult_less_eq)
    moreover have "unat x < 2 ^ ?t * 256 ^ k"
      using t(3) k(3) by (simp add: div_less_iff_less_mult)
    moreover have "(2::nat) ^ ?t = 2 * 2 ^ (?t - 1)" using t(1) by (cases ?t) simp_all
    ultimately show ?thesis using False n p by (simp add: power_add ac_simps)
  qed
qed

lemma ceillog2_bounds:
  assumes "0 < x"
  shows "0 \<le> ceillog2 x \<and> unat x \<le> 2 ^ nat (ceillog2 x) \<and> (1 < unat x \<longrightarrow> 2 ^ (nat (ceillog2 x) - 1) < unat x) \<and>
    (unat x = 1 \<longrightarrow> ceillog2 x = 0)"
proof -
  have u: "unat (x - 1) = unat x - 1"
    using assms by (simp add: unat_minus_one word_neq_0_conv)
  have x0: "0 < unat x" using assms by (simp add: word_less_nat_alt)
  show ?thesis
  proof (cases "x - 1 = 0")
    case True
    then have "unat x = 1" using u x0 by simp
    then show ?thesis using log2_is_floor_log [of "x - 1"] True by (simp add: ceillog2_def)
  next
    case False
    then have *: "0 \<le> luaO_log2 (x - 1)" "2 ^ nat (luaO_log2 (x - 1)) \<le> unat x - 1"
      "unat x - 1 < 2 ^ (nat (luaO_log2 (x - 1)) + 1)"
      using log2_is_floor_log [of "x - 1"] u by simp_all
    have "nat (luaO_log2 (x - 1) + 1) = nat (luaO_log2 (x - 1)) + 1" using *(1) by simp
    moreover have "unat x \<noteq> 1" using False u by (auto simp: word_unat_eq_iff)
    moreover have "2 ^ nat (luaO_log2 (x - 1)) < unat x" using *(2) x0 by linarith
    ultimately show ?thesis using * x0 by (auto simp: ceillog2_def)
  qed
qed

subsection \<open>A chunk's display name fits\<close>

lemma chunkid_in_buffer:
  assumes "17 \<le> unat bufflen"
  shows "\<exists>s. luaO_chunkid src bufflen = Inr s \<and> length s < unat bufflen"
proof -
  have u: "unat (bufflen - n) = unat bufflen - unat n" if "unat n \<le> 17" for n :: size_t
    using that assms by (intro unat_sub) (simp add: word_le_nat_alt)
  have u3: "unat (bufflen - 1) = unat bufflen - 1" "unat (bufflen - 8) = unat bufflen - 8"
    "unat (bufflen - 17) = unat bufflen - 17" using u [of 1] u [of 8] u [of 17] by simp_all
  have "bufflen \<noteq> 0" using assms by auto
  have len: "length (takeWhile P t) \<le> length t" for P and t :: string by (rule length_takeWhile_le)
  have "\<exists>t. luaO_chunkid src bufflen = put bufflen t \<and> length t < unat bufflen"
  proof (cases "c_str src")
    case Nil
    then show ?thesis using assms by (intro exI conjI) (simp add: luaO_chunkid_def, simp)
  next
    case (Cons c s)
    consider "c = CHR ''=''" | "c = CHR ''@''" | "c \<noteq> CHR ''=''" "c \<noteq> CHR ''@''" by blast
    then show ?thesis
    proof cases
      case 1
      then show ?thesis using Cons assms u3 \<open>bufflen \<noteq> 0\<close> by (auto simp: luaO_chunkid_def)
    next
      case 2
      then show ?thesis using Cons assms u3 by (auto simp: luaO_chunkid_def Let_def)
    next
      case 3
      let ?n = "length (takeWhile (\<lambda>x. x \<notin> {CHR 0x0A, CHR 0x0D}) (c # s))"
      define m where "m = (if unat (bufflen - 17) < ?n then unat (bufflen - 17) else ?n)"
      let ?t = "''[string '' @ [CHR 0x22] @ (if m < length (c # s) then take m (c # s) @ ''...'' else c # s) @ [CHR 0x22] @ '']''"
      have "m \<le> unat bufflen - 17" using u3 by (simp add: m_def)
      then have "length ?t < unat bufflen" using assms by auto
      moreover have "luaO_chunkid src bufflen = put bufflen ?t"
        using 3 Cons by (simp only: luaO_chunkid_def Let_def m_def list.case if_False)
      ultimately show ?thesis by blast
    qed
  qed
  then show ?thesis by (auto simp: put_def)
qed

text \<open>C29: For every buffer of at least 17 bytes the display form of a chunk name, terminator
  included, fits: no source string overruns it.\<close>

theorem chunkid_fits:
  assumes "17 \<le> unat bufflen"
  shows "\<exists>s. luaO_chunkid src bufflen = Inr s \<and> length s < unat bufflen"
  using assms by (rule chunkid_in_buffer)

lemma chunkid_fits_witness:
  "\<exists>s. luaO_chunkid (CHR ''@'' # replicate 100 CHR ''x'') 60 = Inr s \<and> length s < 60"
  using chunkid_fits [of 60 "CHR ''@'' # replicate 100 CHR ''x''"] by simp

subsection \<open>Raw equality is identity\<close>

text \<open>On values other than NaN, with the bytes of a string a function of its address, raw equality
  is equality of values.\<close>

definition not_nan :: "tvalue \<Rightarrow> bool" where
  "not_nan v = (v \<noteq> TNum NaN)"

fun same_string :: "tvalue \<Rightarrow> tvalue \<Rightarrow> bool" where
  "same_string (TStr a) (TStr b) = (ts_ptr a = ts_ptr b \<longrightarrow> a = b)"
| "same_string _ _ = True"

lemma rawequal_refl: "not_nan v \<Longrightarrow> luaO_rawequalObj v v"
  by (cases v) (auto simp: not_nan_def d_eq_iff)

lemma rawequal_eq: "same_string a b \<Longrightarrow> luaO_rawequalObj a b \<Longrightarrow> a = b"
  by (cases "(a, b)" rule: luaO_rawequalObj.cases) (auto simp: d_eq_iff)

lemma rawequal_iff: "same_string a b \<Longrightarrow> not_nan a \<Longrightarrow> luaO_rawequalObj a b \<longleftrightarrow> a = b"
  using rawequal_eq rawequal_refl by blast

end
