(* ===== verification/Lua_Table.thy ===== *)
theory Lua_Table
  imports Lua_Object
begin

text \<open>
  \<open>lua/ltable.c\<close>: the table with an array part and a chained scatter hash part. Pointers into
  the node vector are indices; \<open>dummynode\<close>, the shared empty vector, is \<open>None\<close>. \<open>luaH_get\<close> and
  \<open>luaH_set\<close> answer the slot the C code answers a pointer to; \<open>None\<close> is \<open>luaO_nilobject\<close>.
  Allocation is taken to succeed: what \<open>lmem.c\<close> does when it fails is modelled there.
\<close>

unbundle bit_operations_syntax

record node =
  n_val :: tvalue
  n_key :: tvalue
  n_next :: "nat option"

record ltable =
  t_flags :: u8
  t_metatable :: "addr option"
  t_array :: "tvalue list"
  t_node :: "node list option"
  t_lsizenode :: nat
  t_lastfree :: int

datatype slot = ArrSlot nat | NodeSlot nat

definition MAXBITS :: nat where "MAXBITS = 26"
definition MAXASIZE :: nat where "MAXASIZE = 2 ^ MAXBITS"
definition MAX_INT :: nat where "MAX_INT = 2 ^ 31 - 3"

definition dummynode :: node where
  "dummynode = \<lparr> n_val = TNil, n_key = TNil, n_next = None \<rparr>"

definition node_vec :: "ltable \<Rightarrow> node list" where
  "node_vec t = (case t_node t of None \<Rightarrow> [dummynode] | Some v \<Rightarrow> v)"

abbreviation sizearray :: "ltable \<Rightarrow> nat" where
  "sizearray t \<equiv> length (t_array t)"

definition sizenode :: "ltable \<Rightarrow> nat" where
  "sizenode t = 2 ^ t_lsizenode t"

subsection \<open>Hashing\<close>

definition hashpow2 :: "nat \<Rightarrow> u32 \<Rightarrow> nat" where
  "hashpow2 sz h = unat (h AND of_nat (sz - 1))"

definition hashmod :: "nat \<Rightarrow> u32 \<Rightarrow> nat" where
  "hashmod sz h = unat h mod (nat (int (sz - 1) OR 1))"

text \<open>The bit pattern of a double; its two halves are the words \<open>hashnum\<close> adds.\<close>

fun dbl_bits :: "dbl \<Rightarrow> 64 word" where
  "dbl_bits (Fin q) = (if q = 0 then 0 else
     (let e = max (ilog2 \<bar>q\<bar>) (- 1022); m = nat \<lfloor>\<bar>q\<bar> / p2 (e - 52)\<rfloor> in
      (if q < 0 then push_bit 63 1 else 0) OR
      (if m < 2 ^ 52 then of_nat m else push_bit 52 (of_nat (nat (e + 1023))) OR (of_nat m AND mask 52))))"
| "dbl_bits (Infty s) = (if s then 0x7FF0000000000000 else 0xFFF0000000000000)"
| "dbl_bits NaN = 0xFFF8000000000000"

definition hashnum :: "nat \<Rightarrow> dbl \<Rightarrow> nat" where
  "hashnum sz n = (if d_eq n (cast_num 0) then 0
     else hashmod sz (ucast (dbl_bits n) + ucast (drop_bit 32 (dbl_bits n))))"

fun mainposition :: "'a luaconf_scheme \<Rightarrow> nat \<Rightarrow> tvalue \<Rightarrow> nat" where
  "mainposition C sz (TNum n) = hashnum sz n"
| "mainposition C sz (TStr s) = hashpow2 sz (ts_hash s)"
| "mainposition C sz (TBool b) = hashpow2 sz (if b then 1 else 0)"
| "mainposition C sz (TLight p) = hashmod sz (int_point C p)"
| "mainposition C sz (TGC k p) = hashmod sz (int_point C p)"
| "mainposition C sz (TDead p) = hashmod sz (int_point C p)"
| "mainposition C sz TNil = hashmod sz (int_point C 0)"

definition arrayindex :: "'a luaconf_scheme \<Rightarrow> tvalue \<Rightarrow> int" where
  "arrayindex C key = (case key of
     TNum n \<Rightarrow> let k = number2int C n in if d_eq (cast_num k) n then k else - 1
   | _ \<Rightarrow> - 1)"

subsection \<open>Walking a chain\<close>

text \<open>The searches' \<open>do ... while (n)\<close> loop: the first node of the chain that satisfies \<open>P\<close>. The
  bound is the number of nodes; on a well-formed table it is never spent.\<close>

fun chain_find :: "(node \<Rightarrow> bool) \<Rightarrow> node list \<Rightarrow> nat \<Rightarrow> nat option \<Rightarrow> nat option lres" where
  "chain_find P v f None = Inr None"
| "chain_find P v 0 (Some i) = Inl (LuaFault OutOfFuel)"
| "chain_find P v (Suc f) (Some i) =
     (if P (v ! i) then Inr (Some i) else chain_find P v f (n_next (v ! i)))"

definition find_node :: "(node \<Rightarrow> bool) \<Rightarrow> ltable \<Rightarrow> nat \<Rightarrow> nat option lres" where
  "find_node P t i = chain_find P (node_vec t) (length (node_vec t)) (Some i)"

subsection \<open>Reading\<close>

definition node_slot :: "nat option \<Rightarrow> slot option" where
  "node_slot = map_option NodeSlot"

definition luaH_getnum :: "'a luaconf_scheme \<Rightarrow> ltable \<Rightarrow> int \<Rightarrow> slot option lres" where
  "luaH_getnum C t key = (if (word_of_int (key - 1) :: u32) < of_nat (sizearray t)
     then Inr (Some (ArrSlot (nat (key - 1))))
     else bindR (find_node (\<lambda>n. case n_key n of TNum x \<Rightarrow> d_eq x (cast_num key) | _ \<Rightarrow> False) t
            (hashnum (sizenode t) (cast_num key))) (\<lambda>r. Inr (node_slot r)))"

definition luaH_getstr :: "ltable \<Rightarrow> tstring \<Rightarrow> slot option lres" where
  "luaH_getstr t key = bindR (find_node
       (\<lambda>n. case n_key n of TStr s \<Rightarrow> ts_ptr s = ts_ptr key | _ \<Rightarrow> False) t
       (hashpow2 (sizenode t) (ts_hash key))) (\<lambda>r. Inr (node_slot r))"

definition get_default :: "'a luaconf_scheme \<Rightarrow> ltable \<Rightarrow> tvalue \<Rightarrow> slot option lres" where
  "get_default C t key = bindR (find_node (\<lambda>n. luaO_rawequalObj (n_key n) key) t
     (mainposition C (sizenode t) key)) (\<lambda>r. Inr (node_slot r))"

definition luaH_get :: "'a luaconf_scheme \<Rightarrow> ltable \<Rightarrow> tvalue \<Rightarrow> slot option lres" where
  "luaH_get C t key = (case key of
     TNil \<Rightarrow> Inr None
   | TStr s \<Rightarrow> luaH_getstr t s
   | TNum n \<Rightarrow> let k = number2int C n in
       if d_eq (cast_num k) n then luaH_getnum C t k else get_default C t key
   | _ \<Rightarrow> get_default C t key)"

fun slot_val :: "ltable \<Rightarrow> slot option \<Rightarrow> tvalue" where
  "slot_val t None = TNil"
| "slot_val t (Some (ArrSlot i)) = t_array t ! i"
| "slot_val t (Some (NodeSlot i)) = n_val (node_vec t ! i)"

definition upd_node :: "(node \<Rightarrow> node) \<Rightarrow> nat \<Rightarrow> ltable \<Rightarrow> ltable" where
  "upd_node f i t = t\<lparr>t_node := map_option (\<lambda>v. v[i := f (v ! i)]) (t_node t)\<rparr>"

fun set_slot :: "slot \<Rightarrow> tvalue \<Rightarrow> ltable \<Rightarrow> ltable" where
  "set_slot (ArrSlot i) v t = t\<lparr>t_array := (t_array t)[i := v]\<rparr>"
| "set_slot (NodeSlot i) v t = upd_node (n_val_update (\<lambda>_. v)) i t"

subsection \<open>Traversal\<close>

definition findindex :: "'a luaconf_scheme \<Rightarrow> ltable \<Rightarrow> tvalue \<Rightarrow> int lres" where
  "findindex C t key = (if ttisnil key then Inr (- 1)
     else let i = arrayindex C key in
       if 0 < i \<and> i \<le> int (sizearray t) then Inr (i - 1)
       else bindR (find_node (\<lambda>n. luaO_rawequalObj (n_key n) key \<or>
              (\<exists>p. n_key n = TDead p \<and> iscollectable key \<and> Some p = gcvalue key)) t
              (mainposition C (sizenode t) key))
         (\<lambda>r. case r of Some j \<Rightarrow> Inr (int j + int (sizearray t))
              | None \<Rightarrow> Inl (LuaErr (''invalid key to '' @ LUA_QL ''next''))))"

fun next_array :: "tvalue list \<Rightarrow> nat \<Rightarrow> (nat \<times> tvalue) option" where
  "next_array [] i = None"
| "next_array (v # vs) i = (if ttisnil v then next_array vs (i + 1) else Some (i, v))"

fun next_node :: "node list \<Rightarrow> (tvalue \<times> tvalue) option" where
  "next_node [] = None"
| "next_node (n # ns) = (if ttisnil (n_val n) then next_node ns else Some (n_key n, n_val n))"

definition luaH_next :: "'a luaconf_scheme \<Rightarrow> ltable \<Rightarrow> tvalue \<Rightarrow> (tvalue \<times> tvalue) option lres" where
  "luaH_next C t key = bindR (findindex C t key) (\<lambda>i0. let i = nat (i0 + 1) in
     Inr (case next_array (drop i (t_array t)) i of
       Some (j, v) \<Rightarrow> Some (TNum (cast_num (int j + 1)), v)
     | None \<Rightarrow> next_node (drop (max i (sizearray t) - sizearray t) (node_vec t))))"

subsection \<open>Sizes\<close>

function computesizes_loop :: "nat list \<Rightarrow> nat \<Rightarrow> nat \<Rightarrow> nat \<Rightarrow> nat \<Rightarrow> nat \<Rightarrow> nat \<Rightarrow> (nat \<times> nat) lres" where
  "computesizes_loop nums narray i twotoi a na n =
     (if \<not> twotoi div 2 < narray then Inr (na, n)
      else if length nums \<le> i then Inl (LuaFault OutOfBounds)
      else let a' = a + nums ! i;
               (na', n') = (if 0 < nums ! i \<and> twotoi div 2 < a' then (a', twotoi) else (na, n)) in
        if a' = narray then Inr (na', n')
        else computesizes_loop nums narray (i + 1) (twotoi * 2) a' na' n')"
  by pat_completeness auto
termination computesizes_loop
  by (relation "measure (\<lambda>(nums, narray, i, _). length nums - i)") auto

declare computesizes_loop.simps [simp del]

definition computesizes :: "nat list \<Rightarrow> nat \<Rightarrow> (nat \<times> nat) lres" where
  "computesizes nums narray = computesizes_loop nums narray 0 1 0 0 0"

definition countint :: "'a luaconf_scheme \<Rightarrow> tvalue \<Rightarrow> nat list \<Rightarrow> nat \<times> nat list" where
  "countint C key nums = (let k = arrayindex C key in
     if 0 < k \<and> k \<le> int MAXASIZE
     then (let c = nat (ceillog2 (word_of_int k)) in (1, nums[c := nums ! c + 1]))
     else (0, nums))"

definition count_nonnil :: "tvalue list \<Rightarrow> nat" where
  "count_nonnil vs = length (filter (\<lambda>v. \<not> ttisnil v) vs)"

function numusearray_loop :: "tvalue list \<Rightarrow> nat \<Rightarrow> nat \<Rightarrow> nat list \<Rightarrow> nat \<Rightarrow> nat \<times> nat list" where
  "numusearray_loop arr lg i nums ause =
     (if MAXBITS < lg then (ause, nums)
      else let lim = min (2 ^ lg) (length arr) in
        if length arr < 2 ^ lg \<and> lim < i then (ause, nums)
        else let lc = count_nonnil (take (lim + 1 - i) (drop (i - 1) arr)) in
          numusearray_loop arr (lg + 1) (max i (lim + 1)) (nums[lg := nums ! lg + lc]) (ause + lc))"
  by pat_completeness auto
termination numusearray_loop
  by (relation "measure (\<lambda>(arr, lg, _). MAXBITS + 1 - lg)") auto

declare numusearray_loop.simps [simp del]

definition numusearray :: "ltable \<Rightarrow> nat list \<Rightarrow> nat \<times> nat list" where
  "numusearray t nums = numusearray_loop (t_array t) 0 1 nums 0"

fun numusehash_loop :: "'a luaconf_scheme \<Rightarrow> node list \<Rightarrow> nat list \<Rightarrow> nat \<Rightarrow> nat \<Rightarrow> nat \<times> nat \<times> nat list" where
  "numusehash_loop C [] nums ause totaluse = (totaluse, ause, nums)"
| "numusehash_loop C (n # ns) nums ause totaluse =
     (if ttisnil (n_val n) then numusehash_loop C ns nums ause totaluse
      else let (c, nums') = countint C (n_key n) nums in
        numusehash_loop C ns nums' (ause + c) (totaluse + 1))"

text \<open>The nodes are visited from the last to the first.\<close>

definition numusehash :: "'a luaconf_scheme \<Rightarrow> ltable \<Rightarrow> nat list \<Rightarrow> nat \<Rightarrow> nat \<times> nat \<times> nat list" where
  "numusehash C t nums pnasize =
     (let (totaluse, ause, nums') = numusehash_loop C (rev (node_vec t)) nums 0 0 in
      (totaluse, pnasize + ause, nums'))"

subsection \<open>Resizing\<close>

definition setarrayvector :: "nat \<Rightarrow> ltable \<Rightarrow> ltable" where
  "setarrayvector sz t =
     t\<lparr>t_array := take sz (t_array t) @ replicate (sz - sizearray t) TNil\<rparr>"

definition setnodevector :: "nat \<Rightarrow> ltable \<Rightarrow> ltable lres" where
  "setnodevector sz t = (if sz = 0
     then Inr (t\<lparr>t_node := None, t_lsizenode := 0, t_lastfree := 0\<rparr>)
     else let lsize = nat (ceillog2 (of_nat sz)) in
       if MAXBITS < lsize then Inl (LuaErr ''table overflow'')
       else Inr (t\<lparr>t_node := Some (replicate (2 ^ lsize) dummynode),
                  t_lsizenode := lsize, t_lastfree := 2 ^ lsize\<rparr>))"

text \<open>\<open>newkey\<close>, \<open>luaH_set\<close>, \<open>resize\<close> and \<open>rehash\<close> call each other. Each of the last three takes the
  \<open>newkey\<close> it calls as an argument; \<open>newkey\<close> below ties the knot with a bound on the nesting.\<close>

type_synonym inserter = "ltable \<Rightarrow> tvalue \<Rightarrow> (ltable \<times> slot) lres"

definition set_by :: "'a luaconf_scheme \<Rightarrow> inserter \<Rightarrow> inserter" where
  "set_by C nk t key = bindR (luaH_get C t key) (\<lambda>p. let t = t\<lparr>t_flags := 0\<rparr> in
     case p of Some s \<Rightarrow> Inr (t, s)
     | None \<Rightarrow> if ttisnil key then Inl (LuaErr ''table index is nil'')
               else if key = TNum NaN then Inl (LuaErr ''table index is NaN'')
               else nk t key)"

definition setnum_by :: "'a luaconf_scheme \<Rightarrow> inserter \<Rightarrow> ltable \<Rightarrow> int \<Rightarrow> (ltable \<times> slot) lres" where
  "setnum_by C nk t key = bindR (luaH_getnum C t key) (\<lambda>p.
     case p of Some s \<Rightarrow> Inr (t, s) | None \<Rightarrow> nk t (TNum (cast_num key)))"

primrec reinsert_slice :: "'a luaconf_scheme \<Rightarrow> inserter \<Rightarrow> tvalue list \<Rightarrow> nat \<Rightarrow> ltable \<Rightarrow> ltable lres" where
  "reinsert_slice C nk [] i t = Inr t"
| "reinsert_slice C nk (v # vs) i t = bindR
     (if ttisnil v then Inr t
      else bindR (setnum_by C nk t (int i + 1)) (\<lambda>(t, s). Inr (set_slot s v t)))
     (\<lambda>t. reinsert_slice C nk vs (i + 1) t)"

primrec reinsert_nodes :: "'a luaconf_scheme \<Rightarrow> inserter \<Rightarrow> node list \<Rightarrow> ltable \<Rightarrow> ltable lres" where
  "reinsert_nodes C nk [] t = Inr t"
| "reinsert_nodes C nk (n # ns) t = bindR
     (if ttisnil (n_val n) then Inr t
      else bindR (set_by C nk t (n_key n)) (\<lambda>(t, s). Inr (set_slot s (n_val n) t)))
     (\<lambda>t. reinsert_nodes C nk ns t)"

definition resize_by :: "'a luaconf_scheme \<Rightarrow> inserter \<Rightarrow> ltable \<Rightarrow> nat \<Rightarrow> nat \<Rightarrow> ltable lres" where
  "resize_by C nk t nasize nhsize = (let oldarr = t_array t; oldasize = sizearray t; nold = node_vec t;
       t = (if oldasize < nasize then setarrayvector nasize t else t) in
     bindR (setnodevector nhsize t) (\<lambda>t.
     bindR (if nasize < oldasize
            then reinsert_slice C nk (drop nasize oldarr) nasize (t\<lparr>t_array := take nasize oldarr\<rparr>)
            else Inr t) (\<lambda>t.
     reinsert_nodes C nk (rev nold) t)))"

definition rehash_by :: "'a luaconf_scheme \<Rightarrow> inserter \<Rightarrow> ltable \<Rightarrow> tvalue \<Rightarrow> ltable lres" where
  "rehash_by C nk t ek = (
     let (arrayuse, nums) = numusearray t (replicate (MAXBITS + 1) 0);
         (hashuse, nasize, nums') = numusehash C t nums arrayuse;
         (c, nums'') = countint C ek nums' in
     bindR (computesizes nums'' (nasize + c)) (\<lambda>(na, n).
     resize_by C nk t n (arrayuse + hashuse + 1 - na)))"

subsection \<open>Inserting\<close>

text \<open>\<open>lastfree\<close> is decremented once more by the comparison that fails.\<close>

function getfreepos :: "node list \<Rightarrow> int \<Rightarrow> int \<times> nat option" where
  "getfreepos v lf = (if 0 < lf then
       (if ttisnil (n_key (v ! nat (lf - 1))) then (lf - 1, Some (nat (lf - 1))) else getfreepos v (lf - 1))
     else (lf - 1, None))"
  by auto
termination getfreepos
  by (relation "measure (\<lambda>(v, lf). nat lf)") auto

declare getfreepos.simps [simp del]

text \<open>Move the colliding node at \<open>mp\<close>, reached from \<open>othern\<close>, into the free node \<open>n\<close>.\<close>

definition move_colliding :: "nat \<Rightarrow> nat \<Rightarrow> nat \<Rightarrow> ltable \<Rightarrow> ltable lres" where
  "move_colliding othern mp n t =
     bindR (find_node (\<lambda>x. n_next x = Some mp) t othern) (\<lambda>r. case r of
       None \<Rightarrow> Inl (LuaFault NullDeref)
     | Some p \<Rightarrow> let t = upd_node (n_next_update (\<lambda>_. Some n)) p t;
                     t = upd_node (\<lambda>_. node_vec t ! mp) n t in
         Inr (upd_node (\<lambda>x. x\<lparr>n_next := None, n_val := TNil\<rparr>) mp t))"

definition newkey_body :: "'a luaconf_scheme \<Rightarrow> (ltable \<Rightarrow> tvalue \<Rightarrow> (ltable \<times> slot) lres) \<Rightarrow> inserter" where
  "newkey_body C regrow t key = (let mp = mainposition C (sizenode t) key in
     if ttisnil (n_val (node_vec t ! mp)) \<and> t_node t \<noteq> None
     then Inr (upd_node (n_key_update (\<lambda>_. key)) mp t, NodeSlot mp)
     else let (lf, fp) = getfreepos (node_vec t) (t_lastfree t); t = t\<lparr>t_lastfree := lf\<rparr> in
       case fp of None \<Rightarrow> regrow t key
       | Some n \<Rightarrow> let othern = mainposition C (sizenode t) (n_key (node_vec t ! mp)) in
           if othern \<noteq> mp then bindR (move_colliding othern mp n t)
             (\<lambda>t. Inr (upd_node (n_key_update (\<lambda>_. key)) mp t, NodeSlot mp))
           else let t = upd_node (n_next_update (\<lambda>_. n_next (node_vec t ! mp))) n t;
                    t = upd_node (n_next_update (\<lambda>_. Some n)) mp t in
             Inr (upd_node (n_key_update (\<lambda>_. key)) n t, NodeSlot n))"

primrec newkey :: "'a luaconf_scheme \<Rightarrow> nat \<Rightarrow> inserter" where
  "newkey C 0 = newkey_body C (\<lambda>t key. Inl (LuaFault OutOfFuel))"
| "newkey C (Suc d) = newkey_body C (\<lambda>t key.
     bindR (rehash_by C (newkey C d) t key) (\<lambda>t. set_by C (newkey C d) t key))"

text \<open>One nested insertion is enough, as \<open>Lua_Table_Props\<close> shows: a table that has just been
  resized takes every key it is resized for.\<close>

definition newkey_depth :: nat where "newkey_depth = 1"

definition luaH_set :: "'a luaconf_scheme \<Rightarrow> inserter" where
  "luaH_set C t key = set_by C (newkey C newkey_depth) t key"

definition luaH_setnum :: "'a luaconf_scheme \<Rightarrow> ltable \<Rightarrow> int \<Rightarrow> (ltable \<times> slot) lres" where
  "luaH_setnum C t key = setnum_by C (newkey C newkey_depth) t key"

definition luaH_setstr :: "'a luaconf_scheme \<Rightarrow> ltable \<Rightarrow> tstring \<Rightarrow> (ltable \<times> slot) lres" where
  "luaH_setstr C t key = bindR (luaH_getstr t key) (\<lambda>p.
     case p of Some s \<Rightarrow> Inr (t, s) | None \<Rightarrow> newkey C newkey_depth t (TStr key))"

definition luaH_resizearray :: "'a luaconf_scheme \<Rightarrow> ltable \<Rightarrow> nat \<Rightarrow> ltable lres" where
  "luaH_resizearray C t nasize =
     resize_by C (newkey C newkey_depth) t nasize (if t_node t = None then 0 else sizenode t)"

definition luaH_new :: "nat \<Rightarrow> nat \<Rightarrow> ltable lres" where
  "luaH_new narray nhash = (let t = \<lparr> t_flags = - 1, t_metatable = None, t_array = [],
       t_node = None, t_lsizenode = 0, t_lastfree = 0 \<rparr> in
     setnodevector nhash (setarrayvector narray t))"

subsection \<open>The border\<close>

function bsearch :: "(nat \<Rightarrow> bool lres) \<Rightarrow> nat \<Rightarrow> nat \<Rightarrow> nat lres" where
  "bsearch isnil i j = (if 1 < j - i then
       let m = (i + j) div 2 in
       bindR (isnil m) (\<lambda>b. if b then bsearch isnil i m else bsearch isnil m j)
     else Inr i)"
  by auto
termination bsearch
  by (relation "measure (\<lambda>(f, i, j). j - i)") auto

declare bsearch.simps [simp del]

definition num_isnil :: "'a luaconf_scheme \<Rightarrow> ltable \<Rightarrow> nat \<Rightarrow> bool lres" where
  "num_isnil C t j = bindR (luaH_getnum C t (int j)) (\<lambda>s. Inr (ttisnil (slot_val t s)))"

text \<open>The linear search of a table ``built with bad purposes''; it visits at most as many indices
  as the table has entries.\<close>

fun linear_search :: "'a luaconf_scheme \<Rightarrow> ltable \<Rightarrow> nat \<Rightarrow> nat \<Rightarrow> nat lres" where
  "linear_search C t 0 i = Inl (LuaFault OutOfFuel)"
| "linear_search C t (Suc f) i =
     bindR (num_isnil C t i) (\<lambda>b. if b then Inr (i - 1) else linear_search C t f (i + 1))"

function unbound_loop :: "'a luaconf_scheme \<Rightarrow> ltable \<Rightarrow> nat \<Rightarrow> nat \<Rightarrow> nat lres" where
  "unbound_loop C t i j = bindR (num_isnil C t j) (\<lambda>b.
     if b then bsearch (num_isnil C t) i j
     else if MAX_INT < j * 2
     then linear_search C t (sizearray t + length (node_vec t) + 1) 1
     else if j = 0 then Inl (LuaFault OutOfFuel)  \<comment> \<open>\<open>j\<close> starts above 0\<close>
     else unbound_loop C t j (j * 2))"
  by auto
termination unbound_loop
  by (relation "measure (\<lambda>(C, t, i, j). MAX_INT + 1 - j)") auto

declare unbound_loop.simps [simp del]

definition unbound_search :: "'a luaconf_scheme \<Rightarrow> ltable \<Rightarrow> nat \<Rightarrow> nat lres" where
  "unbound_search C t j = unbound_loop C t j (j + 1)"

definition luaH_getn :: "'a luaconf_scheme \<Rightarrow> ltable \<Rightarrow> nat lres" where
  "luaH_getn C t = (let j = sizearray t in
     if 0 < j \<and> ttisnil (t_array t ! (j - 1))
     then bsearch (\<lambda>m. Inr (ttisnil (t_array t ! (m - 1)))) 0 j
     else if t_node t = None then Inr j
     else unbound_search C t j)"

end
