(* ===== verification/Lua_Chain.thy ===== *)
theory Lua_Chain
  imports Lua_Table
begin

text \<open>
  The node vector of a Lua table as a set of disjoint chains: the invariant of Brent's variation
  of the chained scatter table, the searches over it, and the three ways \<open>newkey\<close> rewrites it.
\<close>

subsection \<open>Keys\<close>

text \<open>\<open>H\<close> is the heap of strings: it gives the string at an address, so two interned strings at one
  address are the same.\<close>

definition in_heap :: "(addr \<Rightarrow> tstring) \<Rightarrow> tvalue \<Rightarrow> bool" where
  "in_heap H k = (case k of TStr s \<Rightarrow> H (ts_ptr s) = s | _ \<Rightarrow> True)"

definition proper :: "tvalue \<Rightarrow> bool" where
  "proper k = (k \<noteq> TNil \<and> k \<noteq> TNum NaN \<and> (\<forall>p. k \<noteq> TDead p))"

lemma proper_not_nil [simp]: "\<not> proper TNil" "\<not> proper (TNum NaN)" "\<not> proper (TDead p)"
  by (simp_all add: proper_def)

lemma proper_nonnil: "proper k \<Longrightarrow> k \<noteq> TNil"
  by auto

lemma in_heap_same: "in_heap H a \<Longrightarrow> in_heap H b \<Longrightarrow> same_string a b"
  by (cases "(a, b)" rule: same_string.cases) (simp_all add: in_heap_def, metis)

lemma rawequal_in_heap: "in_heap H a \<Longrightarrow> in_heap H b \<Longrightarrow> proper b \<Longrightarrow> luaO_rawequalObj a b \<longleftrightarrow> a = b"
  using rawequal_eq [OF in_heap_same] rawequal_refl [of b] by (auto simp: proper_def not_nan_def)

subsection \<open>Main positions lie in the vector\<close>

lemma hashpow2_less: "l \<le> 31 \<Longrightarrow> hashpow2 (2 ^ l) h < 2 ^ l"
proof -
  assume l: "l \<le> 31"
  have "(of_nat (2 ^ l - 1) :: u32) = mask l" by (simp add: mask_eq_exp_minus_1 of_nat_diff)
  then have "hashpow2 (2 ^ l) h = unat (take_bit l h)" by (simp add: hashpow2_def take_bit_eq_mask)
  also have "\<dots> < 2 ^ l" by (simp add: unsigned_take_bit_eq)
  finally show ?thesis .
qed

lemma hashmod_less: "hashmod (2 ^ l) h < 2 ^ l"
proof -
  have "nat (int (2 ^ l - 1) OR 1) \<le> 2 ^ l \<and> 0 < nat (int (2 ^ l - 1) OR 1)"
  proof (cases l)
    case (Suc k)
    have "(2 * 2 ^ k - 1 :: int) = int (2 * 2 ^ k - 1)" by (simp add: of_nat_diff)
    then have "nat (2 * 2 ^ k - 1 :: int) = 2 * 2 ^ k - 1" by (simp only: nat_int)
    moreover have "(1::nat) < 2 * 2 ^ k" using one_le_power [of "2::nat" k] by linarith
    ultimately show ?thesis using Suc by (simp add: or_one_eq of_nat_diff)
  qed simp
  then show ?thesis unfolding hashmod_def by (meson mod_less_divisor less_le_trans)
qed

lemma mainposition_less:
  "l \<le> 31 \<Longrightarrow> mainposition C (2 ^ l) k < 2 ^ l"
  by (cases k) (auto simp: hashnum_def hashmod_less hashpow2_less)

subsection \<open>Chains\<close>

definition edge :: "node list \<Rightarrow> nat \<Rightarrow> nat \<Rightarrow> bool" where
  "edge v i j = (i < length v \<and> n_next (v ! i) = Some j)"

abbreviation reach :: "node list \<Rightarrow> nat \<Rightarrow> nat \<Rightarrow> bool" where
  "reach v \<equiv> (edge v)\<^sup>*\<^sup>*"

text \<open>A dead key keeps the address of its object, which a later key may have again. On the way from
  the main position of a key to its node there is no dead key with the key's own address.\<close>

definition dead_behind :: "'a luaconf_scheme \<Rightarrow> node list \<Rightarrow> bool" where
  "dead_behind C v = (\<forall>i j a. j < length v \<longrightarrow> proper (n_key (v ! j)) \<longrightarrow>
     reach v (mainposition C (length v) (n_key (v ! j))) i \<longrightarrow> reach v i j \<longrightarrow>
     n_key (v ! i) = TDead a \<longrightarrow> gcvalue (n_key (v ! j)) \<noteq> Some a)"

definition chain_ok :: "'a luaconf_scheme \<Rightarrow> (addr \<Rightarrow> tstring) \<Rightarrow> node list \<Rightarrow> bool" where
  "chain_ok C H v = (
    (\<forall>i j. edge v i j \<longrightarrow> j < length v \<and> n_key (v ! i) \<noteq> TNil \<and> n_key (v ! j) \<noteq> TNil) \<and>
    (\<forall>i i' j. edge v i j \<longrightarrow> edge v i' j \<longrightarrow> i = i') \<and>
    (\<exists>r :: nat \<Rightarrow> nat. \<forall>i j. edge v i j \<longrightarrow> r i < r j) \<and>
    (\<forall>i < length v. proper (n_key (v ! i)) \<longrightarrow>
       (let m = mainposition C (length v) (n_key (v ! i)) in reach v m i \<and>
          (proper (n_key (v ! m)) \<longrightarrow> mainposition C (length v) (n_key (v ! m)) = m))) \<and>
    (\<forall>i < length v. \<forall>j < length v. proper (n_key (v ! i)) \<longrightarrow> n_key (v ! i) = n_key (v ! j) \<longrightarrow> i = j) \<and>
    (\<forall>i < length v. in_heap H (n_key (v ! i)) \<and> n_key (v ! i) \<noteq> TNum NaN \<and>
       (n_val (v ! i) \<noteq> TNil \<longrightarrow> proper (n_key (v ! i)))) \<and>
    dead_behind C v)"


lemma ok_edge:
  assumes ok: "chain_ok C H v"
  shows "edge v i j \<Longrightarrow> i < length v \<and> j < length v \<and> n_key (v ! i) \<noteq> TNil \<and> n_key (v ! j) \<noteq> TNil"
  using ok by (auto simp: chain_ok_def edge_def)

lemma ok_inj:
  assumes ok: "chain_ok C H v"
  shows "edge v i j \<Longrightarrow> edge v i' j \<Longrightarrow> i = i'"
  using ok unfolding chain_ok_def by blast

lemma ok_rank:
  assumes ok: "chain_ok C H v"
  shows "\<exists>r :: nat \<Rightarrow> nat. \<forall>i j. edge v i j \<longrightarrow> r i < r j"
  using ok unfolding chain_ok_def by blast

lemma ok_irrefl:
  assumes ok: "chain_ok C H v"
  shows "\<not> edge v i i"
  using ok_rank [OF ok] by auto

lemma ok_main:
  assumes ok: "chain_ok C H v"
  shows "i < length v \<Longrightarrow> proper (n_key (v ! i)) \<Longrightarrow> m = mainposition C (length v) (n_key (v ! i)) \<Longrightarrow>
   reach v m i \<and> (proper (n_key (v ! m)) \<longrightarrow> mainposition C (length v) (n_key (v ! m)) = m)"
  using ok unfolding chain_ok_def Let_def by blast

lemma ok_distinct:
  assumes ok: "chain_ok C H v"
  shows "i < length v \<Longrightarrow> j < length v \<Longrightarrow> proper (n_key (v ! i)) \<Longrightarrow> n_key (v ! i) = n_key (v ! j) \<Longrightarrow> i = j"
  using ok unfolding chain_ok_def by blast

lemma ok_node:
  assumes ok: "chain_ok C H v"
  shows "i < length v \<Longrightarrow> in_heap H (n_key (v ! i)) \<and> n_key (v ! i) \<noteq> TNum NaN \<and>
    (n_val (v ! i) \<noteq> TNil \<longrightarrow> proper (n_key (v ! i)))"
  using ok unfolding chain_ok_def by blast

lemma ok_dead:
  assumes ok: "chain_ok C H v"
  shows "j < length v \<Longrightarrow> proper (n_key (v ! j)) \<Longrightarrow> m = mainposition C (length v) (n_key (v ! j)) \<Longrightarrow>
    reach v m i \<Longrightarrow> reach v i j \<Longrightarrow> n_key (v ! i) = TDead a \<Longrightarrow> gcvalue (n_key (v ! j)) \<noteq> Some a"
  using ok unfolding chain_ok_def dead_behind_def by blast

lemma ok_acyclic:
  assumes ok: "chain_ok C H v"
  shows "reach v i j \<Longrightarrow> reach v j i \<Longrightarrow> i = j"
proof -
  assume 1: "reach v i j" and 2: "reach v j i"
  obtain r :: "nat \<Rightarrow> nat" where r: "\<forall>i j. edge v i j \<longrightarrow> r i < r j" using ok_rank [OF ok] by blast
  have mono: "reach v a b \<Longrightarrow> a = b \<or> r a < r b" for a b
  proof (induction rule: rtranclp_induct)
    case (step y z)
    then show ?case using r by (metis order_less_trans)
  qed simp
  show "i = j" using mono [OF 1] mono [OF 2] by auto
qed

lemma ok_no_edge_nil:
  assumes ok: "chain_ok C H v"
  shows "n_key (v ! i) = TNil \<Longrightarrow> \<not> edge v i j \<and> \<not> edge v j i"
  using ok_edge [OF ok] by blast

lemma ok_reach_nonnil:
  assumes ok: "chain_ok C H v"
  shows "reach v m i \<Longrightarrow> n_key (v ! i) \<noteq> TNil \<Longrightarrow> n_key (v ! m) \<noteq> TNil"
  by (induction rule: converse_rtranclp_induct) (auto dest: ok_edge [OF ok])

lemma ok_reach_less:
  assumes ok: "chain_ok C H v"
  shows "reach v i j \<Longrightarrow> i < length v \<Longrightarrow> j < length v"
  by (induction rule: rtranclp_induct) (auto dest: ok_edge [OF ok])

lemma ok_reach_back:
  assumes ok: "chain_ok C H v"
  shows "reach v i j \<Longrightarrow> i = j \<or> (\<exists>p. reach v i p \<and> edge v p j)"
  by (metis rtranclp.cases)

subsection \<open>The searches end and find\<close>

lemma ok_finite_reach:
  assumes ok: "chain_ok C H v"
  shows "i < length v \<Longrightarrow> finite {j. reach v i j}"
  by (rule finite_subset [of _ "{..< length v}"]) (auto dest: ok_reach_less [OF ok])

lemma ok_reach_rank:
  assumes ok: "chain_ok C H v"
  shows "(\<forall>i j. edge v i j \<longrightarrow> (r :: nat \<Rightarrow> nat) i < r j) \<Longrightarrow> reach v i j \<Longrightarrow> r i \<le> r j"
  by (rotate_tac 1, induction rule: rtranclp_induct) (auto intro: order_trans dest!: spec less_imp_le)

lemma ok_card_step:
  assumes ok: "chain_ok C H v"
  assumes "edge v i j"
  shows "card {k. reach v j k} < card {k. reach v i k}"
proof (rule psubset_card_mono)
  show "finite {k. reach v i k}" using assms ok_finite_reach [OF ok] by (simp add: edge_def)
  obtain r :: "nat \<Rightarrow> nat" where r: "\<forall>i j. edge v i j \<longrightarrow> r i < r j" using ok_rank [OF ok] by blast
  have "\<not> reach v j i"
    using ok_reach_rank [OF ok r] r assms by (metis not_less)
  then show "{k. reach v j k} \<subset> {k. reach v i k}"
    using assms by (auto intro: converse_rtranclp_into_rtranclp)
qed

lemma chain_find_reach:
  assumes ok: "chain_ok C H v"
  shows "i < length v \<Longrightarrow> card {j. reach v i j} \<le> f \<Longrightarrow>
   \<exists>r. chain_find P v f (Some i) = Inr r \<and>
     (case r of Some j \<Rightarrow> reach v i j \<and> P (v ! j) | None \<Rightarrow> \<forall>j. reach v i j \<longrightarrow> \<not> P (v ! j))"
proof (induction f arbitrary: i)
  case 0
  have "finite {j. reach v i j}" "i \<in> {j. reach v i j}" using ok_finite_reach [OF ok] 0(1) by auto
  with 0(2) show ?case by auto
next
  case (Suc f)
  show ?case
  proof (cases "P (v ! i)")
    case False
    note nP = False
    show ?thesis
    proof (cases "n_next (v ! i)")
      case None
      then have "j = i" if "reach v i j" for j using that by (auto elim: converse_rtranclpE simp: edge_def)
      then show ?thesis using None nP by auto
    next
      case (Some k)
      then have e: "edge v i k" using Suc.prems(1) by (simp add: edge_def)
      then have "k < length v" "card {j. reach v k j} \<le> f"
        using ok_edge [OF ok e] ok_card_step [OF ok e] Suc.prems(2) by auto
      from Suc.IH [OF this] obtain r where r: "chain_find P v f (Some k) = Inr r"
        "case r of Some j \<Rightarrow> reach v k j \<and> P (v ! j) | None \<Rightarrow> \<forall>j. reach v k j \<longrightarrow> \<not> P (v ! j)"
        by blast
      have only: "j = i \<or> reach v k j" if "reach v i j" for j
        using that Some by (metis converse_rtranclpE edge_def option.inject)
      show ?thesis
      proof (cases r)
        case None
        then have "\<not> P (v ! j)" if "reach v i j" for j using only [OF that] r(2) nP by auto
        then show ?thesis using r(1) Some nP None by simp
      next
        case (Some j)
        then have "reach v i j" using r(2) e by (simp add: converse_rtranclp_into_rtranclp)
        then show ?thesis using r Some nP \<open>n_next (v ! i) = Some k\<close> by simp
      qed
    qed
  qed auto
qed

lemma find_reach:
  assumes ok: "chain_ok C H v"
  assumes "i < length v"
  shows "\<exists>r. chain_find P v (length v) (Some i) = Inr r \<and>
     (case r of Some j \<Rightarrow> reach v i j \<and> P (v ! j) | None \<Rightarrow> \<forall>j. reach v i j \<longrightarrow> \<not> P (v ! j))"
proof (rule chain_find_reach [OF assms])
  have "{j. reach v i j} \<subseteq> {..< length v}" using assms by (auto dest: ok_reach_less [OF ok])
  then show "card {j. reach v i j} \<le> length v" using card_mono [of "{..< length v}"] by simp
qed

text \<open>What a search finds comes before everything else it would accept.\<close>

lemma chain_find_first:
  "chain_find P v f (Some i) = Inr (Some j) \<Longrightarrow> i < length v \<Longrightarrow> reach v i k \<Longrightarrow> P (v ! k) \<Longrightarrow> reach v j k"
proof (induction f arbitrary: i)
  case (Suc f)
  show ?case
  proof (cases "P (v ! i)")
    case False
    then obtain l where l: "n_next (v ! i) = Some l" "chain_find P v f (Some l) = Inr (Some j)"
      using Suc.prems(1) by (cases "n_next (v ! i)") auto
    have "k \<noteq> i" using False Suc.prems(4) by auto
    then have "reach v l k"
      using Suc.prems(3) l(1) by (metis converse_rtranclpE edge_def option.inject)
    then show ?thesis
    proof (cases "l < length v")
      case False
      then have "k = l" using \<open>reach v l k\<close> by (metis converse_rtranclpE edge_def)
      then show ?thesis using l(2) Suc.prems(4) by (cases f) auto
    qed (use Suc.IH l(2) Suc.prems(4) in blast)
  qed (use Suc.prems in simp)
qed simp

text \<open>A search that accepts exactly the node of a proper key, from the key's main position.\<close>

lemma find_key:
  assumes ok: "chain_ok C H v"
  assumes "proper k" and m: "mainposition C (length v) k < length v"
    and P: "\<And>i. i < length v \<Longrightarrow> P (v ! i) \<longleftrightarrow> n_key (v ! i) = k"
  shows "\<exists>r. chain_find P v (length v) (Some (mainposition C (length v) k)) = Inr r \<and>
     (case r of Some j \<Rightarrow> j < length v \<and> n_key (v ! j) = k | None \<Rightarrow> \<forall>j < length v. n_key (v ! j) \<noteq> k)"
proof -
  let ?m = "mainposition C (length v) k"
  obtain r where r: "chain_find P v (length v) (Some ?m) = Inr r"
    "case r of Some j \<Rightarrow> reach v ?m j \<and> P (v ! j) | None \<Rightarrow> \<forall>j. reach v ?m j \<longrightarrow> \<not> P (v ! j)"
    using find_reach [OF ok m, of P] by blast
  have "case r of Some j \<Rightarrow> j < length v \<and> n_key (v ! j) = k | None \<Rightarrow> \<forall>j < length v. n_key (v ! j) \<noteq> k"
  proof (cases r)
    case None
    have "n_key (v ! j) \<noteq> k" if j: "j < length v" for j
    proof
      assume "n_key (v ! j) = k"
      then have "reach v ?m j" "P (v ! j)" using ok_main [OF ok j] assms(2) P [OF j] by auto
      then show False using r(2) None by simp
    qed
    then show ?thesis using None by simp
  next
    case (Some j)
    then have "reach v ?m j" "P (v ! j)" using r(2) by auto
    moreover from this have "j < length v" using ok_reach_less [OF ok] m by blast
    ultimately show ?thesis using P Some by simp
  qed
  with r(1) show ?thesis by blast
qed



lemma chain_okI:
  assumes "\<And>i j. edge v i j \<Longrightarrow> j < length v \<and> n_key (v ! i) \<noteq> TNil \<and> n_key (v ! j) \<noteq> TNil"
    and "\<And>i i' j. edge v i j \<Longrightarrow> edge v i' j \<Longrightarrow> i = i'"
    and "\<And>i j. edge v i j \<Longrightarrow> (r :: nat \<Rightarrow> nat) i < r j"
    and "\<And>i m. i < length v \<Longrightarrow> proper (n_key (v ! i)) \<Longrightarrow> m = mainposition C (length v) (n_key (v ! i)) \<Longrightarrow>
      reach v m i \<and> (proper (n_key (v ! m)) \<longrightarrow> mainposition C (length v) (n_key (v ! m)) = m)"
    and "\<And>i j. i < length v \<Longrightarrow> j < length v \<Longrightarrow> proper (n_key (v ! i)) \<Longrightarrow> n_key (v ! i) = n_key (v ! j) \<Longrightarrow> i = j"
    and "\<And>i. i < length v \<Longrightarrow> in_heap H (n_key (v ! i)) \<and> n_key (v ! i) \<noteq> TNum NaN \<and>
      (n_val (v ! i) \<noteq> TNil \<longrightarrow> proper (n_key (v ! i)))"
    and "\<And>i j m a. j < length v \<Longrightarrow> proper (n_key (v ! j)) \<Longrightarrow> m = mainposition C (length v) (n_key (v ! j)) \<Longrightarrow>
      reach v m i \<Longrightarrow> reach v i j \<Longrightarrow> n_key (v ! i) = TDead a \<Longrightarrow> gcvalue (n_key (v ! j)) \<noteq> Some a"
  shows "chain_ok C H v"
proof -
  have "dead_behind C v" unfolding dead_behind_def by (intro allI impI) (rule assms(7) [OF _ _ refl])
  then show ?thesis unfolding chain_ok_def Let_def
    by (intro conjI allI impI exI [of _ r]; insert assms(1-6); blast)
qed

subsection \<open>The three ways \<open>newkey\<close> rewrites the vector\<close>

text \<open>A new key, proper, in the heap and not in the vector.\<close>

definition new_key :: "(addr \<Rightarrow> tstring) \<Rightarrow> node list \<Rightarrow> tvalue \<Rightarrow> bool" where
  "new_key H v k = (proper k \<and> in_heap H k \<and> (\<forall>i < length v. n_key (v ! i) \<noteq> k))"

text \<open>Its main position is free: the node keeps its place in whatever chain it was part of.\<close>

lemma chain_ok_free:
  assumes ok: "chain_ok C H v" and k: "new_key H v k" and mp: "mp = mainposition C (length v) k" "mp < length v"
    and val: "n_val (v ! mp) = TNil"
  shows "chain_ok C H (v[mp := (v ! mp)\<lparr>n_key := k\<rparr>])" (is "chain_ok C H ?v")
proof -
  obtain r :: "nat \<Rightarrow> nat" where r: "\<forall>i j. edge v i j \<longrightarrow> r i < r j" using ok_rank [OF ok] by blast
  have e: "edge ?v i j \<longleftrightarrow> edge v i j" for i j
    using mp(2) by (auto simp: edge_def nth_list_update split: if_splits)
  then have re: "reach ?v = reach v" by presburger
  have key: "n_key (?v ! i) = (if i = mp then k else n_key (v ! i))" for i
    using mp(2) by (simp add: nth_list_update)
  have n_val: "n_val (?v ! i) = n_val (v ! i)" for i
    using mp(2) by (simp add: nth_list_update)
  have k': "proper k" "k \<noteq> TNil" "in_heap H k" "k \<noteq> TNum NaN" "\<And>i. i < length v \<Longrightarrow> n_key (v ! i) \<noteq> k"
    using k by (auto simp: new_key_def)
  show ?thesis
  proof (rule chain_okI [where r = r])
    show "j < length ?v \<and> n_key (?v ! i) \<noteq> TNil \<and> n_key (?v ! j) \<noteq> TNil" if "edge ?v i j" for i j
      using ok_edge [OF ok] that k'(2) by (simp add: e key)
    show "i = i'" if "edge ?v i j" "edge ?v i' j" for i i' j using ok_inj [OF ok] that by (simp add: e)
    show "r i < r j" if "edge ?v i j" for i j using r that by (simp add: e)
    show "reach ?v m i \<and> (proper (n_key (?v ! m)) \<longrightarrow> mainposition C (length ?v) (n_key (?v ! m)) = m)"
      if "i < length ?v" "proper (n_key (?v ! i))" "m = mainposition C (length ?v) (n_key (?v ! i))" for i m
      using that ok_main [OF ok, of i m] mp(1) unfolding re key by (cases "i = mp") auto
    show "i = j" if "i < length ?v" "j < length ?v" "proper (n_key (?v ! i))" "n_key (?v ! i) = n_key (?v ! j)" for i j
      using that ok_distinct [OF ok, of i j] k'(5) [of i] k'(5) [of j] unfolding key by (auto split: if_splits)
    show "in_heap H (n_key (?v ! i)) \<and> n_key (?v ! i) \<noteq> TNum NaN \<and> (n_val (?v ! i) \<noteq> TNil \<longrightarrow> proper (n_key (?v ! i)))"
      if "i < length ?v" for i
      using that ok_node [OF ok, of i] k' val unfolding key n_val by auto
    show "gcvalue (n_key (?v ! j)) \<noteq> Some a"
      if "j < length ?v" "proper (n_key (?v ! j))" "m = mainposition C (length ?v) (n_key (?v ! j))"
        "reach ?v m i" "reach ?v i j" "n_key (?v ! i) = TDead a" for i j m a
    proof -
      have i: "i \<noteq> mp" using that(6) k'(1) by (auto simp: key)
      have "j \<noteq> mp" using that(3-5) i ok_acyclic [OF ok, of i mp] mp(1) unfolding re key by auto
      then show ?thesis using that i ok_dead [OF ok, of j m i a] unfolding re key by simp
    qed
  qed
qed

text \<open>The node at its main position is a guest: it moves to the free node \<open>n\<close>, its predecessor \<open>p\<close>
  follows it, and the new key takes its place.\<close>

lemma chain_ok_move:
  assumes ok: "chain_ok C H v" and k: "new_key H v k" and mp: "mp = mainposition C (length v) k" "mp < length v"
    and guest: "proper (n_key (v ! mp))" "mainposition C (length v) (n_key (v ! mp)) \<noteq> mp"
    and n: "n < length v" "n_key (v ! n) = TNil" and p: "edge v p mp"
    and v': "length v' = length v" "v' ! n = v ! mp" "v' ! mp = \<lparr>n_val = TNil, n_key = k, n_next = None\<rparr>"
      "v' ! p = (v ! p)\<lparr>n_next := Some n\<rparr>" "\<And>i. i \<notin> {n, mp, p} \<Longrightarrow> v' ! i = v ! i"
  shows "chain_ok C H v'"
proof -
  let ?s = "\<lambda>x. if x = mp then n else x" and ?t = "\<lambda>x. if x = n then mp else x"
  obtain r :: "nat \<Rightarrow> nat" where r: "\<forall>i j. edge v i j \<longrightarrow> r i < r j" using ok_rank [OF ok] by blast
  have ne: "n \<noteq> mp" "p \<noteq> mp" "p \<noteq> n" "\<And>j. \<not> edge v n j" "\<And>j. \<not> edge v j n" "\<And>j. edge v j mp \<Longrightarrow> j = p"
    using n guest(1) p ok_irrefl [OF ok] ok_no_edge_nil [OF ok n(2)] ok_inj [OF ok] by auto
  have k': "proper k" "k \<noteq> TNil" "in_heap H k" "k \<noteq> TNum NaN" "\<And>i. i < length v \<Longrightarrow> n_key (v ! i) \<noteq> k"
    using k by (auto simp: new_key_def)
  have key: "n_key (v' ! i) = (if i = mp then k else n_key (v ! ?t i))" for i
    using v'(2-5) ne by (cases "i \<in> {n, mp, p}") auto
  have n_val: "n_val (v' ! i) = (if i = mp then TNil else n_val (v ! ?t i))" for i
    using v'(2-5) ne by (cases "i \<in> {n, mp, p}") auto
  have nxt: "n_next (v' ! i) = (if i = mp then None else if i = p then Some n else n_next (v ! ?t i))" for i
    using v'(2-5) ne by (cases "i \<in> {n, mp, p}") auto
  have fwd: "edge v' (?s i) (?s j)" if "edge v i j" for i j
  proof -
    have "i \<noteq> n" using that ne(4) by auto
    then show ?thesis
      using that p ne(2,3) ne(6) [of i] n(1) mp(2) ok_irrefl [OF ok, of mp] v'(1) unfolding edge_def nxt
      by (auto split: if_splits)
  qed
  have bwd: "edge v (?t i) (?t j)" "i \<noteq> mp" "j \<noteq> mp" if "edge v' i j" for i j
  proof -
    have i: "i \<noteq> mp" "i < length v" using that v'(1) by (auto simp: edge_def nxt)
    show "i \<noteq> mp" by (rule i(1))
    show *: "j \<noteq> mp"
    proof (cases "i = p")
      case True then show ?thesis using that ne by (simp add: edge_def nxt split: if_splits)
    next
      case False
      then have "edge v (?t i) j" using that i mp(2) by (simp add: edge_def nxt)
      then show ?thesis using False ne(6) [of "?t i"] ok_irrefl [OF ok] by (auto split: if_splits)
    qed
    show "edge v (?t i) (?t j)"
    proof (cases "i = p")
      case True
      then have "j = n" using that ne(2) by (simp add: edge_def nxt)
      then show ?thesis using True ne(3) p by simp
    next
      case False
      then have "edge v (?t i) j" using that i mp(2) by (simp add: edge_def nxt)
      then show ?thesis using ne(5) by (metis (full_types))
    qed
  qed
  have rch: "reach v' (?s i) (?s j)" if "reach v i j" for i j
    using that
  proof (induction rule: rtranclp_induct)
    case (step y z)
    show ?case using step.IH fwd [OF step(2)] by (rule rtranclp.rtrancl_into_rtrancl)
  qed simp
  have mkey: "m \<noteq> mp \<and> m \<noteq> n" if "i < length v" "proper (n_key (v ! i))" "m = mainposition C (length v) (n_key (v ! i))" for i m
    using ok_main [OF ok that] guest ok_reach_nonnil [OF ok, of m i] proper_nonnil [OF that(2)] n(2) by blast
  show ?thesis
  proof (rule chain_okI [where r = "r \<circ> ?t"])
    show "j < length v' \<and> n_key (v' ! i) \<noteq> TNil \<and> n_key (v' ! j) \<noteq> TNil" if "edge v' i j" for i j
      using ok_edge [OF ok bwd(1) [OF that]] bwd(2,3) [OF that] n(1) unfolding key v'(1) by (auto split: if_splits)
    show "i = i'" if "edge v' i j" "edge v' i' j" for i i' j
      using ok_inj [OF ok bwd(1) [OF that(1)] bwd(1) [OF that(2)]] bwd(2) [OF that(1)] bwd(2) [OF that(2)]
      by (auto split: if_splits)
    show "(r \<circ> ?t) i < (r \<circ> ?t) j" if "edge v' i j" for i j using r bwd(1) [OF that] by (simp only: o_def)
    show "reach v' m i \<and> (proper (n_key (v' ! m)) \<longrightarrow> mainposition C (length v') (n_key (v' ! m)) = m)"
      if i: "i < length v'" "proper (n_key (v' ! i))" "m = mainposition C (length v') (n_key (v' ! i))" for i m
    proof (cases "i = mp")
      case True
      then show ?thesis using i(3) mp(1) by (simp add: key v'(1))
    next
      case False
      let ?i = "?t i"
      have i': "?i < length v" "proper (n_key (v ! ?i))" "m = mainposition C (length v) (n_key (v ! ?i))"
        using i False mp(2) v'(1) by (auto simp: key)
      have m: "?s m = m" "n_key (v' ! m) = n_key (v ! m)" "?s ?i = i"
        using mkey [OF i'] False by (auto simp: key)
      show ?thesis using ok_main [OF ok i'] rch [of m ?i] m v'(1) by simp
    qed
    show "i = j" if "i < length v'" "j < length v'" "proper (n_key (v' ! i))" "n_key (v' ! i) = n_key (v' ! j)" for i j
    proof -
      have l: "?t i < length v" "?t j < length v" using that(1,2) v'(1) mp(2) by auto
      show ?thesis
      proof (cases "i = mp \<or> j = mp")
        case True
        then show ?thesis using that(4) k'(5) [OF l(1)] k'(5) [OF l(2)] unfolding key by metis
      next
        case False
        then have "?t i = ?t j" using that(3,4) ok_distinct [OF ok l] by (simp add: key)
        then show ?thesis using False by (simp split: if_splits)
      qed
    qed
    show "in_heap H (n_key (v' ! i)) \<and> n_key (v' ! i) \<noteq> TNum NaN \<and> (n_val (v' ! i) \<noteq> TNil \<longrightarrow> proper (n_key (v' ! i)))"
      if "i < length v'" for i
      using that ok_node [OF ok, of "?t i"] k' v'(1) mp(2) unfolding key n_val by (auto split: if_splits)
    have bwd_reach: "reach v (?t i) (?t j) \<and> (i = mp \<longrightarrow> j = mp)" if "reach v' i j" for i j
      using that
    proof (induction rule: rtranclp_induct)
      case (step y z)
      then show ?case using bwd [OF step(2)] by (metis (no_types, lifting) rtranclp.rtrancl_into_rtrancl)
    qed simp
    show "gcvalue (n_key (v' ! j)) \<noteq> Some a"
      if j: "j < length v'" "proper (n_key (v' ! j))" "m = mainposition C (length v') (n_key (v' ! j))"
        and ij: "reach v' m i" "reach v' i j" "n_key (v' ! i) = TDead a" for i j m a
    proof -
      have i: "i \<noteq> mp" using ij(3) k'(1) by (auto simp: key)
      have jm: "j \<noteq> mp" using j(3) ij(1) i bwd_reach [of m i] mp(1) by (auto simp: key v'(1))
      have j': "?t j < length v" "proper (n_key (v ! ?t j))" "m = mainposition C (length v) (n_key (v ! ?t j))"
        using j jm mp(2) v'(1) by (simp_all add: key)
      then have "?t m = m" using mkey by (metis (full_types))
      then have "reach v m (?t i)" "reach v (?t i) (?t j)" using bwd_reach [OF ij(1)] bwd_reach [OF ij(2)] by simp_all
      then show ?thesis using ok_dead [OF ok j'] ij(3) i jm by (simp add: key)
    qed
  qed
qed

text \<open>The node at its main position belongs there: the free node \<open>n\<close> takes the new key and is
  chained after it.\<close>

lemma chain_ok_chain:
  assumes ok: "chain_ok C H v" and k: "new_key H v k" and mp: "mp = mainposition C (length v) k" "mp < length v"
    and host: "proper (n_key (v ! mp))" "mainposition C (length v) (n_key (v ! mp)) = mp"
    and n: "n < length v" "n_key (v ! n) = TNil"
    and v': "length v' = length v" "v' ! n = \<lparr>n_val = n_val (v ! n), n_key = k, n_next = n_next (v ! mp)\<rparr>"
      "v' ! mp = (v ! mp)\<lparr>n_next := Some n\<rparr>" "\<And>i. i \<notin> {n, mp} \<Longrightarrow> v' ! i = v ! i"
  shows "chain_ok C H v'"
proof -
  obtain r :: "nat \<Rightarrow> nat" where r: "\<forall>i j. edge v i j \<longrightarrow> r i < r j" using ok_rank [OF ok] by blast
  have ne: "n \<noteq> mp" "\<And>j. \<not> edge v n j" "\<And>j. \<not> edge v j n" "n_val (v ! n) = TNil"
    using n host(1) ok_no_edge_nil [OF ok n(2)] ok_node [OF ok n(1)] by auto
  have k': "proper k" "k \<noteq> TNil" "in_heap H k" "k \<noteq> TNum NaN" "\<And>i. i < length v \<Longrightarrow> n_key (v ! i) \<noteq> k"
    using k by (auto simp: new_key_def)
  have key: "n_key (v' ! i) = (if i = n then k else n_key (v ! i))" for i
    using v'(2-4) ne by (cases "i \<in> {n, mp}") auto
  have n_val: "n_val (v' ! i) = n_val (v ! i)" for i
    using v'(2-4) ne by (cases "i \<in> {n, mp}") auto
  have nxt: "n_next (v' ! i) = (if i = n then n_next (v ! mp) else if i = mp then Some n else n_next (v ! i))" for i
    using v'(2-4) ne by (cases "i \<in> {n, mp}") auto
  have e: "edge v' i j \<longleftrightarrow> (if i = mp then j = n else if i = n then edge v mp j else edge v i j)" for i j
    using n(1) mp(2) ne(1) v'(1) unfolding edge_def nxt by auto
  have rch: "reach v' i j" if "reach v i j" for i j using that
  proof (induction rule: rtranclp_induct)
    case (step y z)
    show ?case
    proof (cases "y = mp")
      case True
      then have "edge v' y n" "edge v' n z" using step(2) ne(1) by (simp_all add: e)
      then show ?thesis using step.IH by (meson rtranclp.rtrancl_into_rtrancl)
    next
      case False
      then have "edge v' y z" using step(2) ne(2) by (auto simp: e)
      then show ?thesis using step.IH by (rule rtranclp.rtrancl_into_rtrancl [rotated])
    qed
  qed simp
  have pre: "j = n \<and> i = mp \<or> j \<noteq> n \<and> i \<noteq> mp \<and> edge v (if i = n then mp else i) j" if "edge v' i j" for i j
    using that ne(1) ne(3) by (auto simp: e split: if_splits)
  let ?r = "\<lambda>x. if x = n then 2 * r mp + 1 else 2 * r x"
  show ?thesis
  proof (rule chain_okI [where r = ?r])
    show "j < length v' \<and> n_key (v' ! i) \<noteq> TNil \<and> n_key (v' ! j) \<noteq> TNil" if "edge v' i j" for i j
      using that ok_edge [OF ok, of i j] ok_edge [OF ok, of mp j] n(1) k'(2) ne(1) host(1) unfolding e key v'(1)
      by (auto split: if_splits)
    show "i = i'" if "edge v' i j" "edge v' i' j" for i i' j
      using pre [OF that(1)] pre [OF that(2)] ok_inj [OF ok, of "if i = n then mp else i" j "if i' = n then mp else i'"]
      by (auto split: if_splits)
    show "?r i < ?r j" if "edge v' i j" for i j
    proof -
      consider "i = mp" "j = n" | "i = n" "edge v mp j" | "i \<noteq> mp" "i \<noteq> n" "edge v i j"
        using \<open>edge v' i j\<close> by (auto simp: e split: if_splits)
      then show ?thesis
      proof cases
        case 2
        then have "r mp < r j" "j \<noteq> n" using r ne(3) by auto
        then show ?thesis using 2 by simp
      next
        case 3
        then have "r i < r j" "j \<noteq> n" using r ne(3) by auto
        then show ?thesis using 3 by simp
      qed (use ne(1) in simp)
    qed
    show "reach v' m i \<and> (proper (n_key (v' ! m)) \<longrightarrow> mainposition C (length v') (n_key (v' ! m)) = m)"
      if i: "i < length v'" "proper (n_key (v' ! i))" "m = mainposition C (length v') (n_key (v' ! i))" for i m
    proof (cases "i = n")
      case True
      then have "m = mp" using i(3) mp(1) by (simp add: key v'(1))
      moreover have "edge v' mp n" by (simp add: e)
      ultimately show ?thesis using True host(2) ne(1) v'(1) by (auto simp: key)
    next
      case False
      then have i': "i < length v" "proper (n_key (v ! i))" "m = mainposition C (length v) (n_key (v ! i))"
        using i v'(1) by (auto simp: key)
      have "m \<noteq> n"
        using ok_reach_nonnil [OF ok, of m i] ok_main [OF ok i'] proper_nonnil [OF i'(2)] n(2) by blast
      then show ?thesis using ok_main [OF ok i'] rch v'(1) by (auto simp: key)
    qed
    show "i = j" if "i < length v'" "j < length v'" "proper (n_key (v' ! i))" "n_key (v' ! i) = n_key (v' ! j)" for i j
      using that ok_distinct [OF ok, of i j] k'(5) [of i] k'(5) [of j] v'(1) unfolding key by (auto split: if_splits)
    show "in_heap H (n_key (v' ! i)) \<and> n_key (v' ! i) \<noteq> TNum NaN \<and> (n_val (v' ! i) \<noteq> TNil \<longrightarrow> proper (n_key (v' ! i)))"
      if "i < length v'" for i
      using that ok_node [OF ok, of i] k' v'(1) ne(4) unfolding key n_val by auto
    let ?t = "\<lambda>x. if x = n then mp else x"
    have bwd_reach: "reach v (?t i) (?t j)" if "reach v' i j" for i j
      using that
    proof (induction rule: rtranclp_induct)
      case (step y z)
      from pre [OF step(2)] show ?case
      proof
        assume "z = n \<and> y = mp"
        then show ?thesis using step.IH ne(1) by simp
      next
        assume "z \<noteq> n \<and> y \<noteq> mp \<and> edge v (?t y) z"
        then show ?thesis using step.IH by (simp add: rtranclp.rtrancl_into_rtrancl)
      qed
    qed simp
    show "gcvalue (n_key (v' ! j)) \<noteq> Some a"
      if j: "j < length v'" "proper (n_key (v' ! j))" "m = mainposition C (length v') (n_key (v' ! j))"
        and ij: "reach v' m i" "reach v' i j" "n_key (v' ! i) = TDead a" for i j m a
    proof -
      have i: "i \<noteq> n" using ij(3) k'(1) by (auto simp: key)
      have jn: "j \<noteq> n"
      proof
        assume "j = n"
        then have "m = mp" using j(3) mp(1) by (simp add: key v'(1))
        then have "reach v mp i" "reach v i mp" using bwd_reach [OF ij(1)] bwd_reach [OF ij(2)] \<open>j = n\<close> i ne(1) by auto
        then have "i = mp" using ok_acyclic [OF ok] by blast
        then show False using ij(3) host(1) i by (auto simp: key)
      qed
      have j': "j < length v" "proper (n_key (v ! j))" "m = mainposition C (length v) (n_key (v ! j))"
        using j jn v'(1) by (simp_all add: key)
      have "m \<noteq> n"
        using ok_reach_nonnil [OF ok, of m j] ok_main [OF ok j'] proper_nonnil [OF j'(2)] n(2) by blast
      then have "reach v m i" "reach v i j" using bwd_reach [OF ij(1)] bwd_reach [OF ij(2)] i jn by simp_all
      then show ?thesis using ok_dead [OF ok j'] ij(3) i jn by (simp add: key)
    qed
  qed
qed

text \<open>The collector declares a key without a value dead: its node keeps its place in the chains.\<close>

lemma chain_ok_dead:
  assumes ok: "chain_ok C H v" and x: "x < length v" "n_val (v ! x) = TNil"
    and other: "\<And>j. j < length v \<Longrightarrow> j \<noteq> x \<Longrightarrow> proper (n_key (v ! j)) \<Longrightarrow> gcvalue (n_key (v ! j)) \<noteq> Some a"
    and nonnil: "n_key (v ! x) \<noteq> TNil"
  shows "chain_ok C H (v[x := (v ! x)\<lparr>n_key := TDead a\<rparr>])" (is "chain_ok C H ?v")
proof -
  obtain r :: "nat \<Rightarrow> nat" where r: "\<forall>i j. edge v i j \<longrightarrow> r i < r j" using ok_rank [OF ok] by blast
  have e: "edge ?v i j \<longleftrightarrow> edge v i j" for i j
    using x(1) by (auto simp: edge_def nth_list_update split: if_splits)
  then have re: "reach ?v = reach v" by presburger
  have key: "n_key (?v ! i) = (if i = x then TDead a else n_key (v ! i))"
    and val: "n_val (?v ! i) = n_val (v ! i)" for i
    using x(1) by (simp_all add: nth_list_update)
  show ?thesis
  proof (rule chain_okI [where r = r])
    show "j < length ?v \<and> n_key (?v ! i) \<noteq> TNil \<and> n_key (?v ! j) \<noteq> TNil" if "edge ?v i j" for i j
      using ok_edge [OF ok] that by (simp add: e key)
    show "i = i'" if "edge ?v i j" "edge ?v i' j" for i i' j using ok_inj [OF ok] that by (simp add: e)
    show "r i < r j" if "edge ?v i j" for i j using r that by (simp add: e)
    show "reach ?v m i \<and> (proper (n_key (?v ! m)) \<longrightarrow> mainposition C (length ?v) (n_key (?v ! m)) = m)"
      if "i < length ?v" "proper (n_key (?v ! i))" "m = mainposition C (length ?v) (n_key (?v ! i))" for i m
      using that ok_main [OF ok, of i m] unfolding re key by (auto split: if_splits)
    show "i = j" if "i < length ?v" "j < length ?v" "proper (n_key (?v ! i))" "n_key (?v ! i) = n_key (?v ! j)" for i j
      using that ok_distinct [OF ok, of i j] proper_not_nil(3) [of a] unfolding key by (metis length_list_update)
    show "in_heap H (n_key (?v ! i)) \<and> n_key (?v ! i) \<noteq> TNum NaN \<and> (n_val (?v ! i) \<noteq> TNil \<longrightarrow> proper (n_key (?v ! i)))"
      if "i < length ?v" for i
      using that ok_node [OF ok, of i] x(2) unfolding key val by (auto simp: in_heap_def)
    show "gcvalue (n_key (?v ! j)) \<noteq> Some b"
      if "j < length ?v" "proper (n_key (?v ! j))" "m = mainposition C (length ?v) (n_key (?v ! j))"
        "reach ?v m i" "reach ?v i j" "n_key (?v ! i) = TDead b" for i j m b
    proof (cases "i = x")
      case True
      then show ?thesis using that other [of j] unfolding key by (auto split: if_splits)
    next
      case False
      then show ?thesis using that ok_dead [OF ok, of j m i b] unfolding re key by (auto split: if_splits)
    qed
  qed
qed

end
