(* ===== verification/Lua_Table_Inv.thy ===== *)
theory Lua_Table_Inv
  imports Lua_Chain
begin

text \<open>
  The invariant of a whole Lua table, its meaning as a map from keys to values, and the lemmas
  that each of \<open>ltable.c\<close>'s reading and inserting operations keeps the one and computes the other.
\<close>

subsection \<open>The map a table stands for\<close>

definition hash_get :: "node list \<Rightarrow> tvalue \<Rightarrow> tvalue" where
  "hash_get v k = (case find (\<lambda>n. n_key n = k) v of None \<Rightarrow> TNil | Some n \<Rightarrow> n_val n)"

definition in_array :: "'a luaconf_scheme \<Rightarrow> nat \<Rightarrow> tvalue \<Rightarrow> bool" where
  "in_array C sz k = (0 < arrayindex C k \<and> arrayindex C k \<le> int sz)"

definition lookup :: "'a luaconf_scheme \<Rightarrow> ltable \<Rightarrow> tvalue \<Rightarrow> tvalue" where
  "lookup C t k = (if in_array C (sizearray t) k then t_array t ! nat (arrayindex C k - 1)
     else hash_get (node_vec t) k)"

definition tab_ok :: "'a luaconf_scheme \<Rightarrow> (addr \<Rightarrow> tstring) \<Rightarrow> ltable \<Rightarrow> bool" where
  "tab_ok C H t = (length (node_vec t) = sizenode t \<and> t_lsizenode t \<le> MAXBITS \<and>
     chain_ok C H (node_vec t) \<and> sizearray t \<le> MAXASIZE \<and>
     (\<forall>i < length (node_vec t). \<not> in_array C (sizearray t) (n_key (node_vec t ! i))) \<and>
     t_lastfree t \<le> int (sizenode t) \<and>
     (case t_node t of None \<Rightarrow> t_lsizenode t = 0 \<and> t_lastfree t \<le> 0
      | Some v \<Rightarrow> \<forall>i < length v. t_lastfree t \<le> int i \<longrightarrow> n_key (v ! i) \<noteq> TNil))"

lemma arrayindex_cast: "conf_ok C \<Longrightarrow> is_int k \<Longrightarrow> arrayindex C (TNum (cast_num k)) = k"
  by (auto simp: arrayindex_def conf_ok_def cast_num_def d_eq_iff)

lemma arrayindex_num: "d_eq (cast_num (number2int C n)) n \<Longrightarrow> n = cast_num (number2int C n) \<and> arrayindex C (TNum n) = number2int C n"
  by (auto simp: arrayindex_def d_eq_iff)

lemma arrayindex_pos: "conf_ok C \<Longrightarrow> 0 < arrayindex C k \<Longrightarrow> k = TNum (cast_num (arrayindex C k)) \<and> is_int (arrayindex C k)"
  by (auto simp: arrayindex_def conf_ok_def d_eq_iff Let_def split: tvalue.splits if_splits)

lemma in_array_num: "conf_ok C \<Longrightarrow> in_array C sz k \<Longrightarrow> \<exists>j. k = TNum (cast_num j) \<and> is_int j \<and> 0 < j \<and> j \<le> int sz"
  using arrayindex_pos unfolding in_array_def by blast

lemma in_array_not [simp]: "\<not> in_array C sz TNil" "\<not> in_array C sz (TStr s)" "\<not> in_array C sz (TBool b)"
  "\<not> in_array C sz (TLight p)" "\<not> in_array C sz (TGC g p)" "\<not> in_array C sz (TDead p)"
  by (simp_all add: in_array_def arrayindex_def)

lemma in_array_NaN [simp]: "\<not> in_array C sz (TNum NaN)"
  by (simp add: in_array_def arrayindex_def Let_def d_eq_iff)

definition entries :: "node list \<Rightarrow> (tvalue \<times> tvalue) set" where
  "entries v = {(n_key n, n_val n) |n. n \<in> set v \<and> n_val n \<noteq> TNil}"

lemma entries_nth: "(k, x) \<in> entries v \<longleftrightarrow> x \<noteq> TNil \<and> (\<exists>i < length v. n_key (v ! i) = k \<and> n_val (v ! i) = x)"
  by (force simp: entries_def in_set_conv_nth)

lemma find_none: "\<forall>i < length v. n_key (v ! i) \<noteq> k \<Longrightarrow> find (\<lambda>n. n_key n = k) v = None"
  by (auto simp: find_None_iff in_set_conv_nth)

lemma find_some: "find P v = Some n \<Longrightarrow> \<exists>j < length v. n = v ! j \<and> P (v ! j)"
  unfolding find_Some_iff by blast

lemma hash_get_none: "\<forall>i < length v. n_key (v ! i) \<noteq> k \<Longrightarrow> hash_get v k = TNil"
  by (simp add: hash_get_def find_none)

lemma hash_get_at:
  assumes "chain_ok C H v" "i < length v" "n_key (v ! i) = k" "proper k"
  shows "hash_get v k = n_val (v ! i)"
proof -
  have "find (\<lambda>n. n_key n = k) v \<noteq> None"
    using assms(2,3) nth_mem [of i v] unfolding find_None_iff by blast
  then obtain n where n: "find (\<lambda>n. n_key n = k) v = Some n" by blast
  from find_some [OF this] obtain j where "find (\<lambda>n. n_key n = k) v = Some (v ! j)" "j < length v" "n_key (v ! j) = k"
    using n by blast
  moreover have "i = j" using ok_distinct [OF assms(1,2) calculation(2)] assms(3,4) calculation(3) by simp
  ultimately show ?thesis by (simp add: hash_get_def)
qed

lemma hash_get_entries:
  assumes "chain_ok C H v" "proper k"
  shows "x \<noteq> TNil \<Longrightarrow> hash_get v k = x \<longleftrightarrow> (k, x) \<in> entries v"
  using hash_get_at [OF assms(1) _ _ assms(2)] hash_get_none [of v k] unfolding entries_nth by metis

lemma hash_get_eqI:
  assumes "chain_ok C H v" "chain_ok C H v'" "proper k" "\<And>x. (k, x) \<in> entries v \<longleftrightarrow> (k, x) \<in> entries v'"
  shows "hash_get v k = hash_get v' k"
  using hash_get_entries [OF assms(1,3)] hash_get_entries [OF assms(2,3)] assms(4) by metis

lemma hash_get_nil: "chain_ok C H v \<Longrightarrow> hash_get v TNil = TNil"
  unfolding hash_get_def using find_some [of "\<lambda>n. n_key n = TNil" v] ok_node [of C H v]
  by (cases "find (\<lambda>n. n_key n = TNil) v") fastforce+

subsection \<open>Reading\<close>

definition slot_for :: "'a luaconf_scheme \<Rightarrow> ltable \<Rightarrow> tvalue \<Rightarrow> slot option \<Rightarrow> bool" where
  "slot_for C t k s = (case s of
     Some (ArrSlot i) \<Rightarrow> in_array C (sizearray t) k \<and> i = nat (arrayindex C k - 1)
   | Some (NodeSlot i) \<Rightarrow> \<not> in_array C (sizearray t) k \<and> i < length (node_vec t) \<and> n_key (node_vec t ! i) = k
   | None \<Rightarrow> \<not> in_array C (sizearray t) k \<and> (\<forall>i < length (node_vec t). n_key (node_vec t ! i) \<noteq> k))"


lemma tab_chain:
  assumes C: "conf_ok C" and ok: "tab_ok C H t"
  shows "chain_ok C H (node_vec t)"
  using ok by (simp add: tab_ok_def)

lemma tab_len:
  assumes C: "conf_ok C" and ok: "tab_ok C H t"
  shows "length (node_vec t) = sizenode t" "sizearray t \<le> 2 ^ 26" "t_lsizenode t \<le> 31"
  using ok by (simp_all add: tab_ok_def MAXASIZE_def MAXBITS_def)

lemma tab_main_less:
  assumes C: "conf_ok C" and ok: "tab_ok C H t"
  shows "mainposition C (sizenode t) k < length (node_vec t)"
  using mainposition_less [OF tab_len(3) [OF C ok]] tab_len(1) [OF C ok] by (simp add: sizenode_def)

lemma slot_for_val:
  assumes C: "conf_ok C" and ok: "tab_ok C H t"
  shows "proper k \<Longrightarrow> slot_for C t k s \<Longrightarrow> slot_val t s = lookup C t k"
  using hash_get_at [OF tab_chain [OF C ok], of _ k] hash_get_none [of "node_vec t" k]
  by (auto simp: slot_for_def lookup_def split: option.splits slot.splits)

lemma find_node_key:
  assumes C: "conf_ok C" and ok: "tab_ok C H t"
  assumes "proper k" "in_heap H k" "\<not> in_array C (sizearray t) k"
    and P: "\<And>n. in_heap H (n_key n) \<Longrightarrow> P n \<longleftrightarrow> n_key n = k"
    and m: "m = mainposition C (sizenode t) k"
  shows "\<exists>r. find_node P t m = Inr r \<and> slot_for C t k (node_slot r)"
proof -
  have "P (node_vec t ! i) \<longleftrightarrow> n_key (node_vec t ! i) = k" if "i < length (node_vec t)" for i
    using P ok_node [OF tab_chain [OF C ok] that] by blast
  from find_key [OF tab_chain [OF C ok] assms(3), of P, OF _ this] obtain r where
    "find_node P t m = Inr r" and
    "case r of Some j \<Rightarrow> j < length (node_vec t) \<and> n_key (node_vec t ! j) = k
     | None \<Rightarrow> \<forall>j < length (node_vec t). n_key (node_vec t ! j) \<noteq> k"
    using tab_main_less [OF C ok] tab_len(1) [OF C ok] unfolding find_node_def m by (metis (no_types, lifting))
  then show ?thesis using assms(5)
    by (intro exI [of _ r]) (auto simp: slot_for_def node_slot_def split: option.splits)
qed

lemma index_compare:
  assumes C: "conf_ok C" and ok: "tab_ok C H t"
  assumes "is_int k"
  shows "(word_of_int (k - 1) :: u32) < of_nat (sizearray t) \<longleftrightarrow> 0 < k \<and> k \<le> int (sizearray t)"
proof -
  have n: "uint (of_nat (sizearray t) :: u32) = int (sizearray t)"
    using tab_len(2) [OF C ok] by (simp add: unsigned_of_nat take_bit_nat_eq_self)
  have "(k - 1) mod 2 ^ 32 = (if 0 < k then k - 1 else k - 1 + 2 ^ 32)"
  proof (cases "0 < k")
    case True
    then show ?thesis using assms by (simp add: is_int_def)
  next
    case False
    have "(k - 1) mod 2 ^ 32 = (k - 1 + 2 ^ 32) mod 2 ^ 32" by (rule mod_add_self2 [symmetric])
    also have "\<dots> = k - 1 + 2 ^ 32" by (rule mod_pos_pos_trivial) (use False assms in \<open>auto simp: is_int_def\<close>)
    finally show ?thesis using False by simp
  qed
  moreover have "uint (word_of_int (k - 1) :: u32) = (k - 1) mod 2 ^ 32" by (subst uint_word_of_int) simp
  ultimately show ?thesis using assms tab_len(2) [OF C ok] unfolding word_less_def n is_int_def by auto
qed

lemma getnum_spec:
  assumes C: "conf_ok C" and ok: "tab_ok C H t"
  assumes "is_int k"
  shows "\<exists>s. luaH_getnum C t k = Inr s \<and> slot_for C t (TNum (cast_num k)) s"
proof (cases "in_array C (sizearray t) (TNum (cast_num k))")
  case True
  then have "0 < k \<and> k \<le> int (sizearray t)" by (simp add: in_array_def arrayindex_cast [OF C assms(3)])
  then show ?thesis using True index_compare [OF assms]
    by (simp add: luaH_getnum_def slot_for_def arrayindex_cast [OF C assms(3)])
next
  case False
  then have "\<not> (0 < k \<and> k \<le> int (sizearray t))" by (simp add: in_array_def arrayindex_cast [OF C assms(3)])
  moreover have "(case n_key n of TNum x \<Rightarrow> d_eq x (cast_num k) | _ \<Rightarrow> False) \<longleftrightarrow> n_key n = TNum (cast_num k)" for n
    by (auto simp: d_eq_iff split: tvalue.splits)
  from find_node_key [OF C ok _ _ False this, of "hashnum (sizenode t) (cast_num k)"]
  obtain r where "find_node (\<lambda>n. case n_key n of TNum x \<Rightarrow> d_eq x (cast_num k) | _ \<Rightarrow> False) t
      (hashnum (sizenode t) (cast_num k)) = Inr r" "slot_for C t (TNum (cast_num k)) (node_slot r)"
    by (auto simp: proper_def in_heap_def)
  ultimately show ?thesis using index_compare [OF assms] by (auto simp: luaH_getnum_def)
qed

lemma getstr_spec:
  assumes C: "conf_ok C" and ok: "tab_ok C H t"
  assumes "in_heap H (TStr k)"
  shows "\<exists>s. luaH_getstr t k = Inr s \<and> slot_for C t (TStr k) s"
proof -
  have "(case n_key n of TStr s \<Rightarrow> ts_ptr s = ts_ptr k | _ \<Rightarrow> False) \<longleftrightarrow> n_key n = TStr k"
    if "in_heap H (n_key n)" for n
    using that assms by (auto simp: in_heap_def split: tvalue.splits)
  from find_node_key [OF C ok _ assms(3) _ this refl] show ?thesis
    by (auto simp: luaH_getstr_def proper_def)
qed

lemma get_default_spec:
  assumes C: "conf_ok C" and ok: "tab_ok C H t"
  assumes "proper k" "in_heap H k" "\<not> in_array C (sizearray t) k"
  shows "\<exists>s. get_default C t k = Inr s \<and> slot_for C t k s"
  using find_node_key [OF assms, of "\<lambda>n. luaO_rawequalObj (n_key n) k", OF _ refl] rawequal_in_heap [OF _ assms(4,3)]
  by (auto simp: get_default_def)

lemma get_spec:
  assumes C: "conf_ok C" and ok: "tab_ok C H t"
  assumes "proper k" "in_heap H k"
  shows "\<exists>s. luaH_get C t k = Inr s \<and> slot_for C t k s"
proof (cases k)
  case (TNum n)
  show ?thesis
  proof (cases "d_eq (cast_num (number2int C n)) n")
    case True
    have "is_int (number2int C n)" using C by (simp add: conf_ok_def)
    from getnum_spec [OF C ok this] show ?thesis
      using True arrayindex_num [OF True] TNum by (auto simp: luaH_get_def)
  next
    case False
    then have "\<not> in_array C (sizearray t) k" using TNum by (simp add: in_array_def arrayindex_def)
    then show ?thesis using False TNum get_default_spec [OF assms] by (simp add: luaH_get_def)
  qed
next
  case (TStr s)
  then show ?thesis using getstr_spec [OF C ok] assms(4) by (simp add: luaH_get_def)
qed (use assms get_default_spec [OF assms] in \<open>simp_all add: luaH_get_def\<close>)

lemma get_val:
  assumes C: "conf_ok C" and ok: "tab_ok C H t"
  assumes "proper k" "in_heap H k"
  shows "\<exists>s. luaH_get C t k = Inr s \<and> slot_val t s = lookup C t k"
  using get_spec [OF assms] slot_for_val [OF C ok assms(3)] by blast

lemma get_nan:
  assumes C: "conf_ok C" and ok: "tab_ok C H t"
  shows "luaH_get C t (TNum NaN) = Inr None"
proof -
  have "\<not> d_eq x NaN" for x by (cases x) auto
  then have n: "\<not> luaO_rawequalObj k (TNum NaN)" for k by (cases k) auto
  obtain r where "find_node (\<lambda>n. luaO_rawequalObj (n_key n) (TNum NaN)) t (mainposition C (sizenode t) (TNum NaN)) = Inr r"
    "case r of Some j \<Rightarrow> luaO_rawequalObj (n_key (node_vec t ! j)) (TNum NaN) | None \<Rightarrow> True"
    using find_reach [OF tab_chain [OF C ok] tab_main_less [OF C ok], of "\<lambda>n. luaO_rawequalObj (n_key n) (TNum NaN)"]
    unfolding find_node_def by (fastforce split: option.splits)
  then show ?thesis using n \<open>\<And>x. \<not> d_eq x NaN\<close>
    by (simp add: luaH_get_def get_default_def node_slot_def split: option.splits)
qed


end
