(* ===== verification/Lua_Table_Ins.thy ===== *)
theory Lua_Table_Ins
  imports Lua_Table_Inv
begin

text \<open>
  \<open>newkey\<close> on a well-formed table: while a node without a key is left it inserts the key, keeps
  every entry and uses up at most one such node; only when none is left does it call for a rehash.
\<close>

lemma node_vec_upd [simp]: "t_node t \<noteq> None \<Longrightarrow> node_vec (upd_node f i t) = (node_vec t)[i := f (node_vec t ! i)]"
  by (auto simp: node_vec_def upd_node_def)

lemma upd_node_fields [simp]:
  "t_array (upd_node f i t) = t_array t" "t_flags (upd_node f i t) = t_flags t"
  "t_metatable (upd_node f i t) = t_metatable t" "t_lsizenode (upd_node f i t) = t_lsizenode t"
  "t_lastfree (upd_node f i t) = t_lastfree t" "sizenode (upd_node f i t) = sizenode t"
  "t_node (upd_node f i t) = None \<longleftrightarrow> t_node t = None"
  by (simp_all add: upd_node_def sizenode_def)

lemma node_vec_fields [simp]:
  "node_vec (t\<lparr>t_flags := a\<rparr>) = node_vec t" "node_vec (t\<lparr>t_lastfree := b\<rparr>) = node_vec t"
  "node_vec (t\<lparr>t_array := c\<rparr>) = node_vec t" "sizenode (t\<lparr>t_flags := a\<rparr>) = sizenode t"
  "sizenode (t\<lparr>t_lastfree := b\<rparr>) = sizenode t" "sizenode (t\<lparr>t_array := c\<rparr>) = sizenode t"
  by (simp_all add: node_vec_def sizenode_def)

lemma getfreepos_some:
  "getfreepos v lf = (lf', Some n) \<Longrightarrow> lf' = int n \<and> n_key (v ! n) = TNil \<and> int n < lf \<and>
    (\<forall>i. int n < int i \<longrightarrow> int i < lf \<longrightarrow> n_key (v ! i) \<noteq> TNil)"
proof (induction v lf rule: getfreepos.induct)
  case (1 v lf)
  show ?case
  proof (cases "0 < lf \<and> \<not> ttisnil (n_key (v ! nat (lf - 1)))")
    case True
    then have *: "getfreepos v (lf - 1) = (lf', Some n)" using 1(2) getfreepos.simps [of v lf] by simp
    have IH: "lf' = int n \<and> n_key (v ! n) = TNil \<and> int n < lf - 1 \<and>
        (\<forall>i. int n < int i \<longrightarrow> int i < lf - 1 \<longrightarrow> n_key (v ! i) \<noteq> TNil)"
      by (rule 1(1) [OF _ _ *]) (use True in auto)
    have "n_key (v ! i) \<noteq> TNil" if "int n < int i" "int i < lf" for i
    proof (cases "int i < lf - 1")
      case False
      then have "i = nat (lf - 1)" using that by simp
      then show ?thesis using True by (simp add: ttisnil_def)
    qed (use IH that in blast)
    then show ?thesis using IH by auto
  next
    case False
    then show ?thesis using 1(2) getfreepos.simps [of v lf] by (auto simp: ttisnil_def split: if_splits)
  qed
qed

lemma getfreepos_none:
  "getfreepos v lf = (lf', None) \<Longrightarrow> lf' \<le> lf \<and> lf' < 0 \<and> (\<forall>i. int i < lf \<longrightarrow> n_key (v ! i) \<noteq> TNil)"
proof (induction v lf rule: getfreepos.induct)
  case (1 v lf)
  show ?case
  proof (cases "0 < lf")
    case True
    then have nn: "n_key (v ! nat (lf - 1)) \<noteq> TNil" and *: "getfreepos v (lf - 1) = (lf', None)"
      using 1(2) getfreepos.simps [of v lf] by (auto simp: ttisnil_def split: if_splits)
    have IH: "lf' \<le> lf - 1 \<and> lf' < 0 \<and> (\<forall>i. int i < lf - 1 \<longrightarrow> n_key (v ! i) \<noteq> TNil)"
      by (rule 1(1) [OF True _ *]) (use nn in \<open>simp add: ttisnil_def\<close>)
    have "n_key (v ! i) \<noteq> TNil" if "int i < lf" for i
      using IH nn that by (cases "int i < lf - 1") (auto dest: antisym simp: nat_eq_iff2 not_less)
    then show ?thesis using IH by auto
  next
    case False
    then show ?thesis using 1(2) getfreepos.simps [of v lf] by auto
  qed
qed

subsection \<open>What an insertion promises\<close>

definition nilkeys :: "node list \<Rightarrow> nat set" where
  "nilkeys v = {i. i < length v \<and> n_key (v ! i) = TNil}"

lemma finite_nilkeys [simp]: "finite (nilkeys v)"
  by (simp add: nilkeys_def)

lemma card_nilkeys:
  "length v' = length v \<Longrightarrow> (\<And>i. i < length v \<Longrightarrow> i \<noteq> x \<Longrightarrow> n_key (v ! i) = TNil \<Longrightarrow> n_key (v' ! i) = TNil) \<Longrightarrow>
   card (nilkeys v) \<le> Suc (card (nilkeys v'))"
proof -
  assume "length v' = length v" "\<And>i. i < length v \<Longrightarrow> i \<noteq> x \<Longrightarrow> n_key (v ! i) = TNil \<Longrightarrow> n_key (v' ! i) = TNil"
  then have "nilkeys v - {x} \<subseteq> nilkeys v'" by (auto simp: nilkeys_def)
  then have "card (nilkeys v - {x}) \<le> card (nilkeys v')" by (intro card_mono) simp_all
  moreover have "card (nilkeys v) \<le> Suc (card (nilkeys v - {x}))" by (cases "x \<in> nilkeys v") (simp_all add: card_Suc_Diff1)
  ultimately show ?thesis by simp
qed

definition ins_ok :: "'a luaconf_scheme \<Rightarrow> (addr \<Rightarrow> tstring) \<Rightarrow> ltable \<Rightarrow> tvalue \<Rightarrow> ltable \<Rightarrow> nat \<Rightarrow> bool" where
  "ins_ok C H t k t' i = (tab_ok C H t' \<and> t_array t' = t_array t \<and> t_metatable t' = t_metatable t \<and>
     t_node t' \<noteq> None \<and> length (node_vec t') = length (node_vec t) \<and> i < length (node_vec t') \<and>
     n_key (node_vec t' ! i) = k \<and> n_val (node_vec t' ! i) = TNil \<and>
     entries (node_vec t') = entries (node_vec t) \<and>
     card (nilkeys (node_vec t)) \<le> Suc (card (nilkeys (node_vec t'))))"

lemma tab_ok_lastfree:
  assumes "tab_ok C H t" "t_node t = None \<Longrightarrow> lf \<le> 0" "lf \<le> t_lastfree t"
    "\<And>i. i < length (node_vec t) \<Longrightarrow> t_node t \<noteq> None \<Longrightarrow> lf \<le> int i \<Longrightarrow> n_key (node_vec t ! i) \<noteq> TNil"
  shows "tab_ok C H (t\<lparr>t_lastfree := lf\<rparr>)"
  using assms by (auto simp: tab_ok_def node_vec_def split: option.splits)

text \<open>The part of the invariant that is not about the chains, for a rewritten vector.\<close>

lemma tab_ok_vec:
  assumes ok: "tab_ok C H t" and "t_node t \<noteq> None" "t_node t' = Some v'" "length v' = length (node_vec t)"
    and "t_array t' = t_array t" "t_lsizenode t' = t_lsizenode t"
    and "chain_ok C H v'" "t_lastfree t' \<le> t_lastfree t"
    and "\<And>i. i < length v' \<Longrightarrow> \<not> in_array C (sizearray t) (n_key (v' ! i))"
    and "\<And>i. i < length v' \<Longrightarrow> t_lastfree t' \<le> int i \<Longrightarrow> n_key (v' ! i) \<noteq> TNil"
  shows "tab_ok C H t'"
  using assms by (auto simp: tab_ok_def node_vec_def sizenode_def split: option.splits)

lemma tab_not_in_array: "tab_ok C H t \<Longrightarrow> i < length (node_vec t) \<Longrightarrow> \<not> in_array C (sizearray t) (n_key (node_vec t ! i))"
  by (simp add: tab_ok_def)

lemma tab_lastfree: "tab_ok C H t \<Longrightarrow> t_node t \<noteq> None \<Longrightarrow> i < length (node_vec t) \<Longrightarrow> t_lastfree t \<le> int i \<Longrightarrow>
    n_key (node_vec t ! i) \<noteq> TNil"
  by (auto simp: tab_ok_def node_vec_def split: option.splits)

lemma tab_lastfree_le: "tab_ok C H t \<Longrightarrow> t_lastfree t \<le> int (length (node_vec t))"
  by (simp add: tab_ok_def)

lemma node_some: "t_node t \<noteq> None \<Longrightarrow> t_node t = Some (node_vec t)"
  by (auto simp: node_vec_def)

subsection \<open>The three cases\<close>


lemma mp_less:
  assumes C: "conf_ok C" and ok: "tab_ok C H t" and k: "new_key H (node_vec t) k" and na: "\<not> in_array C (sizearray t) k" and mp: "mp = mainposition C (sizenode t) k" and some: "t_node t \<noteq> None"
  shows "mp < length (node_vec t)"
  using tab_main_less [OF C ok] mp by simp

lemma mp_len:
  assumes C: "conf_ok C" and ok: "tab_ok C H t" and k: "new_key H (node_vec t) k" and na: "\<not> in_array C (sizearray t) k" and mp: "mp = mainposition C (sizenode t) k" and some: "t_node t \<noteq> None"
  shows "mp = mainposition C (length (node_vec t)) k"
  using mp tab_len(1) [OF C ok] by simp

lemma ins_free:
  assumes C: "conf_ok C" and ok: "tab_ok C H t" and k: "new_key H (node_vec t) k" and na: "\<not> in_array C (sizearray t) k" and mp: "mp = mainposition C (sizenode t) k" and some: "t_node t \<noteq> None"
  assumes "n_val (node_vec t ! mp) = TNil"
  shows "ins_ok C H t k (upd_node (n_key_update (\<lambda>_. k)) mp t) mp" (is "ins_ok C H t k ?t mp")
proof -
  let ?v = "(node_vec t)[mp := (node_vec t ! mp)\<lparr>n_key := k\<rparr>]"
  have v: "node_vec ?t = ?v" using some by simp
  have nth: "?v ! i = (if i = mp then (node_vec t ! mp)\<lparr>n_key := k\<rparr> else node_vec t ! i)" for i
    using mp_less [OF C ok k na mp some] by (simp add: nth_list_update)
  have kn: "k \<noteq> TNil" using k by (auto simp: new_key_def)
  have "tab_ok C H ?t"
  proof (rule tab_ok_vec [OF ok some, where v' = ?v])
    show "t_node ?t = Some ?v" using node_some [of ?t] some v by simp
    show "chain_ok C H ?v" by (rule chain_ok_free [OF tab_chain [OF C ok] k mp_len [OF C ok k na mp some] mp_less [OF C ok k na mp some] assms(7)])
    show "\<not> in_array C (sizearray t) (n_key (?v ! i))" if "i < length ?v" for i
      using tab_not_in_array [OF ok, of i] that na by (simp add: nth)
    show "n_key (?v ! i) \<noteq> TNil" if "i < length ?v" "t_lastfree ?t \<le> int i" for i
      using tab_lastfree [OF ok some, of i] that kn by (simp add: nth)
  qed simp_all
  moreover have "entries ?v = entries (node_vec t)"
  proof (rule set_eqI, rule prod.induct)
    fix a b
    show "(a, b) \<in> entries ?v \<longleftrightarrow> (a, b) \<in> entries (node_vec t)"
      unfolding entries_nth by (rule conj_cong [OF refl]) (use assms(7) in \<open>auto simp: nth split: if_splits\<close>)
  qed
  moreover have "card (nilkeys (node_vec t)) \<le> Suc (card (nilkeys ?v))"
    by (rule card_nilkeys [where x = mp]) (simp_all add: nth)
  ultimately show ?thesis using some mp_less [OF C ok k na mp some] assms(7) by (simp add: ins_ok_def nth)
qed

lemma mp_proper:
  assumes C: "conf_ok C" and ok: "tab_ok C H t" and k: "new_key H (node_vec t) k" and na: "\<not> in_array C (sizearray t) k" and mp: "mp = mainposition C (sizenode t) k" and some: "t_node t \<noteq> None"
  shows "n_val (node_vec t ! mp) \<noteq> TNil \<Longrightarrow> proper (n_key (node_vec t ! mp))"
  using ok_node [OF tab_chain [OF C ok] mp_less [OF C ok k na mp some]] by blast

lemma ins_chain:
  assumes C: "conf_ok C" and ok: "tab_ok C H t" and k: "new_key H (node_vec t) k" and na: "\<not> in_array C (sizearray t) k" and mp: "mp = mainposition C (sizenode t) k" and some: "t_node t \<noteq> None"
  assumes val: "n_val (node_vec t ! mp) \<noteq> TNil" and free: "getfreepos (node_vec t) (t_lastfree t) = (lf, Some n)"
    and host: "mainposition C (sizenode t) (n_key (node_vec t ! mp)) = mp"
    and t': "t' = upd_node (n_key_update (\<lambda>_. k)) n (upd_node (n_next_update (\<lambda>_. Some n)) mp
       (upd_node (n_next_update (\<lambda>_. n_next (node_vec t ! mp))) n (t\<lparr>t_lastfree := lf\<rparr>)))"
  shows "ins_ok C H t k t' n"
proof -
  note f = getfreepos_some [OF free]
  have n: "n < length (node_vec t)" "n_key (node_vec t ! n) = TNil"
    using f tab_lastfree_le [OF ok] by auto
  have ne: "n \<noteq> mp" using mp_proper [OF C ok k na mp some val] n(2) by auto
  have nv: "n_val (node_vec t ! n) = TNil" using ok_node [OF tab_chain [OF C ok] n(1)] n(2) by auto
  let ?v = "node_vec t'"
  have some': "t_node t' \<noteq> None" using some by (simp add: t')
  have len: "length ?v = length (node_vec t)" using some by (simp add: t')
  have at: "?v ! n = \<lparr>n_val = n_val (node_vec t ! n), n_key = k, n_next = n_next (node_vec t ! mp)\<rparr>"
    "?v ! mp = (node_vec t ! mp)\<lparr>n_next := Some n\<rparr>" "\<And>i. i \<notin> {n, mp} \<Longrightarrow> ?v ! i = node_vec t ! i"
    using some n(1) mp_less [OF C ok k na mp some] ne by (auto simp: t' nth_list_update)
  have key: "n_key (?v ! i) = (if i = n then k else n_key (node_vec t ! i))"
    and vals: "n_val (?v ! i) = n_val (node_vec t ! i)" for i
    using at ne by (cases "i \<in> {n, mp}"; auto)+
  have kn: "k \<noteq> TNil" using k by (auto simp: new_key_def)
  have "tab_ok C H t'"
  proof (rule tab_ok_vec [OF ok some, where v' = ?v])
    show "t_node t' = Some ?v" by (rule node_some [OF some'])
    show "chain_ok C H ?v"
      by (rule chain_ok_chain [OF tab_chain [OF C ok] k mp_len [OF C ok k na mp some] mp_less [OF C ok k na mp some] mp_proper [OF C ok k na mp some val] _ n len at])
        (use host tab_len(1) [OF C ok] in simp)
    show "t_lastfree t' \<le> t_lastfree t" using f by (simp add: t')
    show "\<not> in_array C (sizearray t) (n_key (?v ! i))" if "i < length ?v" for i
      using tab_not_in_array [OF ok, of i] that na len by (simp add: key)
    show "n_key (?v ! i) \<noteq> TNil" if "i < length ?v" "t_lastfree t' \<le> int i" for i
    proof (cases "i = n")
      case False
      then have "n_key (node_vec t ! i) \<noteq> TNil"
        using f that tab_lastfree [OF ok some, of i] len by (cases "int i < t_lastfree t") (auto simp: t')
      then show ?thesis using False by (simp add: key)
    qed (simp add: key kn)
  qed (simp_all add: t' some)
  moreover have "entries ?v = entries (node_vec t)"
  proof (rule set_eqI, rule prod.induct)
    fix a b
    show "(a, b) \<in> entries ?v \<longleftrightarrow> (a, b) \<in> entries (node_vec t)"
      unfolding entries_nth by (rule conj_cong [OF refl]) (use nv in \<open>auto simp: key vals len split: if_splits\<close>)
  qed
  moreover have "card (nilkeys (node_vec t)) \<le> Suc (card (nilkeys ?v))"
    by (rule card_nilkeys [where x = n]) (simp_all add: key len)
  moreover have "t_array t' = t_array t" "t_metatable t' = t_metatable t" by (simp_all add: t')
  ultimately show ?thesis using some' n(1) nv by (simp add: ins_ok_def len key vals)
qed

lemma ins_move:
  assumes C: "conf_ok C" and ok: "tab_ok C H t" and k: "new_key H (node_vec t) k" and na: "\<not> in_array C (sizearray t) k" and mp: "mp = mainposition C (sizenode t) k" and some: "t_node t \<noteq> None"
  assumes val: "n_val (node_vec t ! mp) \<noteq> TNil" and free: "getfreepos (node_vec t) (t_lastfree t) = (lf, Some n)"
    and guest: "othern = mainposition C (sizenode t) (n_key (node_vec t ! mp))" "othern \<noteq> mp"
  shows "\<exists>t'. move_colliding othern mp n (t\<lparr>t_lastfree := lf\<rparr>) = Inr t' \<and>
    ins_ok C H t k (upd_node (n_key_update (\<lambda>_. k)) mp t') mp"
proof -
  note f = getfreepos_some [OF free] and ch = tab_chain [OF C ok]
  have n: "n < length (node_vec t)" "n_key (node_vec t ! n) = TNil"
    using f tab_lastfree_le [OF ok] by auto
  have ne: "n \<noteq> mp" using mp_proper [OF C ok k na mp some val] n(2) by auto
  have nv: "n_val (node_vec t ! n) = TNil" using ok_node [OF ch n(1)] n(2) by auto
  have main: "reach (node_vec t) othern mp"
    using ok_main [OF ch mp_less [OF C ok k na mp some] mp_proper [OF C ok k na mp some val] refl] guest(1) tab_len(1) [OF C ok] by simp
  have oth: "othern < length (node_vec t)" using guest(1) tab_main_less [OF C ok] by simp
  obtain p0 where p0: "reach (node_vec t) othern p0" "edge (node_vec t) p0 mp"
    using ok_reach_back [OF ch main] guest(2) by blast
  obtain r where r: "find_node (\<lambda>x. n_next x = Some mp) t othern = Inr r"
    "case r of Some j \<Rightarrow> reach (node_vec t) othern j \<and> n_next (node_vec t ! j) = Some mp
     | None \<Rightarrow> \<forall>j. reach (node_vec t) othern j \<longrightarrow> n_next (node_vec t ! j) \<noteq> Some mp"
    using find_reach [OF ch oth, of "\<lambda>x. n_next x = Some mp"] unfolding find_node_def by blast
  obtain p where rp: "r = Some p" and p: "edge (node_vec t) p mp"
    using r(2) p0 ok_reach_less [OF ch _ oth] by (auto simp: edge_def split: option.splits)
  have pl: "p < length (node_vec t)" using p by (simp add: edge_def)
  have pne: "p \<noteq> n" "p \<noteq> mp" using p ok_no_edge_nil [OF ch n(2)] ok_irrefl [OF ch] by auto
  let ?t1 = "upd_node (n_next_update (\<lambda>_. Some n)) p (t\<lparr>t_lastfree := lf\<rparr>)"
  let ?t2 = "upd_node (\<lambda>_. node_vec ?t1 ! mp) n ?t1"
  let ?t3 = "upd_node (\<lambda>x. x\<lparr>n_next := None, n_val := TNil\<rparr>) mp ?t2"
  have mv: "move_colliding othern mp n (t\<lparr>t_lastfree := lf\<rparr>) = Inr ?t3"
    using r(1) rp by (simp add: move_colliding_def find_node_def Let_def)
  define t' where "t' = upd_node (n_key_update (\<lambda>_. k)) mp ?t3"
  let ?v = "node_vec t'"
  have some': "t_node t' \<noteq> None" using some by (simp add: t'_def)
  have len: "length ?v = length (node_vec t)" using some by (simp add: t'_def)
  have at: "?v ! n = node_vec t ! mp" "?v ! mp = \<lparr>n_val = TNil, n_key = k, n_next = None\<rparr>"
      "?v ! p = (node_vec t ! p)\<lparr>n_next := Some n\<rparr>" "\<And>i. i \<notin> {n, mp, p} \<Longrightarrow> ?v ! i = node_vec t ! i"
    using some n(1) mp_less [OF C ok k na mp some] pl ne pne by (auto simp: t'_def nth_list_update)
  let ?s = "\<lambda>i. if i = n then mp else i"
  have key: "n_key (?v ! i) = (if i = mp then k else n_key (node_vec t ! ?s i))"
    and vals: "n_val (?v ! i) = (if i = mp then TNil else n_val (node_vec t ! ?s i))" for i
    using at ne pne by (cases "i \<in> {n, mp, p}"; auto)+
  have kn: "k \<noteq> TNil" using k by (auto simp: new_key_def)
  have "tab_ok C H t'"
  proof (rule tab_ok_vec [OF ok some, where v' = ?v])
    show "t_node t' = Some ?v" by (rule node_some [OF some'])
    show "chain_ok C H ?v"
      by (rule chain_ok_move [OF ch k mp_len [OF C ok k na mp some] mp_less [OF C ok k na mp some] mp_proper [OF C ok k na mp some val] _ n p len at])
        (use guest tab_len(1) [OF C ok] in simp)
    show "t_lastfree t' \<le> t_lastfree t" using f by (simp add: t'_def)
    show "\<not> in_array C (sizearray t) (n_key (?v ! i))" if "i < length ?v" for i
      using tab_not_in_array [OF ok, of "?s i"] that na len mp_less [OF C ok k na mp some] by (simp add: key)
    show "n_key (?v ! i) \<noteq> TNil" if "i < length ?v" "t_lastfree t' \<le> int i" for i
    proof (cases "i = n \<or> i = mp")
      case False
      then have "n_key (node_vec t ! i) \<noteq> TNil"
        using f that tab_lastfree [OF ok some, of i] len by (cases "int i < t_lastfree t") (auto simp: t'_def)
      then show ?thesis using False by (simp add: key)
    qed (use kn mp_proper [OF C ok k na mp some val] in \<open>auto simp: key\<close>)
  qed (simp_all add: t'_def some)
  moreover have "entries ?v = entries (node_vec t)"
  proof (rule set_eqI, rule prod.induct)
    fix a b
    have "(\<exists>i < length ?v. n_key (?v ! i) = a \<and> n_val (?v ! i) = b) \<longleftrightarrow>
        (\<exists>i < length (node_vec t). n_key (node_vec t ! i) = a \<and> n_val (node_vec t ! i) = b)" if b: "b \<noteq> TNil"
    proof
      assume "\<exists>i < length ?v. n_key (?v ! i) = a \<and> n_val (?v ! i) = b"
      then obtain i where i: "i < length ?v" "n_key (?v ! i) = a" "n_val (?v ! i) = b" by blast
      moreover have "i \<noteq> mp" using i(3) b vals [of i] by auto
      ultimately have "n_key (node_vec t ! ?s i) = a" "n_val (node_vec t ! ?s i) = b" using key [of i] vals [of i] by simp_all
      with i(1) show "\<exists>i < length (node_vec t). n_key (node_vec t ! i) = a \<and> n_val (node_vec t ! i) = b"
        using mp_less [OF C ok k na mp some] len by (intro exI [of _ "?s i"]) simp
    next
      assume "\<exists>i < length (node_vec t). n_key (node_vec t ! i) = a \<and> n_val (node_vec t ! i) = b"
      then obtain i where i: "i < length (node_vec t)" "n_key (node_vec t ! i) = a" "n_val (node_vec t ! i) = b" by blast
      then have "i \<noteq> n" using nv b by auto
      then show "\<exists>i < length ?v. n_key (?v ! i) = a \<and> n_val (?v ! i) = b"
        using i n(1) ne len by (intro exI [of _ "if i = mp then n else i"]) (auto simp: key vals)
    qed
    then show "(a, b) \<in> entries ?v \<longleftrightarrow> (a, b) \<in> entries (node_vec t)" unfolding entries_nth by blast
  qed
  moreover have "card (nilkeys (node_vec t)) \<le> Suc (card (nilkeys ?v))"
    using mp_proper [OF C ok k na mp some val] proper_nonnil by (intro card_nilkeys [where x = n]) (auto simp: key len)
  moreover have "t_array t' = t_array t" "t_metatable t' = t_metatable t" by (simp_all add: t'_def)
  ultimately have "ins_ok C H t k t' mp" using some' mp_less [OF C ok k na mp some] by (simp add: ins_ok_def len key vals)
  then show ?thesis using mv t'_def by blast
qed


lemma newkey_body_cases:
  assumes C: "conf_ok C" and ok: "tab_ok C H t" and k: "new_key H (node_vec t) k" and na: "\<not> in_array C (sizearray t) k"
  shows "(\<exists>t' i. newkey_body C g t k = Inr (t', NodeSlot i) \<and> ins_ok C H t k t' i) \<or>
    (t_node t = None \<or> nilkeys (node_vec t) = {}) \<and>
    (\<exists>lf. newkey_body C g t k = g (t\<lparr>t_lastfree := lf\<rparr>) k \<and> tab_ok C H (t\<lparr>t_lastfree := lf\<rparr>))"
proof -
  define mp where "mp = mainposition C (sizenode t) k"
  obtain lf fp where g: "getfreepos (node_vec t) (t_lastfree t) = (lf, fp)" by fastforce
  show ?thesis
  proof (cases "ttisnil (n_val (node_vec t ! mp)) \<and> t_node t \<noteq> None")
    case True
    then show ?thesis using ins_free [OF C ok k na mp_def]
      by (auto simp: newkey_body_def Let_def mp_def [symmetric] ttisnil_def)
  next
    case False
    note occ = False
    note body = newkey_body_def [of C g t k, unfolded Let_def, folded mp_def, unfolded if_not_P [OF occ] g]
    show ?thesis
    proof (cases fp)
      case None
      note none = getfreepos_none [OF g [unfolded None]]
      have "tab_ok C H (t\<lparr>t_lastfree := lf\<rparr>)"
        using none tab_lastfree [OF ok] by (intro tab_ok_lastfree [OF ok]) (auto, metis not_less)
      moreover have "t_node t = None \<or> nilkeys (node_vec t) = {}"
        using none tab_lastfree [OF ok] unfolding nilkeys_def by (metis (mono_tags, lifting) Collect_empty_eq not_less)
      moreover have "newkey_body C g t k = g (t\<lparr>t_lastfree := lf\<rparr>) k"
        unfolding body using None by simp
      ultimately show ?thesis by blast
    next
      case (Some n)
      have some: "t_node t \<noteq> None"
      proof
        assume "t_node t = None"
        then have "t_lastfree t \<le> 0" using ok by (simp add: tab_ok_def)
        then show False using getfreepos_some [OF g [unfolded Some]] by simp
      qed
      then have val: "n_val (node_vec t ! mp) \<noteq> TNil" using occ by (simp add: ttisnil_def)
      let ?o = "mainposition C (sizenode t) (n_key (node_vec t ! mp))"
      show ?thesis
      proof (cases "?o = mp")
        case True
        have "\<exists>t'. newkey_body C g t k = Inr (t', NodeSlot n) \<and> ins_ok C H t k t' n"
          unfolding body
          using Some True ins_chain [OF C ok k na mp_def some val g [unfolded Some] True refl]
          by simp
        then show ?thesis by blast
      next
        case False
        from ins_move [OF C ok k na mp_def some val g [unfolded Some] refl False] obtain t' where
          "move_colliding ?o mp n (t\<lparr>t_lastfree := lf\<rparr>) = Inr t'"
          "ins_ok C H t k (upd_node (n_key_update (\<lambda>_. k)) mp t') mp" by blast
        then have "\<exists>t'. newkey_body C g t k = Inr (t', NodeSlot mp) \<and> ins_ok C H t k t' mp"
          unfolding body
          using Some False by simp
        then show ?thesis by blast
      qed
    qed
  qed
qed

end
