(* ===== verification/Lua_Table_Set.thy ===== *)
theory Lua_Table_Set
  imports Lua_Table_Ins
begin

text \<open>
  Storing into a table that has room, and \<open>resize\<close>: re-inserting every entry into the new vector
  keeps the map, and needs no nested resize when the vector has a node for each of them.
\<close>

subsection \<open>Writing through a slot\<close>

lemma chain_ok_val:
  assumes ok: "chain_ok C H v" and i: "i < length v" "proper (n_key (v ! i))"
  shows "chain_ok C H (v[i := (v ! i)\<lparr>n_val := x\<rparr>])" (is "chain_ok C H ?v")
proof -
  have at: "n_key (?v ! j) = n_key (v ! j)" "n_next (?v ! j) = n_next (v ! j)"
      "n_val (?v ! j) = (if j = i then x else n_val (v ! j))" for j
    using i(1) by (simp_all add: nth_list_update)
  have e: "edge ?v = edge v" by (intro ext) (simp add: edge_def at)
  obtain r :: "nat \<Rightarrow> nat" where r: "\<forall>i j. edge v i j \<longrightarrow> r i < r j" using ok_rank [OF ok] by blast
  show ?thesis
  proof (rule chain_okI [where r = r], unfold e at length_list_update)
    show "j < length v \<and> n_key (v ! i) \<noteq> TNil \<and> n_key (v ! j) \<noteq> TNil" if "edge v i j" for i j
      using ok_edge [OF ok that] by blast
    show "i = i'" if "edge v i j" "edge v i' j" for i i' j by (rule ok_inj [OF ok that])
    show "r i < r j" if "edge v i j" for i j using r that by blast
    show "reach v m i \<and> (proper (n_key (v ! m)) \<longrightarrow> mainposition C (length v) (n_key (v ! m)) = m)"
      if "i < length v" "proper (n_key (v ! i))" "m = mainposition C (length v) (n_key (v ! i))" for i m
      by (rule ok_main [OF ok that])
    show "i = j" if "i < length v" "j < length v" "proper (n_key (v ! i))" "n_key (v ! i) = n_key (v ! j)" for i j
      by (rule ok_distinct [OF ok that])
    show "in_heap H (n_key (v ! j)) \<and> n_key (v ! j) \<noteq> TNum NaN \<and>
        ((if j = i then x else n_val (v ! j)) \<noteq> TNil \<longrightarrow> proper (n_key (v ! j)))" if "j < length v" for j
      using ok_node [OF ok that] i(2) by simp
    show "gcvalue (n_key (v ! j)) \<noteq> Some a"
      if "j < length v" "proper (n_key (v ! j))" "m = mainposition C (length v) (n_key (v ! j))"
        "reach v m k" "reach v k j" "n_key (v ! k) = TDead a" for k j m a
      by (rule ok_dead [OF ok that])
  qed
qed

lemma set_slot_fields [simp]:
  "sizearray (set_slot s v t) = sizearray t" "t_flags (set_slot s v t) = t_flags t"
  "t_metatable (set_slot s v t) = t_metatable t" "t_lsizenode (set_slot s v t) = t_lsizenode t"
  "t_lastfree (set_slot s v t) = t_lastfree t" "sizenode (set_slot s v t) = sizenode t"
  "t_node (set_slot s v t) = None \<longleftrightarrow> t_node t = None"
  by (cases s; simp add: sizenode_def)+

definition room :: "ltable \<Rightarrow> nat" where
  "room t = (if t_node t = None then 0 else card (nilkeys (node_vec t)))"

lemma hash_get_upd:
  assumes ok: "chain_ok C H v" and i: "i < length v" "n_key (v ! i) = k" "proper k" and k': "proper k'"
  shows "hash_get (v[i := (v ! i)\<lparr>n_val := x\<rparr>]) k' = (if k' = k then x else hash_get v k')"
proof -
  let ?v = "v[i := (v ! i)\<lparr>n_val := x\<rparr>]"
  have ok': "chain_ok C H ?v" using chain_ok_val [OF ok i(1)] i(2,3) by simp
  show ?thesis
  proof (cases "k' = k")
    case True
    then show ?thesis using hash_get_at [OF ok', of i k] i by simp
  next
    case False
    have "hash_get ?v k' = hash_get v k'"
    proof (rule hash_get_eqI [OF ok' ok k'])
      fix y
      have "(\<exists>j < length ?v. n_key (?v ! j) = k' \<and> n_val (?v ! j) = y) \<longleftrightarrow>
          (\<exists>j < length v. n_key (v ! j) = k' \<and> n_val (v ! j) = y)"
        by (rule iff_exI) (use i(1,2) False in \<open>auto simp: nth_list_update\<close>)
      then show "(k', y) \<in> entries ?v \<longleftrightarrow> (k', y) \<in> entries v" unfolding entries_nth by blast
    qed
    then show ?thesis using False by simp
  qed
qed

lemma set_slot_ok:
  assumes C: "conf_ok C" and ok: "tab_ok C H t" and k: "proper k" and s: "slot_for C t k (Some s)"
  shows "tab_ok C H (set_slot s v t)" "room (set_slot s v t) = room t"
    "proper k' \<Longrightarrow> lookup C (set_slot s v t) k' = (if k' = k then v else lookup C t k')"
proof -
  have "tab_ok C H (set_slot s v t) \<and> room (set_slot s v t) = room t \<and>
    (proper k' \<longrightarrow> lookup C (set_slot s v t) k' = (if k' = k then v else lookup C t k'))"
  proof (cases s)
    case (ArrSlot i)
    then have ia: "in_array C (sizearray t) k" and i: "i = nat (arrayindex C k - 1)" using s by (auto simp: slot_for_def)
    have il: "i < sizearray t" using ia i by (auto simp: in_array_def)
    have nv: "node_vec (set_slot s v t) = node_vec t" using ArrSlot by simp
    have "tab_ok C H (set_slot s v t)" using ok unfolding tab_ok_def nv by (auto simp: ArrSlot split: option.splits)
    moreover have "room (set_slot s v t) = room t" by (simp add: room_def nv)
    moreover have "lookup C (set_slot s v t) k' = (if k' = k then v else lookup C t k')"
    proof (cases "in_array C (sizearray t) k'")
      case True
      have "arrayindex C k' = arrayindex C k \<longleftrightarrow> k' = k"
        using arrayindex_pos [OF C, of k] arrayindex_pos [OF C, of k'] ia True by (metis in_array_def)
      then have "nat (arrayindex C k' - 1) = i \<longleftrightarrow> k' = k"
        using ia i True by (auto simp: in_array_def)
      then show ?thesis using True il by (auto simp: lookup_def ArrSlot nth_list_update)
    next
      case False
      then show ?thesis using ia nv by (auto simp: lookup_def)
    qed
    ultimately show ?thesis by simp
  next
    case (NodeSlot i)
    then have ni: "\<not> in_array C (sizearray t) k" and i: "i < length (node_vec t)" "n_key (node_vec t ! i) = k"
      using s by (auto simp: slot_for_def)
    have some: "t_node t \<noteq> None"
    proof
      assume "t_node t = None"
      then have "node_vec t = [dummynode]" by (simp add: node_vec_def)
      then show False using i k by (simp add: dummynode_def)
    qed
    let ?v = "(node_vec t)[i := (node_vec t ! i)\<lparr>n_val := v\<rparr>]"
    have nv: "node_vec (set_slot s v t) = ?v" using NodeSlot some by simp
    have nk: "n_key (?v ! j) = n_key (node_vec t ! j)" for j using i(1) by (simp add: nth_list_update)
    have ch: "chain_ok C H ?v" using chain_ok_val [OF tab_chain [OF C ok] i(1)] i(2) k by simp
    have "tab_ok C H (set_slot s v t)"
    proof (rule tab_ok_vec [OF ok some, where v' = ?v])
      show "t_node (set_slot s v t) = Some ?v" using node_some [of "set_slot s v t"] some nv by simp
      show "\<not> in_array C (sizearray t) (n_key (?v ! j))" if "j < length ?v" for j
        using tab_not_in_array [OF ok, of j] that by (simp only: nk length_list_update not_False_eq_True)
      show "n_key (?v ! j) \<noteq> TNil" if "j < length ?v" "t_lastfree (set_slot s v t) \<le> int j" for j
        using tab_lastfree [OF ok some, of j] that by (simp only: nk length_list_update set_slot_fields not_False_eq_True)
    qed (use ch NodeSlot in simp_all)
    moreover have "room (set_slot s v t) = room t"
      using some by (simp only: room_def nilkeys_def nv nk length_list_update set_slot_fields)
    moreover have "proper k' \<longrightarrow> lookup C (set_slot s v t) k' = (if k' = k then v else lookup C t k')"
      using hash_get_upd [OF tab_chain [OF C ok] i k, of k' v] ni NodeSlot nv by (auto simp: lookup_def)
    ultimately show ?thesis by simp
  qed
  then show "tab_ok C H (set_slot s v t)" "room (set_slot s v t) = room t"
    "proper k' \<Longrightarrow> lookup C (set_slot s v t) k' = (if k' = k then v else lookup C t k')" by blast+
qed

subsection \<open>Finding or making the slot of a key\<close>

definition same_map :: "'a luaconf_scheme \<Rightarrow> ltable \<Rightarrow> ltable \<Rightarrow> bool" where
  "same_map C t t' = (\<forall>k. proper k \<longrightarrow> lookup C t' k = lookup C t k)"

lemma lookup_entries:
  "conf_ok C \<Longrightarrow> tab_ok C H t \<Longrightarrow> tab_ok C H t' \<Longrightarrow> t_array t' = t_array t \<Longrightarrow>
   entries (node_vec t') = entries (node_vec t) \<Longrightarrow> same_map C t t'"
proof -
  assume a: "conf_ok C" "tab_ok C H t" "tab_ok C H t'" "t_array t' = t_array t" "entries (node_vec t') = entries (node_vec t)"
  have "hash_get (node_vec t') k = hash_get (node_vec t) k" if "proper k" for k
    by (rule hash_get_eqI [OF tab_chain [OF a(1,3)] tab_chain [OF a(1,2)] that]) (simp add: a(5))
  then show ?thesis by (simp add: same_map_def lookup_def a(4))
qed

text \<open>\<open>got C H t k t' s\<close>: \<open>s\<close> is the slot of \<open>k\<close> in \<open>t'\<close>, which stands for the same map as \<open>t\<close> and
  has at most one free node less, none less when the key lives in the array.\<close>

definition got :: "'a luaconf_scheme \<Rightarrow> (addr \<Rightarrow> tstring) \<Rightarrow> ltable \<Rightarrow> tvalue \<Rightarrow> ltable \<Rightarrow> slot \<Rightarrow> bool" where
  "got C H t k t' s = (tab_ok C H t' \<and> slot_for C t' k (Some s) \<and> same_map C t t' \<and>
     sizearray t' = sizearray t \<and> t_metatable t' = t_metatable t \<and>
     room t \<le> room t' + (if in_array C (sizearray t) k then 0 else 1))"

lemma tab_ok_flags: "tab_ok C H t \<Longrightarrow> tab_ok C H (t\<lparr>t_flags := f\<rparr>)"
  by (auto simp: tab_ok_def split: option.splits)

lemma lookup_fields [simp]:
  "lookup C (t\<lparr>t_flags := f\<rparr>) = lookup C t" "lookup C (t\<lparr>t_lastfree := l\<rparr>) = lookup C t"
  "slot_for C (t\<lparr>t_flags := f\<rparr>) = slot_for C t" "room (t\<lparr>t_flags := f\<rparr>) = room t"
  by (intro ext; simp add: lookup_def slot_for_def split: option.splits slot.splits)+ (simp add: room_def)

lemma ins_ok_got:
  assumes C: "conf_ok C" and ok: "tab_ok C H t" and na: "\<not> in_array C (sizearray t) k" and i: "ins_ok C H t k t' i"
  shows "got C H t k t' (NodeSlot i)"
proof -
  have "same_map C t t'" using lookup_entries [OF C ok] i by (simp add: ins_ok_def)
  moreover have "room t \<le> room t' + 1" using i by (auto simp: room_def ins_ok_def)
  ultimately show ?thesis using i na by (auto simp: got_def ins_ok_def slot_for_def)
qed

lemma newkey_room:
  assumes C: "conf_ok C" and ok: "tab_ok C H t" and k: "new_key H (node_vec t) k"
    and na: "\<not> in_array C (sizearray t) k" and r: "0 < room t"
  shows "\<exists>t' s. newkey C d t k = Inr (t', s) \<and> got C H t k t' s"
proof -
  have r': "t_node t \<noteq> None" "nilkeys (node_vec t) \<noteq> {}" using r by (auto simp: room_def split: if_splits)
  have "\<exists>t' i. newkey_body C g t k = Inr (t', NodeSlot i) \<and> ins_ok C H t k t' i" for g
    using newkey_body_cases [OF C ok k na, of g] r' by blast
  then show ?thesis using ins_ok_got [OF C ok na] by (cases d) fastforce+
qed

lemma slot_none_new:
  "proper k \<Longrightarrow> in_heap H k \<Longrightarrow> slot_for C t k None \<Longrightarrow> new_key H (node_vec t) k \<and> \<not> in_array C (sizearray t) k"
  by (simp add: slot_for_def new_key_def)

lemma got_found:
  "tab_ok C H t \<Longrightarrow> slot_for C t k (Some s) \<Longrightarrow> got C H t k t s"
  by (simp add: got_def same_map_def)

lemma set_by_room:
  assumes C: "conf_ok C" and ok: "tab_ok C H t" and k: "proper k" "in_heap H k"
    and r: "0 < room t \<or> in_array C (sizearray t) k"
  shows "\<exists>t' s. set_by C (newkey C d) t k = Inr (t', s) \<and> got C H t k t' s"
proof -
  obtain p where p: "luaH_get C t k = Inr p" "slot_for C t k p" using get_spec [OF C ok k] by blast
  let ?t = "t\<lparr>t_flags := 0\<rparr>"
  have ok': "tab_ok C H ?t" by (rule tab_ok_flags [OF ok])
  have "\<exists>t' s. set_by C (newkey C d) t k = Inr (t', s) \<and> got C H ?t k t' s"
  proof (cases p)
    case None
    then have n: "new_key H (node_vec ?t) k" "\<not> in_array C (sizearray ?t) k"
      using slot_none_new [OF k] p(2) by auto
    have "0 < room ?t" using r n(2) by simp
    from newkey_room [OF C ok' n this] show ?thesis
      using None p k(1) by (auto simp: set_by_def proper_def ttisnil_def)
  next
    case (Some s)
    then show ?thesis using p got_found [OF ok', of k s] by (auto simp: set_by_def)
  qed
  then show ?thesis by (auto simp: got_def same_map_def)
qed

lemma setnum_by_room:
  assumes C: "conf_ok C" and ok: "tab_ok C H t" and k: "is_int k" and r: "0 < room t \<or> in_array C (sizearray t) (TNum (cast_num k))"
  shows "\<exists>t' s. setnum_by C (newkey C d) t k = Inr (t', s) \<and> got C H t (TNum (cast_num k)) t' s"
proof -
  have pk: "proper (TNum (cast_num k))" "in_heap H (TNum (cast_num k))" by (simp_all add: proper_def in_heap_def)
  obtain p where p: "luaH_getnum C t k = Inr p" "slot_for C t (TNum (cast_num k)) p" using getnum_spec [OF C ok k] by blast
  show ?thesis
  proof (cases p)
    case None
    then have n: "new_key H (node_vec t) (TNum (cast_num k))" "\<not> in_array C (sizearray t) (TNum (cast_num k))"
      using slot_none_new [OF pk] p(2) by auto
    then have "0 < room t" using r by simp
    from newkey_room [OF C ok n this] show ?thesis using None p by (simp add: setnum_by_def)
  next
    case (Some s)
    then show ?thesis using p got_found [OF ok] by (auto simp: setnum_by_def)
  qed
qed

lemma got_store:
  assumes C: "conf_ok C" and k: "proper k" and g: "got C H t k t' s"
  shows "tab_ok C H (set_slot s v t')" "sizearray (set_slot s v t') = sizearray t"
    "room t \<le> room (set_slot s v t') + (if in_array C (sizearray t) k then 0 else 1)"
    "proper k' \<Longrightarrow> lookup C (set_slot s v t') k' = (if k' = k then v else lookup C t k')"
    "t_metatable (set_slot s v t') = t_metatable t"
proof -
  have o: "tab_ok C H t'" "slot_for C t' k (Some s)" using g by (simp_all add: got_def)
  note st = set_slot_ok [OF C o(1) k o(2)]
  show "tab_ok C H (set_slot s v t')" by (rule st(1))
  show "proper k' \<Longrightarrow> lookup C (set_slot s v t') k' = (if k' = k then v else lookup C t k')"
    using st(3) [where v = v and k' = k'] g by (simp add: got_def same_map_def)
  show "sizearray (set_slot s v t') = sizearray t" "t_metatable (set_slot s v t') = t_metatable t"
    "room t \<le> room (set_slot s v t') + (if in_array C (sizearray t) k then 0 else 1)"
    using st(2) g by (simp_all add: got_def)
qed

end
