(* ===== verification/Lua_Table_Resize.thy ===== *)
theory Lua_Table_Resize
  imports Lua_Table_Set
begin

text \<open>
  \<open>resize\<close>: the re-insertion loops, given a vector with a node for every entry they carry over,
  keep the map and never ask for another resize.
\<close>

subsection \<open>The fresh vector\<close>

lemma chain_ok_fresh: "chain_ok C H (replicate n dummynode)"
  by (rule chain_okI [where r = id]) (auto simp: edge_def dummynode_def in_heap_def)

lemma hash_get_fresh: "hash_get (replicate n dummynode) k = TNil"
  by (cases "find (\<lambda>x. n_key x = k) (replicate n dummynode)")
    (auto simp: hash_get_def dummynode_def dest: find_some)

lemma setnodevector_ok:
  assumes "sizearray t \<le> MAXASIZE" "nh < 2 ^ 32"
  shows "setnodevector nh t = Inl (LuaErr ''table overflow'') \<and> MAXASIZE < nh \<or>
    (\<exists>t'. setnodevector nh t = Inr t' \<and> tab_ok C H t' \<and> t_array t' = t_array t \<and> t_metatable t' = t_metatable t \<and>
      nh \<le> room t' \<and> (\<forall>k. hash_get (node_vec t') k = TNil))"
proof (cases "nh = 0")
  case True
  have "node_vec (t\<lparr>t_node := None, t_lsizenode := 0, t_lastfree := 0\<rparr>) = replicate 1 dummynode"
    by (simp add: node_vec_def)
  then have "tab_ok C H (t\<lparr>t_node := None, t_lsizenode := 0, t_lastfree := 0\<rparr>) \<and>
    (\<forall>k. hash_get (node_vec (t\<lparr>t_node := None, t_lsizenode := 0, t_lastfree := 0\<rparr>)) k = TNil)"
    using assms(1) chain_ok_fresh [of C H 1] hash_get_fresh [of 1]
    by (auto simp: tab_ok_def sizenode_def dummynode_def)
  then show ?thesis using True by (simp add: setnodevector_def)
next
  case False
  let ?l = "nat (ceillog2 (of_nat nh))"
  show ?thesis
  proof (cases "MAXBITS < ?l")
    case l: False
    define t' where "t' = t\<lparr>t_node := Some (replicate (2 ^ ?l) dummynode), t_lsizenode := ?l, t_lastfree := 2 ^ ?l\<rparr>"
    have nv: "node_vec t' = replicate (2 ^ ?l) dummynode" by (simp add: t'_def node_vec_def)
    have u: "unat (of_nat nh :: u32) = nh" using assms(2) by (simp add: unat_of_nat take_bit_nat_eq_self)
    then have "0 < (of_nat nh :: u32)" using False by (simp add: word_less_nat_alt)
    then have "nh \<le> 2 ^ ?l" using ceillog2_bounds u by fastforce
    moreover have "nilkeys (replicate (2 ^ ?l) dummynode) = {..< 2 ^ ?l}" by (auto simp: nilkeys_def dummynode_def)
    then have "room t' = 2 ^ ?l" unfolding room_def nv by (simp add: t'_def)
    moreover have "tab_ok C H t'" unfolding tab_ok_def nv
      using l assms(1) chain_ok_fresh [of C H] by (auto simp: t'_def sizenode_def dummynode_def)
    moreover have "setnodevector nh t = Inr t'" using False l by (simp add: setnodevector_def t'_def Let_def)
    ultimately show ?thesis using hash_get_fresh nv by (intro disjI2 exI [of _ t']) (simp add: t'_def)
  next
    case l: True
    have u: "unat (of_nat nh :: u32) = nh" using assms(2) by (simp add: unat_of_nat take_bit_nat_eq_self)
    then have "0 < (of_nat nh :: u32)" using False by (simp add: word_less_nat_alt)
    note b = ceillog2_bounds [OF this]
    have "nh \<noteq> 1" using b u l by auto
    then have "2 ^ (?l - 1) < nh" using b u False by auto
    moreover have "(2::nat) ^ MAXBITS \<le> 2 ^ (?l - 1)" using l by (intro power_increasing) auto
    ultimately have "MAXASIZE < nh" unfolding MAXASIZE_def by (rule le_less_trans [rotated])
    then show ?thesis using l by (simp add: setnodevector_def False Let_def)
  qed
qed

subsection \<open>The vanishing slice of the array\<close>

definition slice_get :: "'a luaconf_scheme \<Rightarrow> tvalue list \<Rightarrow> nat \<Rightarrow> (tvalue \<Rightarrow> tvalue) \<Rightarrow> tvalue \<Rightarrow> tvalue" where
  "slice_get C vs i m k = (let j = nat (arrayindex C k) - 1 in
     if 0 < arrayindex C k \<and> i \<le> j \<and> j < i + length vs \<and> vs ! (j - i) \<noteq> TNil then vs ! (j - i) else m k)"

lemma slice_get_Nil [simp]: "slice_get C [] i m k = m k"
  by (auto simp: slice_get_def Let_def)

lemma slice_get_Cons:
  "slice_get C (v # vs) i m k = (if 0 < arrayindex C k \<and> nat (arrayindex C k) = Suc i then (if v = TNil then m k else v)
     else slice_get C vs (Suc i) m k)"
  by (auto simp: slice_get_def Let_def nth_Cons' Suc_diff_le)

lemma slice_get_cong: "m k = m' k \<Longrightarrow> slice_get C vs i m k = slice_get C vs i m' k"
  by (simp add: slice_get_def Let_def)

lemma count_nonnil_simps [simp]: "count_nonnil [] = 0"
  "count_nonnil (v # vs) = (if v = TNil then 0 else 1) + count_nonnil vs"
  "count_nonnil (xs @ ys) = count_nonnil xs + count_nonnil ys"
  by (simp_all add: count_nonnil_def ttisnil_def)

definition carried :: "'a luaconf_scheme \<Rightarrow> (addr \<Rightarrow> tstring) \<Rightarrow> ltable \<Rightarrow> ltable \<Rightarrow> nat \<Rightarrow> (tvalue \<Rightarrow> tvalue) \<Rightarrow> bool" where
  "carried C H t t' used m = (tab_ok C H t' \<and> sizearray t' = sizearray t \<and> t_metatable t' = t_metatable t \<and>
     room t \<le> room t' + used \<and> (\<forall>k. proper k \<longrightarrow> lookup C t' k = m k))"

lemma reinsert_slice_ok:
  assumes C: "conf_ok C"
  shows "tab_ok C H t \<Longrightarrow> sizearray t \<le> i \<Longrightarrow> i + length vs \<le> MAXASIZE \<Longrightarrow> count_nonnil vs \<le> room t \<Longrightarrow>
    \<exists>t'. reinsert_slice C (newkey C d) vs i t = Inr t' \<and>
      carried C H t t' (count_nonnil vs) (slice_get C vs i (lookup C t))"
proof (induction vs arbitrary: i t)
  case (Cons v vs)
  show ?case
  proof (cases "v = TNil")
    case True
    then obtain t' where "reinsert_slice C (newkey C d) vs (i + 1) t = Inr t'"
      "carried C H t t' (count_nonnil vs) (slice_get C vs (i + 1) (lookup C t))"
      using Cons.IH [of t "i + 1"] Cons.prems by auto
    moreover have "slice_get C vs (i + 1) (lookup C t) k = slice_get C (v # vs) i (lookup C t) k" for k
      unfolding slice_get_Cons using True by (auto simp: slice_get_def Let_def)
    ultimately show ?thesis using True by (simp add: carried_def ttisnil_def)
  next
    case False
    let ?k = "int i + 1"
    have ik: "is_int ?k" using Cons.prems(3) by (simp add: is_int_def MAXASIZE_def MAXBITS_def)
    have na: "\<not> in_array C (sizearray t) (TNum (cast_num ?k))"
      using Cons.prems(2) by (simp add: in_array_def arrayindex_cast [OF C ik])
    have "0 < room t" using Cons.prems(4) False by simp
    then obtain t1 s where t1: "setnum_by C (newkey C d) t ?k = Inr (t1, s)" "got C H t (TNum (cast_num ?k)) t1 s"
      using setnum_by_room [OF C Cons.prems(1) ik] by blast
    let ?t = "set_slot s v t1"
    have pk: "proper (TNum (cast_num ?k))" by (simp add: proper_def)
    note st = got_store [OF C pk t1(2), where v = v]
    have "count_nonnil vs \<le> room ?t" using st(3) Cons.prems(4) na False by simp
    then obtain t' where t': "reinsert_slice C (newkey C d) vs (i + 1) ?t = Inr t'"
      "carried C H ?t t' (count_nonnil vs) (slice_get C vs (i + 1) (lookup C ?t))"
      using Cons.IH [of ?t "i + 1"] Cons.prems st(1,2) by auto
    have "slice_get C vs (i + 1) (lookup C ?t) k = slice_get C (v # vs) i (lookup C t) k" if k: "proper k" for k
    proof -
      have e: "k = TNum (cast_num ?k) \<longleftrightarrow> 0 < arrayindex C k \<and> nat (arrayindex C k) = Suc i"
        using arrayindex_cast [OF C ik] arrayindex_pos [OF C, of k]
        by (auto simp: nat_eq_iff)
      show ?thesis
      proof (cases "k = TNum (cast_num ?k)")
        case True
        then have "slice_get C vs (i + 1) (lookup C ?t) k = lookup C ?t k"
          using e by (auto simp: slice_get_def Let_def)
        then show ?thesis using True e st(4) [OF k] False by (simp add: slice_get_Cons)
      next
        case False
        then have "lookup C ?t k = lookup C t k" using st(4) [OF k] by simp
        then show ?thesis using False e by (auto simp: slice_get_Cons slice_get_cong [of "lookup C ?t" k "lookup C t"])
      qed
    qed
    moreover have "room t \<le> room t' + count_nonnil (v # vs)"
      using st(3) t'(2) na False by (simp add: carried_def)
    ultimately show ?thesis using t1(1) t' st(2,5) False by (simp add: carried_def ttisnil_def)
  qed
qed (simp add: carried_def)

subsection \<open>The old nodes\<close>

primrec upd_nodes :: "(tvalue \<Rightarrow> tvalue) \<Rightarrow> node list \<Rightarrow> tvalue \<Rightarrow> tvalue" where
  "upd_nodes m [] = m"
| "upd_nodes m (n # ns) = upd_nodes (if n_val n = TNil then m else m(n_key n := n_val n)) ns"

lemma upd_nodes_cong: "m k = m' k \<Longrightarrow> upd_nodes m ns k = upd_nodes m' ns k"
proof (induction ns arbitrary: m m')
  case (Cons n ns)
  show ?case unfolding upd_nodes.simps by (rule Cons.IH) (use Cons.prems in simp)
qed simp

lemma entries_Cons: "(k, x) \<in> entries (n # ns) \<longleftrightarrow> n_val n \<noteq> TNil \<and> k = n_key n \<and> x = n_val n \<or> (k, x) \<in> entries ns"
  by (auto simp: entries_def)

lemma upd_nodes_other: "(\<And>x. (k, x) \<notin> entries ns) \<Longrightarrow> upd_nodes m ns k = m k"
  by (induction ns arbitrary: m) (auto simp: entries_Cons)

lemma upd_nodes_at:
  "(k, x) \<in> entries ns \<Longrightarrow> (\<And>y. (k, y) \<in> entries ns \<Longrightarrow> y = x) \<Longrightarrow> upd_nodes m ns k = x"
proof (induction ns arbitrary: m)
  case (Cons n ns)
  show ?case
  proof (cases "\<exists>y. (k, y) \<in> entries ns")
    case True
    then have "(k, x) \<in> entries ns" using Cons.prems(2) by (auto simp: entries_Cons)
    then show ?thesis unfolding upd_nodes.simps by (rule Cons.IH) (use Cons.prems(2) in \<open>auto simp: entries_Cons\<close>)
  next
    case False
    then show ?thesis using Cons.prems(1) upd_nodes_other [of k ns] by (auto simp: entries_Cons)
  qed
qed (simp add: entries_def)

definition need :: "'a luaconf_scheme \<Rightarrow> nat \<Rightarrow> node list \<Rightarrow> nat" where
  "need C sz ns = length (filter (\<lambda>n. n_val n \<noteq> TNil \<and> \<not> in_array C sz (n_key n)) ns)"

lemma reinsert_nodes_ok:
  assumes C: "conf_ok C"
  shows "tab_ok C H t \<Longrightarrow> \<forall>n \<in> set ns. n_val n \<noteq> TNil \<longrightarrow> proper (n_key n) \<and> in_heap H (n_key n) \<Longrightarrow>
    need C (sizearray t) ns \<le> room t \<Longrightarrow>
    \<exists>t'. reinsert_nodes C (newkey C d) ns t = Inr t' \<and>
      carried C H t t' (need C (sizearray t) ns) (upd_nodes (lookup C t) ns)"
proof (induction ns arbitrary: t)
  case (Cons n ns)
  show ?case
  proof (cases "n_val n = TNil")
    case True
    then show ?thesis using Cons by (auto simp: need_def ttisnil_def)
  next
    case False
    have k: "proper (n_key n)" "in_heap H (n_key n)" using Cons.prems(2) False by auto
    have "0 < room t \<or> in_array C (sizearray t) (n_key n)" using Cons.prems(3) False by (auto simp: need_def)
    from set_by_room [OF C Cons.prems(1) k this] obtain t1 s where
      t1: "set_by C (newkey C d) t (n_key n) = Inr (t1, s)" "got C H t (n_key n) t1 s" by blast
    let ?t = "set_slot s (n_val n) t1"
    note st = got_store [OF C k(1) t1(2), where v = "n_val n"]
    have n: "need C (sizearray t) (n # ns) = (if in_array C (sizearray t) (n_key n) then 0 else 1) + need C (sizearray t) ns"
      using False by (simp add: need_def)
    have "need C (sizearray ?t) ns \<le> room ?t" using st(2,3) Cons.prems(3) n by (simp split: if_splits)
    then obtain t' where t': "reinsert_nodes C (newkey C d) ns ?t = Inr t'"
      "carried C H ?t t' (need C (sizearray ?t) ns) (upd_nodes (lookup C ?t) ns)"
      using Cons.IH [of ?t] Cons.prems(2) st(1) by auto
    have "upd_nodes (lookup C ?t) ns k = upd_nodes ((lookup C t)(n_key n := n_val n)) ns k" if "proper k" for k
      using st(4) [OF that] by (intro upd_nodes_cong) simp
    moreover have "room t \<le> room t' + need C (sizearray t) (n # ns)"
      using st(2,3) t'(2) n by (simp add: carried_def split: if_splits)
    ultimately show ?thesis using t1(1) t' st(2,5) False
      by (simp add: carried_def ttisnil_def)
  qed
qed (simp add: carried_def)

subsection \<open>Resizing\<close>

lemma resize_ok:
  assumes C: "conf_ok C" and ok: "tab_ok C H t" and na: "nasize \<le> MAXASIZE" and nh: "nh < 2 ^ 32"
    and fits: "count_nonnil (drop nasize (t_array t)) + need C nasize (node_vec t) \<le> nh"
  shows "resize_by C (newkey C d) t nasize nh = Inl (LuaErr ''table overflow'') \<and> MAXASIZE < nh \<or>
    (\<exists>t'. resize_by C (newkey C d) t nasize nh = Inr t' \<and> tab_ok C H t' \<and> same_map C t t' \<and> sizearray t' = nasize \<and>
      t_metatable t' = t_metatable t \<and>
      nh \<le> room t' + (count_nonnil (drop nasize (t_array t)) + need C nasize (node_vec t)))"
proof -
  let ?old = "sizearray t" and ?slice = "drop nasize (t_array t)"
  define t1 where "t1 = (if ?old < nasize then setarrayvector nasize t else t)"
  have t1: "t_array t1 = (if ?old < nasize then t_array t @ replicate (nasize - ?old) TNil else t_array t)"
    "t_metatable t1 = t_metatable t" by (simp_all add: t1_def setarrayvector_def)
  have old: "?old \<le> MAXASIZE" using ok by (simp add: tab_ok_def)
  have len1: "sizearray t1 \<le> MAXASIZE" using na old t1(1) by auto
  consider "setnodevector nh t1 = Inl (LuaErr ''table overflow'')" "MAXASIZE < nh" | t2 where "setnodevector nh t1 = Inr t2"
    "tab_ok C H t2" "t_array t2 = t_array t1" "t_metatable t2 = t_metatable t1" "nh \<le> room t2"
    "\<forall>k. hash_get (node_vec t2) k = TNil"
    using setnodevector_ok [OF len1 nh, of C H] by blast
  then show ?thesis
  proof cases
    case 1
    then show ?thesis by (simp add: resize_by_def Let_def t1_def)
  next
    case (2 t2)
    define t3 where "t3 = (if nasize < ?old then t2\<lparr>t_array := take nasize (t_array t)\<rparr> else t2)"
    have a3: "t_array t3 = take nasize (t_array t) @ replicate (nasize - ?old) TNil"
      using 2(3) t1(1) by (simp add: t3_def)
    have l3: "sizearray t3 = nasize" using a3 by simp
    have ok3: "tab_ok C H t3"
    proof (cases "nasize < ?old")
      case True
      have "\<not> in_array C nasize x" if "\<not> in_array C ?old x" for x using that True unfolding in_array_def by linarith
      moreover have "sizearray t2 = ?old" using 2(3) t1(1) True by simp
      ultimately show ?thesis using 2(2) True na by (auto simp: tab_ok_def t3_def split: option.splits)
    qed (use 2(2) t3_def in simp)
    have r3: "room t3 = room t2" by (auto simp: t3_def room_def)
    have h3: "hash_get (node_vec t3) k = TNil" for k using 2(6) by (simp add: t3_def)
    define vs where "vs = (if nasize < ?old then ?slice else [])"
    have cvs: "count_nonnil vs = count_nonnil ?slice" by (simp add: vs_def)
    have "\<exists>t4. reinsert_slice C (newkey C d) vs nasize t3 = Inr t4 \<and>
        carried C H t3 t4 (count_nonnil vs) (slice_get C vs nasize (lookup C t3))"
      using fits 2(5) r3 cvs old na by (intro reinsert_slice_ok [OF C ok3]) (auto simp: l3 vs_def)
    then obtain t4 where t4: "reinsert_slice C (newkey C d) vs nasize t3 = Inr t4"
      "carried C H t3 t4 (count_nonnil vs) (slice_get C vs nasize (lookup C t3))" by blast
    let ?ns = "rev (node_vec t)"
    have nd: "need C nasize ?ns = need C nasize (node_vec t)" by (simp add: need_def rev_filter [symmetric])
    have sz4: "sizearray t4 = nasize" using t4(2) l3 by (simp add: carried_def)
    have r4: "room t3 \<le> room t4 + count_nonnil vs" using t4(2) by (simp add: carried_def)
    then have "need C (sizearray t4) ?ns \<le> room t4" using fits 2(5) unfolding r3 cvs nd sz4 by linarith
    moreover have "\<forall>n \<in> set ?ns. n_val n \<noteq> TNil \<longrightarrow> proper (n_key n) \<and> in_heap H (n_key n)"
      using ok_node [OF tab_chain [OF C ok]] by (auto simp: in_set_conv_nth)
    ultimately obtain t5 where t5: "reinsert_nodes C (newkey C d) ?ns t4 = Inr t5"
      "carried C H t4 t5 (need C (sizearray t4) ?ns) (upd_nodes (lookup C t4) ?ns)"
      using reinsert_nodes_ok [OF C, of H t4 ?ns d] t4(2) by (auto simp: carried_def)
    have run: "resize_by C (newkey C d) t nasize nh = Inr t5"
    proof (cases "nasize < ?old")
      case True
      then show ?thesis using 2(1) t4(1) t5(1) by (simp add: resize_by_def Let_def t1_def t3_def vs_def)
    next
      case False
      then have "t4 = t2" using t4(1) by (simp add: vs_def t3_def)
      then show ?thesis using 2(1) t5(1) False by (simp add: resize_by_def Let_def t1_def)
    qed
    have "lookup C t5 k = lookup C t k" if k: "proper k" for k
    proof -
      have l4: "lookup C t4 k = slice_get C vs nasize (lookup C t3) k" using t4(2) k by (simp add: carried_def)
      have l5: "lookup C t5 k = upd_nodes (lookup C t4) ?ns k" using t5(2) k by (simp add: carried_def)
      have ent: "entries ?ns = entries (node_vec t)" by (simp add: entries_def)
      have he: "x \<noteq> TNil \<Longrightarrow> hash_get (node_vec t) k = x \<longleftrightarrow> (k, x) \<in> entries (node_vec t)" for x
        by (rule hash_get_entries [OF tab_chain [OF C ok] k])
      show ?thesis
      proof (cases "\<exists>x. (k, x) \<in> entries (node_vec t)")
        case True
        then obtain x where x: "(k, x) \<in> entries (node_vec t)" by blast
        then have nna: "\<not> in_array C ?old k" and xn: "x \<noteq> TNil"
          using tab_not_in_array [OF ok] by (auto simp: entries_nth)
        have "y = x" if "(k, y) \<in> entries ?ns" for y
          using that x he [of x] he [of y] xn unfolding ent by (auto simp: entries_nth)
        then have "lookup C t5 k = x" unfolding l5 by (intro upd_nodes_at) (simp_all add: ent x)
        then show ?thesis using he [OF xn] x nna by (simp add: lookup_def)
      next
        case False
        then have "lookup C t5 k = lookup C t4 k" unfolding l5 by (intro upd_nodes_other) (simp add: ent)
        moreover have "hash_get (node_vec t) k = TNil" using False he [of "hash_get (node_vec t) k"] by blast
        moreover have "slice_get C vs nasize (lookup C t3) k =
            (if in_array C ?old k then t_array t ! nat (arrayindex C k - 1) else TNil)"
        proof (cases "in_array C nasize k")
          case True
          then have j: "0 < arrayindex C k" "nat (arrayindex C k - 1) < nasize" "nat (arrayindex C k) - 1 < nasize"
            by (auto simp: in_array_def)
          then have "slice_get C vs nasize (lookup C t3) k = t_array t3 ! nat (arrayindex C k - 1)"
            using True l3 by (simp add: slice_get_def Let_def lookup_def)
          then show ?thesis using j a3 by (auto simp: nth_append in_array_def)
        next
          case no: False
          then have "lookup C t3 k = TNil" using l3 h3 by (simp add: lookup_def)
          then show ?thesis using no by (auto simp: slice_get_def Let_def vs_def in_array_def nat_diff_distrib)
        qed
        ultimately show ?thesis using l4 by (simp add: lookup_def)
      qed
    qed
    then have "same_map C t t5" by (simp add: same_map_def)
    moreover have "nh \<le> room t5 + (count_nonnil ?slice + need C nasize (node_vec t))"
    proof -
      have "room t4 \<le> room t5 + need C (sizearray t4) ?ns" using t5(2) by (simp add: carried_def)
      then show ?thesis using r4 2(5) unfolding r3 cvs nd sz4 by linarith
    qed
    moreover have "tab_ok C H t5" "sizearray t5 = nasize" "t_metatable t5 = t_metatable t"
      using t5(2) t4(2) sz4 2(4) t1(2) by (simp_all add: carried_def t3_def split: if_splits)
    ultimately show ?thesis using run by blast
  qed
qed

end
