(* ===== verification/Lua_Table_Rehash.thy ===== *)
theory Lua_Table_Rehash
  imports Lua_Table_Resize
begin

text \<open>
  \<open>rehash\<close>: the census of the integer keys by powers of two, the choice of the array size, and the
  proof that the new hash part has a node for every key that does not go to the array.
\<close>

subsection \<open>The census\<close>

text \<open>\<open>psum nums i\<close> is what the census has counted up to \<open>2 ^ i\<close>.\<close>

definition psum :: "nat list \<Rightarrow> nat \<Rightarrow> nat" where
  "psum nums i = sum_list (take (Suc i) nums)"

lemma psum_add: "c < length nums \<Longrightarrow> psum (nums[c := nums ! c + x]) i = psum nums i + (if c \<le> i then x else 0)"
proof (cases "c \<le> i")
  case True
  assume c: "c < length nums"
  have "sum_list ((take (Suc i) nums)[c := nums ! c + x]) = sum_list (take (Suc i) nums) + (nums ! c + x) - take (Suc i) nums ! c"
    using True c by (intro sum_list_update) simp
  moreover have "take (Suc i) nums ! c = nums ! c" using True by simp
  ultimately have "sum_list ((take (Suc i) nums)[c := nums ! c + x]) = sum_list (take (Suc i) nums) + x" by simp
  then show ?thesis using True by (simp add: psum_def take_update_swap)
qed (simp add: psum_def)

lemma psum_step: "Suc i < length nums \<Longrightarrow> psum nums (Suc i) = psum nums i + nums ! Suc i"
  by (simp add: psum_def take_Suc_conv_app_nth)

definition hcount :: "'a luaconf_scheme \<Rightarrow> node list \<Rightarrow> nat \<Rightarrow> nat" where
  "hcount C ns m = length (filter (\<lambda>n. n_val n \<noteq> TNil \<and> in_array C m (n_key n)) ns)"

lemma log_le_iff:
  assumes "0 < k" "k \<le> 2 ^ 26"
  shows "nat (ceillog2 (word_of_int k)) \<le> i \<longleftrightarrow> k \<le> 2 ^ i"
proof -
  let ?w = "word_of_int k :: u32"
  have u: "int (unat ?w) = k"
  proof -
    have "uint ?w = k mod 2 ^ 32" by (subst uint_word_of_int) simp
    also have "\<dots> = k" using assms by (intro mod_pos_pos_trivial) auto
    finally show ?thesis by simp
  qed
  have "0 < unat ?w" using u assms(1) by linarith
  then have "0 < ?w" by (simp add: word_less_nat_alt)
  note b = ceillog2_bounds [OF this]
  let ?l = "nat (ceillog2 ?w)"
  have kn: "k \<le> 2 ^ n \<longleftrightarrow> unat ?w \<le> 2 ^ n" for n
  proof -
    have "k \<le> 2 ^ n \<longleftrightarrow> int (unat ?w) \<le> int (2 ^ n)" using u by simp
    also have "\<dots> \<longleftrightarrow> unat ?w \<le> 2 ^ n" by (simp only: of_nat_le_iff)
    finally show ?thesis .
  qed
  show ?thesis
  proof
    assume "?l \<le> i"
    then have "(2::nat) ^ ?l \<le> 2 ^ i" by (rule power_increasing) simp
    then show "k \<le> 2 ^ i" using b kn by (meson order_trans)
  next
    assume k: "k \<le> 2 ^ i"
    show "?l \<le> i"
    proof (rule ccontr)
      assume l: "\<not> ?l \<le> i"
      have "1 < unat ?w" using b l \<open>0 < unat ?w\<close> by (cases "unat ?w = 1") auto
      then have "2 ^ (?l - 1) < unat ?w" using b by blast
      moreover have "(2::nat) ^ i \<le> 2 ^ (?l - 1)" using l by (intro power_increasing) auto
      ultimately show False using k kn by (meson le_less_trans not_less)
    qed
  qed
qed

lemma in_array_mono: "in_array C m k \<Longrightarrow> m \<le> n \<Longrightarrow> in_array C n k"
  by (auto simp: in_array_def)

lemma countint_ok:
  assumes "length nums = MAXBITS + 1" "countint C key nums = (c, nums')"
  shows "length nums' = MAXBITS + 1 \<and> c = (if in_array C MAXASIZE key then 1 else 0) \<and>
    (\<forall>i \<le> MAXBITS. psum nums' i = psum nums i + (if in_array C (2 ^ i) key then 1 else 0))"
proof -
  let ?k = "arrayindex C key" and ?l = "nat (ceillog2 (word_of_int (arrayindex C key)))"
  show ?thesis
  proof (cases "in_array C MAXASIZE key")
    case True
    then have k: "0 < ?k" "?k \<le> 2 ^ 26" by (auto simp: in_array_def MAXASIZE_def MAXBITS_def)
    have l: "?l < length nums" using log_le_iff [OF k, of 26] k(2) assms(1) by (simp add: MAXBITS_def)
    have "in_array C (2 ^ i) key \<longleftrightarrow> ?l \<le> i" for i
      using log_le_iff [OF k, of i] k(1) by (simp add: in_array_def)
    then show ?thesis using assms True psum_add [OF l, of 1] by (auto simp: countint_def Let_def in_array_def)
  next
    case False
    then have "\<not> in_array C (2 ^ i) key" if "i \<le> MAXBITS" for i
      using in_array_mono [of C "2 ^ i" key MAXASIZE] power_increasing [OF that, of "2 :: nat"] by (auto simp: MAXASIZE_def)
    then show ?thesis using assms False by (auto simp: countint_def Let_def in_array_def)
  qed
qed

lemma hcount_Cons: "hcount C (n # ns) m = (if n_val n \<noteq> TNil \<and> in_array C m (n_key n) then 1 else 0) + hcount C ns m"
  by (simp add: hcount_def)

lemma numusehash_ok:
  "length nums = MAXBITS + 1 \<Longrightarrow> numusehash_loop C ns nums ause tot = (tot', ause', nums') \<Longrightarrow>
   length nums' = MAXBITS + 1 \<and> tot' = tot + length (filter (\<lambda>n. n_val n \<noteq> TNil) ns) \<and>
   ause' = ause + hcount C ns MAXASIZE \<and> (\<forall>i \<le> MAXBITS. psum nums' i = psum nums i + hcount C ns (2 ^ i))"
proof (induction ns arbitrary: nums ause tot)
  case (Cons n ns)
  show ?case
  proof (cases "n_val n = TNil")
    case True
    then show ?thesis using Cons by (simp add: hcount_Cons ttisnil_def)
  next
    case False
    obtain c nums1 where c: "countint C (n_key n) nums = (c, nums1)" by fastforce
    note k = countint_ok [OF Cons.prems(1) c]
    have "numusehash_loop C ns nums1 (ause + c) (tot + 1) = (tot', ause', nums')"
      using Cons.prems(2) False c by (simp add: ttisnil_def)
    from Cons.IH [OF _ this] k show ?thesis using False by (simp add: hcount_Cons)
  qed
qed (simp add: hcount_def)

lemma count_take_add: "count_nonnil (take (a + b) xs) = count_nonnil (take a xs) + count_nonnil (take b (drop a xs))"
  by (simp add: take_add)

lemma numusearray_loop_ok:
  "length nums = MAXBITS + 1 \<Longrightarrow> length arr \<le> MAXASIZE \<Longrightarrow>
   i = (if lg = 0 then 0 else min (2 ^ (lg - 1)) (length arr)) + 1 \<Longrightarrow> ause = count_nonnil (take (i - 1) arr) \<Longrightarrow>
   (\<forall>j. lg \<le> j \<longrightarrow> j \<le> MAXBITS \<longrightarrow> nums ! j = 0) \<Longrightarrow> (\<forall>j < lg. j \<le> MAXBITS \<longrightarrow> psum nums j = count_nonnil (take (2 ^ j) arr)) \<Longrightarrow>
   lg \<le> MAXBITS + 1 \<Longrightarrow>
   numusearray_loop arr lg i nums ause = (ause', nums') \<Longrightarrow>
   length nums' = MAXBITS + 1 \<and> ause' = count_nonnil arr \<and> (\<forall>j \<le> MAXBITS. psum nums' j = count_nonnil (take (2 ^ j) arr))"
proof (induction arr lg i nums ause rule: numusearray_loop.induct)
  case (1 arr lg i nums ause)
  note pre = 1(2-8) and run = 1(9)
  show ?case
  proof (cases "MAXBITS < lg")
    case True
    then have lg: "lg = 27" using pre(7) by (simp add: MAXBITS_def)
    have "i - 1 = length arr" using pre(2,3) lg by (simp add: MAXASIZE_def MAXBITS_def)
    then show ?thesis using run True pre lg numusearray_loop.simps [of arr lg i nums ause]
      by (simp add: MAXBITS_def)
  next
    case False
    let ?lim = "min (2 ^ lg) (length arr)"
    show ?thesis
    proof (cases "length arr < 2 ^ lg \<and> ?lim < i")
      case True
      then have "length arr < i" by (auto simp: min_def)
      then have out: "ause' = ause" "nums' = nums"
        using True run False numusearray_loop.simps [of arr lg i nums ause] by simp_all
      have i: "i - 1 = length arr" using True pre(3) by (auto split: if_splits)
      have "psum nums j = count_nonnil (take (2 ^ j) arr)" if j: "j \<le> MAXBITS" for j
        using j
      proof (induction j)
        case 0
        show ?case
        proof (cases "0 < lg")
          case False
          then have "length arr = 0" using i pre(3) by simp
          then show ?thesis using False pre(1,5) by (simp add: psum_def take_Suc_conv_app_nth)
        qed (use pre(6) in simp)
      next
        case (Suc j)
        show ?case
        proof (cases "Suc j < lg")
          case False
          then have z: "nums ! Suc j = 0" using pre(5) Suc.prems by simp
          have "length arr \<le> 2 ^ j"
          proof (cases "lg = 0")
            case False
            then have "length arr \<le> 2 ^ (lg - 1)" using i pre(3) by auto
            also have "\<dots> \<le> 2 ^ j" using \<open>\<not> Suc j < lg\<close> False by (intro power_increasing) auto
            finally show ?thesis .
          qed (use i pre(3) in simp)
          then have "take (2 ^ Suc j) arr = take (2 ^ j) arr" by simp
          then show ?thesis using Suc z psum_step [of j nums] pre(1) by simp
        qed (use pre(6) Suc.prems in blast)
      qed
      then show ?thesis using out pre(1,4) i by simp
    next
      case cont: False
      let ?lc = "count_nonnil (take (?lim + 1 - i) (drop (i - 1) arr))"
      let ?nums = "nums[lg := nums ! lg + ?lc]"
      have i1: "i - 1 \<le> ?lim"
      proof (cases lg)
        case (Suc m)
        then have "(2::nat) ^ (lg - 1) \<le> 2 ^ lg" by (intro power_increasing) simp_all
        then show ?thesis using pre(3) Suc by auto
      qed (use pre(3) in simp)
      have im: "max i (?lim + 1) = ?lim + 1" "i - 1 + (?lim + 1 - i) = ?lim"
        using i1 pre(3) by (auto simp: max_def)
      have rec: "numusearray_loop arr (lg + 1) (?lim + 1) ?nums (ause + ?lc) = (ause', nums')"
        using run False cont numusearray_loop.simps [of arr lg i nums ause] im(1) by (simp add: Let_def)
      have lgl: "lg < length nums" using False pre(1) by simp
      have sum: "ause + ?lc = count_nonnil (take ?lim arr)"
        using pre(4) count_take_add [of "i - 1" "?lim + 1 - i" arr] unfolding im(2) by simp
      have ps: "psum ?nums j = psum nums j + (if lg \<le> j then ?lc else 0)" for j by (rule psum_add [OF lgl])
      have "psum ?nums lg = count_nonnil (take (2 ^ lg) arr)"
      proof (cases lg)
        case 0
        then have "psum nums lg = 0" using pre(1,5) by (simp add: psum_def take_Suc_conv_app_nth)
        moreover have "ause = 0" using pre(3,4) 0 by simp
        ultimately show ?thesis using sum ps [of lg] by (cases "length arr \<le> 2 ^ lg") (simp_all add: min_def)
      next
        case (Suc m)
        then have "psum nums lg = psum nums m" using psum_step [of m nums] lgl pre(5) False by simp
        also have "\<dots> = count_nonnil (take (2 ^ m) arr)" using pre(6) Suc False by simp
        also have "\<dots> = ause" using pre(3,4) Suc by (cases "length arr \<le> 2 ^ m") (simp_all add: min_def)
        finally show ?thesis using sum ps [of lg] by (cases "length arr \<le> 2 ^ lg") (simp_all add: min_def)
      qed
      then have "psum ?nums j = count_nonnil (take (2 ^ j) arr)" if "j < lg + 1" "j \<le> MAXBITS" for j
        using that pre(6) ps [of j] by (cases "j = lg") simp_all
      then have "\<forall>j < lg + 1. j \<le> MAXBITS \<longrightarrow> psum ?nums j = count_nonnil (take (2 ^ j) arr)" by blast
      moreover have "\<forall>j. lg + 1 \<le> j \<longrightarrow> j \<le> MAXBITS \<longrightarrow> ?nums ! j = 0" using pre(5) by simp
      moreover have "length ?nums = MAXBITS + 1" using pre(1) by simp
      moreover have "?lim + 1 = (if lg + 1 = 0 then 0 else min (2 ^ (lg + 1 - 1)) (length arr)) + 1" by simp
      moreover have "ause + ?lc = count_nonnil (take (?lim + 1 - 1) arr)" using sum by simp
      moreover have "lg + 1 \<le> MAXBITS + 1" using False by simp
      ultimately show ?thesis
        using 1(1) [OF False refl cont refl, unfolded im(1), OF _ pre(2) _ _ _ _ _ rec] by blast
    qed
  qed
qed

lemma numusearray_ok:
  assumes "sizearray t \<le> MAXASIZE" "numusearray t (replicate (MAXBITS + 1) 0) = (ause, nums)"
  shows "length nums = MAXBITS + 1 \<and> ause = count_nonnil (t_array t) \<and>
    (\<forall>j \<le> MAXBITS. psum nums j = count_nonnil (take (2 ^ j) (t_array t)))"
  by (rule numusearray_loop_ok [OF _ assms(1) _ _ _ _ _ assms(2) [unfolded numusearray_def]])
    (simp_all add: nth_Cons split: nat.split)

subsection \<open>The choice of the array size\<close>

lemma computesizes_loop_ok:
  "length nums = MAXBITS + 1 \<Longrightarrow> psum nums MAXBITS = narray \<Longrightarrow> i \<le> MAXBITS + 1 \<Longrightarrow> twotoi = 2 ^ i \<Longrightarrow>
   a = (if i = 0 then 0 else psum nums (i - 1)) \<Longrightarrow> (0 < i \<Longrightarrow> a \<noteq> narray) \<Longrightarrow>
   (n = 0 \<and> na = 0 \<or> (\<exists>j < i. n = 2 ^ j \<and> na = psum nums j \<and> 2 ^ j div 2 < na)) \<Longrightarrow>
   \<exists>na' n'. computesizes_loop nums narray i twotoi a na n = Inr (na', n') \<and>
     (n' = 0 \<and> na' = 0 \<or> (\<exists>j \<le> MAXBITS. n' = 2 ^ j \<and> na' = psum nums j \<and> 2 ^ j div 2 < na'))"
proof (induction nums narray i twotoi a na n rule: computesizes_loop.induct)
  case (1 nums narray i twotoi a na n)
  note pre = 1(2-8)
  show ?case
  proof (cases "twotoi div 2 < narray")
    case False
    then have "computesizes_loop nums narray i twotoi a na n = Inr (na, n)" by (simp add: computesizes_loop.simps)
    moreover have "n = 0 \<and> na = 0 \<or> (\<exists>j \<le> MAXBITS. n = 2 ^ j \<and> na = psum nums j \<and> 2 ^ j div 2 < na)"
      using pre(3,7) by auto
    ultimately show ?thesis by blast
  next
    case True
    have i: "i \<le> MAXBITS"
    proof (rule ccontr)
      assume "\<not> i \<le> MAXBITS"
      then have "i - 1 = MAXBITS" "0 < i" using pre(3) by simp_all
      then show False using pre(2,5,6) by simp
    qed
    then have il: "\<not> length nums \<le> i" using pre(1) by simp
    let ?a = "a + nums ! i"
    have a: "?a = psum nums i"
    proof (cases i)
      case 0
      then show ?thesis using pre(1,5) by (simp add: psum_def take_Suc_conv_app_nth)
    next
      case (Suc m)
      then show ?thesis using psum_step [of m nums] pre(5) il by simp
    qed
    obtain na1 n1 where r: "(na1, n1) = (if 0 < nums ! i \<and> twotoi div 2 < ?a then (?a, twotoi) else (na, n))"
      by (metis surj_pair)
    have r': "n1 = 0 \<and> na1 = 0 \<or> (\<exists>j < i + 1. n1 = 2 ^ j \<and> na1 = psum nums j \<and> 2 ^ j div 2 < na1)"
    proof (cases "0 < nums ! i \<and> twotoi div 2 < ?a")
      case True
      then have "n1 = 2 ^ i" "na1 = psum nums i" "2 ^ i div 2 < na1" using r a pre(4) by auto
      then show ?thesis by (intro disjI2 exI [of _ i]) simp
    next
      case False
      then have "na1 = na" "n1 = n" using r by (simp_all split del: if_split add: if_not_P)
      then show ?thesis using pre(7) by (auto intro: less_SucI)
    qed
    show ?thesis
    proof (cases "?a = narray")
      case e: True
      then have "computesizes_loop nums narray i twotoi a na n = Inr (na1, n1)"
        using True il r computesizes_loop.simps [of nums narray i twotoi a na n] by (simp add: Let_def)
      moreover have "n1 = 0 \<and> na1 = 0 \<or> (\<exists>j \<le> MAXBITS. n1 = 2 ^ j \<and> na1 = psum nums j \<and> 2 ^ j div 2 < na1)"
      proof -
        have "j \<le> MAXBITS" if "j < i + 1" for j using that i by simp
        then show ?thesis using r' by blast
      qed
      ultimately show ?thesis by blast
    next
      case e: False
      have step: "computesizes_loop nums narray i twotoi a na n =
          computesizes_loop nums narray (i + 1) (twotoi * 2) ?a na1 n1"
        using True il e by (subst computesizes_loop.simps) (simp add: Let_def r [symmetric])
      have "\<exists>na' n'. computesizes_loop nums narray (i + 1) (twotoi * 2) ?a na1 n1 = Inr (na', n') \<and>
          (n' = 0 \<and> na' = 0 \<or> (\<exists>j \<le> MAXBITS. n' = 2 ^ j \<and> na' = psum nums j \<and> 2 ^ j div 2 < na'))"
        by (rule 1(1) [OF _ il refl r refl]) (use True e pre a i r' in simp_all)
      then show ?thesis using step by simp
    qed
  qed
qed


lemma hcount_need: "hcount C ns m + need C m ns = length (filter (\<lambda>n. n_val n \<noteq> TNil) ns)"
  by (induction ns) (auto simp: hcount_def need_def)

lemma hcount_rev: "hcount C (rev ns) m = hcount C ns m"
  by (simp add: hcount_def rev_filter [symmetric])

lemma count_nonnil_le: "count_nonnil xs \<le> length xs"
  by (simp add: count_nonnil_def)

subsection \<open>Rehashing\<close>

text \<open>The number of entries; only a table of \<open>2 ^ 26\<close> of them can overflow.\<close>

definition live :: "ltable \<Rightarrow> nat" where
  "live t = count_nonnil (t_array t) + length (filter (\<lambda>n. n_val n \<noteq> TNil) (node_vec t))"

lemma rehash_ok:
  assumes C: "conf_ok C" and ok: "tab_ok C H t"
  shows "rehash_by C (newkey C d) t ek = Inl (LuaErr ''table overflow'') \<and> MAXASIZE \<le> live t \<or>
    (\<exists>t'. rehash_by C (newkey C d) t ek = Inr t' \<and> tab_ok C H t' \<and> same_map C t t' \<and>
      t_metatable t' = t_metatable t \<and> (0 < room t' \<or> in_array C (sizearray t') ek))"
proof -
  let ?arr = "t_array t" and ?ns = "node_vec t"
  let ?E = "\<lambda>m. if in_array C m ek then 1 else 0 :: nat"
  have sz: "sizearray t \<le> MAXASIZE" using ok by (simp add: tab_ok_def)
  obtain au nums where 1: "numusearray t (replicate (MAXBITS + 1) 0) = (au, nums)" by fastforce
  obtain hu ns nums' where 2: "numusehash_loop C (rev ?ns) nums 0 0 = (hu, ns, nums')" by (metis prod_cases3)
  obtain c nums'' where 3: "countint C ek nums' = (c, nums'')" by fastforce
  note a = numusearray_ok [OF sz 1]
  note h = numusehash_ok [OF conjunct1 [OF a] 2]
  note e = countint_ok [OF conjunct1 [OF h] 3]
  let ?live = "length (filter (\<lambda>n. n_val n \<noteq> TNil) ?ns)"
  have hu: "hu = ?live" using h by (simp add: rev_filter [symmetric])
  have ps: "psum nums'' i = count_nonnil (take (2 ^ i) ?arr) + hcount C ?ns (2 ^ i) + ?E (2 ^ i)" if "i \<le> MAXBITS" for i
    using a h e that by (simp add: hcount_rev)
  have all: "psum nums'' MAXBITS = au + ns + c"
    using ps [of MAXBITS] a h e sz by (simp add: hcount_rev MAXASIZE_def)
  obtain na n where cs: "computesizes nums'' (au + ns + c) = Inr (na, n)"
    and n: "n = 0 \<and> na = 0 \<or> (\<exists>j \<le> MAXBITS. n = 2 ^ j \<and> na = psum nums'' j \<and> 2 ^ j div 2 < na)"
    using computesizes_loop_ok [of nums'' "au + ns + c" 0 1 0 0 0] e all unfolding computesizes_def by auto
  have nle: "n \<le> MAXASIZE" using n by (auto simp: MAXASIZE_def power_increasing)
  have na: "na = count_nonnil (take n ?arr) + hcount C ?ns n + ?E n"
  proof (cases "n = 0")
    case True
    moreover have "\<not> in_array C 0 k" for k by (simp add: in_array_def)
    ultimately show ?thesis using n by (auto simp: hcount_def)
  next
    case False
    then show ?thesis using n ps by auto
  qed
  let ?nh = "au + hu + 1 - na"
  have split: "au = count_nonnil (take n ?arr) + count_nonnil (drop n ?arr)"
    using a by (metis append_take_drop_id count_nonnil_simps(3))
  have nh: "?nh = count_nonnil (drop n ?arr) + need C n ?ns + 1 - ?E n"
    unfolding split na hu hcount_need [of C ?ns n, symmetric] by simp
  have "length ?ns \<le> 2 ^ 26"
    using ok power_increasing [of "t_lsizenode t" 26 "2::nat"] by (simp add: tab_ok_def sizenode_def MAXBITS_def)
  then have "hu \<le> 2 ^ 26" unfolding hu using length_filter_le order_trans by blast
  moreover have "au \<le> 2 ^ 26" using a sz count_nonnil_le [of ?arr] by (simp add: MAXASIZE_def MAXBITS_def)
  ultimately have lim: "?nh < 2 ^ 32" by simp
  have run: "rehash_by C (newkey C d) t ek = resize_by C (newkey C d) t n ?nh"
    by (simp only: rehash_by_def numusehash_def Let_def 1 2 3 cs prod.case bindR_simps)
  have fits: "count_nonnil (drop n ?arr) + need C n ?ns \<le> ?nh" using nh by simp
  have more: "?nh = count_nonnil (drop n ?arr) + need C n ?ns + (if in_array C n ek then 0 else 1)"
    unfolding nh by simp
  from resize_ok [OF C ok nle lim fits, of d] show ?thesis
  proof (elim disjE exE conjE)
    fix t'
    assume t': "resize_by C (newkey C d) t n ?nh = Inr t'" "tab_ok C H t'" "same_map C t t'" "sizearray t' = n"
      "t_metatable t' = t_metatable t" "?nh \<le> room t' + (count_nonnil (drop n ?arr) + need C n ?ns)"
    have "0 < room t' \<or> in_array C (sizearray t') ek" using t'(4,6) more by (cases "in_array C n ek") simp_all
    then show ?thesis using run t' by simp
  next
    assume o: "resize_by C (newkey C d) t n ?nh = Inl (LuaErr ''table overflow'')" "MAXASIZE < ?nh"
    have "au + hu = live t" using a hu by (simp add: live_def)
    then have "MAXASIZE \<le> live t" using o(2) by linarith
    then show ?thesis using run o(1) by simp
  qed
qed

subsection \<open>Setting a key\<close>

lemma same_map_trans: "same_map C t t' \<Longrightarrow> same_map C t' t'' \<Longrightarrow> same_map C t t''"
  by (simp add: same_map_def)

definition set_result :: "'a luaconf_scheme \<Rightarrow> (addr \<Rightarrow> tstring) \<Rightarrow> ltable \<Rightarrow> tvalue \<Rightarrow> (ltable \<times> slot) lres \<Rightarrow> bool" where
  "set_result C H t k r = (r = Inl (LuaErr ''table overflow'') \<and> MAXASIZE \<le> live t \<or>
     (\<exists>t' s. r = Inr (t', s) \<and> tab_ok C H t' \<and> slot_for C t' k (Some s) \<and> same_map C t t' \<and>
        t_metatable t' = t_metatable t))"

lemma got_set_result: "got C H t k t' s \<Longrightarrow> set_result C H t k (Inr (t', s))"
  by (simp add: set_result_def got_def)

lemma newkey_ok:
  assumes C: "conf_ok C" and ok: "tab_ok C H t" and k: "new_key H (node_vec t) k" and na: "\<not> in_array C (sizearray t) k"
  shows "set_result C H t k (newkey C (Suc d) t k)"
proof -
  let ?g = "\<lambda>t key. bindR (rehash_by C (newkey C d) t key) (\<lambda>t. set_by C (newkey C d) t key)"
  have kk: "proper k" "in_heap H k" using k by (simp_all add: new_key_def)
  consider (a) t' i where "newkey_body C ?g t k = Inr (t', NodeSlot i)" "ins_ok C H t k t' i"
    | (b) lf where "newkey_body C ?g t k = ?g (t\<lparr>t_lastfree := lf\<rparr>) k" "tab_ok C H (t\<lparr>t_lastfree := lf\<rparr>)"
    using newkey_body_cases [OF C ok k na, of ?g] by blast
  then show ?thesis
  proof cases
    case a
    then show ?thesis using got_set_result [OF ins_ok_got [OF C ok na]] by simp
  next
    case (b lf)
    let ?t = "t\<lparr>t_lastfree := lf\<rparr>"
    note g = b(1) and ok1 = b(2)
    have run: "newkey C (Suc d) t k = ?g ?t k" using g by simp
    have m: "same_map C t ?t" by (simp add: same_map_def)
    from rehash_ok [OF C ok1, of d k] show ?thesis
    proof (elim disjE exE conjE)
      assume "rehash_by C (newkey C d) ?t k = Inl (LuaErr ''table overflow'')" "MAXASIZE \<le> live ?t"
      then show ?thesis unfolding run by (simp add: set_result_def live_def)
    next
      fix t1 assume t1: "rehash_by C (newkey C d) ?t k = Inr t1" "tab_ok C H t1" "same_map C ?t t1"
        "t_metatable t1 = t_metatable ?t" "0 < room t1"
      then show ?thesis unfolding run using set_by_room [OF C t1(2) kk, of d] same_map_trans [OF m same_map_trans [OF t1(3)]]
        by (auto simp: set_result_def got_def)
    next
      fix t1 assume t1: "rehash_by C (newkey C d) ?t k = Inr t1" "tab_ok C H t1" "same_map C ?t t1"
        "t_metatable t1 = t_metatable ?t" "in_array C (sizearray t1) k"
      then show ?thesis unfolding run using set_by_room [OF C t1(2) kk, of d] same_map_trans [OF m same_map_trans [OF t1(3)]]
        by (auto simp: set_result_def got_def)
    qed
  qed
qed

lemma luaH_set_ok:
  assumes C: "conf_ok C" and ok: "tab_ok C H t" and k: "proper k" "in_heap H k"
  shows "set_result C H t k (luaH_set C t k)"
proof -
  obtain p where p: "luaH_get C t k = Inr p" "slot_for C t k p" using get_spec [OF C ok k] by blast
  let ?t = "t\<lparr>t_flags := 0\<rparr>"
  have ok': "tab_ok C H ?t" by (rule tab_ok_flags [OF ok])
  have "set_result C H ?t k (luaH_set C t k)"
  proof (cases p)
    case None
    then have n: "new_key H (node_vec ?t) k" "\<not> in_array C (sizearray ?t) k"
      using slot_none_new [OF k] p(2) by auto
    then show ?thesis using newkey_ok [OF C ok' n, of 0] None p k(1)
      by (auto simp: luaH_set_def set_by_def proper_def ttisnil_def newkey_depth_def)
  next
    case (Some s)
    then show ?thesis using p got_set_result [OF got_found [OF ok', of k s]] by (simp add: luaH_set_def set_by_def)
  qed
  then show ?thesis by (simp add: set_result_def same_map_def live_def)
qed

lemma luaH_setnum_ok:
  assumes C: "conf_ok C" and ok: "tab_ok C H t" and k: "is_int k"
  shows "set_result C H t (TNum (cast_num k)) (luaH_setnum C t k)"
proof -
  have pk: "proper (TNum (cast_num k))" "in_heap H (TNum (cast_num k))" by (simp_all add: proper_def in_heap_def)
  obtain p where p: "luaH_getnum C t k = Inr p" "slot_for C t (TNum (cast_num k)) p" using getnum_spec [OF C ok k] by blast
  show ?thesis
  proof (cases p)
    case None
    then have n: "new_key H (node_vec t) (TNum (cast_num k))" "\<not> in_array C (sizearray t) (TNum (cast_num k))"
      using slot_none_new [OF pk] p(2) by auto
    from newkey_ok [OF C ok n, of 0] show ?thesis using None p by (simp add: luaH_setnum_def setnum_by_def newkey_depth_def)
  next
    case (Some s)
    then show ?thesis using p got_set_result [OF got_found [OF ok]] by (simp add: luaH_setnum_def setnum_by_def)
  qed
qed

lemma luaH_setstr_ok:
  assumes C: "conf_ok C" and ok: "tab_ok C H t" and k: "in_heap H (TStr k)"
  shows "set_result C H t (TStr k) (luaH_setstr C t k)"
proof -
  have pk: "proper (TStr k)" by (simp add: proper_def)
  obtain p where p: "luaH_getstr t k = Inr p" "slot_for C t (TStr k) p" using getstr_spec [OF C ok k] by blast
  show ?thesis
  proof (cases p)
    case None
    then have n: "new_key H (node_vec t) (TStr k)" "\<not> in_array C (sizearray t) (TStr k)"
      using slot_none_new [OF pk k] p(2) by auto
    from newkey_ok [OF C ok n, of 0] show ?thesis using None p by (simp add: luaH_setstr_def newkey_depth_def)
  next
    case (Some s)
    then show ?thesis using p got_set_result [OF got_found [OF ok]] by (simp add: luaH_setstr_def)
  qed
qed

lemma luaH_new_ok:
  assumes "na \<le> MAXASIZE" "nh < 2 ^ 32" "luaH_new na nh = Inr t"
  shows "tab_ok C H t \<and> sizearray t = na \<and> (\<forall>k. lookup C t k = TNil)"
proof -
  define t0 where "t0 = \<lparr> t_flags = - 1, t_metatable = None, t_array = [], t_node = None, t_lsizenode = 0, t_lastfree = 0 \<rparr>"
  have a: "t_array (setarrayvector na t0) = replicate na TNil" by (simp add: setarrayvector_def t0_def)
  have run: "setnodevector nh (setarrayvector na t0) = Inr t" using assms(3) by (simp add: luaH_new_def t0_def Let_def)
  from setnodevector_ok [of "setarrayvector na t0" nh C H] a assms(1,2) run have
    "tab_ok C H t" "t_array t = replicate na TNil" "\<forall>k. hash_get (node_vec t) k = TNil" by auto
  then show ?thesis by (auto simp: lookup_def in_array_def)
qed

lemma luaH_resizearray_ok:
  assumes C: "conf_ok C" and ok: "tab_ok C H t" and "nasize \<le> MAXASIZE"
    and fits: "count_nonnil (drop nasize (t_array t)) + need C nasize (node_vec t) \<le> (if t_node t = None then 0 else sizenode t)"
    and run: "luaH_resizearray C t nasize = Inr t'"
  shows "tab_ok C H t' \<and> same_map C t t' \<and> sizearray t' = nasize"
proof -
  have "sizenode t \<le> 2 ^ 26"
    using ok power_increasing [of "t_lsizenode t" 26 "2::nat"] by (simp add: tab_ok_def sizenode_def MAXBITS_def)
  then have "(if t_node t = None then 0 else sizenode t) < 2 ^ 32" by simp
  from resize_ok [OF C ok assms(3) this fits, of newkey_depth] run show ?thesis by (auto simp: luaH_resizearray_def)
qed

end
