(* ===== verification/Lua_Table_Props.thy ===== *)
theory Lua_Table_Props
  imports Lua_Table_Rehash
begin

text \<open>
  What the Lua table promises its clients: it is a map, it is traversed entry by entry, its border
  is one, and its array part is the largest that is more than half full.
\<close>

subsection \<open>Reading and writing a value\<close>

text \<open>\<open>lua_rawget\<close> and \<open>lua_rawset\<close> without the stack: the value in the slot, and a store into it.\<close>

definition tab_get :: "'a luaconf_scheme \<Rightarrow> ltable \<Rightarrow> tvalue \<Rightarrow> tvalue lres" where
  "tab_get C t k = bindR (luaH_get C t k) (\<lambda>p. Inr (slot_val t p))"

definition tab_set :: "'a luaconf_scheme \<Rightarrow> ltable \<Rightarrow> tvalue \<Rightarrow> tvalue \<Rightarrow> ltable lres" where
  "tab_set C t k v = bindR (luaH_set C t k) (\<lambda>(t, s). Inr (set_slot s v t))"

lemma tab_get_lookup: "conf_ok C \<Longrightarrow> tab_ok C H t \<Longrightarrow> proper k \<Longrightarrow> in_heap H k \<Longrightarrow> tab_get C t k = Inr (lookup C t k)"
  using get_val [of C H t k] by (auto simp: tab_get_def)

lemma tab_set_cases:
  assumes C: "conf_ok C" and ok: "tab_ok C H t" and k: "proper k" "in_heap H k"
  shows "tab_set C t k v = Inl (LuaErr ''table overflow'') \<and> MAXASIZE \<le> live t \<or>
    (\<exists>t'. tab_set C t k v = Inr t' \<and> tab_ok C H t' \<and>
       (\<forall>k'. proper k' \<longrightarrow> lookup C t' k' = (if k' = k then v else lookup C t k')))"
proof -
  from luaH_set_ok [OF C ok k] consider "luaH_set C t k = Inl (LuaErr ''table overflow'')" "MAXASIZE \<le> live t"
    | t' s where "luaH_set C t k = Inr (t', s)" "tab_ok C H t'" "slot_for C t' k (Some s)" "same_map C t t'"
    unfolding set_result_def by blast
  then show ?thesis
  proof cases
    case (2 t' s)
    then show ?thesis using set_slot_ok [OF C 2(2) k(1) 2(3)] by (simp add: tab_set_def same_map_def)
  qed (simp add: tab_set_def)
qed

text \<open>C17: The table is a finite map. A store of a proper key into a well-formed table returns (no
  nested resize is ever left over), unless the table has \<open>2 ^ 26\<close> entries and the message is
  ``table overflow''; the new table is well-formed, reads back the stored value at the key, and
  reads what the old one read at every other key - whatever was moved, chained or resized.\<close>

theorem table_is_a_map:
  assumes "conf_ok C" "tab_ok C H t" "proper k" "in_heap H k"
  shows "tab_set C t k v = Inl (LuaErr ''table overflow'') \<and> MAXASIZE \<le> live t \<or>
    (\<exists>t'. tab_set C t k v = Inr t' \<and> tab_ok C H t' \<and>
       (\<forall>k'. proper k' \<longrightarrow> in_heap H k' \<longrightarrow> tab_get C t' k' = (if k' = k then Inr v else tab_get C t k')))"
  using tab_set_cases [OF assms, of v]
proof (elim disjE exE conjE)
  fix t' assume t': "tab_set C t k v = Inr t'" "tab_ok C H t'"
    "\<forall>k'. proper k' \<longrightarrow> lookup C t' k' = (if k' = k then v else lookup C t k')"
  then have "tab_get C t' k' = (if k' = k then Inr v else tab_get C t k')" if "proper k'" "in_heap H k'" for k'
    using tab_get_lookup [OF assms(1) t'(2) that] tab_get_lookup [OF assms(1,2) that] that(1) by simp
  with t'(1,2) show ?thesis by blast
qed simp

definition a_heap :: "addr \<Rightarrow> tstring" where
  "a_heap p = \<lparr>ts_ptr = p, ts_hash = of_nat p, ts_str = []\<rparr>"

definition a_table :: ltable where
  "a_table = \<lparr>t_flags = 0, t_metatable = None, t_array = [TBool True, TNil, TBool False, TNil], t_node = None,
     t_lsizenode = 0, t_lastfree = 0\<rparr>"

lemma a_table_ok: "tab_ok trunc_conf a_heap a_table"
  using chain_ok_fresh [of trunc_conf a_heap 1]
  by (simp add: tab_ok_def a_table_def node_vec_def sizenode_def dummynode_def MAXASIZE_def MAXBITS_def)

lemma table_is_a_map_witness:
  "\<exists>t'. tab_set trunc_conf a_table (TStr (a_heap 7)) (TNum (Fin 1)) = Inr t' \<and> tab_ok trunc_conf a_heap t' \<and>
     tab_get trunc_conf t' (TStr (a_heap 7)) = Inr (TNum (Fin 1))"
proof -
  have k: "proper (TStr (a_heap 7))" "in_heap a_heap (TStr (a_heap 7))"
    by (simp_all add: proper_def in_heap_def a_heap_def)
  have "\<not> MAXASIZE \<le> live a_table"
    by (simp add: live_def a_table_def node_vec_def dummynode_def MAXASIZE_def MAXBITS_def)
  with table_is_a_map [OF trunc_conf_ok a_table_ok k, of "TNum (Fin 1)"] k show ?thesis by fastforce
qed

text \<open>C19: Storing under nil or under NaN is refused with its message and leaves no table; reading
  there is nil.\<close>

theorem table_bad_keys:
  assumes "conf_ok C" "tab_ok C H t"
  shows "luaH_set C t TNil = Inl (LuaErr ''table index is nil'') \<and>
    luaH_set C t (TNum NaN) = Inl (LuaErr ''table index is NaN'') \<and>
    tab_get C t TNil = Inr TNil \<and> tab_get C t (TNum NaN) = Inr TNil"
proof -
  have "luaH_get C t TNil = Inr None" by (simp add: luaH_get_def)
  then show ?thesis using get_nan [OF assms]
    by (simp add: luaH_set_def set_by_def ttisnil_def tab_get_def)
qed

lemma table_bad_keys_witness:
  "luaH_set trunc_conf a_table (TNum NaN) = Inl (LuaErr ''table index is NaN'')"
  using table_bad_keys [OF trunc_conf_ok a_table_ok] by blast

subsection \<open>Traversal\<close>

text \<open>The entries by position: the array part, then the nodes.\<close>

definition entry_at :: "ltable \<Rightarrow> nat \<Rightarrow> tvalue \<times> tvalue" where
  "entry_at t i = (if i < sizearray t then (TNum (cast_num (int i + 1)), t_array t ! i)
     else (n_key (node_vec t ! (i - sizearray t)), n_val (node_vec t ! (i - sizearray t))))"

definition pairs_from :: "ltable \<Rightarrow> nat \<Rightarrow> (tvalue \<times> tvalue) list" where
  "pairs_from t i = filter (\<lambda>p. snd p \<noteq> TNil) (map (entry_at t) [i ..< sizearray t + length (node_vec t)])"

definition nth_opt :: "'b list \<Rightarrow> nat \<Rightarrow> 'b option" where
  "nth_opt xs i = (if i < length xs then Some (xs ! i) else None)"

lemma next_array_filter:
  "next_array vs i = (case filter (\<lambda>p. snd p \<noteq> TNil) (zip [i ..< i + length vs] vs) of [] \<Rightarrow> None | p # _ \<Rightarrow> Some p)"
  by (induction vs arbitrary: i) (auto simp: ttisnil_def upt_conv_Cons simp del: upt_Suc)

lemma next_node_filter:
  "next_node ns = (case filter (\<lambda>p. snd p \<noteq> TNil) (map (\<lambda>n. (n_key n, n_val n)) ns) of [] \<Rightarrow> None | p # _ \<Rightarrow> Some p)"
  by (induction ns) (auto simp: ttisnil_def)

lemma nth_opt_0: "nth_opt xs 0 = (case xs of [] \<Rightarrow> None | p # _ \<Rightarrow> Some p)"
  by (cases xs) (simp_all add: nth_opt_def)

lemma filter_at:
  "m < length (filter P ys) \<Longrightarrow> \<exists>i < length ys. ys ! i = filter P ys ! m \<and> P (ys ! i) \<and>
     filter P (drop (Suc i) ys) = drop (Suc m) (filter P ys)"
proof (induction ys arbitrary: m)
  case (Cons y ys)
  show ?case
  proof (cases "P y \<and> m = 0")
    case True
    then show ?thesis by (intro exI [of _ 0]) simp
  next
    case False
    let ?m = "if P y then m - 1 else m"
    have "?m < length (filter P ys)" using False Cons.prems by (auto split: if_splits)
    from Cons.IH [OF this] obtain i where "i < length ys" "ys ! i = filter P ys ! ?m" "P (ys ! i)"
      "filter P (drop (Suc i) ys) = drop (Suc ?m) (filter P ys)" by blast
    then show ?thesis using False by (intro exI [of _ "Suc i"]) (cases m; auto split: if_splits)
  qed
qed simp

lemma next_from:
  assumes "findindex C t k = Inr (int i - 1)" "i \<le> sizearray t + length (node_vec t)"
  shows "luaH_next C t k = Inr (nth_opt (pairs_from t i) 0)"
proof -
  let ?z = "sizearray t" and ?nz = "\<lambda>p :: tvalue \<times> tvalue. snd p \<noteq> TNil" and ?na = "\<lambda>p :: nat \<times> tvalue. snd p \<noteq> TNil"
  let ?f = "\<lambda>(j :: nat, v :: tvalue). (TNum (cast_num (int j + 1)), v)"
  have arr: "map (entry_at t) [i ..< ?z] = map ?f (zip [i ..< ?z] (drop i (t_array t)))"
    by (rule nth_equalityI) (auto simp: entry_at_def)
  have nod: "map (entry_at t) [max i ?z ..< ?z + length (node_vec t)] =
      map (\<lambda>n. (n_key n, n_val n)) (drop (max i ?z - ?z) (node_vec t))"
    using assms(2) by (intro nth_equalityI) (auto simp: entry_at_def max_def)
  have sp: "[i ..< ?z + length (node_vec t)] = [i ..< ?z] @ [max i ?z ..< ?z + length (node_vec t)]"
    using assms(2) upt_add_eq_append [of i ?z "length (node_vec t)"] by (cases "i \<le> ?z") (simp_all add: max_def)
  have pf: "pairs_from t i = map ?f (filter ?na (zip [i ..< ?z] (drop i (t_array t)))) @
      filter ?nz (map (\<lambda>n. (n_key n, n_val n)) (drop (max i ?z - ?z) (node_vec t)))"
    unfolding pairs_from_def sp map_append filter_append arr nod
    by (simp add: filter_map o_def split_def)
  have z: "[i ..< i + length (drop i (t_array t))] = [i ..< ?z]" by (cases "i \<le> ?z") simp_all
  have "luaH_next C t k = Inr (case next_array (drop i (t_array t)) i of
       Some (j, v) \<Rightarrow> Some (TNum (cast_num (int j + 1)), v)
     | None \<Rightarrow> next_node (drop (max i ?z - ?z) (node_vec t)))"
  proof -
    have e: "nat (int i - 1 + 1) = i" by simp
    show ?thesis by (simp only: luaH_next_def assms(1) Let_def bindR_simps e)
  qed
  also have "\<dots> = Inr (nth_opt (pairs_from t i) 0)"
  proof (cases "filter ?na (zip [i ..< ?z] (drop i (t_array t)))")
    case Nil
    show ?thesis unfolding next_array_filter next_node_filter z nth_opt_0 pf
      by (simp only: Nil list.case option.case list.map append_Nil)
  next
    case (Cons p ps)
    obtain j v where "p = (j, v)" by fastforce
    then show ?thesis unfolding next_array_filter next_node_filter z nth_opt_0 pf
      by (simp only: Cons list.case option.case prod.case list.map append_Cons)
  qed
  finally show ?thesis .
qed


lemma is_int_array:
  assumes C: "conf_ok C" and ok: "tab_ok C H t"
  shows "i < sizearray t \<Longrightarrow> is_int (int i + 1)"
  using tab_len(2) [OF C ok] by (simp add: is_int_def)

lemma entry_lookup:
  assumes C: "conf_ok C" and ok: "tab_ok C H t"
  assumes "i < sizearray t + length (node_vec t)" "snd (entry_at t i) \<noteq> TNil"
  shows "proper (fst (entry_at t i)) \<and> lookup C t (fst (entry_at t i)) = snd (entry_at t i)"
proof (cases "i < sizearray t")
  case True
  then show ?thesis using arrayindex_cast [OF C is_int_array [OF C ok True]]
    by (simp add: entry_at_def proper_def lookup_def in_array_def)
next
  case False
  let ?j = "i - sizearray t"
  have j: "?j < length (node_vec t)" using assms(3) False by simp
  then have "proper (n_key (node_vec t ! ?j))" using ok_node [OF tab_chain [OF C ok] j] assms(4) False by (simp add: entry_at_def)
  then show ?thesis using hash_get_at [OF tab_chain [OF C ok] j refl] tab_not_in_array [OF ok j] False
    by (simp add: entry_at_def lookup_def)
qed

text \<open>\<open>findindex\<close> stops at the node of a key, or at the dead key that node has become: on the way
  there it meets no other that it would take for it.\<close>

lemma findindex_node:
  assumes C: "conf_ok C" and ok: "tab_ok C H t" and j: "j < length (node_vec t)"
    and k: "proper k" "in_heap H k" "\<not> in_array C (sizearray t) k"
    and path: "reach (node_vec t) (mainposition C (sizenode t) k) j"
    and hit: "n_key (node_vec t ! j) = k \<or> (\<exists>a. n_key (node_vec t ! j) = TDead a \<and> iscollectable k \<and> gcvalue k = Some a)"
    and first: "\<And>m. reach (node_vec t) (mainposition C (sizenode t) k) m \<Longrightarrow> reach (node_vec t) m j \<Longrightarrow> m \<noteq> j \<Longrightarrow>
      n_key (node_vec t ! m) \<noteq> k \<and> (\<forall>a. n_key (node_vec t ! m) = TDead a \<longrightarrow> gcvalue k \<noteq> Some a)"
  shows "findindex C t k = Inr (int j + int (sizearray t))"
proof -
  let ?P = "\<lambda>n. luaO_rawequalObj (n_key n) k \<or> (\<exists>p. n_key n = TDead p \<and> iscollectable k \<and> Some p = gcvalue k)"
  let ?m = "mainposition C (sizenode t) k"
  note ch = tab_chain [OF C ok]
  have ml: "?m < length (node_vec t)" by (rule tab_main_less [OF C ok])
  obtain r where r: "chain_find ?P (node_vec t) (length (node_vec t)) (Some ?m) = Inr r"
    "case r of Some i \<Rightarrow> reach (node_vec t) ?m i \<and> ?P (node_vec t ! i) | None \<Rightarrow> \<forall>i. reach (node_vec t) ?m i \<longrightarrow> \<not> ?P (node_vec t ! i)"
    using find_reach [OF ch ml, of ?P] by blast
  have Pj: "?P (node_vec t ! j)"
    using hit rawequal_in_heap [OF k(2,2,1)] by auto
  obtain m where m: "r = Some m" using r(2) path Pj by (cases r) auto
  have mr: "reach (node_vec t) ?m m" "?P (node_vec t ! m)" using r(2) m by auto
  have mj: "reach (node_vec t) m j" by (rule chain_find_first [OF r(1) [unfolded m] ml path Pj])
  have "m = j"
  proof (rule ccontr)
    assume "m \<noteq> j"
    note f = first [OF mr(1) mj this]
    have "in_heap H (n_key (node_vec t ! m))" using ok_node [OF ch ok_reach_less [OF ch mr(1) ml]] by blast
    then show False using mr(2) f rawequal_in_heap [OF _ k(2,1)] by auto
  qed
  then show ?thesis using r(1) m k(1,3) proper_nonnil
    by (auto simp: findindex_def find_node_def Let_def in_array_def ttisnil_def)
qed

text \<open>No dead key comes before a key in use, so the key's own node is the one found.\<close>

lemma node_findindex:
  assumes C: "conf_ok C" and ok: "tab_ok C H t" and j: "j < length (node_vec t)" and pk: "proper (n_key (node_vec t ! j))"
  defines "k \<equiv> n_key (node_vec t ! j)" and "v \<equiv> node_vec t"
  shows "findindex C t k = Inr (int j + int (sizearray t))" and "reach v (mainposition C (sizenode t) k) j"
    and "reach v (mainposition C (sizenode t) k) m \<Longrightarrow> reach v m j \<Longrightarrow> m \<noteq> j \<Longrightarrow>
      n_key (v ! m) \<noteq> k \<and> (\<forall>a. n_key (v ! m) = TDead a \<longrightarrow> gcvalue k \<noteq> Some a)"
proof -
  note ch = tab_chain [OF C ok]
  have mp: "mainposition C (sizenode t) k = mainposition C (length v) k" using tab_len(1) [OF C ok] by (simp add: v_def)
  have path: "reach v (mainposition C (sizenode t) k) j" using ok_main [OF ch j pk] mp by (simp add: k_def v_def)
  have first: "n_key (v ! m) \<noteq> k \<and> (\<forall>a. n_key (v ! m) = TDead a \<longrightarrow> gcvalue k \<noteq> Some a)"
    if "reach v (mainposition C (sizenode t) k) m" "reach v m j" "m \<noteq> j" for m
  proof -
    have l: "m < length v" using ok_reach_less [OF ch] that(1) tab_main_less [OF C ok] unfolding v_def by blast
    have "n_key (v ! m) \<noteq> k" using ok_distinct [OF ch j _ pk, of m] that(3) l by (auto simp: k_def v_def)
    moreover have "gcvalue k \<noteq> Some a" if "n_key (v ! m) = TDead a" for a
      using ok_dead [OF ch j pk refl, of m a] \<open>reach v m j\<close> \<open>reach v (mainposition C (sizenode t) k) m\<close> that mp
      by (simp add: k_def v_def)
    ultimately show ?thesis by blast
  qed
  have "in_heap H k" using ok_node [OF ch j] by (simp add: k_def)
  then show "findindex C t k = Inr (int j + int (sizearray t))"
    using path first pk by (intro findindex_node [OF C ok j]) (auto simp: k_def v_def tab_not_in_array [OF ok j])
  show "reach v (mainposition C (sizenode t) k) j" by (rule path)
  show "reach v (mainposition C (sizenode t) k) m \<Longrightarrow> reach v m j \<Longrightarrow> m \<noteq> j \<Longrightarrow>
      n_key (v ! m) \<noteq> k \<and> (\<forall>a. n_key (v ! m) = TDead a \<longrightarrow> gcvalue k \<noteq> Some a)" by (rule first)
qed

lemma entry_findindex:
  assumes C: "conf_ok C" and ok: "tab_ok C H t"
  assumes i: "i < sizearray t + length (node_vec t)" "snd (entry_at t i) \<noteq> TNil"
  shows "findindex C t (fst (entry_at t i)) = Inr (int i)"
proof (cases "i < sizearray t")
  case True
  then show ?thesis using arrayindex_cast [OF C is_int_array [OF C ok True]]
    by (simp add: entry_at_def findindex_def ttisnil_def)
next
  case False
  have j: "i - sizearray t < length (node_vec t)" using i(1) False by simp
  have "proper (n_key (node_vec t ! (i - sizearray t)))"
    using ok_node [OF tab_chain [OF C ok] j] i(2) False by (simp add: entry_at_def)
  from node_findindex(1) [OF C ok j this] show ?thesis using False by (simp add: entry_at_def of_nat_diff)
qed

text \<open>C18: A traversal that starts at nil and continues from each key it is given visits every entry
  exactly once, in a fixed order, and then ends - in every table the operations and the collector
  can make, dead keys included: a dead key with the address of a key in use only ever stands
  behind it in the chain.\<close>

theorem next_visits_every_entry:
  assumes C: "conf_ok C" and ok: "tab_ok C H t"
  shows "\<exists>ps. distinct (map fst ps) \<and>
    (\<forall>k v. (k, v) \<in> set ps \<longleftrightarrow> proper k \<and> v \<noteq> TNil \<and> lookup C t k = v) \<and>
    luaH_next C t TNil = Inr (nth_opt ps 0) \<and>
    (\<forall>m < length ps. luaH_next C t (fst (ps ! m)) = Inr (nth_opt ps (m + 1)))"
proof (intro exI conjI allI impI)
  let ?z = "sizearray t" and ?n = "length (node_vec t)"
  let ?ys = "map (entry_at t) [0 ..< ?z + ?n]" and ?nz = "\<lambda>p :: tvalue \<times> tvalue. snd p \<noteq> TNil"
  let ?ps = "pairs_from t 0"
  have ps: "?ps = filter ?nz ?ys" by (simp add: pairs_from_def)
  show "luaH_next C t TNil = Inr (nth_opt ?ps 0)" by (rule next_from) (simp_all add: findindex_def ttisnil_def)
  show "luaH_next C t (fst (?ps ! m)) = Inr (nth_opt ?ps (m + 1))" if "m < length ?ps" for m
  proof -
    obtain i where i: "i < ?z + ?n" "entry_at t i = ?ps ! m" "?nz (entry_at t i)"
      "filter ?nz (drop (Suc i) ?ys) = drop (Suc m) ?ps"
      using filter_at [of m ?nz ?ys] \<open>m < length ?ps\<close> unfolding ps by auto
    have "findindex C t (fst (?ps ! m)) = Inr (int (Suc i) - 1)"
      using entry_findindex [OF C ok i(1,3)] i(2) by simp
    then have "luaH_next C t (fst (?ps ! m)) = Inr (nth_opt (pairs_from t (Suc i)) 0)"
      by (rule next_from) (use i(1) in simp)
    moreover have "pairs_from t (Suc i) = drop (Suc m) ?ps"
      using i(4) by (simp add: pairs_from_def drop_map)
    ultimately show ?thesis by (simp add: nth_opt_def)
  qed
  have idx: "i = j" if "i < ?z + ?n" "j < ?z + ?n" "?nz (entry_at t i)" "?nz (entry_at t j)"
    "fst (entry_at t i) = fst (entry_at t j)" for i j
    using entry_findindex [OF C ok that(1,3), unfolded that(5)] entry_findindex [OF C ok that(2,4)] by simp
  have "distinct (map fst (filter ?nz (map (entry_at t) [0 ..< m])))" if "m \<le> ?z + ?n" for m
    using that
  proof (induction m)
    case (Suc m)
    have "fst (entry_at t m) \<notin> fst ` {p \<in> entry_at t ` {0 ..< m}. ?nz p}" if "?nz (entry_at t m)"
    proof
      assume "fst (entry_at t m) \<in> fst ` {p \<in> entry_at t ` {0 ..< m}. ?nz p}"
      then obtain i where "i < m" "?nz (entry_at t i)" "fst (entry_at t m) = fst (entry_at t i)" by auto
      then show False using idx [of m i] that Suc.prems by simp
    qed
    moreover have "distinct (map fst (filter ?nz (map (entry_at t) [0 ..< m])))" using Suc by simp
    moreover have "set (map fst (filter ?nz (map (entry_at t) [0 ..< m]))) = fst ` {p \<in> entry_at t ` {0 ..< m}. ?nz p}"
      by simp
    moreover have "[0 ..< Suc m] = [0 ..< m] @ [m]" by simp
    ultimately show ?case
      by (cases "?nz (entry_at t m)") (simp_all only: map_append filter_append list.map filter.simps if_True if_False
        distinct_append distinct.simps append_Nil2 list.set Int_insert_right_if0 Int_empty_right empty_iff not_False_eq_True simp_thms)
  qed simp
  then show "distinct (map fst ?ps)" unfolding ps by blast
  show "(k, v) \<in> set ?ps \<longleftrightarrow> proper k \<and> v \<noteq> TNil \<and> lookup C t k = v" for k v
  proof
    assume "(k, v) \<in> set ?ps"
    then obtain i where "i < ?z + ?n" "entry_at t i = (k, v)" "v \<noteq> TNil" unfolding ps by auto
    then show "proper k \<and> v \<noteq> TNil \<and> lookup C t k = v" using entry_lookup [OF C ok, of i] by simp
  next
    assume k: "proper k \<and> v \<noteq> TNil \<and> lookup C t k = v"
    have "\<exists>i < ?z + ?n. entry_at t i = (k, v)"
    proof (cases "in_array C ?z k")
      case True
      let ?i = "nat (arrayindex C k - 1)"
      have "?i < ?z" "k = TNum (cast_num (int ?i + 1))"
        using True arrayindex_pos [OF C, of k] by (auto simp: in_array_def)
      then show ?thesis using k True by (intro exI [of _ ?i]) (simp add: entry_at_def lookup_def)
    next
      case False
      then have "(k, v) \<in> entries (node_vec t)"
        using k hash_get_entries [OF tab_chain [OF C ok], of k v] by (simp add: lookup_def)
      then obtain j where "j < ?n" "n_key (node_vec t ! j) = k" "n_val (node_vec t ! j) = v" by (auto simp: entries_nth)
      then show ?thesis by (intro exI [of _ "?z + j"]) (simp add: entry_at_def)
    qed
    then show "(k, v) \<in> set ?ps" using k unfolding ps by (force simp: image_iff)
  qed
qed

lemma next_visits_every_entry_witness:
  "\<exists>ps. distinct (map fst ps) \<and> (TNum (cast_num 3), TBool False) \<in> set ps \<and>
    luaH_next trunc_conf a_table TNil = Inr (nth_opt ps 0)"
proof -
  have "arrayindex trunc_conf (TNum (cast_num 3)) = 3" by (rule arrayindex_cast [OF trunc_conf_ok]) (simp add: is_int_def)
  then have "lookup trunc_conf a_table (TNum (cast_num 3)) = TBool False"
    by (simp add: lookup_def in_array_def a_table_def)
  moreover have "proper (TNum (cast_num 3))" by (simp add: proper_def)
  ultimately show ?thesis using next_visits_every_entry [OF trunc_conf_ok a_table_ok] by (metis tvalue.distinct(1))
qed

subsection \<open>What the collector does to a table\<close>

text \<open>\<open>lua/lgc.c\<close>: the entry in a node is emptied and its key declared dead if it is an object
  (\<open>cleartable\<close>; \<open>traversetable\<close> does it to a node whose value is nil already).\<close>

definition removeentry :: "node \<Rightarrow> node" where
  "removeentry n = (case n_key n of
     TStr s \<Rightarrow> n\<lparr>n_key := TDead (ts_ptr s)\<rparr> | TGC g a \<Rightarrow> n\<lparr>n_key := TDead a\<rparr> | _ \<Rightarrow> n)"

definition clear_node :: "nat \<Rightarrow> ltable \<Rightarrow> ltable" where
  "clear_node i t = upd_node removeentry i (upd_node (n_val_update (\<lambda>_. TNil)) i t)"

lemma removeentry_cases:
  obtains "removeentry n = n" "gcvalue (n_key n) = None \<or> (\<exists>a. n_key n = TDead a)"
  | a where "removeentry n = n\<lparr>n_key := TDead a\<rparr>" "iscollectable (n_key n)" "gcvalue (n_key n) = Some a"
  by (cases "n_key n") (auto simp: removeentry_def)

lemma proper_some: "i < length (node_vec t) \<Longrightarrow> proper (n_key (node_vec t ! i)) \<Longrightarrow> t_node t \<noteq> None"
  by (cases "t_node t") (simp_all add: node_vec_def dummynode_def)

text \<open>Declaring the key of an empty node dead.\<close>

lemma dead_node_ok:
  assumes C: "conf_ok C" and ok: "tab_ok C H t" and i: "i < length (node_vec t)" "n_val (node_vec t ! i) = TNil"
    and k: "proper (n_key (node_vec t ! i))" "gcvalue (n_key (node_vec t ! i)) = Some a"
    and one: "\<And>j. j < length (node_vec t) \<Longrightarrow> j \<noteq> i \<Longrightarrow> proper (n_key (node_vec t ! j)) \<Longrightarrow>
      gcvalue (n_key (node_vec t ! j)) \<noteq> Some a"
  defines "t' \<equiv> upd_node (\<lambda>n. n\<lparr>n_key := TDead a\<rparr>) i t"
  shows "tab_ok C H t'" and "proper k' \<Longrightarrow> lookup C t' k' = lookup C t k'"
    and "reach (node_vec t') = reach (node_vec t)"
proof -
  note ch = tab_chain [OF C ok] and some = proper_some [OF i(1) k(1)]
  let ?v = "(node_vec t)[i := (node_vec t ! i)\<lparr>n_key := TDead a\<rparr>]"
  have v: "node_vec t' = ?v" using some by (simp add: t'_def)
  have at: "?v ! j = (if j = i then (node_vec t ! i)\<lparr>n_key := TDead a\<rparr> else node_vec t ! j)" for j
    using i(1) by (simp add: nth_list_update)
  have c': "chain_ok C H ?v" by (rule chain_ok_dead [OF ch i one proper_nonnil [OF k(1)]])
  show "tab_ok C H t'"
  proof (rule tab_ok_vec [OF ok some, where v' = ?v])
    show "t_node t' = Some ?v" using node_some [of t'] some v by (simp add: t'_def)
    show "\<not> in_array C (sizearray t) (n_key (?v ! j))" if "j < length ?v" for j
      using tab_not_in_array [OF ok, of j] that by (simp add: at)
    show "n_key (?v ! j) \<noteq> TNil" if "j < length ?v" "t_lastfree t' \<le> int j" for j
      using tab_lastfree [OF ok some, of j] that by (simp add: at t'_def)
  qed (use c' in \<open>simp_all add: t'_def\<close>)
  show "lookup C t' k' = lookup C t k'" if k': "proper k'"
  proof -
    have "entries ?v = entries (node_vec t)"
    proof (rule set_eqI, rule prod.induct)
      fix x y
      show "(x, y) \<in> entries ?v \<longleftrightarrow> (x, y) \<in> entries (node_vec t)"
        unfolding entries_nth by (rule conj_cong [OF refl]) (use i(2) in \<open>auto simp: at split: if_splits\<close>)
    qed
    then have "hash_get ?v k' = hash_get (node_vec t) k'" by (intro hash_get_eqI [OF c' ch k']) simp
    then show ?thesis unfolding lookup_def v by (simp add: t'_def)
  qed
  have "edge ?v i' j \<longleftrightarrow> edge (node_vec t) i' j" for i' j by (auto simp: edge_def at)
  then show "reach (node_vec t') = reach (node_vec t)" unfolding v by presburger
qed

text \<open>C7: The collector may clear an entry at any time, also while a traversal stands at it. The table
  stays well-formed, reads nil at the cleared key and what it read before at every other key; and
  the traversal goes on from the cleared key, now dead, exactly as it would have gone on. (No
  other key of the table is the same object.)\<close>

theorem cleared_entry_is_gone:
  assumes C: "conf_ok C" and ok: "tab_ok C H t" and i: "i < length (node_vec t)"
    and k: "n_key (node_vec t ! i) = k" "proper k"
    and one: "\<And>j. j < length (node_vec t) \<Longrightarrow> j \<noteq> i \<Longrightarrow> proper (n_key (node_vec t ! j)) \<Longrightarrow>
      gcvalue k \<noteq> None \<Longrightarrow> gcvalue (n_key (node_vec t ! j)) \<noteq> gcvalue k"
  shows "tab_ok C H (clear_node i t) \<and>
    (\<forall>k'. proper k' \<and> in_heap H k' \<longrightarrow> tab_get C (clear_node i t) k' = (if k' = k then Inr TNil else tab_get C t k')) \<and>
    luaH_next C (clear_node i t) k = luaH_next C t k"
proof -
  note ch = tab_chain [OF C ok]
  have some: "t_node t \<noteq> None" using proper_some [OF i] k by simp
  let ?t = "set_slot (NodeSlot i) TNil t"
  have na: "\<not> in_array C (sizearray t) k" using tab_not_in_array [OF ok i] k(1) by simp
  have s: "slot_for C t k (Some (NodeSlot i))" using na i k(1) by (simp add: slot_for_def)
  have ok1: "tab_ok C H ?t" by (rule set_slot_ok(1) [OF C ok k(2) s])
  have v1: "node_vec ?t = (node_vec t)[i := (node_vec t ! i)\<lparr>n_val := TNil\<rparr>]" using some by simp
  have at1: "n_key (node_vec ?t ! j) = n_key (node_vec t ! j)" "n_val (node_vec ?t ! i) = TNil" for j
    using i unfolding v1 by (simp_all add: nth_list_update)
  have l1: "lookup C ?t k' = (if k' = k then TNil else lookup C t k')" if "proper k'" for k'
    by (rule set_slot_ok(3) [OF C ok k(2) s that])
  have ht: "in_heap H k" using ok_node [OF ch i] k(1) by simp
  have "tab_ok C H (clear_node i t) \<and> (\<forall>k'. proper k' \<longrightarrow> lookup C (clear_node i t) k' = lookup C ?t k') \<and>
    findindex C (clear_node i t) k = Inr (int i + int (sizearray t))"
  proof (cases rule: removeentry_cases [of "node_vec ?t ! i"])
    case 1
    then have "clear_node i t = ?t" using some node_some [of ?t] v1 i
      by (simp add: clear_node_def upd_node_def node_vec_def nth_list_update split: option.splits)
    moreover have "findindex C ?t k = Inr (int i + int (sizearray ?t))"
      using node_findindex(1) [OF C ok1, of i] i k at1(1) [of i] unfolding v1 by simp
    ultimately show ?thesis using ok1 by simp
  next
    case (2 a)
    let ?u = "upd_node (\<lambda>n. n\<lparr>n_key := TDead a\<rparr>) i ?t"
    have u: "clear_node i t = ?u" using 2(1) some v1 i
      by (simp add: clear_node_def upd_node_def node_vec_def nth_list_update split: option.splits)
    have ga: "gcvalue k = Some a" "iscollectable k" using 2(2,3) at1(1) k(1) by simp_all
    have one1: "gcvalue (n_key (node_vec ?t ! j)) \<noteq> Some a"
      if "j < length (node_vec ?t)" "j \<noteq> i" "proper (n_key (node_vec ?t ! j))" for j
      using one [of j] that ga(1) at1(1) v1 by simp
    have i1: "i < length (node_vec ?t)" "proper (n_key (node_vec ?t ! i))" using i k at1(1) v1 by simp_all
    note d = dead_node_ok [OF C ok1 i1(1) at1(2) i1(2) 2(3) one1]
    have vu: "node_vec ?u ! j = (if j = i then (node_vec ?t ! i)\<lparr>n_key := TDead a\<rparr> else node_vec ?t ! j)"
      "length (node_vec ?u) = length (node_vec ?t)" for j
      using some i1(1) by (simp_all add: nth_list_update del: set_slot.simps)
    have k1: "n_key (node_vec ?t ! i) = k" using at1(1) k(1) by simp
    note f = node_findindex(2,3) [OF C ok1 i1, unfolded k1]
    have "findindex C ?u k = Inr (int i + int (sizearray ?u))"
    proof (rule findindex_node [OF C d(1) _ k(2) ht])
      show "i < length (node_vec ?u)" using vu i1(1) by simp
      show "\<not> in_array C (sizearray ?u) k" using na by simp
      show "reach (node_vec ?u) (mainposition C (sizenode ?u) k) i" using f(1) d(3) by simp
      show "n_key (node_vec ?u ! i) = k \<or> (\<exists>a. n_key (node_vec ?u ! i) = TDead a \<and> iscollectable k \<and> gcvalue k = Some a)"
        using vu ga by simp
      show "n_key (node_vec ?u ! m) \<noteq> k \<and> (\<forall>a. n_key (node_vec ?u ! m) = TDead a \<longrightarrow> gcvalue k \<noteq> Some a)"
        if "reach (node_vec ?u) (mainposition C (sizenode ?u) k) m" "reach (node_vec ?u) m i" "m \<noteq> i" for m
        using f(2) [of m] that d(3) vu(1) [of m] by simp
    qed
    then show ?thesis using d(1,2) unfolding u by simp
  qed
  then have ok': "tab_ok C H (clear_node i t)" and l': "\<And>k'. proper k' \<Longrightarrow> lookup C (clear_node i t) k' = (if k' = k then TNil else lookup C t k')"
    and fi: "findindex C (clear_node i t) k = Inr (int (Suc (i + sizearray t)) - 1)" using l1 by simp_all
  have "findindex C t k = Inr (int (Suc (i + sizearray t)) - 1)" using node_findindex(1) [OF C ok i] k by simp
  from next_from [OF this] i have n: "luaH_next C t k = Inr (nth_opt (pairs_from t (Suc (i + sizearray t))) 0)" by simp
  have len: "length (node_vec (clear_node i t)) = length (node_vec t)" "t_array (clear_node i t) = t_array t"
    using some by (simp_all add: clear_node_def)
  have "pairs_from (clear_node i t) (Suc (i + sizearray t)) = pairs_from t (Suc (i + sizearray t))"
  proof -
    have "entry_at (clear_node i t) j = entry_at t j" if "Suc (i + sizearray t) \<le> j" for j
      using that some len by (simp add: entry_at_def clear_node_def)
    then have "map (entry_at (clear_node i t)) [Suc (i + sizearray t) ..< sizearray t + length (node_vec t)] =
      map (entry_at t) [Suc (i + sizearray t) ..< sizearray t + length (node_vec t)]" by (intro map_cong) simp_all
    then show ?thesis unfolding pairs_from_def len by (simp only:)
  qed
  then have "luaH_next C (clear_node i t) k = luaH_next C t k" using next_from [OF fi] i n len by simp
  moreover have "tab_get C (clear_node i t) k' = (if k' = k then Inr TNil else tab_get C t k')"
    if "proper k'" "in_heap H k'" for k'
    using tab_get_lookup [OF C ok' that] tab_get_lookup [OF C ok that] l' [OF that(1)] by simp
  ultimately show ?thesis using ok' by blast
qed

text \<open>Two nodes, each in its main position: a string and \<open>true\<close>. The string is cleared.\<close>

definition b_table :: ltable where
  "b_table = \<lparr>t_flags = 0, t_metatable = None, t_array = [], t_node = Some
     [\<lparr>n_val = TNum (Fin 1), n_key = TStr (a_heap 6), n_next = None\<rparr>,
      \<lparr>n_val = TNum (Fin 2), n_key = TBool True, n_next = None\<rparr>],
     t_lsizenode = 1, t_lastfree = 2\<rparr>"

lemma b_table_ok: "tab_ok trunc_conf a_heap b_table"
proof -
  let ?s = "\<lparr>ts_ptr = 6, ts_hash = 6, ts_str = []\<rparr>"
  have v: "node_vec b_table = [\<lparr>n_val = TNum (Fin 1), n_key = TStr ?s, n_next = None\<rparr>,
      \<lparr>n_val = TNum (Fin 2), n_key = TBool True, n_next = None\<rparr>]" (is "_ = ?v")
    by (simp add: b_table_def node_vec_def a_heap_def)
  have no: "\<not> edge ?v i j" for i j by (auto simp: edge_def nth_Cons split: nat.splits)
  then have re: "reach ?v i j \<longleftrightarrow> i = j" for i j by (metis converse_rtranclpE rtranclp.rtrancl_refl)
  have m: "mainposition trunc_conf 2 (TStr ?s) = 0" "mainposition trunc_conf 2 (TBool True) = 1"
    by (simp_all add: hashpow2_def)
  have c: "i < 2 \<longleftrightarrow> i = 0 \<or> i = Suc 0" for i :: nat by auto
  have "chain_ok trunc_conf a_heap ?v"
    by (rule chain_okI [where r = id])
      (use no m in \<open>auto simp: re c numeral_2_eq_2 [symmetric] proper_def in_heap_def a_heap_def less_Suc_eq\<close>)
  then show ?thesis unfolding tab_ok_def v by (simp add: b_table_def sizenode_def MAXASIZE_def MAXBITS_def less_Suc_eq)
qed

lemma cleared_entry_is_gone_witness:
  "tab_get trunc_conf (clear_node 0 b_table) (TStr (a_heap 6)) = Inr TNil \<and>
   luaH_next trunc_conf (clear_node 0 b_table) (TStr (a_heap 6)) = luaH_next trunc_conf b_table (TStr (a_heap 6)) \<and>
   n_key (node_vec (clear_node 0 b_table) ! 0) = TDead 6"
proof -
  have v: "node_vec b_table = [\<lparr>n_val = TNum (Fin 1), n_key = TStr (a_heap 6), n_next = None\<rparr>,
      \<lparr>n_val = TNum (Fin 2), n_key = TBool True, n_next = None\<rparr>]"
    by (simp add: b_table_def node_vec_def)
  have h: "in_heap a_heap (TStr (a_heap 6))" "proper (TStr (a_heap 6))" by (simp_all add: in_heap_def a_heap_def proper_def)
  have "n_key (node_vec (clear_node 0 b_table) ! 0) = TDead 6"
    by (simp add: clear_node_def upd_node_def b_table_def node_vec_def removeentry_def a_heap_def)
  then show ?thesis
    using cleared_entry_is_gone [OF trunc_conf_ok b_table_ok, of 0 "TStr (a_heap 6)"] h by (simp add: v less_Suc_eq)
qed

end
