(* ===== verification/Lua_Table_Border.thy ===== *)
theory Lua_Table_Border
  imports Lua_Table_Props
begin

text \<open>
  The length operator (\<open>luaH_getn\<close>) finds a border of every well-formed table, and
  \<open>computesizes\<close> picks the largest array size that is more than half used.
\<close>

lemma bsearch_border:
  assumes "\<And>m. i < m \<Longrightarrow> m \<le> j \<Longrightarrow> f m = Inr (nil m)" "i < j" "nil j" "i = i0 \<or> \<not> nil i"
  shows "\<exists>n. bsearch f i j = Inr n \<and> i \<le> n \<and> n < j \<and> (n = i0 \<or> \<not> nil n) \<and> nil (n + 1)"
  using assms
proof (induction f i j rule: bsearch.induct)
  case (1 f i j)
  show ?case
  proof (cases "1 < j - i")
    case False
    then have "j = i + 1" using 1(4) by simp
    then show ?thesis using 1(5,6) by (auto simp: bsearch.simps)
  next
    case True
    let ?m = "(i + j) div 2"
    have m: "i < ?m" "?m < j" using True by auto
    have fm: "f ?m = Inr (nil ?m)" using 1(3) m by simp
    show ?thesis
    proof (cases "nil ?m")
      case t: True
      have "\<exists>n. bsearch f i ?m = Inr n \<and> i \<le> n \<and> n < ?m \<and> (n = i0 \<or> \<not> nil n) \<and> nil (n + 1)"
        by (rule 1(1) [OF True refl fm t]) (use 1(3,6) m t in auto)
      then show ?thesis using True fm t m(2) bsearch.simps [of f i j] by (auto simp: Let_def)
    next
      case t: False
      have "\<exists>n. bsearch f ?m j = Inr n \<and> ?m \<le> n \<and> n < j \<and> (n = i0 \<or> \<not> nil n) \<and> nil (n + 1)"
        by (rule 1(2) [OF True refl fm t]) (use 1(3,5) m t in auto)
      then show ?thesis using True fm t m(1) bsearch.simps [of f i j] by (auto simp: Let_def)
    qed
  qed
qed

definition num_at :: "'a luaconf_scheme \<Rightarrow> ltable \<Rightarrow> nat \<Rightarrow> tvalue" where
  "num_at C t n = lookup C t (TNum (cast_num (int n)))"

definition border :: "'a luaconf_scheme \<Rightarrow> ltable \<Rightarrow> nat \<Rightarrow> bool" where
  "border C t n = ((n = 0 \<or> num_at C t n \<noteq> TNil) \<and> num_at C t (n + 1) = TNil \<and> n < MAX_INT)"


lemma num_isnil_ok:
  assumes C: "conf_ok C" and ok: "tab_ok C H t"
  shows "j \<le> MAX_INT \<Longrightarrow> num_isnil C t j = Inr (num_at C t j = TNil)"
proof -
  assume "j \<le> MAX_INT"
  then have j: "is_int (int j)" by (simp add: is_int_def MAX_INT_def)
  have p: "proper (TNum (cast_num (int j)))" by (simp add: proper_def)
  obtain s where "luaH_getnum C t (int j) = Inr s" "slot_for C t (TNum (cast_num (int j))) s"
    using getnum_spec [OF C ok j] by blast
  then show ?thesis using slot_for_val [OF C ok p] by (simp add: num_isnil_def num_at_def ttisnil_def)
qed

lemma num_at_array:
  assumes C: "conf_ok C" and ok: "tab_ok C H t"
  shows "0 < n \<Longrightarrow> n \<le> sizearray t \<Longrightarrow> num_at C t n = t_array t ! (n - 1)"
proof -
  assume n: "0 < n" "n \<le> sizearray t"
  then have "is_int (int n)" using tab_len(2) [OF C ok] by (simp add: is_int_def)
  then have "arrayindex C (TNum (cast_num (int n))) = int n" by (rule arrayindex_cast [OF C])
  then show ?thesis using n by (simp add: num_at_def lookup_def in_array_def nat_diff_distrib)
qed

text \<open>No table has more numbered entries than slots.\<close>

lemma num_at_some_nil:
  assumes C: "conf_ok C" and ok: "tab_ok C H t"
  shows "\<exists>n. 0 < n \<and> n \<le> sizearray t + length (node_vec t) + 1 \<and> num_at C t n = TNil"
proof (rule ccontr)
  assume a: "\<nexists>n. 0 < n \<and> n \<le> sizearray t + length (node_vec t) + 1 \<and> num_at C t n = TNil"
  let ?keys = "(\<lambda>n. TNum (cast_num (int n))) ` {sizearray t + 1 .. sizearray t + length (node_vec t) + 1}"
  have "?keys \<subseteq> (\<lambda>i. n_key (node_vec t ! i)) ` {..< length (node_vec t)}"
  proof
    fix k assume "k \<in> ?keys"
    then obtain n where n: "sizearray t + 1 \<le> n" "n \<le> sizearray t + length (node_vec t) + 1" "k = TNum (cast_num (int n))" by auto
    have "length (node_vec t) \<le> 2 ^ 26"
      using ok power_increasing [of "t_lsizenode t" 26 "2::nat"] by (simp add: tab_ok_def sizenode_def MAXBITS_def)
    then have "is_int (int n)" using n(2) tab_len(2) [OF C ok] by (simp add: is_int_def)
    then have "\<not> in_array C (sizearray t) k" using n by (simp add: in_array_def arrayindex_cast [OF C])
    moreover have "lookup C t k \<noteq> TNil" using a n by (auto simp: num_at_def)
    ultimately have "(k, lookup C t k) \<in> entries (node_vec t)"
      using hash_get_entries [OF tab_chain [OF C ok], of k "lookup C t k"] n(3) by (simp add: lookup_def proper_def)
    then show "k \<in> (\<lambda>i. n_key (node_vec t ! i)) ` {..< length (node_vec t)}" by (auto simp: entries_nth)
  qed
  then have "card ?keys \<le> card {..< length (node_vec t)}"
    by (meson card_image_le card_mono finite_imageI finite_lessThan order_trans)
  moreover have "card ?keys = length (node_vec t) + 1" by (subst card_image) (auto simp: inj_on_def)
  ultimately show False by simp
qed

lemma linear_search_ok:
  assumes C: "conf_ok C" and ok: "tab_ok C H t"
  assumes "0 < i" "i + f \<le> MAX_INT" "\<exists>n. i \<le> n \<and> n < i + f \<and> num_at C t n = TNil"
  shows "\<exists>n. linear_search C t f i = Inr n \<and> i \<le> n + 1 \<and> n + 1 < i + f \<and> (n = i - 1 \<or> num_at C t n \<noteq> TNil) \<and> num_at C t (n + 1) = TNil"
  using assms(3-5)
proof (induction f arbitrary: i)
  case (Suc f)
  have isn: "num_isnil C t i = Inr (num_at C t i = TNil)" using Suc.prems by (intro num_isnil_ok [OF C ok]) simp
  show ?case
  proof (cases "num_at C t i = TNil")
    case True
    then show ?thesis using isn Suc.prems(1) by (intro exI [of _ "i - 1"]) simp
  next
    case False
    have "\<exists>n. i + 1 \<le> n \<and> n < i + 1 + f \<and> num_at C t n = TNil"
      using Suc.prems(3) False by (metis Suc_eq_plus1 add.assoc add_Suc_right le_neq_implies_less Suc_leI plus_1_eq_Suc)
    then obtain n where "linear_search C t f (i + 1) = Inr n" "i + 1 \<le> n + 1" "n + 1 < i + 1 + f"
      "n = i + 1 - 1 \<or> num_at C t n \<noteq> TNil" "num_at C t (n + 1) = TNil"
      using Suc.IH [of "i + 1"] Suc.prems(2) by auto
    then show ?thesis using isn False by (intro exI [of _ n]) auto
  qed
qed auto

lemma unbound_loop_border:
  assumes C: "conf_ok C" and ok: "tab_ok C H t"
  shows "0 < j \<Longrightarrow> i < j \<Longrightarrow> j \<le> MAX_INT \<Longrightarrow> i = 0 \<or> num_at C t i \<noteq> TNil \<Longrightarrow> \<exists>n. unbound_loop C t i j = Inr n \<and> border C t n"
proof (induction j arbitrary: i rule: measure_induct_rule [where f = "\<lambda>j. MAX_INT + 1 - j"])
  case (less j)
  have isn: "num_isnil C t m = Inr (num_at C t m = TNil)" if "m \<le> j" for m using that less.prems(3) by (intro num_isnil_ok [OF C ok]) simp
  show ?case
  proof (cases "num_at C t j = TNil")
    case True
    have "\<exists>n. bsearch (num_isnil C t) i j = Inr n \<and> i \<le> n \<and> n < j \<and> (n = 0 \<or> num_at C t n \<noteq> TNil) \<and> num_at C t (n + 1) = TNil"
      by (rule bsearch_border) (use isn less.prems True in auto)
    then show ?thesis using isn [of j] True less.prems(3) unbound_loop.simps [of C t i j] by (auto simp: border_def)
  next
    case False
    show ?thesis
    proof (cases "MAX_INT < j * 2")
      case True
      let ?f = "sizearray t + length (node_vec t) + 1"
      have "length (node_vec t) \<le> 2 ^ 26"
        using ok power_increasing [of "t_lsizenode t" 26 "2::nat"] by (simp add: tab_ok_def sizenode_def MAXBITS_def)
      then have f: "1 + ?f \<le> MAX_INT" using tab_len(2) [OF C ok] by (simp add: MAX_INT_def)
      have "\<exists>n. 1 \<le> n \<and> n < 1 + ?f \<and> num_at C t n = TNil" using num_at_some_nil [OF C ok] by (metis One_nat_def Suc_leI less_Suc_eq_le plus_1_eq_Suc)
      from linear_search_ok [OF C ok _ f this] obtain n where n: "linear_search C t ?f 1 = Inr n" "n + 1 < 1 + ?f"
        "n = 0 \<or> num_at C t n \<noteq> TNil" "num_at C t (n + 1) = TNil" by auto
      then have "unbound_loop C t i j = Inr n" using isn [of j] False True by (subst unbound_loop.simps) simp
      then show ?thesis using n f by (auto simp: border_def)
    next
      case no: False
      have "\<exists>n. unbound_loop C t j (j * 2) = Inr n \<and> border C t n"
        by (rule less.IH) (use less.prems no False in auto)
      then show ?thesis using isn [of j] False no less.prems(1) by (subst unbound_loop.simps) simp
    qed
  qed
qed

lemma getn_border:
  assumes C: "conf_ok C" and ok: "tab_ok C H t"
  shows "\<exists>n. luaH_getn C t = Inr n \<and> border C t n"
proof (cases "0 < sizearray t \<and> ttisnil (t_array t ! (sizearray t - 1))")
  case True
  let ?z = "sizearray t"
  have "\<exists>n. bsearch (\<lambda>m. Inr (ttisnil (t_array t ! (m - 1)))) 0 ?z = Inr n \<and> 0 \<le> n \<and> n < ?z \<and>
      (n = 0 \<or> \<not> ttisnil (t_array t ! (n - 1))) \<and> ttisnil (t_array t ! (n + 1 - 1))"
    by (rule bsearch_border) (use True in auto)
  then obtain n where n: "luaH_getn C t = Inr n" "n < ?z" "n = 0 \<or> t_array t ! (n - 1) \<noteq> TNil" "t_array t ! (n + 1 - 1) = TNil"
    using True by (auto simp: luaH_getn_def Let_def ttisnil_def)
  have "n < MAX_INT" using n(2) tab_len(2) [OF C ok] by (simp add: MAX_INT_def)
  then show ?thesis using n num_at_array [OF C ok, of n] num_at_array [OF C ok, of "n + 1"] by (cases n) (auto simp: border_def Suc_le_eq)
next
  case False
  let ?z = "sizearray t"
  have z: "?z = 0 \<or> num_at C t ?z \<noteq> TNil" using False num_at_array [OF C ok, of ?z] by (auto simp: ttisnil_def)
  have zm: "?z + 1 \<le> MAX_INT" using tab_len(2) [OF C ok] by (simp add: MAX_INT_def)
  show ?thesis
  proof (cases "t_node t = None")
    case True
    have i: "is_int (int (?z + 1))" using zm by (simp add: is_int_def MAX_INT_def)
    have "num_at C t (?z + 1) = TNil"
      using True arrayindex_cast [OF C i] by (simp add: num_at_def lookup_def in_array_def node_vec_def hash_get_def dummynode_def)
    then show ?thesis using z zm True False by (auto simp: luaH_getn_def Let_def border_def)
  next
    case n: False
    have "\<exists>n. unbound_loop C t ?z (?z + 1) = Inr n \<and> border C t n" by (rule unbound_loop_border [OF C ok]) (use z zm in auto)
    moreover have "luaH_getn C t = unbound_loop C t ?z (?z + 1)" using n False by (auto simp: luaH_getn_def Let_def unbound_search_def)
    ultimately show ?thesis by simp
  qed
qed


text \<open>C27: The length operator ends on every well-formed table and answers a border: an index whose
  entry is there (or 0) and whose successor's is not - by the binary search of the array, the
  doubling search of the hash part, or the linear search of a table with holes.\<close>

theorem length_is_a_border:
  assumes "conf_ok C" "tab_ok C H t"
  shows "\<exists>n. luaH_getn C t = Inr n \<and> (n = 0 \<or> tab_get C t (TNum (cast_num (int n))) \<noteq> Inr TNil) \<and>
    tab_get C t (TNum (cast_num (int (n + 1)))) = Inr TNil"
proof -
  have g: "tab_get C t (TNum (cast_num (int m))) = Inr (num_at C t m)" for m
    using tab_get_lookup [OF assms, of "TNum (cast_num (int m))"] by (simp add: num_at_def proper_def in_heap_def)
  obtain n where n: "luaH_getn C t = Inr n" "border C t n" using getn_border [OF assms] by blast
  show ?thesis
    by (intro exI [of _ n]) (use n in \<open>simp only: g border_def sum.inject simp_thms\<close>)
qed

lemma length_is_a_border_witness:
  "\<exists>n. luaH_getn trunc_conf a_table = Inr n \<and> tab_get trunc_conf a_table (TNum (cast_num (int (n + 1)))) = Inr TNil"
  using length_is_a_border [OF trunc_conf_ok a_table_ok] by blast

subsection \<open>The array size\<close>

lemma psum_mono: "i \<le> j \<Longrightarrow> psum nums i \<le> psum nums j"
proof -
  assume "i \<le> j"
  then have "take (Suc j) nums = take (Suc i) nums @ take (j - i) (drop (Suc i) nums)"
    by (metis Suc_diff_Suc Suc_le_mono diff_Suc_Suc le_add_diff_inverse take_add)
  then show ?thesis by (simp add: psum_def)
qed

lemma computesizes_loop_max:
  "length nums = MAXBITS + 1 \<Longrightarrow> psum nums MAXBITS = narray \<Longrightarrow> (\<forall>j. psum nums j \<le> 2 ^ j) \<Longrightarrow> twotoi = 2 ^ i \<Longrightarrow>
   i \<le> MAXBITS + 1 \<Longrightarrow> a = (if i = 0 then 0 else psum nums (i - 1)) \<Longrightarrow>
   (\<forall>j < i. 2 ^ j div 2 < psum nums j \<longrightarrow> 2 ^ j \<le> n) \<Longrightarrow>
   computesizes_loop nums narray i twotoi a na n = Inr (na', n') \<Longrightarrow> n \<le> 2 ^ i \<Longrightarrow>
   \<forall>j \<le> MAXBITS. 2 ^ j div 2 < psum nums j \<longrightarrow> 2 ^ j \<le> n'"
proof (induction nums narray i twotoi a na n rule: computesizes_loop.induct)
  case (1 nums narray i twotoi a na n)
  note pre = 1(2-8) and run = 1(9) and nle = 1(10)
  show ?case
  proof (cases "twotoi div 2 < narray")
    case False
    then have "n' = n" using run by (simp add: computesizes_loop.simps)
    moreover have "\<not> 2 ^ j div 2 < psum nums j" if "i \<le> j" "j \<le> MAXBITS" for j
    proof -
      have "(2::nat) ^ i div 2 \<le> 2 ^ j div 2" using that by (intro div_le_mono power_increasing) auto
      moreover have "psum nums j \<le> narray" using psum_mono [OF that(2), of nums] pre(2) by simp
      ultimately show ?thesis using False pre(4) by simp
    qed
    ultimately show ?thesis using pre(7) by (metis not_less)
  next
    case True
    have il: "\<not> length nums \<le> i"
    proof
      assume "length nums \<le> i"
      then show False using run True by (simp add: computesizes_loop.simps)
    qed
    let ?a = "a + nums ! i"
    have a: "?a = psum nums i"
    proof (cases i)
      case 0
      then show ?thesis using pre(1,6) by (simp add: psum_def take_Suc_conv_app_nth)
    next
      case (Suc m)
      then show ?thesis using psum_step [of m nums] pre(6) il by simp
    qed
    obtain na1 n1 where r: "(na1, n1) = (if 0 < nums ! i \<and> twotoi div 2 < ?a then (?a, twotoi) else (na, n))"
      by (metis surj_pair)
    have skip: "\<not> 2 ^ i div 2 < psum nums i" if "nums ! i = 0"
    proof (cases i)
      case 0
      then show ?thesis using a that pre(6) by simp
    next
      case (Suc m)
      then have "psum nums i = psum nums m" using a that pre(6) by simp
      then show ?thesis using pre(3) Suc by (simp add: not_less)
    qed
    have n1: "\<forall>j < i + 1. 2 ^ j div 2 < psum nums j \<longrightarrow> 2 ^ j \<le> n1" "n1 \<le> 2 ^ (i + 1)"
    proof -
      have p: "(2::nat) ^ i \<le> 2 ^ (i + 1)" by simp
      show "\<forall>j < i + 1. 2 ^ j div 2 < psum nums j \<longrightarrow> 2 ^ j \<le> n1"
      proof (intro allI impI)
        fix j assume j: "j < i + 1" "2 ^ j div 2 < psum nums j"
        show "2 ^ j \<le> n1"
        proof (cases "j = i")
          case True
          then have "0 < nums ! i" using j(2) skip by (metis gr0I)
          then have "n1 = 2 ^ i" using True j(2) r a pre(4) by simp
          then show ?thesis using True by simp
        next
          case False
          then have "2 ^ j \<le> n" "(2::nat) ^ j \<le> 2 ^ i" using j pre(7) by (simp_all add: power_increasing)
          then show ?thesis using r pre(4) by (auto split: if_splits)
        qed
      qed
      show "n1 \<le> 2 ^ (i + 1)" using r pre(4) nle p by (auto split: if_splits)
    qed
    show ?thesis
    proof (cases "?a = narray")
      case e: True
      then have "computesizes_loop nums narray i twotoi a na n = Inr (na1, n1)"
        using True il r computesizes_loop.simps [of nums narray i twotoi a na n] by (simp add: Let_def)
      then have "n' = n1" using run by simp
      moreover have "\<not> 2 ^ j div 2 < psum nums j" if "i < j" "j \<le> MAXBITS" for j
      proof -
        have "psum nums j \<le> psum nums i" using psum_mono [OF that(2), of nums] pre(2) e a by simp
        also have "\<dots> \<le> 2 ^ i" using pre(3) by simp
        also have "(2::nat) ^ i = 2 ^ (i + 1) div 2" by simp
        also have "\<dots> \<le> 2 ^ j div 2" using that(1) by (intro div_le_mono power_increasing) auto
        finally show ?thesis by simp
      qed
      ultimately show ?thesis using n1(1) by (metis Suc_eq_plus1 not_less_eq)
    next
      case e: False
      have step: "computesizes_loop nums narray (i + 1) (twotoi * 2) ?a na1 n1 = Inr (na', n')"
        using run True il e by (subst (asm) computesizes_loop.simps) (simp add: Let_def r [symmetric])
      show ?thesis
        by (rule 1(1) [OF _ il refl r refl]) (use True e pre a n1 step il in simp_all)
    qed
  qed
qed

text \<open>C28: Given the census of the integer keys (no slot counted twice), the array size chosen is 0 or
  a power of two more than half of whose slots are in use, the number returned is the number of
  those keys, and every power of two more than half used is at most the chosen size.\<close>

theorem array_size_is_optimal:
  assumes "length nums = MAXBITS + 1" "\<forall>j. sum_list (take (Suc j) nums) \<le> 2 ^ j"
  shows "\<exists>na n. computesizes nums (sum_list nums) = Inr (na, n) \<and>
    (n = 0 \<and> na = 0 \<or> (\<exists>j \<le> MAXBITS. n = 2 ^ j \<and> na = sum_list (take (Suc j) nums) \<and> n div 2 < na)) \<and>
    (\<forall>j \<le> MAXBITS. 2 ^ j div 2 < sum_list (take (Suc j) nums) \<longrightarrow> 2 ^ j \<le> n)"
proof -
  have p: "psum nums MAXBITS = sum_list nums" using assms(1) by (simp add: psum_def)
  obtain na n where c: "computesizes_loop nums (sum_list nums) 0 1 0 0 0 = Inr (na, n)"
    "n = 0 \<and> na = 0 \<or> (\<exists>j \<le> MAXBITS. n = 2 ^ j \<and> na = psum nums j \<and> 2 ^ j div 2 < na)"
    using computesizes_loop_ok [OF assms(1) p, of 0 1 0 0 0] by auto
  have "\<forall>j \<le> MAXBITS. 2 ^ j div 2 < psum nums j \<longrightarrow> 2 ^ j \<le> n"
    by (rule computesizes_loop_max [OF assms(1) p _ _ _ _ _ c(1)]) (use assms(2) in \<open>simp_all add: psum_def\<close>)
  then show ?thesis using c unfolding computesizes_def psum_def by blast
qed

lemma array_size_is_optimal_witness:
  "\<exists>na n. computesizes ([1, 1, 1] @ replicate 24 0) 3 = Inr (na, n) \<and> 4 \<le> n"
proof -
  let ?n = "[1, 1, 1] @ replicate 24 (0 :: nat)"
  have b: "\<forall>j. sum_list (take (Suc j) ?n) \<le> 2 ^ j"
  proof
    fix j show "sum_list (take (Suc j) ?n) \<le> 2 ^ j"
    proof (cases "j < 2")
      case True
      then have "j = 0 \<or> j = 1" by auto
      then show ?thesis by auto
    next
      case False
      then have "(2::nat) ^ 2 \<le> 2 ^ j" by (intro power_increasing) auto
      moreover have "sum_list (take (Suc j) ?n) \<le> sum_list ?n"
        by (metis append_take_drop_id le_add1 sum_list_append)
      ultimately show ?thesis by (simp add: sum_list_replicate)
    qed
  qed
  have l: "length ?n = MAXBITS + 1" by (simp add: MAXBITS_def)
  have s: "sum_list ?n = 3" by (simp add: sum_list_replicate)
  have s2: "sum_list (take (Suc 2) ?n) = 3" by (simp add: numeral_2_eq_2)
  from array_size_is_optimal [OF l b] obtain na n where "computesizes ?n 3 = Inr (na, n)"
    "\<forall>j \<le> MAXBITS. 2 ^ j div 2 < sum_list (take (Suc j) ?n) \<longrightarrow> 2 ^ j \<le> n" unfolding s by blast
  moreover have "2 ^ 2 div 2 < sum_list (take (Suc 2) ?n)" unfolding s2 by simp
  then have "(2::nat) ^ 2 \<le> n" by (rule calculation(2) [rule_format, of 2, rotated]) (simp add: MAXBITS_def)
  ultimately show ?thesis by auto
qed

end
