(* ===== verification/Lua_Lval.thy ===== *)
theory Lua_Lval
  imports Lua_Object
begin

text \<open>
  What a C function of the standard libraries sees of the interpreter: its arguments, read through the
  access functions of \<open>lua/lapi.c\<close> and checked by the functions of \<open>lua/lauxlib.c\<close>.

  At this interface a string is its bytes (two strings are the same value exactly if their bytes
  agree, which is what interning provides), so a value is an \<open>lval\<close> rather than a \<open>tvalue\<close>. A C
  function is a function from the list of its arguments to the list of its results. Error
  messages are the formatted ones, without the position that \<open>luaL_where\<close> puts before them.
\<close>

subsection \<open>Values and access functions\<close>

datatype lval =
    LNil | LBool bool | LNum dbl | LStr string
  | LTab addr | LFun addr | LUser addr | LLight addr | LThread addr

fun view :: "tvalue \<Rightarrow> lval option" where
  "view TNil = Some LNil"
| "view (TBool b) = Some (LBool b)"
| "view (TLight p) = Some (LLight p)"
| "view (TNum n) = Some (LNum n)"
| "view (TStr s) = Some (LStr (ts_str s))"
| "view (TGC KTable p) = Some (LTab p)"
| "view (TGC KFunction p) = Some (LFun p)"
| "view (TGC KUserdata p) = Some (LUser p)"
| "view (TGC KThread p) = Some (LThread p)"
| "view (TDead p) = None"

text \<open>The environment of a call: the platform, the size limit of a C stack, the slots of the stack that
  arguments and the pieces of a buffer occupy when captures are pushed, and what the debug
  interface knows of the called function (is it called as a method, its name), if it has a frame.\<close>

record luaenv = luaconf +
  maxcstack :: int
  stack_used :: nat
  caller :: "(bool \<times> string option) option"

type_synonym args = "lval list"
type_synonym cfunction = "args \<Rightarrow> args lres"

definition index2adr :: "args \<Rightarrow> nat \<Rightarrow> lval option" where
  "index2adr args i = (if 1 \<le> i \<and> i \<le> length args then Some (args ! (i - 1)) else None)"

definition LUA_TNONE :: int where "LUA_TNONE = - 1"

fun ttype :: "lval \<Rightarrow> int" where
  "ttype LNil = 0" | "ttype (LBool b) = 1" | "ttype (LLight p) = 2" | "ttype (LNum n) = 3"
| "ttype (LStr s) = 4" | "ttype (LTab p) = 5" | "ttype (LFun p) = 6" | "ttype (LUser p) = 7"
| "ttype (LThread p) = 8"

definition lua_type :: "args \<Rightarrow> nat \<Rightarrow> int" where
  "lua_type args i = (case index2adr args i of None \<Rightarrow> LUA_TNONE | Some v \<Rightarrow> ttype v)"

definition luaT_typenames :: "string list" where
  "luaT_typenames = [''nil'', ''boolean'', ''userdata'', ''number'', ''string'', ''table'', ''function'',
     ''userdata'', ''thread'', ''proto'', ''upval'']"

definition lua_typename :: "int \<Rightarrow> string" where
  "lua_typename t = (if t = LUA_TNONE then ''no value'' else luaT_typenames ! nat t)"

definition luaL_typename :: "args \<Rightarrow> nat \<Rightarrow> string" where
  "luaL_typename args i = lua_typename (lua_type args i)"

fun luaV_tonumber :: "'a luaconf_scheme \<Rightarrow> lval \<Rightarrow> dbl option" where
  "luaV_tonumber C (LNum n) = Some n"
| "luaV_tonumber C (LStr s) = luaO_str2d C s"
| "luaV_tonumber C v = None"

fun luaV_tostring :: "'a luaconf_scheme \<Rightarrow> lval \<Rightarrow> string option" where
  "luaV_tostring C (LNum n) = Some (number2str C n)"
| "luaV_tostring C v = None"

text \<open>An absent argument reads as nil.\<close>

definition arg :: "args \<Rightarrow> nat \<Rightarrow> lval" where
  "arg args i = (case index2adr args i of None \<Rightarrow> LNil | Some v \<Rightarrow> v)"

definition lua_isnumber :: "'a luaconf_scheme \<Rightarrow> args \<Rightarrow> nat \<Rightarrow> bool" where
  "lua_isnumber C args i = (luaV_tonumber C (arg args i) \<noteq> None)"

definition lua_isstring :: "args \<Rightarrow> nat \<Rightarrow> bool" where
  "lua_isstring args i = (let t = lua_type args i in t = 4 \<or> t = 3)"

definition lua_tonumber :: "'a luaconf_scheme \<Rightarrow> args \<Rightarrow> nat \<Rightarrow> dbl" where
  "lua_tonumber C args i = (case luaV_tonumber C (arg args i) of Some n \<Rightarrow> n | None \<Rightarrow> Fin 0)"

definition lua_tointeger :: "'a luaconf_scheme \<Rightarrow> args \<Rightarrow> nat \<Rightarrow> int" where
  "lua_tointeger C args i = (case luaV_tonumber C (arg args i) of Some n \<Rightarrow> number2int C n | None \<Rightarrow> 0)"

definition lua_toboolean :: "args \<Rightarrow> nat \<Rightarrow> bool" where
  "lua_toboolean args i = (arg args i \<noteq> LNil \<and> arg args i \<noteq> LBool False)"

definition lua_tolstring :: "'a luaconf_scheme \<Rightarrow> lval \<Rightarrow> string option" where
  "lua_tolstring C v = (case v of LStr s \<Rightarrow> Some s | _ \<Rightarrow> luaV_tostring C v)"

text \<open>\<open>lua_pushinteger\<close>\<close>

definition pushinteger :: "int \<Rightarrow> lval" where
  "pushinteger k = LNum (cast_num k)"

definition lua_checkstack :: "'a luaenv_scheme \<Rightarrow> nat \<Rightarrow> int \<Rightarrow> bool" where
  "lua_checkstack E used room = (\<not> (maxcstack E < room \<or> maxcstack E < int used + room))"

subsection \<open>Checks of arguments\<close>

definition LUA_QS :: "string \<Rightarrow> string" where
  "LUA_QS s = LUA_QL s"

definition luaL_argerror :: "'a luaenv_scheme \<Rightarrow> nat \<Rightarrow> string \<Rightarrow> 'b lres" where
  "luaL_argerror E narg extra = (let num = (\<lambda>k. number2str E (cast_num k)) in
     case caller E of
       None \<Rightarrow> Inl (LuaErr (''bad argument #'' @ num (int narg) @ '' ('' @ extra @ '')''))
     | Some (method, name) \<Rightarrow>
         (let n = int narg - (if method then 1 else 0); nm = (case name of None \<Rightarrow> ''?'' | Some s \<Rightarrow> s) in
          if method \<and> n = 0
          then Inl (LuaErr (''calling '' @ LUA_QS (case name of None \<Rightarrow> ''(null)'' | Some s \<Rightarrow> s) @ '' on bad self ('' @ extra @ '')''))
          else Inl (LuaErr (''bad argument #'' @ num n @ '' to '' @ LUA_QS nm @ '' ('' @ extra @ '')''))))"

definition luaL_typerror :: "'a luaenv_scheme \<Rightarrow> args \<Rightarrow> nat \<Rightarrow> string \<Rightarrow> 'b lres" where
  "luaL_typerror E args narg tname = luaL_argerror E narg (tname @ '' expected, got '' @ luaL_typename args narg)"

definition tag_error :: "'a luaenv_scheme \<Rightarrow> args \<Rightarrow> nat \<Rightarrow> int \<Rightarrow> 'b lres" where
  "tag_error E args narg t = luaL_typerror E args narg (lua_typename t)"

definition luaL_checkstack :: "'a luaenv_scheme \<Rightarrow> nat \<Rightarrow> int \<Rightarrow> string \<Rightarrow> unit lres" where
  "luaL_checkstack E used space mes = (if lua_checkstack E used space then Inr ()
     else Inl (LuaErr (''stack overflow ('' @ mes @ '')'')))"

definition luaL_checktype :: "'a luaenv_scheme \<Rightarrow> args \<Rightarrow> nat \<Rightarrow> int \<Rightarrow> unit lres" where
  "luaL_checktype E args narg t = (if lua_type args narg \<noteq> t then tag_error E args narg t else Inr ())"

definition luaL_checkany :: "'a luaenv_scheme \<Rightarrow> args \<Rightarrow> nat \<Rightarrow> unit lres" where
  "luaL_checkany E args narg = (if lua_type args narg = LUA_TNONE then luaL_argerror E narg ''value expected'' else Inr ())"

definition luaL_checklstring :: "'a luaenv_scheme \<Rightarrow> args \<Rightarrow> nat \<Rightarrow> string lres" where
  "luaL_checklstring E args narg = (case lua_tolstring E (arg args narg) of
     None \<Rightarrow> tag_error E args narg 4 | Some s \<Rightarrow> Inr s)"

definition lua_isnoneornil :: "args \<Rightarrow> nat \<Rightarrow> bool" where
  "lua_isnoneornil args i = (lua_type args i \<le> 0)"

definition luaL_optlstring :: "'a luaenv_scheme \<Rightarrow> args \<Rightarrow> nat \<Rightarrow> string option \<Rightarrow> string option lres" where
  "luaL_optlstring E args narg d = (if lua_isnoneornil args narg then Inr d
     else bindR (luaL_checklstring E args narg) (\<lambda>s. Inr (Some s)))"

definition luaL_checknumber :: "'a luaenv_scheme \<Rightarrow> args \<Rightarrow> nat \<Rightarrow> dbl lres" where
  "luaL_checknumber E args narg = (let d = lua_tonumber E args narg in
     if d_eq d (Fin 0) \<and> \<not> lua_isnumber E args narg then tag_error E args narg 3 else Inr d)"

definition luaL_optnumber :: "'a luaenv_scheme \<Rightarrow> args \<Rightarrow> nat \<Rightarrow> dbl \<Rightarrow> dbl lres" where
  "luaL_optnumber E args narg d = (if lua_isnoneornil args narg then Inr d else luaL_checknumber E args narg)"

definition luaL_checkinteger :: "'a luaenv_scheme \<Rightarrow> args \<Rightarrow> nat \<Rightarrow> int lres" where
  "luaL_checkinteger E args narg = (let d = lua_tointeger E args narg in
     if d = 0 \<and> \<not> lua_isnumber E args narg then tag_error E args narg 3 else Inr d)"

definition luaL_optinteger :: "'a luaenv_scheme \<Rightarrow> args \<Rightarrow> nat \<Rightarrow> int \<Rightarrow> int lres" where
  "luaL_optinteger E args narg d = (if lua_isnoneornil args narg then Inr d else luaL_checkinteger E args narg)"

text \<open>The first option whose name is the argument (\<open>strcmp\<close> stops at a zero byte).\<close>

fun find_option :: "string list \<Rightarrow> string \<Rightarrow> nat \<Rightarrow> nat option" where
  "find_option [] name i = None"
| "find_option (x # xs) name i = (if c_str x = c_str name then Some i else find_option xs name (i + 1))"

definition luaL_checkoption :: "'a luaenv_scheme \<Rightarrow> args \<Rightarrow> nat \<Rightarrow> string option \<Rightarrow> string list \<Rightarrow> nat lres" where
  "luaL_checkoption E args narg d lst =
     bindR (case d of Some _ \<Rightarrow> bindR (luaL_optlstring E args narg d) (of_opt (LuaFault NullDeref))
            | None \<Rightarrow> luaL_checklstring E args narg) (\<lambda>name.
     case find_option lst name 0 of Some i \<Rightarrow> Inr i
     | None \<Rightarrow> luaL_argerror E narg (''invalid option '' @ LUA_QS (c_str name)))"

definition luaL_argcheck :: "'a luaenv_scheme \<Rightarrow> bool \<Rightarrow> nat \<Rightarrow> string \<Rightarrow> unit lres" where
  "luaL_argcheck E cond narg extra = (if cond then Inr () else luaL_argerror E narg extra)"

subsection \<open>The checks never fault\<close>

named_theorems check_ok

lemma argerror_ok [check_ok]: "lua_ok P (luaL_argerror E n m)"
  by (simp add: luaL_argerror_def Let_def split: option.splits prod.splits)

lemma typerror_ok [check_ok]: "lua_ok P (luaL_typerror E args n m)"
  by (simp add: luaL_typerror_def argerror_ok)

lemma tag_error_ok [check_ok]: "lua_ok P (tag_error E args n t)"
  by (simp add: tag_error_def typerror_ok)

lemma argerror_not_Inr [simp]: "luaL_argerror E n m \<noteq> Inr x" "tag_error E args n t \<noteq> Inr x"
  by (auto dest: lua_ok_D [OF argerror_ok [where P = "\<lambda>_. False"]] lua_ok_D [OF tag_error_ok [where P = "\<lambda>_. False"]])

lemma checklstring_ok [check_ok]: "lua_ok (\<lambda>s. True) (luaL_checklstring E args n)"
  by (simp add: luaL_checklstring_def tag_error_ok split: option.splits)

lemma checkinteger_ok [check_ok]: "conf_ok E \<Longrightarrow> lua_ok is_int (luaL_checkinteger E args n)"
  by (auto simp: luaL_checkinteger_def lua_tointeger_def Let_def tag_error_ok conf_ok_def is_int_def split: option.splits)

lemma optinteger_ok [check_ok]: "conf_ok E \<Longrightarrow> is_int d \<Longrightarrow> lua_ok is_int (luaL_optinteger E args n d)"
  by (simp add: luaL_optinteger_def checkinteger_ok)

lemma checknumber_ok [check_ok]: "lua_ok (\<lambda>s. True) (luaL_checknumber E args n)"
  by (simp add: luaL_checknumber_def Let_def tag_error_ok)

lemma checkstack_ok [check_ok]: "lua_ok (\<lambda>s. True) (luaL_checkstack E t n m)"
  by (simp add: luaL_checkstack_def)

lemma argcheck_ok [check_ok]: "lua_ok (\<lambda>_. c) (luaL_argcheck E c n m)"
  by (simp add: luaL_argcheck_def argerror_ok)

text \<open>A string argument is read as it stands, a number that is an \<open>int\<close> as that \<open>int\<close>.\<close>

lemma arg_nth [simp]: "arg (v # vs) (Suc 0) = v" "arg (v # w # vs) 2 = w" "arg (v # w # x # vs) 3 = x"
  "arg [] i = LNil"
  "arg [v] 2 = LNil" "arg [v] 3 = LNil" "arg [v, w] 3 = LNil"
  by (auto simp: arg_def index2adr_def)

lemma checklstring_str: "arg args i = LStr s \<Longrightarrow> luaL_checklstring E args i = Inr s"
  by (simp add: luaL_checklstring_def lua_tolstring_def)

lemma checkinteger_num:
  "conf_ok E \<Longrightarrow> is_int k \<Longrightarrow> arg args i = pushinteger k \<Longrightarrow> luaL_checkinteger E args i = Inr k"
  by (simp add: luaL_checkinteger_def lua_tointeger_def lua_isnumber_def pushinteger_def Let_def conf_ok_def cast_num_def)

end
