(* ===== verification/Lua_Pattern.thy ===== *)
theory Lua_Pattern
  imports Lua_Value
begin

text \<open>
  The pattern matcher of \<open>lua/lstrlib.c\<close>. Pointers into the subject and the pattern are indices;
  every read of the pattern, and every read of the subject outside \<open>s < ms->src_end\<close>, goes
  through \<open>rd\<close>, which yields the terminating zero one past the end and a fault beyond it.

  \<open>match\<close> calls itself, directly or through the expansion and capture helpers, only at later
  positions of the pattern. Its body is \<open>match_step\<close>, which takes the matcher of each later
  position as an argument; \<open>match\<close> ties the knot, and the congruence rule \<open>match_step_cong\<close> states
  that only later positions are asked for.
\<close>

definition rd :: "string \<Rightarrow> nat \<Rightarrow> char lres" where
  "rd s i = (if i < length s then Inr (s ! i) else if i = length s then Inr (CHR 0x00)
     else Inl (LuaFault OutOfBounds))"

abbreviation L_ESC :: char where "L_ESC \<equiv> CHR ''%''"
abbreviation NUL :: char where "NUL \<equiv> CHR 0x00"

definition CAP_UNFINISHED :: int where "CAP_UNFINISHED = - 1"
definition CAP_POSITION :: int where "CAP_POSITION = - 2"
definition LUA_MAXCAPTURES :: nat where "LUA_MAXCAPTURES = 32"

record match_state =
  ms_src :: string
  ms_level :: nat
  ms_capture :: "(nat \<times> int) list"   \<comment> \<open>\<open>init\<close> and \<open>len\<close>, \<open>LUA_MAXCAPTURES\<close> of them\<close>

type_synonym matcher = "match_state \<Rightarrow> nat \<Rightarrow> (match_state \<times> nat option) lres"

subsection \<open>Captures\<close>

definition check_capture :: "match_state \<Rightarrow> char \<Rightarrow> nat lres" where
  "check_capture ms c = (let l = int (char_val c) - 49 in
     if l < 0 \<or> int (ms_level ms) \<le> l \<or> snd (ms_capture ms ! nat l) = CAP_UNFINISHED
     then Inl (LuaErr ''invalid capture index'') else Inr (nat l))"

fun last_open :: "(nat \<times> int) list \<Rightarrow> nat \<Rightarrow> nat lres" where
  "last_open cs 0 = Inl (LuaErr ''invalid pattern capture'')"
| "last_open cs (Suc l) = (if snd (cs ! l) = CAP_UNFINISHED then Inr l else last_open cs l)"

definition capture_to_close :: "match_state \<Rightarrow> nat lres" where
  "capture_to_close ms = last_open (ms_capture ms) (ms_level ms)"

subsection \<open>Character classes\<close>

function classend_set :: "string \<Rightarrow> nat \<Rightarrow> nat lres" where
  "classend_set pat p = bindR (rd pat p) (\<lambda>c.
     if c = NUL then Inl (LuaErr (''malformed pattern (missing '' @ LUA_QL '']'' @ '')''))
     else bindR (if c = L_ESC then bindR (rd pat (p + 1)) (\<lambda>d. Inr (if d \<noteq> NUL then p + 2 else p + 1))
                 else Inr (p + 1)) (\<lambda>q.
       bindR (rd pat q) (\<lambda>e. if e = CHR '']'' then Inr (q + 1) else classend_set pat q)))"
  by pat_completeness auto
termination classend_set
  by (relation "measure (\<lambda>(pat, p). length pat + 1 - p)") (auto simp: rd_def split: if_splits)

declare classend_set.simps [simp del]

definition classend :: "string \<Rightarrow> nat \<Rightarrow> nat lres" where
  "classend pat p = bindR (rd pat p) (\<lambda>c.
     if c = L_ESC then bindR (rd pat (p + 1)) (\<lambda>d.
       if d = NUL then Inl (LuaErr (''malformed pattern (ends with '' @ LUA_QL ''%'' @ '')'')) else Inr (p + 2))
     else if c = CHR ''['' then bindR (rd pat (p + 1)) (\<lambda>d. classend_set pat (if d = CHR ''^'' then p + 2 else p + 1))
     else Inr (p + 1))"

definition match_class :: "char \<Rightarrow> char \<Rightarrow> bool" where
  "match_class c cl = (let t = tolower_c cl; pick = (\<lambda>res. if islower_c cl then res else \<not> res) in
     if t = CHR ''a'' then pick (isalpha_c c) else if t = CHR ''c'' then pick (iscntrl_c c)
     else if t = CHR ''d'' then pick (isdigit_c c) else if t = CHR ''l'' then pick (islower_c c)
     else if t = CHR ''p'' then pick (ispunct_c c) else if t = CHR ''s'' then pick (isspace_c c)
     else if t = CHR ''u'' then pick (isupper_c c) else if t = CHR ''w'' then pick (isalnum_c c)
     else if t = CHR ''x'' then pick (isxdigit_c c) else if t = CHR ''z'' then pick (c = NUL)
     else cl = c)"

function bracket_loop :: "char \<Rightarrow> string \<Rightarrow> nat \<Rightarrow> nat \<Rightarrow> bool \<Rightarrow> bool lres" where
  "bracket_loop c pat p0 ec sig = (let p = p0 + 1 in
     if \<not> p < ec then Inr (\<not> sig)
     else bindR (rd pat p) (\<lambda>x.
       if x = L_ESC then bindR (rd pat (p + 1)) (\<lambda>y.
         if match_class c y then Inr sig else bracket_loop c pat (p + 1) ec sig)
       else bindR (rd pat (p + 1)) (\<lambda>d.
         if d = CHR ''-'' \<and> p + 2 < ec then bindR (rd pat (p + 2)) (\<lambda>hi.
           if char_val x \<le> char_val c \<and> char_val c \<le> char_val hi then Inr sig
           else bracket_loop c pat (p + 2) ec sig)
         else if x = c then Inr sig else bracket_loop c pat p ec sig)))"
  by pat_completeness auto
termination bracket_loop
  by (relation "measure (\<lambda>(c, pat, p, ec, sig). ec - p)") auto

declare bracket_loop.simps [simp del]

definition matchbracketclass :: "char \<Rightarrow> string \<Rightarrow> nat \<Rightarrow> nat \<Rightarrow> bool lres" where
  "matchbracketclass c pat p ec = bindR (rd pat (p + 1)) (\<lambda>d.
     if d = CHR ''^'' then bracket_loop c pat (p + 1) ec False else bracket_loop c pat p ec True)"

definition singlematch :: "char \<Rightarrow> string \<Rightarrow> nat \<Rightarrow> nat \<Rightarrow> bool lres" where
  "singlematch c pat p ep = bindR (rd pat p) (\<lambda>x.
     if x = CHR ''.'' then Inr True
     else if x = L_ESC then bindR (rd pat (p + 1)) (\<lambda>y. Inr (match_class c y))
     else if x = CHR ''['' then matchbracketclass c pat p (ep - 1)
     else Inr (x = c))"

text \<open>\<open>s<ms->src_end && singlematch(uchar(*s), p, ep)\<close>\<close>

definition matches_here :: "string \<Rightarrow> nat \<Rightarrow> string \<Rightarrow> nat \<Rightarrow> nat \<Rightarrow> bool lres" where
  "matches_here src s pat p ep = (if s < length src then singlematch (src ! s) pat p ep else Inr False)"

subsection \<open>Balanced strings\<close>

function balance_loop :: "string \<Rightarrow> char \<Rightarrow> char \<Rightarrow> nat \<Rightarrow> nat \<Rightarrow> nat option" where
  "balance_loop src b e cont s = (if \<not> s + 1 < length src then None
     else let c = src ! (s + 1) in
       if c = e then (if cont = 1 then Some (s + 2) else balance_loop src b e (cont - 1) (s + 1))
       else if c = b then balance_loop src b e (cont + 1) (s + 1)
       else balance_loop src b e cont (s + 1))"
  by auto
termination balance_loop
  by (relation "measure (\<lambda>(src, b, e, cont, s). length src - s)") auto

declare balance_loop.simps [simp del]

definition matchbalance :: "string \<Rightarrow> nat \<Rightarrow> string \<Rightarrow> nat \<Rightarrow> nat option lres" where
  "matchbalance src s pat p = bindR (rd pat p) (\<lambda>b.
     bindR (if b = NUL then Inr NUL else rd pat (p + 1)) (\<lambda>e.
       if b = NUL \<or> e = NUL then Inl (LuaErr ''unbalanced pattern'')
       else bindR (rd src s) (\<lambda>c. Inr (if c \<noteq> b then None else balance_loop src b e 1 s))))"

subsection \<open>Repetitions and captures, over the matcher of what follows\<close>

function count_max :: "string \<Rightarrow> nat \<Rightarrow> string \<Rightarrow> nat \<Rightarrow> nat \<Rightarrow> nat \<Rightarrow> nat lres" where
  "count_max src s pat p ep i = bindR (matches_here src (s + i) pat p ep) (\<lambda>b.
     if b \<and> s + i < length src then count_max src s pat p ep (i + 1) else Inr i)"
  by auto
termination count_max
  by (relation "measure (\<lambda>(src, s, pat, p, ep, i). length src - (s + i))") auto

declare count_max.simps [simp del]

fun expand_down :: "matcher \<Rightarrow> match_state \<Rightarrow> nat \<Rightarrow> nat \<Rightarrow> (match_state \<times> nat option) lres" where
  "expand_down k ms s 0 = k ms s"
| "expand_down k ms s (Suc i) = bindR (k ms (s + Suc i)) (\<lambda>(ms', r).
     case r of Some e \<Rightarrow> Inr (ms', Some e) | None \<Rightarrow> expand_down k ms' s i)"

definition max_expand :: "matcher \<Rightarrow> match_state \<Rightarrow> nat \<Rightarrow> string \<Rightarrow> nat \<Rightarrow> nat \<Rightarrow> (match_state \<times> nat option) lres" where
  "max_expand k ms s pat p ep =
     bindR (count_max (ms_src ms) s pat p ep 0) (\<lambda>i. expand_down k ms s i)"

function min_expand :: "string \<Rightarrow> matcher \<Rightarrow> match_state \<Rightarrow> nat \<Rightarrow> string \<Rightarrow> nat \<Rightarrow> nat \<Rightarrow> (match_state \<times> nat option) lres" where
  "min_expand src k ms s pat p ep = bindR (k ms s) (\<lambda>(ms', r). case r of Some e \<Rightarrow> Inr (ms', Some e)
     | None \<Rightarrow> bindR (matches_here src s pat p ep) (\<lambda>b.
         if b \<and> s < length src then min_expand src k ms' (s + 1) pat p ep else Inr (ms', None)))"
  by auto
termination min_expand
  by (relation "measure (\<lambda>(src, k, ms, s, pat, p, ep). length src - s)") auto

declare min_expand.simps [simp del]

definition start_capture :: "matcher \<Rightarrow> match_state \<Rightarrow> nat \<Rightarrow> int \<Rightarrow> (match_state \<times> nat option) lres" where
  "start_capture k ms s what = (let l = ms_level ms in
     if LUA_MAXCAPTURES \<le> l then Inl (LuaErr ''too many captures'')
     else bindR (k (ms\<lparr>ms_capture := (ms_capture ms)[l := (s, what)], ms_level := l + 1\<rparr>) s) (\<lambda>(ms', r).
       Inr (if r = None then ms'\<lparr>ms_level := ms_level ms' - 1\<rparr> else ms', r)))"

definition end_capture :: "matcher \<Rightarrow> match_state \<Rightarrow> nat \<Rightarrow> (match_state \<times> nat option) lres" where
  "end_capture k ms s = bindR (capture_to_close ms) (\<lambda>l.
     let init = fst (ms_capture ms ! l) in
     bindR (k (ms\<lparr>ms_capture := (ms_capture ms)[l := (init, int s - int init)]\<rparr>) s) (\<lambda>(ms', r).
       Inr (if r = None then ms'\<lparr>ms_capture := (ms_capture ms')[l := (fst (ms_capture ms' ! l), CAP_UNFINISHED)]\<rparr> else ms', r)))"

text \<open>The length of a position capture, \<open>-2\<close>, is huge as a \<open>size_t\<close>: no such capture matches.\<close>

definition match_capture :: "match_state \<Rightarrow> nat \<Rightarrow> char \<Rightarrow> nat option lres" where
  "match_capture ms s c = bindR (check_capture ms c) (\<lambda>l.
     let (init, len) = ms_capture ms ! l; src = ms_src ms in
     Inr (if 0 \<le> len \<and> nat len \<le> length src - s \<and> take (nat len) (drop init src) = take (nat len) (drop s src)
          then Some (s + nat len) else None))"

subsection \<open>The matcher\<close>

definition match_item :: "(nat \<Rightarrow> matcher) \<Rightarrow> string \<Rightarrow> nat \<Rightarrow> matcher" where
  "match_item k pat p ms s = bindR (classend pat p) (\<lambda>ep.
     bindR (matches_here (ms_src ms) s pat p ep) (\<lambda>m.
     bindR (rd pat ep) (\<lambda>x.
       if x = CHR ''?'' then
         (if m then bindR (k (ep + 1) ms (s + 1)) (\<lambda>(ms', r).
            case r of Some e \<Rightarrow> Inr (ms', Some e) | None \<Rightarrow> k (ep + 1) ms' s)
          else k (ep + 1) ms s)
       else if x = CHR ''*'' then max_expand (k (ep + 1)) ms s pat p ep
       else if x = CHR ''+'' then (if m then max_expand (k (ep + 1)) ms (s + 1) pat p ep else Inr (ms, None))
       else if x = CHR ''-'' then min_expand (ms_src ms) (k (ep + 1)) ms s pat p ep
       else if m then k ep ms (s + 1) else Inr (ms, None))))"

definition match_frontier :: "(nat \<Rightarrow> matcher) \<Rightarrow> string \<Rightarrow> nat \<Rightarrow> matcher" where
  "match_frontier k pat p ms s = bindR (rd pat p) (\<lambda>x.
     if x \<noteq> CHR ''['' then Inl (LuaErr (''missing '' @ LUA_QL ''['' @ '' after '' @ LUA_QL ''%f'' @ '' in pattern''))
     else bindR (classend pat p) (\<lambda>ep.
       bindR (if s = 0 then Inr NUL else rd (ms_src ms) (s - 1)) (\<lambda>previous.
       bindR (matchbracketclass previous pat p (ep - 1)) (\<lambda>b.
         if b then Inr (ms, None)
         else bindR (rd (ms_src ms) s) (\<lambda>c.
           bindR (matchbracketclass c pat p (ep - 1)) (\<lambda>b.
             if b then k ep ms s else Inr (ms, None)))))))"

definition match_step :: "(nat \<Rightarrow> matcher) \<Rightarrow> string \<Rightarrow> nat \<Rightarrow> matcher" where
  "match_step k pat p ms s = bindR (rd pat p) (\<lambda>c.
     if c = CHR ''('' then bindR (rd pat (p + 1)) (\<lambda>d.
       if d = CHR '')'' then start_capture (k (p + 2)) ms s CAP_POSITION
       else start_capture (k (p + 1)) ms s CAP_UNFINISHED)
     else if c = CHR '')'' then end_capture (k (p + 1)) ms s
     else if c = L_ESC then bindR (rd pat (p + 1)) (\<lambda>d.
       if d = CHR ''b'' then bindR (matchbalance (ms_src ms) s pat (p + 2)) (\<lambda>r.
         case r of None \<Rightarrow> Inr (ms, None) | Some s' \<Rightarrow> k (p + 4) ms s')
       else if d = CHR ''f'' then match_frontier k pat (p + 2) ms s
       else if isdigit_c d then bindR (match_capture ms s d) (\<lambda>r.
         case r of None \<Rightarrow> Inr (ms, None) | Some s' \<Rightarrow> k (p + 2) ms s')
       else match_item k pat p ms s)
     else if c = NUL then Inr (ms, Some s)
     else if c = CHR ''$'' then bindR (rd pat (p + 1)) (\<lambda>d.
       if d = NUL then Inr (ms, if s = length (ms_src ms) then Some s else None)
       else match_item k pat p ms s)
     else match_item k pat p ms s)"

lemma rd_le: "rd s i = Inr c \<Longrightarrow> i \<le> length s"
  by (auto simp: rd_def split: if_splits)

lemma rd_nonnul: "rd s i = Inr c \<Longrightarrow> c \<noteq> NUL \<Longrightarrow> i < length s \<and> s ! i = c"
  by (auto simp: rd_def split: if_splits)

lemma classend_set_later: "classend_set pat p = Inr q \<Longrightarrow> p < q \<and> q \<le> length pat"
proof (induction pat p rule: classend_set.induct)
  case (1 pat p)
  from 1(2) obtain c where c: "rd pat p = Inr c" "c \<noteq> NUL"
    by (subst (asm) classend_set.simps) (auto split: if_splits)
  obtain q' where q': "(if c = L_ESC then bindR (rd pat (p + 1)) (\<lambda>d. Inr (if d \<noteq> NUL then p + 2 else p + 1))
       else Inr (p + 1)) = Inr q'" using 1(2) c by (subst (asm) classend_set.simps) (auto split: if_splits)
  then have qp: "p < q'" by (auto split: if_splits)
  obtain e where e: "rd pat q' = Inr e" "if e = CHR '']'' then q = q' + 1 else classend_set pat q' = Inr q"
    using 1(2) c q' by (subst (asm) classend_set.simps) (auto split: if_splits)
  show ?case
  proof (cases "e = CHR '']''")
    case True
    then show ?thesis using e qp rd_nonnul [of pat q' e] by simp
  next
    case False
    then show ?thesis using 1(1) [OF c q' e(1) False] e(2) qp by simp
  qed
qed

lemma classend_later: "classend pat p = Inr q \<Longrightarrow> p < q \<and> p \<le> length pat"
  by (auto simp: classend_def dest: rd_le classend_set_later split: if_splits)

lemma match_item_cong:
  assumes "\<And>q. p < q \<Longrightarrow> p \<le> length pat \<Longrightarrow> k q = k' q"
  shows "match_item k pat p ms s = match_item k' pat p ms s"
proof (cases "classend pat p")
  case (Inr ep)
  then have "k ep = k' ep" "k (ep + 1) = k' (ep + 1)" using assms classend_later [OF Inr] by simp_all
  then show ?thesis by (simp only: match_item_def Inr bindR_simps)
qed (simp only: match_item_def bindR_simps)

lemma match_frontier_cong:
  assumes "\<And>q. p < q \<Longrightarrow> p \<le> length pat \<Longrightarrow> k q = k' q"
  shows "match_frontier k pat p ms s = match_frontier k' pat p ms s"
proof (cases "classend pat p")
  case (Inr ep)
  then have "k ep = k' ep" using assms classend_later [OF Inr] by simp
  then show ?thesis by (simp only: match_frontier_def Inr bindR_simps)
qed (simp only: match_frontier_def bindR_simps)

lemma match_step_cong [fundef_cong]:
  assumes "pat = pat'" "p = p'" "ms = ms'" "s = s'"
    and "\<And>q m t. p' < q \<Longrightarrow> p' \<le> length pat' \<Longrightarrow> k q m t = k' q m t"
  shows "match_step k pat p ms s = match_step k' pat' p' ms' s'"
proof (cases "rd pat' p'")
  case (Inr c)
  then have p: "p' \<le> length pat'" by (rule rd_le)
  have *: "k q = k' q" if "p' < q" for q using assms(5) that p by blast
  have "k (p' + 1) = k' (p' + 1)" "k (p' + 2) = k' (p' + 2)" "k (p' + 4) = k' (p' + 4)" by (simp_all add: *)
  moreover have "match_item k pat' p' ms' s' = match_item k' pat' p' ms' s'" by (rule match_item_cong) (use * in auto)
  moreover have "match_frontier k pat' (p' + 2) ms' s' = match_frontier k' pat' (p' + 2) ms' s'"
    by (rule match_frontier_cong) (use * in auto)
  ultimately show ?thesis by (simp only: assms(1-4) match_step_def Inr bindR_simps)
qed (simp only: assms(1-4) match_step_def bindR_simps)

function match :: "string \<Rightarrow> nat \<Rightarrow> matcher" where
  "match pat p ms s = match_step (\<lambda>q m t. match pat q m t) pat p ms s"
  by pat_completeness auto
termination match
  by (relation "measure (\<lambda>(pat, p, ms, s). length pat + 1 - p)") auto

declare match.simps [simp del]

end
