(* ===== verification/Lua_Pattern_Safe.thy ===== *)
theory Lua_Pattern_Safe
  imports Lua_Pattern
begin

text \<open>
  The matcher reads only the subject, the pattern and their terminators, keeps its captures inside
  the subject, and undoes every capture it made when it fails: on every pattern, well-formed or not.
\<close>

subsection \<open>Classes\<close>

lemma rd_ok: "i \<le> length s \<Longrightarrow> lua_ok (\<lambda>c. (c \<noteq> NUL \<longrightarrow> i < length s \<and> s ! i = c) \<and> (i < length s \<longrightarrow> s ! i = c)) (rd s i)"
  by (auto simp: rd_def)

lemma lua_ok_rd:
  assumes "i \<le> length s"
    and "\<And>c. rd s i = Inr c \<Longrightarrow> (c \<noteq> NUL \<Longrightarrow> i < length s \<and> s ! i = c) \<Longrightarrow> lua_ok P (f c)"
  shows "lua_ok P (bindR (rd s i) f)"
  using assms rd_nonnul [of s i] by (intro lua_ok_bind [OF rd_ok]) auto

lemma lua_ok_if: "(b \<Longrightarrow> lua_ok P x) \<Longrightarrow> (\<not> b \<Longrightarrow> lua_ok P y) \<Longrightarrow> lua_ok P (if b then x else y)"
  by simp

lemma classend_set_ok: "p \<le> length pat \<Longrightarrow> lua_ok (\<lambda>q. p < q \<and> q \<le> length pat) (classend_set pat p)"
proof (induction pat p rule: classend_set.induct)
  case (1 pat p)
  let ?Q = "\<lambda>q. p < q \<and> q \<le> length pat"
  show ?case
  proof (subst classend_set.simps, rule lua_ok_rd [OF 1(2)], rule lua_ok_if)
    fix c assume c: "rd pat p = Inr c" "c \<noteq> NUL \<Longrightarrow> p < length pat \<and> pat ! p = c" "c \<noteq> NUL"
    let ?q = "if c = L_ESC then bindR (rd pat (p + 1)) (\<lambda>d. Inr (if d \<noteq> NUL then p + 2 else p + 1)) else Inr (p + 1)"
    show "lua_ok ?Q (bindR ?q (\<lambda>q. bindR (rd pat q) (\<lambda>e. if e = CHR '']'' then Inr (q + 1) else classend_set pat q)))"
    proof (rule lua_ok_bind)
      show "lua_ok ?Q ?q" using c(2,3) by (auto intro!: lua_ok_rd)
    next
      fix q assume q: "?q = Inr q" "p < q \<and> q \<le> length pat"
      show "lua_ok ?Q (bindR (rd pat q) (\<lambda>e. if e = CHR '']'' then Inr (q + 1) else classend_set pat q))"
      proof (rule lua_ok_rd, goal_cases)
        case (2 e)
        show ?case
        proof (rule lua_ok_if)
          assume "e = CHR '']''"
          then show "lua_ok ?Q (Inr (q + 1))" using 2(2) q(2) by simp
        next
          assume f: "e \<noteq> CHR '']''"
          have "lua_ok (\<lambda>r. q < r \<and> r \<le> length pat) (classend_set pat q)"
            using 1(1) [OF c(1,3) q(1) 2(1) f] q(2) by blast
          then show "lua_ok ?Q (classend_set pat q)" using q(2) by (auto elim: lua_ok_mono)
        qed
      qed (use q in blast)
    qed
  qed simp
qed

lemma classend_ok: "p < length pat \<Longrightarrow> lua_ok (\<lambda>q. p < q \<and> q \<le> length pat) (classend pat p)"
proof -
  assume p: "p < length pat"
  have "lua_ok (\<lambda>q. p < q \<and> q \<le> length pat) (classend_set pat q)" if "p < q" "q \<le> length pat" for q
    using classend_set_ok [OF that(2)] that(1) by (auto elim: lua_ok_mono)
  with p show ?thesis unfolding classend_def by (auto intro!: lua_ok_rd)
qed

lemma bracket_loop_ok: "ec \<le> length pat \<Longrightarrow> lua_ok (\<lambda>_. True) (bracket_loop c pat p ec sig)"
proof (induction c pat p ec sig rule: bracket_loop.induct)
  case (1 c pat p0 ec sig)
  show ?case unfolding bracket_loop.simps [of c pat p0] Let_def
    by (intro lua_ok_if lua_ok_rd) (use 1 in auto)
qed

lemma singlematch_ok: "p < length pat \<Longrightarrow> ep \<le> length pat \<Longrightarrow> lua_ok (\<lambda>_. True) (singlematch c pat p ep)"
  unfolding singlematch_def matchbracketclass_def
  by (intro lua_ok_rd lua_ok_if bracket_loop_ok) auto

lemma bracketclass_ok: "p < length pat \<Longrightarrow> ec \<le> length pat \<Longrightarrow> lua_ok (\<lambda>_. True) (matchbracketclass c pat p ec)"
  unfolding matchbracketclass_def by (intro lua_ok_rd lua_ok_if bracket_loop_ok) auto

lemma matches_here_ok:
  "p < length pat \<Longrightarrow> ep \<le> length pat \<Longrightarrow> lua_ok (\<lambda>b. b \<longrightarrow> s < length src) (matches_here src s pat p ep)"
  unfolding matches_here_def by (auto intro: lua_ok_mono [OF singlematch_ok])

lemma balance_loop_bounds: "balance_loop src b e cont s = Some r \<Longrightarrow> s < r \<and> r \<le> length src"
proof (induction src b e cont s rule: balance_loop.induct)
  case (1 src b e cont s)
  note IH = 1(1-3) and run = 1(4)
  have l: "s + 1 < length src" using run by (subst (asm) balance_loop.simps) (simp split: if_splits)
  note body = run [unfolded balance_loop.simps [of src b e cont s], unfolded Let_def]
  consider (last) "src ! (s + 1) = e" "cont = 1" | (less) "src ! (s + 1) = e" "cont \<noteq> 1"
    | (more) "src ! (s + 1) \<noteq> e" "src ! (s + 1) = b" | (skip) "src ! (s + 1) \<noteq> e" "src ! (s + 1) \<noteq> b" by blast
  then show ?case
  proof cases
    case last
    then show ?thesis using l body by simp
  next
    case less
    then show ?thesis using IH(1) [OF _ refl] l body by fastforce
  next
    case more
    then show ?thesis using IH(2) [OF _ refl] l body by fastforce
  next
    case skip
    then show ?thesis using IH(3) [OF _ refl] l body by fastforce
  qed
qed

lemma matchbalance_ok:
  "p \<le> length pat \<Longrightarrow> s \<le> length src \<Longrightarrow>
   lua_ok (\<lambda>r. p + 2 \<le> length pat \<and> (\<forall>t. r = Some t \<longrightarrow> s < t \<and> t \<le> length src)) (matchbalance src s pat p)"
  unfolding matchbalance_def
proof (rule lua_ok_rd, assumption)
  fix b
  assume p: "p \<le> length pat" "s \<le> length src" and b: "rd pat p = Inr b" "b \<noteq> NUL \<Longrightarrow> p < length pat \<and> pat ! p = b"
  let ?P = "\<lambda>r. p + 2 \<le> length pat \<and> (\<forall>t. r = Some t \<longrightarrow> s < t \<and> t \<le> length src)"
  show "lua_ok ?P (bindR (if b = NUL then Inr NUL else rd pat (p + 1)) (\<lambda>e.
       if b = NUL \<or> e = NUL then Inl (LuaErr ''unbalanced pattern'')
       else bindR (rd src s) (\<lambda>c. Inr (if c \<noteq> b then None else balance_loop src b e 1 s))))"
  proof (cases "b = NUL")
    case False
    then show ?thesis using b(2) p(2) balance_loop_bounds [of src b _ 1 s] by (auto intro!: lua_ok_rd)
  qed simp
qed


subsection \<open>The match state\<close>

definition pre_ok :: "match_state \<Rightarrow> nat \<Rightarrow> bool" where
  "pre_ok ms s = (s \<le> length (ms_src ms) \<and> length (ms_capture ms) = LUA_MAXCAPTURES \<and> ms_level ms \<le> LUA_MAXCAPTURES \<and>
     (\<forall>l < ms_level ms. case ms_capture ms ! l of (i, n) \<Rightarrow>
        i \<le> s \<and> (n = CAP_UNFINISHED \<or> n = CAP_POSITION \<or> 0 \<le> n \<and> i + nat n \<le> s)))"

text \<open>What a failed attempt leaves of the state: everything but the slots above \<open>level\<close>.\<close>

definition agree :: "match_state \<Rightarrow> match_state \<Rightarrow> bool" where
  "agree ms ms' = (ms_src ms' = ms_src ms \<and> ms_level ms' = ms_level ms \<and>
     length (ms_capture ms') = length (ms_capture ms) \<and>
     take (ms_level ms) (ms_capture ms') = take (ms_level ms) (ms_capture ms))"

lemma agree_refl [simp]: "agree ms ms" by (simp add: agree_def)

lemma agree_trans: "agree a b \<Longrightarrow> agree b c \<Longrightarrow> agree a c" by (auto simp: agree_def)

lemma agree_nth: "agree ms ms' \<Longrightarrow> l < ms_level ms \<Longrightarrow> ms_capture ms' ! l = ms_capture ms ! l"
  unfolding agree_def by (metis nth_take)

lemma agree_pre: "agree ms ms' \<Longrightarrow> pre_ok ms s \<Longrightarrow> pre_ok ms' s"
  using agree_nth [of ms ms'] by (simp add: pre_ok_def agree_def)

lemma pre_ok_mono: "pre_ok ms s \<Longrightarrow> s \<le> t \<Longrightarrow> t \<le> length (ms_src ms) \<Longrightarrow> pre_ok ms t"
  by (fastforce simp: pre_ok_def)

text \<open>A match that starts at \<open>s\<close> keeps the captures there were, and those it adds start at \<open>s\<close> or later.\<close>

definition opened :: "match_state \<Rightarrow> nat \<Rightarrow> match_state \<Rightarrow> bool" where
  "opened ms s ms' = (ms_level ms \<le> ms_level ms' \<and> (\<forall>l < ms_level ms'.
     if l < ms_level ms then fst (ms_capture ms' ! l) = fst (ms_capture ms ! l) else s \<le> fst (ms_capture ms' ! l)))"

lemma opened_refl [simp]: "opened ms s ms" by (simp add: opened_def)

lemma opened_later: "opened ms t ms' \<Longrightarrow> s \<le> t \<Longrightarrow> opened ms s ms'" by (fastforce simp: opened_def)

lemma opened_retry: "agree ms ms1 \<Longrightarrow> opened ms1 s ms' \<Longrightarrow> opened ms s ms'"
  using agree_nth [of ms ms1] by (simp add: opened_def agree_def)

definition post :: "match_state \<Rightarrow> nat \<Rightarrow> match_state \<Rightarrow> nat option \<Rightarrow> bool" where
  "post ms s ms' r = (ms_src ms' = ms_src ms \<and>
     (case r of None \<Rightarrow> agree ms ms' | Some e \<Rightarrow> s \<le> e \<and> pre_ok ms' e \<and> opened ms s ms'))"

definition safe_m :: "matcher \<Rightarrow> bool" where
  "safe_m m = (\<forall>ms s. pre_ok ms s \<longrightarrow> lua_ok (\<lambda>(ms', r). post ms s ms' r) (m ms s))"

lemma safe_mD: "safe_m m \<Longrightarrow> pre_ok ms s \<Longrightarrow> lua_ok (\<lambda>(ms', r). post ms s ms' r) (m ms s)"
  by (simp add: safe_m_def)

lemma post_later: "post ms t ms' r \<Longrightarrow> s \<le> t \<Longrightarrow> post ms s ms' r"
  by (auto simp: post_def opened_later split: option.splits)

lemma post_retry: "agree ms ms1 \<Longrightarrow> post ms1 s ms' r \<Longrightarrow> post ms s ms' r"
  using opened_retry [of ms ms1 s ms'] by (auto simp: post_def agree_def split: option.splits)

lemma safe_weaken:
  assumes "agree ms ms1" "s \<le> t" "lua_ok (\<lambda>(ms', r). post ms1 t ms' r) m"
  shows "lua_ok (\<lambda>(ms', r). post ms s ms' r) m"
  using assms(3)
proof (rule lua_ok_mono)
  fix x assume "case x of (ms', r) \<Rightarrow> post ms1 t ms' r"
  then show "case x of (ms', r) \<Rightarrow> post ms s ms' r"
    using post_retry [OF assms(1)] post_later [OF _ assms(2)] by (cases x) simp
qed

lemma safe_at: "safe_m m \<Longrightarrow> pre_ok ms s \<Longrightarrow> s \<le> t \<Longrightarrow> t \<le> length (ms_src ms) \<Longrightarrow>
    lua_ok (\<lambda>(ms', r). post ms s ms' r) (m ms t)"
  using safe_weaken [OF agree_refl] safe_mD pre_ok_mono by blast

text \<open>Try one matcher, then another on the state the first has left.\<close>

lemma safe_then:
  assumes "lua_ok (\<lambda>(ms', r). post ms s ms' r) x"
    and "\<And>ms'. x = Inr (ms', None) \<Longrightarrow> agree ms ms' \<Longrightarrow> lua_ok (\<lambda>(ms'', r). post ms s ms'' r) (g ms')"
  shows "lua_ok (\<lambda>(ms', r). post ms s ms' r) (bindR x (\<lambda>(ms', r).
     case r of Some e \<Rightarrow> Inr (ms', Some e) | None \<Rightarrow> g ms'))"
  using assms(1)
proof (rule lua_ok_bind)
  fix y assume x: "x = Inr y" and y: "case y of (ms', r) \<Rightarrow> post ms s ms' r"
  obtain ms' r where [simp]: "y = (ms', r)" by fastforce
  show "lua_ok (\<lambda>(ms', r). post ms s ms' r) (case y of (ms', r) \<Rightarrow>
     case r of Some e \<Rightarrow> Inr (ms', Some e) | None \<Rightarrow> g ms')"
    using x y assms(2) by (cases r) (auto simp: post_def)
qed

lemma expand_down_safe:
  "safe_m k \<Longrightarrow> pre_ok ms s \<Longrightarrow> s + i \<le> length (ms_src ms) \<Longrightarrow>
   lua_ok (\<lambda>(ms', r). post ms s ms' r) (expand_down k ms s i)"
proof (induction i arbitrary: ms)
  case (Suc i)
  have "lua_ok (\<lambda>(ms', r). post ms s ms' r) (expand_down k ms' s i)" if a: "agree ms ms'" for ms'
    by (rule safe_weaken [OF a order_refl], rule Suc.IH [OF Suc.prems(1) agree_pre [OF a Suc.prems(2)]])
      (use Suc.prems(3) a in \<open>simp add: agree_def\<close>)
  then show ?case unfolding expand_down.simps
    by (intro safe_then safe_at [OF Suc.prems(1,2)]) (use Suc.prems(3) in simp_all)
qed (simp add: safe_mD)

lemma count_max_ok:
  "p < length pat \<Longrightarrow> ep \<le> length pat \<Longrightarrow> s + i \<le> length src \<Longrightarrow>
   lua_ok (\<lambda>j. s + j \<le> length src) (count_max src s pat p ep i)"
proof (induction src s pat p ep i rule: count_max.induct)
  case (1 src s pat p ep i)
  show ?case
    by (subst count_max.simps, rule lua_ok_bind [OF matches_here_ok [OF 1(2,3)]]) (use 1 in auto)
qed

lemma max_expand_safe:
  assumes "safe_m k" "pre_ok ms s" "s \<le> t" "t \<le> length (ms_src ms)" "p < length pat" "ep \<le> length pat"
  shows "lua_ok (\<lambda>(ms', r). post ms s ms' r) (max_expand k ms t pat p ep)"
  unfolding max_expand_def
proof (rule lua_ok_bind)
  show "lua_ok (\<lambda>j. t + j \<le> length (ms_src ms)) (count_max (ms_src ms) t pat p ep 0)"
    by (rule count_max_ok) (use assms in auto)
next
  fix j assume "t + j \<le> length (ms_src ms)"
  then show "lua_ok (\<lambda>(ms', r). post ms s ms' r) (expand_down k ms t j)"
    by (intro safe_weaken [OF agree_refl assms(3)] expand_down_safe [OF assms(1) pre_ok_mono [OF assms(2-4)]])
qed

lemma min_expand_safe:
  "safe_m k \<Longrightarrow> pre_ok ms s \<Longrightarrow> src = ms_src ms \<Longrightarrow> p < length pat \<Longrightarrow> ep \<le> length pat \<Longrightarrow>
   lua_ok (\<lambda>(ms', r). post ms s ms' r) (min_expand src k ms s pat p ep)"
proof (induction src k ms s pat p ep rule: min_expand.induct)
  case (1 src k ms s pat p ep)
  show ?case
  proof (subst min_expand.simps, rule safe_then [OF safe_mD [OF 1(2,3)]])
    fix ms' assume k: "k ms s = Inr (ms', None)" and a: "agree ms ms'"
    have pre: "pre_ok ms' s" by (rule agree_pre [OF a 1(3)])
    show "lua_ok (\<lambda>(ms', r). post ms s ms' r) (bindR (matches_here src s pat p ep) (\<lambda>b.
         if b \<and> s < length src then min_expand src k ms' (s + 1) pat p ep else Inr (ms', None)))"
    proof (rule lua_ok_bind [OF matches_here_ok [OF 1(5,6)]], rule lua_ok_if)
      fix b assume b: "b \<and> s < length src" "matches_here src s pat p ep = Inr b"
      have src: "src = ms_src ms'" using a 1(4) by (simp add: agree_def)
      have nx: "pre_ok ms' (s + 1)" by (rule pre_ok_mono [OF pre]) (use b src in auto)
      have "lua_ok (\<lambda>(ms'', r). post ms' (s + 1) ms'' r) (min_expand src k ms' (s + 1) pat p ep)"
        by (rule 1(1) [OF k refl refl b(2,1) 1(2) nx src 1(5,6)])
      then show "lua_ok (\<lambda>(ms', r). post ms s ms' r) (min_expand src k ms' (s + 1) pat p ep)"
        by (rule safe_weaken [OF a, rotated]) simp
    qed (simp add: post_def a, use a in \<open>simp add: agree_def\<close>)
  qed
qed

subsection \<open>Captures\<close>

lemma start_capture_safe:
  assumes k: "safe_m k" and pre: "pre_ok ms s" and w: "what = CAP_UNFINISHED \<or> what = CAP_POSITION"
  shows "lua_ok (\<lambda>(ms', r). post ms s ms' r) (start_capture k ms s what)"
proof (cases "LUA_MAXCAPTURES \<le> ms_level ms")
  case False
  let ?ms = "ms\<lparr>ms_capture := (ms_capture ms)[ms_level ms := (s, what)], ms_level := ms_level ms + 1\<rparr>"
  have "pre_ok ?ms s"
    using pre w False by (auto simp: pre_ok_def nth_list_update less_Suc_eq)
  note run = safe_mD [OF k this]
  have "lua_ok (\<lambda>(ms', r). post ms s ms' r) (Inr (if r = None then ms'\<lparr>ms_level := ms_level ms' - 1\<rparr> else ms', r))"
    if p: "post ?ms s ms' r" for ms' r
  proof (cases r)
    case None
    have "take (ms_level ms) (ms_capture ms') = take (ms_level ms) (take (ms_level ms + 1) (ms_capture ms'))"
      by (simp add: min_def)
    also have "\<dots> = take (ms_level ms) (ms_capture ms)"
      using p None by (simp add: post_def agree_def min_def)
    finally show ?thesis using p None by (simp add: post_def agree_def)
  next
    case (Some e)
    have "opened ms s ms'" if o: "opened ?ms s ms'"
      unfolding opened_def
    proof (intro conjI allI impI)
      show "ms_level ms \<le> ms_level ms'" using o by (simp add: opened_def)
      fix l assume "l < ms_level ms'"
      then show "if l < ms_level ms then fst (ms_capture ms' ! l) = fst (ms_capture ms ! l) else s \<le> fst (ms_capture ms' ! l)"
        using o pre False by (cases "l = ms_level ms") (auto simp: opened_def pre_ok_def nth_list_update)
    qed
    then show ?thesis using p Some by (simp add: post_def)
  qed
  then show ?thesis unfolding start_capture_def Let_def
    using False by (simp only: if_False) (rule lua_ok_bind [OF run], auto)
qed (simp add: start_capture_def)

lemma last_open_ok: "lua_ok (\<lambda>l. l < n \<and> snd (cs ! l) = CAP_UNFINISHED) (last_open cs n)"
  by (induction n) (auto elim: lua_ok_mono)

lemma end_capture_safe:
  assumes k: "safe_m k" and pre: "pre_ok ms s"
  shows "lua_ok (\<lambda>(ms', r). post ms s ms' r) (end_capture k ms s)"
  unfolding end_capture_def capture_to_close_def Let_def
proof (rule lua_ok_bind [OF last_open_ok])
  fix l assume l: "l < ms_level ms \<and> snd (ms_capture ms ! l) = CAP_UNFINISHED"
  let ?c = "(fst (ms_capture ms ! l), int s - int (fst (ms_capture ms ! l)))"
  let ?ms = "ms\<lparr>ms_capture := (ms_capture ms)[l := ?c]\<rparr>"
  have len: "l < length (ms_capture ms)" using pre l by (simp add: pre_ok_def)
  have "fst (ms_capture ms ! l) \<le> s" using pre l by (cases "ms_capture ms ! l") (auto simp: pre_ok_def)
  then have "pre_ok ?ms s" using pre l by (auto simp: pre_ok_def nth_list_update)
  note run = safe_mD [OF k this]
  have "lua_ok (\<lambda>(ms', r). post ms s ms' r) (Inr (if r = None
      then ms'\<lparr>ms_capture := (ms_capture ms')[l := (fst (ms_capture ms' ! l), CAP_UNFINISHED)]\<rparr> else ms', r))"
    if p: "post ?ms s ms' r" for ms' r
  proof (cases r)
    case None
    then have a: "agree ?ms ms'" using p by (simp add: post_def)
    have "ms_capture ms' ! l = ?c" using agree_nth [OF a] l len by simp
    then have u: "(fst (ms_capture ms' ! l), CAP_UNFINISHED) = ms_capture ms ! l" using l by (simp add: prod_eq_iff)
    have "take (ms_level ms) ((ms_capture ms')[l := ms_capture ms ! l]) =
        (take (ms_level ms) (ms_capture ms'))[l := ms_capture ms ! l]" by (simp add: take_update_swap)
    also have "take (ms_level ms) (ms_capture ms') = take (ms_level ms) ((ms_capture ms)[l := ?c])"
      using a by (simp add: agree_def)
    also have "(take (ms_level ms) ((ms_capture ms)[l := ?c]))[l := ms_capture ms ! l] = take (ms_level ms) (ms_capture ms)"
      by (simp flip: take_update_swap)
    finally show ?thesis using a None by (simp add: u post_def agree_def)
  next
    case (Some e)
    have "fst (ms_capture ?ms ! i) = fst (ms_capture ms ! i)" for i by (cases "i = l") (simp_all add: len)
    then have "opened ?ms s ms' \<Longrightarrow> opened ms s ms'" by (simp add: opened_def)
    then show ?thesis using p Some by (simp add: post_def)
  qed
  then show "lua_ok (\<lambda>(ms', r). post ms s ms' r) (bindR (k ?ms s) (\<lambda>(ms', r). Inr (if r = None
      then ms'\<lparr>ms_capture := (ms_capture ms')[l := (fst (ms_capture ms' ! l), CAP_UNFINISHED)]\<rparr> else ms', r)))"
    by (intro lua_ok_bind [OF run]) auto
qed

lemma check_capture_ok: "lua_ok (\<lambda>l. l < ms_level ms \<and> snd (ms_capture ms ! l) \<noteq> CAP_UNFINISHED) (check_capture ms c)"
  by (auto simp: check_capture_def Let_def)

lemma match_capture_ok:
  assumes "s \<le> length (ms_src ms)"
  shows "lua_ok (\<lambda>r. \<forall>t. r = Some t \<longrightarrow> s \<le> t \<and> t \<le> length (ms_src ms)) (match_capture ms s c)"
  unfolding match_capture_def Let_def
  by (rule lua_ok_bind [OF check_capture_ok]) (use assms in \<open>auto split: prod.splits\<close>)

subsection \<open>The matcher\<close>

lemma post_none [simp]: "post ms s ms None"
  by (simp add: post_def)

lemma match_item_safe:
  assumes k: "\<And>q. p < q \<Longrightarrow> q \<le> length pat \<Longrightarrow> safe_m (k q)" and p: "p < length pat" and pre: "pre_ok ms s"
  shows "lua_ok (\<lambda>(ms', r). post ms s ms' r) (match_item k pat p ms s)"
  unfolding match_item_def
proof (rule lua_ok_bind [OF classend_ok [OF p]])
  fix ep assume ep: "p < ep \<and> ep \<le> length pat"
  show "lua_ok (\<lambda>(ms', r). post ms s ms' r) (bindR (matches_here (ms_src ms) s pat p ep) (\<lambda>m. bindR (rd pat ep) (\<lambda>x.
       if x = CHR ''?'' then
         (if m then bindR (k (ep + 1) ms (s + 1)) (\<lambda>(ms', r).
            case r of Some e \<Rightarrow> Inr (ms', Some e) | None \<Rightarrow> k (ep + 1) ms' s)
          else k (ep + 1) ms s)
       else if x = CHR ''*'' then max_expand (k (ep + 1)) ms s pat p ep
       else if x = CHR ''+'' then (if m then max_expand (k (ep + 1)) ms (s + 1) pat p ep else Inr (ms, None))
       else if x = CHR ''-'' then min_expand (ms_src ms) (k (ep + 1)) ms s pat p ep
       else if m then k ep ms (s + 1) else Inr (ms, None))))"
  proof (rule lua_ok_bind [OF matches_here_ok [OF p conjunct2 [OF ep]]], rule lua_ok_rd [OF conjunct2 [OF ep]])
    fix m x assume m: "m \<longrightarrow> s < length (ms_src ms)" and x: "x \<noteq> NUL \<Longrightarrow> ep < length pat \<and> pat ! ep = x"
    have s: "s \<le> length (ms_src ms)" using pre by (simp add: pre_ok_def)
    have kep: "safe_m (k ep)" using k ep by simp
    have k1: "safe_m (k (ep + 1))" if "x \<noteq> NUL" using k x [OF that] ep by simp
    have m1: "s + 1 \<le> length (ms_src ms)" if m using m that by simp
    have again: "lua_ok (\<lambda>(ms', r). post ms s ms' r) (k (ep + 1) ms' s)" if "agree ms ms'" "x \<noteq> NUL" for ms'
      by (rule safe_weaken [OF that(1) order_refl], rule safe_mD [OF k1 [OF that(2)] agree_pre [OF that(1) pre]])
    show "lua_ok (\<lambda>(ms', r). post ms s ms' r) (
       if x = CHR ''?'' then
         (if m then bindR (k (ep + 1) ms (s + 1)) (\<lambda>(ms', r).
            case r of Some e \<Rightarrow> Inr (ms', Some e) | None \<Rightarrow> k (ep + 1) ms' s)
          else k (ep + 1) ms s)
       else if x = CHR ''*'' then max_expand (k (ep + 1)) ms s pat p ep
       else if x = CHR ''+'' then (if m then max_expand (k (ep + 1)) ms (s + 1) pat p ep else Inr (ms, None))
       else if x = CHR ''-'' then min_expand (ms_src ms) (k (ep + 1)) ms s pat p ep
       else if m then k ep ms (s + 1) else Inr (ms, None))"
    proof (intro lua_ok_if)
      assume "x = CHR ''?''" m
      then show "lua_ok (\<lambda>(ms', r). post ms s ms' r) (bindR (k (ep + 1) ms (s + 1)) (\<lambda>(ms', r).
            case r of Some e \<Rightarrow> Inr (ms', Some e) | None \<Rightarrow> k (ep + 1) ms' s))"
        by (intro safe_then safe_at [OF k1 pre] again) (use m1 in simp_all)
    next
      assume "x = CHR ''*''"
      then show "lua_ok (\<lambda>(ms', r). post ms s ms' r) (max_expand (k (ep + 1)) ms s pat p ep)"
        by (intro max_expand_safe [OF k1 pre _ s p]) (use ep in simp_all)
    next
      assume "x = CHR ''+''" m
      then show "lua_ok (\<lambda>(ms', r). post ms s ms' r) (max_expand (k (ep + 1)) ms (s + 1) pat p ep)"
        by (intro max_expand_safe [OF k1 pre _ m1 p]) (use ep in simp_all)
    next
      assume "x = CHR ''-''"
      then show "lua_ok (\<lambda>(ms', r). post ms s ms' r) (min_expand (ms_src ms) (k (ep + 1)) ms s pat p ep)"
        by (intro min_expand_safe [OF k1 pre refl p]) (use ep in simp_all)
    next
      assume m
      show "lua_ok (\<lambda>(ms', r). post ms s ms' r) (k ep ms (s + 1))" by (rule safe_at [OF kep pre _ m1 [OF \<open>m\<close>]]) simp
    qed (use again [OF agree_refl] in simp_all)
  qed
qed

lemma match_frontier_safe:
  assumes k: "\<And>q. p < q \<Longrightarrow> q \<le> length pat \<Longrightarrow> safe_m (k q)" and p: "p \<le> length pat" and pre: "pre_ok ms s"
  shows "lua_ok (\<lambda>(ms', r). post ms s ms' r) (match_frontier k pat p ms s)"
  unfolding match_frontier_def
proof (rule lua_ok_rd [OF p], rule lua_ok_if)
  fix x assume x: "x \<noteq> NUL \<Longrightarrow> p < length pat \<and> pat ! p = x" "\<not> x \<noteq> CHR ''[''"
  then have p: "p < length pat" by auto
  have s: "s \<le> length (ms_src ms)" "s - 1 \<le> length (ms_src ms)" using pre by (auto simp: pre_ok_def)
  have br: "lua_ok (\<lambda>_. True) (matchbracketclass c pat p (ep - 1))" if "ep \<le> length pat" for c ep
    using bracketclass_ok [OF p] that by simp
  show "lua_ok (\<lambda>(ms', r). post ms s ms' r) (bindR (classend pat p) (\<lambda>ep.
       bindR (if s = 0 then Inr NUL else rd (ms_src ms) (s - 1)) (\<lambda>previous.
       bindR (matchbracketclass previous pat p (ep - 1)) (\<lambda>b.
         if b then Inr (ms, None)
         else bindR (rd (ms_src ms) s) (\<lambda>c.
           bindR (matchbracketclass c pat p (ep - 1)) (\<lambda>b.
             if b then k ep ms s else Inr (ms, None)))))))"
    by (intro lua_ok_bind [OF classend_ok [OF p]] lua_ok_bind [OF br] lua_ok_rd [OF s(1)] lua_ok_if
        lua_ok_bind [where Q = "\<lambda>_. True" and m = "if s = 0 then Inr NUL else rd (ms_src ms) (s - 1)"]
        safe_mD [OF k pre] lua_ok_mono [OF rd_ok [OF s(2)]]) simp_all
qed simp

lemma match_step_safe:
  assumes k: "\<And>q. p < q \<Longrightarrow> q \<le> length pat \<Longrightarrow> safe_m (k q)" and p: "p \<le> length pat"
  shows "safe_m (match_step k pat p)"
  unfolding safe_m_def
proof (intro allI impI)
  fix ms s assume pre: "pre_ok ms s"
  have s: "s \<le> length (ms_src ms)" using pre by (simp add: pre_ok_def)
  note item = match_item_safe [OF k _ pre, of p]
  show "lua_ok (\<lambda>(ms', r). post ms s ms' r) (match_step k pat p ms s)"
    unfolding match_step_def
  proof (rule lua_ok_rd [OF p])
    fix c assume c: "c \<noteq> NUL \<Longrightarrow> p < length pat \<and> pat ! p = c"
    have n: "p + 1 \<le> length pat" if "c \<noteq> NUL" using c [OF that] by simp
    have esc: "lua_ok (\<lambda>(ms', r). post ms s ms' r) (bindR (rd pat (p + 1)) (\<lambda>d.
       if d = CHR ''b'' then bindR (matchbalance (ms_src ms) s pat (p + 2)) (\<lambda>r.
         case r of None \<Rightarrow> Inr (ms, None) | Some s' \<Rightarrow> k (p + 4) ms s')
       else if d = CHR ''f'' then match_frontier k pat (p + 2) ms s
       else if isdigit_c d then bindR (match_capture ms s d) (\<lambda>r.
         case r of None \<Rightarrow> Inr (ms, None) | Some s' \<Rightarrow> k (p + 2) ms s')
       else match_item k pat p ms s))" if nz: "c \<noteq> NUL"
    proof (rule lua_ok_rd [OF n [OF nz]])
      fix d assume d: "d \<noteq> NUL \<Longrightarrow> p + 1 < length pat \<and> pat ! (p + 1) = d"
      have n2: "p + 2 \<le> length pat" if "d \<noteq> NUL" using d [OF that] by simp
      have dig: "d \<noteq> NUL" if "isdigit_c d" using that by (auto simp: isdigit_c_def char_val_def)
      have bal: "lua_ok (\<lambda>(ms', r). post ms s ms' r) (bindR (matchbalance (ms_src ms) s pat (p + 2)) (\<lambda>r.
         case r of None \<Rightarrow> Inr (ms, None) | Some s' \<Rightarrow> k (p + 4) ms s'))" if "d = CHR ''b''"
      proof (rule lua_ok_bind [OF matchbalance_ok [OF _ s]], goal_cases)
        case (2 r)
        then show ?case by (cases r) (auto intro!: safe_at [OF k pre])
      qed (use n2 that in simp)
      have cap: "lua_ok (\<lambda>(ms', r). post ms s ms' r) (bindR (match_capture ms s d) (\<lambda>r.
         case r of None \<Rightarrow> Inr (ms, None) | Some s' \<Rightarrow> k (p + 2) ms s'))" if "isdigit_c d"
      proof (rule lua_ok_bind [OF match_capture_ok [OF s]])
        fix r assume "\<forall>t. r = Some t \<longrightarrow> s \<le> t \<and> t \<le> length (ms_src ms)"
        then show "lua_ok (\<lambda>(ms', r). post ms s ms' r) (case r of None \<Rightarrow> Inr (ms, None) | Some s' \<Rightarrow> k (p + 2) ms s')"
          using n2 [OF dig [OF that]] by (cases r) (auto intro!: safe_at [OF k pre])
      qed
      show "lua_ok (\<lambda>(ms', r). post ms s ms' r) (if d = CHR ''b'' then bindR (matchbalance (ms_src ms) s pat (p + 2)) (\<lambda>r.
         case r of None \<Rightarrow> Inr (ms, None) | Some s' \<Rightarrow> k (p + 4) ms s')
       else if d = CHR ''f'' then match_frontier k pat (p + 2) ms s
       else if isdigit_c d then bindR (match_capture ms s d) (\<lambda>r.
         case r of None \<Rightarrow> Inr (ms, None) | Some s' \<Rightarrow> k (p + 2) ms s')
       else match_item k pat p ms s)"
        by (intro lua_ok_if bal cap match_frontier_safe [OF k _ pre] item) (use n2 c [OF nz] in auto)
    qed
    have par: "lua_ok (\<lambda>(ms', r). post ms s ms' r) (bindR (rd pat (p + 1)) (\<lambda>d.
       if d = CHR '')'' then start_capture (k (p + 2)) ms s CAP_POSITION
       else start_capture (k (p + 1)) ms s CAP_UNFINISHED))" if nz: "c \<noteq> NUL"
      by (rule lua_ok_rd [OF n [OF nz]], rule lua_ok_if)
        (use n [OF nz] in \<open>auto intro!: start_capture_safe k pre\<close>)
    have fin: "lua_ok (\<lambda>(ms', r). post ms s ms' r) (bindR (rd pat (p + 1)) (\<lambda>d.
       if d = NUL then Inr (ms, if s = length (ms_src ms) then Some s else None)
       else match_item k pat p ms s))" if nz: "c \<noteq> NUL"
    proof (rule lua_ok_rd [OF n [OF nz]], rule lua_ok_if)
      show "lua_ok (\<lambda>(ms', r). post ms s ms' r) (Inr (ms, if s = length (ms_src ms) then Some s else None))"
        using pre by (cases "s = length (ms_src ms)") (simp_all add: post_def)
    qed (rule item; use c [OF nz] in \<open>auto intro: k\<close>)
    show "lua_ok (\<lambda>(ms', r). post ms s ms' r) (
      if c = CHR ''('' then bindR (rd pat (p + 1)) (\<lambda>d.
       if d = CHR '')'' then start_capture (k (p + 2)) ms s CAP_POSITION
       else start_capture (k (p + 1)) ms s CAP_UNFINISHED)
     else if c = CHR '')'' then end_capture (k (p + 1)) ms s
     else if c = L_ESC then bindR (rd pat (p + 1)) (\<lambda>d.
       if d = CHR ''b'' then bindR (matchbalance (ms_src ms) s pat (p + 2)) (\<lambda>r.
         case r of None \<Rightarrow> Inr (ms, None) | Some s' \<Rightarrow> k (p + 4) ms s')
       else if d = CHR ''f'' then match_frontier k pat (p + 2) ms s
       else if isdigit_c d then bindR (match_capture ms s d) (\<lambda>r.
         case r of None \<Rightarrow> Inr (ms, None) | Some s' \<Rightarrow> k (p + 2) ms s')
       else match_item k pat p ms s)
     else if c = NUL then Inr (ms, Some s)
     else if c = CHR ''$'' then bindR (rd pat (p + 1)) (\<lambda>d.
       if d = NUL then Inr (ms, if s = length (ms_src ms) then Some s else None)
       else match_item k pat p ms s)
     else match_item k pat p ms s)"
      by (intro lua_ok_if par esc fin end_capture_safe [OF k pre] item) (use c n pre in \<open>auto simp: post_def\<close>)
  qed
qed

lemma match_safe: "p \<le> length pat \<Longrightarrow> safe_m (match pat p)"
proof (induction "length pat - p" arbitrary: p rule: less_induct)
  case less
  have "match pat p = match_step (match pat) pat p" by (intro ext) (rule match.simps)
  then show ?case using match_step_safe [of p pat "match pat"] less by simp
qed

subsection \<open>Whole matches\<close>

text \<open>The state every search of the library starts an attempt with: no capture.\<close>

definition init_ms :: "string \<Rightarrow> match_state" where
  "init_ms src = \<lparr>ms_src = src, ms_level = 0, ms_capture = replicate LUA_MAXCAPTURES (0, 0)\<rparr>"

definition fresh :: "string \<Rightarrow> match_state \<Rightarrow> bool" where
  "fresh src ms = (ms_src ms = src \<and> ms_level ms = 0 \<and> length (ms_capture ms) = LUA_MAXCAPTURES)"

lemma fresh_init [simp]: "fresh src (init_ms src)"
  by (simp add: fresh_def init_ms_def)

lemma fresh_pre: "fresh src ms \<Longrightarrow> s \<le> length src \<Longrightarrow> pre_ok ms s"
  by (simp add: fresh_def pre_ok_def)

text \<open>What a capture of a match from \<open>s\<close> to \<open>e\<close> can be: a position, or a part of the match.\<close>

definition capture_in :: "nat \<Rightarrow> nat \<Rightarrow> nat \<times> int \<Rightarrow> bool" where
  "capture_in s e c = (case c of (i, n) \<Rightarrow> s \<le> i \<and> i \<le> e \<and> (n = CAP_UNFINISHED \<or> n = CAP_POSITION \<or> 0 \<le> n \<and> i + nat n \<le> e))"

lemma post_captures:
  "ms_level ms = 0 \<Longrightarrow> post ms s ms' (Some e) \<Longrightarrow> l < ms_level ms' \<Longrightarrow> capture_in s e (ms_capture ms' ! l)"
  by (auto simp: post_def opened_def pre_ok_def capture_in_def split: prod.splits)

text \<open>C21: Matching any pattern at any place of any subject ends - in a match, a failure or one of the
  error messages - and never reads outside the subject, the pattern or the capture array. A match ends
  inside the subject, not before its start, with at most 32 captures, each of which starts no earlier
  than the match and ends no later; a failed attempt leaves no capture behind.\<close>

theorem match_is_safe:
  assumes "fresh src ms" "p \<le> length pat" "s \<le> length src"
  shows "(\<exists>msg. match pat p ms s = Inl (LuaErr msg)) \<or>
    (\<exists>ms'. match pat p ms s = Inr (ms', None) \<and> fresh src ms') \<or>
    (\<exists>ms' e. match pat p ms s = Inr (ms', Some e) \<and> s \<le> e \<and> e \<le> length src \<and>
       ms_src ms' = src \<and> ms_level ms' \<le> LUA_MAXCAPTURES \<and>
       (\<forall>l < ms_level ms'. capture_in s e (ms_capture ms' ! l)))"
proof -
  have "lua_ok (\<lambda>(ms', r). post ms s ms' r) (match pat p ms s)"
    using safe_mD [OF match_safe [OF assms(2)] fresh_pre [OF assms(1,3)]] .
  then consider (err) msg where "match pat p ms s = Inl (LuaErr msg)"
    | (fail) ms' where "match pat p ms s = Inr (ms', None)" "post ms s ms' None"
    | (hit) ms' e where "match pat p ms s = Inr (ms', Some e)" "post ms s ms' (Some e)"
    by (cases "match pat p ms s"; cases "snd (projr (match pat p ms s))") (auto simp: lua_ok_def)
  then show ?thesis
  proof cases
    case hit
    have "\<forall>l < ms_level ms'. capture_in s e (ms_capture ms' ! l)"
      using post_captures [OF _ hit(2)] assms(1) by (simp add: fresh_def)
    then show ?thesis using hit assms(1) by (auto simp: post_def pre_ok_def fresh_def)
  qed (use assms(1) in \<open>auto simp: post_def fresh_def agree_def\<close>)
qed

theorem match_is_safe_witness:
  "case match ''(a)%1'' 0 (init_ms ''baa'') 1 of
     Inl (LuaErr msg) \<Rightarrow> True | Inl _ \<Rightarrow> False | Inr (ms', None) \<Rightarrow> ms_level ms' = 0
   | Inr (ms', Some e) \<Rightarrow> 1 \<le> e \<and> e \<le> 3 \<and> list_all (capture_in 1 e) (take (ms_level ms') (ms_capture ms'))"
proof -
  have f: "fresh ''baa'' (init_ms ''baa'')" "0 \<le> length ''(a)%1''" "1 \<le> length ''baa''" by simp_all
  show ?thesis using match_is_safe [OF f]
  proof (elim disjE exE conjE)
    fix ms' assume "match ''(a)%1'' 0 (init_ms ''baa'') 1 = Inr (ms', None)" "fresh ''baa'' ms'"
    then show ?thesis by (simp add: fresh_def)
  next
    fix ms' e assume "match ''(a)%1'' 0 (init_ms ''baa'') 1 = Inr (ms', Some e)" "1 \<le> e" "e \<le> length ''baa''"
      "\<forall>l < ms_level ms'. capture_in 1 e (ms_capture ms' ! l)"
    then show ?thesis by (simp add: list_all_length)
  qed simp
qed

end
