(* ===== verification/Lua_Pattern_Lang.thy ===== *)
theory Lua_Pattern_Lang
  imports Lua_Pattern_Safe
begin

text \<open>
  What a pattern means, independently of how the matcher searches: the relation
  \<open>pmatch pat src p cs s cs' e\<close> holds if the pattern from position \<open>p\<close> on can take the subject from
  \<open>s\<close> to \<open>e\<close> and the open and closed captures from \<open>cs\<close> to \<open>cs'\<close>. Its rules choose freely how
  often an item repeats. The backtracking matcher, with its greedy and lazy expansions and its
  captures undone on failure, is sound and complete for it.
\<close>

type_synonym captures = "(nat \<times> int) list"

text \<open>The item at \<open>p\<close> is a single-character class, \<open>ep\<close> its end.\<close>

definition item_at :: "string \<Rightarrow> nat \<Rightarrow> nat \<Rightarrow> bool" where
  "item_at pat p ep = (\<exists>c. rd pat p = Inr c \<and> c \<noteq> CHR ''('' \<and> c \<noteq> CHR '')'' \<and> c \<noteq> NUL \<and>
     (c = L_ESC \<longrightarrow> (\<exists>d. rd pat (p + 1) = Inr d \<and> d \<noteq> CHR ''b'' \<and> d \<noteq> CHR ''f'' \<and> \<not> isdigit_c d)) \<and>
     (c = CHR ''$'' \<longrightarrow> rd pat (p + 1) \<noteq> Inr NUL) \<and> classend pat p = Inr ep)"

text \<open>The \<open>n\<close> characters of the subject from \<open>s\<close> on are of the class.\<close>

definition all_single :: "string \<Rightarrow> nat \<Rightarrow> nat \<Rightarrow> string \<Rightarrow> nat \<Rightarrow> nat \<Rightarrow> bool" where
  "all_single src s n pat p ep = (s + n \<le> length src \<and> (\<forall>j < n. singlematch (src ! (s + j)) pat p ep = Inr True))"

definition char_or_nul :: "string \<Rightarrow> nat \<Rightarrow> char" where
  "char_or_nul s i = (if i < length s then s ! i else NUL)"

text \<open>The place between two characters: outside the class on its left, inside on its right.\<close>

definition frontier_at :: "string \<Rightarrow> nat \<Rightarrow> string \<Rightarrow> nat \<Rightarrow> nat \<Rightarrow> bool" where
  "frontier_at src s pat p ep = (rd pat p = Inr (CHR ''['') \<and> classend pat p = Inr ep \<and>
     matchbracketclass (if s = 0 then NUL else src ! (s - 1)) pat p (ep - 1) = Inr False \<and>
     matchbracketclass (char_or_nul src s) pat p (ep - 1) = Inr True)"

text \<open>The text of the closed capture \<open>d\<close> stands again at \<open>s\<close> and ends at \<open>t\<close>.\<close>

definition backref :: "string \<Rightarrow> captures \<Rightarrow> nat \<Rightarrow> char \<Rightarrow> nat \<Rightarrow> bool" where
  "backref src cs s d t = (\<exists>l i n. char_val d = l + 49 \<and> l < length cs \<and> cs ! l = (i, int n) \<and> t = s + n \<and>
     t \<le> length src \<and> take n (drop i src) = take n (drop s src))"

text \<open>How often an item followed by \<open>x\<close> may repeat, and where the pattern goes on.\<close>

definition times_ok :: "char \<Rightarrow> nat \<Rightarrow> bool" where
  "times_ok x n = (if x = CHR ''?'' then n \<le> 1 else if x = CHR ''*'' \<or> x = CHR ''-'' then True
     else if x = CHR ''+'' then 1 \<le> n else n = 1)"

definition after_item :: "char \<Rightarrow> nat \<Rightarrow> nat" where
  "after_item x ep = (if x \<in> {CHR ''?'', CHR ''*'', CHR ''+'', CHR ''-''} then ep + 1 else ep)"

inductive pmatch :: "string \<Rightarrow> string \<Rightarrow> nat \<Rightarrow> captures \<Rightarrow> nat \<Rightarrow> captures \<Rightarrow> nat \<Rightarrow> bool" for pat src where
  stop: "rd pat p = Inr NUL \<Longrightarrow> pmatch pat src p cs s cs s"
| eos: "rd pat p = Inr (CHR ''$'') \<Longrightarrow> rd pat (p + 1) = Inr NUL \<Longrightarrow> s = length src \<Longrightarrow> pmatch pat src p cs s cs s"
| position: "rd pat p = Inr (CHR ''('') \<Longrightarrow> rd pat (p + 1) = Inr (CHR '')'') \<Longrightarrow>
    pmatch pat src (p + 2) (cs @ [(s, CAP_POSITION)]) s cs' e \<Longrightarrow> pmatch pat src p cs s cs' e"
| opened: "rd pat p = Inr (CHR ''('') \<Longrightarrow> rd pat (p + 1) \<noteq> Inr (CHR '')'') \<Longrightarrow>
    pmatch pat src (p + 1) (cs @ [(s, CAP_UNFINISHED)]) s cs' e \<Longrightarrow> pmatch pat src p cs s cs' e"
| closing: "rd pat p = Inr (CHR '')'') \<Longrightarrow> last_open cs (length cs) = Inr l \<Longrightarrow>
    pmatch pat src (p + 1) (cs[l := (fst (cs ! l), int s - int (fst (cs ! l)))]) s cs' e \<Longrightarrow> pmatch pat src p cs s cs' e"
| balanced: "rd pat p = Inr L_ESC \<Longrightarrow> rd pat (p + 1) = Inr (CHR ''b'') \<Longrightarrow>
    matchbalance src s pat (p + 2) = Inr (Some t) \<Longrightarrow> pmatch pat src (p + 4) cs t cs' e \<Longrightarrow> pmatch pat src p cs s cs' e"
| frontier: "rd pat p = Inr L_ESC \<Longrightarrow> rd pat (p + 1) = Inr (CHR ''f'') \<Longrightarrow>
    frontier_at src s pat (p + 2) ep \<Longrightarrow> pmatch pat src ep cs s cs' e \<Longrightarrow> pmatch pat src p cs s cs' e"
| again: "rd pat p = Inr L_ESC \<Longrightarrow> rd pat (p + 1) = Inr d \<Longrightarrow> isdigit_c d \<Longrightarrow>
    backref src cs s d t \<Longrightarrow> pmatch pat src (p + 2) cs t cs' e \<Longrightarrow> pmatch pat src p cs s cs' e"
| item: "item_at pat p ep \<Longrightarrow> rd pat ep = Inr x \<Longrightarrow> all_single src s n pat p ep \<Longrightarrow>
    times_ok x n \<Longrightarrow> pmatch pat src (after_item x ep) cs (s + n) cs' e \<Longrightarrow>
    pmatch pat src p cs s cs' e"

subsection \<open>Inversion, by the character of the pattern\<close>

lemma pmatch_stop: "rd pat p = Inr NUL \<Longrightarrow> pmatch pat src p cs s cs' e \<longleftrightarrow> cs' = cs \<and> e = s"
  by (subst pmatch.simps) (auto simp: item_at_def)

lemma pmatch_eos: "rd pat p = Inr (CHR ''$'') \<Longrightarrow> rd pat (p + 1) = Inr NUL \<Longrightarrow>
    pmatch pat src p cs s cs' e \<longleftrightarrow> cs' = cs \<and> e = s \<and> s = length src"
  by (subst pmatch.simps) (auto simp: item_at_def)

lemma pmatch_position: "rd pat p = Inr (CHR ''('') \<Longrightarrow> rd pat (p + 1) = Inr (CHR '')'') \<Longrightarrow>
    pmatch pat src p cs s cs' e \<longleftrightarrow> pmatch pat src (p + 2) (cs @ [(s, CAP_POSITION)]) s cs' e"
  by (subst pmatch.simps) (auto simp: item_at_def)

lemma pmatch_opened: "rd pat p = Inr (CHR ''('') \<Longrightarrow> rd pat (p + 1) \<noteq> Inr (CHR '')'') \<Longrightarrow>
    pmatch pat src p cs s cs' e \<longleftrightarrow> pmatch pat src (p + 1) (cs @ [(s, CAP_UNFINISHED)]) s cs' e"
  by (subst pmatch.simps) (auto simp: item_at_def)

lemma pmatch_closing: "rd pat p = Inr (CHR '')'') \<Longrightarrow> last_open cs (length cs) = Inr l \<Longrightarrow>
    pmatch pat src p cs s cs' e \<longleftrightarrow> pmatch pat src (p + 1) (cs[l := (fst (cs ! l), int s - int (fst (cs ! l)))]) s cs' e"
  by (subst pmatch.simps) (auto simp: item_at_def)

lemma pmatch_balanced: "rd pat p = Inr L_ESC \<Longrightarrow> rd pat (p + 1) = Inr (CHR ''b'') \<Longrightarrow>
    pmatch pat src p cs s cs' e \<longleftrightarrow> (\<exists>t. matchbalance src s pat (p + 2) = Inr (Some t) \<and> pmatch pat src (p + 4) cs t cs' e)"
  by (subst pmatch.simps) (auto simp: item_at_def isdigit_c_def char_val_def)

lemma pmatch_frontier: "rd pat p = Inr L_ESC \<Longrightarrow> rd pat (p + 1) = Inr (CHR ''f'') \<Longrightarrow>
    pmatch pat src p cs s cs' e \<longleftrightarrow> (\<exists>ep. frontier_at src s pat (p + 2) ep \<and> pmatch pat src ep cs s cs' e)"
  by (subst pmatch.simps) (auto simp: item_at_def isdigit_c_def char_val_def)

lemma pmatch_again: "rd pat p = Inr L_ESC \<Longrightarrow> rd pat (p + 1) = Inr d \<Longrightarrow> isdigit_c d \<Longrightarrow>
    pmatch pat src p cs s cs' e \<longleftrightarrow> (\<exists>t. backref src cs s d t \<and> pmatch pat src (p + 2) cs t cs' e)"
  by (subst pmatch.simps) (auto simp: item_at_def isdigit_c_def char_val_def)

lemma item_excl:
  assumes "item_at pat p ep"
  shows "rd pat p \<noteq> Inr NUL" "rd pat p \<noteq> Inr (CHR ''('')" "rd pat p \<noteq> Inr (CHR '')'')"
    "rd pat p = Inr (CHR ''$'') \<Longrightarrow> rd pat (p + 1) \<noteq> Inr NUL"
    "rd pat p = Inr L_ESC \<Longrightarrow> rd pat (p + 1) \<noteq> Inr (CHR ''b'')"
    "rd pat p = Inr L_ESC \<Longrightarrow> rd pat (p + 1) \<noteq> Inr (CHR ''f'')"
    "rd pat p = Inr L_ESC \<Longrightarrow> rd pat (p + 1) = Inr d \<Longrightarrow> \<not> isdigit_c d"
    "item_at pat p q \<Longrightarrow> q = ep"
  using assms by (auto simp: item_at_def)

lemma pmatch_item:
  assumes i: "item_at pat p ep" and x: "rd pat ep = Inr x"
  shows "pmatch pat src p cs s cs' e \<longleftrightarrow> (\<exists>n. all_single src s n pat p ep \<and>
      times_ok x n \<and> pmatch pat src (after_item x ep) cs (s + n) cs' e)" (is "_ \<longleftrightarrow> ?R")
proof
  assume "pmatch pat src p cs s cs' e"
  then show ?R
  proof cases
    case (item q y n)
    then have "q = ep" by (simp add: item_excl(8) [OF i])
    with item x have "y = x" by simp
    with item \<open>q = ep\<close> show ?thesis by blast
  qed (use item_excl [OF i] in \<open>simp_all only: not_False_eq_True simp_thms\<close>)
next
  assume ?R
  then show "pmatch pat src p cs s cs' e" using pmatch.item [OF i x] by blast
qed

subsection \<open>Deciding a relation\<close>

definition caps :: "match_state \<Rightarrow> captures" where
  "caps ms = take (ms_level ms) (ms_capture ms)"

lemma caps_agree: "agree ms ms' \<Longrightarrow> caps ms' = caps ms"
  by (simp add: caps_def agree_def)

lemma caps_length: "pre_ok ms s \<Longrightarrow> length (caps ms) = ms_level ms"
  by (simp add: caps_def pre_ok_def)

lemma caps_nth: "l < ms_level ms \<Longrightarrow> caps ms ! l = ms_capture ms ! l"
  by (simp add: caps_def)

text \<open>A run that found an end found one in the relation; a run that failed shows there is none.\<close>

definition decides :: "(match_state \<times> nat option) lres \<Rightarrow> (captures \<Rightarrow> nat \<Rightarrow> bool) \<Rightarrow> bool" where
  "decides x R = (\<forall>ms' r. x = Inr (ms', r) \<longrightarrow>
     (case r of Some e \<Rightarrow> R (caps ms') e | None \<Rightarrow> \<forall>cs e. \<not> R cs e))"

definition exact_m :: "string \<Rightarrow> matcher \<Rightarrow> (captures \<Rightarrow> nat \<Rightarrow> captures \<Rightarrow> nat \<Rightarrow> bool) \<Rightarrow> bool" where
  "exact_m src m R = (safe_m m \<and> (\<forall>ms s. pre_ok ms s \<longrightarrow> ms_src ms = src \<longrightarrow> decides (m ms s) (R (caps ms) s)))"

lemma exact_safe: "exact_m src m R \<Longrightarrow> safe_m m"
  by (simp add: exact_m_def)

lemma exact_D: "exact_m src m R \<Longrightarrow> pre_ok ms s \<Longrightarrow> ms_src ms = src \<Longrightarrow> decides (m ms s) (R (caps ms) s)"
  by (simp add: exact_m_def)

lemma decides_Inl [simp]: "decides (Inl e) R"
  by (simp add: decides_def)

lemma decides_None [simp]: "decides (Inr (ms, None)) R \<longleftrightarrow> (\<forall>cs e. \<not> R cs e)"
  by (simp add: decides_def)

lemma decides_Some [simp]: "decides (Inr (ms, Some e)) R \<longleftrightarrow> R (caps ms) e"
  by (simp add: decides_def)

lemma decides_bind: "(\<And>x. m = Inr x \<Longrightarrow> decides (f x) R) \<Longrightarrow> decides (bindR m f) R"
  by (cases m) auto

lemma decides_if: "(b \<Longrightarrow> decides x R) \<Longrightarrow> (\<not> b \<Longrightarrow> decides y R) \<Longrightarrow> decides (if b then x else y) R"
  by simp

lemma decides_cong: "decides x R \<Longrightarrow> (\<And>cs e. R cs e \<longleftrightarrow> R' cs e) \<Longrightarrow> decides x R'"
proof -
  assume d: "decides x R" and "\<And>cs e. R cs e \<longleftrightarrow> R' cs e"
  then have "R = R'" by (intro ext)
  with d show ?thesis by simp
qed

lemma decides_eqI: "(\<And>cs e. R' cs e \<longleftrightarrow> R cs e) \<Longrightarrow> decides x R \<Longrightarrow> decides x R'"
  using decides_cong by blast

text \<open>Trying one matcher and then another decides the disjunction.\<close>

lemma decides_then:
  assumes "decides x R1" "\<And>ms'. x = Inr (ms', None) \<Longrightarrow> decides (g ms') R2"
  shows "decides (bindR x (\<lambda>(ms', r). case r of Some e \<Rightarrow> Inr (ms', Some e) | None \<Rightarrow> g ms'))
    (\<lambda>cs e. R1 cs e \<or> R2 cs e)"
proof (rule decides_bind)
  fix y assume x: "x = Inr y"
  obtain ms' r where y: "y = (ms', r)" by fastforce
  show "decides (case y of (ms', r) \<Rightarrow> case r of Some e \<Rightarrow> Inr (ms', Some e) | None \<Rightarrow> g ms') (\<lambda>cs e. R1 cs e \<or> R2 cs e)"
  proof (cases r)
    case None
    with assms(1) x y have "\<not> R1 cs e" for cs e by simp
    then show ?thesis using assms(2) x None y by simp
  next
    case (Some e)
    then show ?thesis using assms(1) x y by simp
  qed
qed

text \<open>A matcher that failed leaves a state on which the next one may be run.\<close>

lemma exact_next:
  assumes "exact_m src k R" "pre_ok ms s" "ms_src ms = src" "k ms t = Inr (ms', None)" "s \<le> t" "t \<le> length src"
  shows "agree ms ms'" "pre_ok ms' s" "ms_src ms' = src" "caps ms' = caps ms"
proof -
  have "pre_ok ms t" using pre_ok_mono assms(2,3,5,6) by blast
  from safe_mD [OF exact_safe [OF assms(1)] this] assms(4) show a: "agree ms ms'" by (simp add: post_def)
  show "pre_ok ms' s" by (rule agree_pre [OF a assms(2)])
  show "ms_src ms' = src" "caps ms' = caps ms" using a assms(3) by (simp_all add: agree_def caps_def)
qed

lemma exact_at: "exact_m src k R \<Longrightarrow> pre_ok ms s \<Longrightarrow> ms_src ms = src \<Longrightarrow> s \<le> t \<Longrightarrow> t \<le> length src \<Longrightarrow>
    decides (k ms t) (R (caps ms) t)"
  using exact_D pre_ok_mono by blast

subsection \<open>Repetitions\<close>

lemma expand_down_decides:
  "exact_m src k R \<Longrightarrow> pre_ok ms s \<Longrightarrow> ms_src ms = src \<Longrightarrow> s + i \<le> length src \<Longrightarrow>
   decides (expand_down k ms s i) (\<lambda>cs e. \<exists>n \<le> i. R (caps ms) (s + n) cs e)"
proof (induction i arbitrary: ms)
  case 0
  then show ?case using exact_D by simp
next
  case (Suc i)
  have at: "decides (k ms (s + Suc i)) (R (caps ms) (s + Suc i))"
    by (rule exact_at [OF Suc.prems(1-3)]) (use Suc.prems(4) in auto)
  have nx: "decides (expand_down k ms' s i) (\<lambda>cs e. \<exists>n \<le> i. R (caps ms) (s + n) cs e)"
    if "k ms (s + Suc i) = Inr (ms', None)" for ms'
  proof -
    note e = exact_next [OF Suc.prems(1-3) that _ Suc.prems(4)]
    show ?thesis using Suc.IH [OF Suc.prems(1) e(2,3)] Suc.prems(4) e(4) by simp
  qed
  show ?case unfolding expand_down.simps
    by (rule decides_cong [OF decides_then [OF at nx]]) (auto simp: le_Suc_eq)
qed

lemma all_single_Suc:
  "all_single src s (Suc n) pat p ep \<longleftrightarrow> all_single src s n pat p ep \<and> matches_here src (s + n) pat p ep = Inr True"
  by (auto simp: all_single_def matches_here_def less_Suc_eq)

lemma all_single_mono: "all_single src s n pat p ep \<Longrightarrow> m \<le> n \<Longrightarrow> all_single src s m pat p ep"
  by (auto simp: all_single_def)

lemma all_single_shift:
  "matches_here src s pat p ep = Inr True \<Longrightarrow> all_single src s (Suc n) pat p ep \<longleftrightarrow> all_single src (Suc s) n pat p ep"
  by (auto simp: all_single_def matches_here_def All_less_Suc2 split: if_splits)

lemma count_max_all:
  "count_max src s pat p ep i = Inr j \<Longrightarrow> all_single src s i pat p ep \<Longrightarrow> all_single src s n pat p ep \<longleftrightarrow> n \<le> j"
proof (induction src s pat p ep i rule: count_max.induct)
  case (1 src s pat p ep i)
  from 1(2) obtain b where b: "matches_here src (s + i) pat p ep = Inr b"
    "(if b \<and> s + i < length src then count_max src s pat p ep (i + 1) else Inr i) = Inr j"
    by (subst (asm) count_max.simps) auto
  show ?case
  proof (cases "b \<and> s + i < length src")
    case True
    then have "all_single src s (i + 1) pat p ep" using 1(3) b(1) by (simp add: all_single_Suc)
    then show ?thesis using 1(1) [OF b(1) True] b(2) True by simp
  next
    case False
    then have "\<not> all_single src s (Suc i) pat p ep" using b(1) by (auto simp: all_single_Suc all_single_def matches_here_def)
    then have "all_single src s n pat p ep \<Longrightarrow> n \<le> i" using all_single_mono [of src s n] by (meson not_less_eq_eq)
    then show ?thesis using 1(3) all_single_mono False b(2) by auto
  qed
qed

lemma max_expand_decides:
  assumes "exact_m src k R" "pre_ok ms s" "ms_src ms = src"
  shows "decides (max_expand k ms s pat p ep) (\<lambda>cs e. \<exists>n. all_single src s n pat p ep \<and> R (caps ms) (s + n) cs e)"
  unfolding max_expand_def
proof (rule decides_bind)
  fix j assume j: "count_max (ms_src ms) s pat p ep 0 = Inr j"
  have "all_single src s 0 pat p ep" using assms(2,3) by (simp add: all_single_def pre_ok_def)
  with count_max_all [OF j] assms(3) have n: "all_single src s n pat p ep \<longleftrightarrow> n \<le> j" for n by simp
  then have "s + j \<le> length src" using all_single_def by blast
  from expand_down_decides [OF assms this]
  show "decides (expand_down k ms s j) (\<lambda>cs e. \<exists>n. all_single src s n pat p ep \<and> R (caps ms) (s + n) cs e)"
    by (simp add: n)
qed

lemma min_expand_decides:
  "exact_m src k R \<Longrightarrow> pre_ok ms s \<Longrightarrow> ms_src ms = src \<Longrightarrow>
   decides (min_expand src k ms s pat p ep) (\<lambda>cs e. \<exists>n. all_single src s n pat p ep \<and> R (caps ms) (s + n) cs e)"
proof (induction src k ms s pat p ep rule: min_expand.induct)
  case (1 src k ms s pat p ep)
  have s: "s \<le> length src" using 1(3,4) by (simp add: pre_ok_def)
  have ex: "(\<exists>n. all_single src s n pat p ep \<and> R (caps ms) (s + n) cs e) \<longleftrightarrow>
      R (caps ms) s cs e \<or> (\<exists>n. all_single src s (Suc n) pat p ep \<and> R (caps ms) (s + Suc n) cs e)" for cs e
  proof -
    have "all_single src s 0 pat p ep" using s by (simp add: all_single_def)
    then show ?thesis by (metis add_0_right not0_implies_Suc)
  qed
  show ?case
  proof (subst min_expand.simps, rule decides_cong [OF decides_then [OF exact_D [OF 1(2-4)]] ex [symmetric]])
    fix ms' assume k: "k ms s = Inr (ms', None)"
    note e = exact_next [OF 1(2-4) k order_refl s]
    show "decides (bindR (matches_here src s pat p ep) (\<lambda>b.
         if b \<and> s < length src then min_expand src k ms' (s + 1) pat p ep else Inr (ms', None)))
       (\<lambda>cs e. \<exists>n. all_single src s (Suc n) pat p ep \<and> R (caps ms) (s + Suc n) cs e)"
    proof (rule decides_bind, rule decides_if)
      fix b assume b: "matches_here src s pat p ep = Inr b" "b \<and> s < length src"
      have "pre_ok ms' (s + 1)" by (rule pre_ok_mono [OF e(2)]) (use b(2) e(3) in auto)
      from 1(1) [OF k refl refl b 1(2) this e(3)]
      show "decides (min_expand src k ms' (s + 1) pat p ep)
          (\<lambda>cs e. \<exists>n. all_single src s (Suc n) pat p ep \<and> R (caps ms) (s + Suc n) cs e)"
        by (rule decides_cong) (use b in \<open>simp add: all_single_shift e(4)\<close>)
    next
      fix b assume b: "matches_here src s pat p ep = Inr b" "\<not> (b \<and> s < length src)"
      then have "\<not> all_single src s (Suc n) pat p ep" for n
        by (auto simp: all_single_def matches_here_def dest: spec [of _ 0] split: if_splits)
      then show "decides (Inr (ms', None)) (\<lambda>cs e. \<exists>n. all_single src s (Suc n) pat p ep \<and> R (caps ms) (s + Suc n) cs e)"
        by simp
    qed
  qed
qed

subsection \<open>Captures\<close>

lemma start_capture_decides:
  assumes k: "exact_m src k R" and pre: "pre_ok ms s" "ms_src ms = src" and w: "what = CAP_UNFINISHED \<or> what = CAP_POSITION"
  shows "decides (start_capture k ms s what) (R (caps ms @ [(s, what)]) s)"
proof (cases "LUA_MAXCAPTURES \<le> ms_level ms")
  case False
  let ?ms = "ms\<lparr>ms_capture := (ms_capture ms)[ms_level ms := (s, what)], ms_level := ms_level ms + 1\<rparr>"
  have p: "pre_ok ?ms s" using pre w False by (auto simp: pre_ok_def nth_list_update less_Suc_eq)
  have c: "caps ?ms = caps ms @ [(s, what)]"
    using pre False by (simp add: caps_def pre_ok_def take_Suc_conv_app_nth)
  have "decides (k ?ms s) (R (caps ms @ [(s, what)]) s)" using exact_D [OF k p] pre(2) c by simp
  then show ?thesis using False
    by (cases "k ?ms s") (auto simp: start_capture_def Let_def decides_def split: option.splits)
qed (simp add: start_capture_def)

lemma last_open_caps: "pre_ok ms s \<Longrightarrow> last_open (ms_capture ms) (ms_level ms) = last_open (caps ms) (length (caps ms))"
proof -
  assume pre: "pre_ok ms s"
  have "n \<le> ms_level ms \<Longrightarrow> last_open (ms_capture ms) n = last_open (caps ms) n" for n
    by (induction n) (simp_all add: caps_nth)
  then show ?thesis by (simp add: caps_length [OF pre])
qed

lemma end_capture_decides:
  assumes k: "exact_m src k R" and pre: "pre_ok ms s" "ms_src ms = src" and l: "last_open (caps ms) (length (caps ms)) = Inr l"
  shows "decides (end_capture k ms s) (R ((caps ms)[l := (fst (caps ms ! l), int s - int (fst (caps ms ! l)))]) s)"
proof -
  have o: "last_open (ms_capture ms) (ms_level ms) = Inr l" using last_open_caps [OF pre(1)] l by simp
  from last_open_ok [of "ms_level ms" "ms_capture ms"] o
  have l': "l < ms_level ms" "snd (ms_capture ms ! l) = CAP_UNFINISHED" by simp_all
  let ?c = "(fst (ms_capture ms ! l), int s - int (fst (ms_capture ms ! l)))"
  let ?ms = "ms\<lparr>ms_capture := (ms_capture ms)[l := ?c]\<rparr>"
  have "fst (ms_capture ms ! l) \<le> s" using pre l' by (cases "ms_capture ms ! l") (auto simp: pre_ok_def)
  then have p: "pre_ok ?ms s" using pre l' by (auto simp: pre_ok_def nth_list_update)
  have c: "caps ?ms = (caps ms)[l := ?c]" by (simp add: caps_def take_update_swap)
  have "decides (k ?ms s) (R ((caps ms)[l := ?c]) s)" using exact_D [OF k p] pre(2) c by simp
  then show ?thesis unfolding end_capture_def capture_to_close_def o bindR_simps Let_def caps_nth [OF l'(1)]
    by (cases "k ?ms s") (auto simp: decides_def split: option.splits)
qed

lemma match_capture_iff:
  assumes "match_capture ms s d = Inr r" "pre_ok ms s" "ms_src ms = src"
  shows "backref src (caps ms) s d t \<longleftrightarrow> r = Some t"
proof -
  obtain l where l: "check_capture ms d = Inr l" using assms(1) by (auto simp: match_capture_def)
  then have d: "char_val d = l + 49" and lv: "l < ms_level ms"
    by (auto simp: check_capture_def Let_def split: if_splits)
  obtain i n where c: "ms_capture ms ! l = (i, n)" by fastforce
  have s: "s \<le> length src" using assms(2,3) by (simp add: pre_ok_def)
  have r: "r = (if 0 \<le> n \<and> nat n \<le> length src - s \<and> take (nat n) (drop i src) = take (nat n) (drop s src)
      then Some (s + nat n) else None)"
    using assms(1,3) l c by (simp add: match_capture_def)
  have "backref src (caps ms) s d t \<longleftrightarrow> (\<exists>m. n = int m \<and> t = s + m \<and> t \<le> length src \<and> take m (drop i src) = take m (drop s src))"
    using d lv c caps_length [OF assms(2)] by (auto simp: backref_def caps_nth)
  also have "\<dots> \<longleftrightarrow> r = Some t" unfolding r using s by (cases n rule: int_cases2) auto
  finally show ?thesis .
qed

subsection \<open>The matcher\<close>

lemma ex_pos: "(\<exists>n. P n \<and> Suc 0 \<le> n \<and> Q n) \<longleftrightarrow> (\<exists>n. P (Suc n) \<and> Q (Suc n))"
  by (metis Suc_le_D Suc_le_mono le0)

lemma item_decides:
  assumes k: "\<And>q. p < q \<Longrightarrow> q \<le> length pat \<Longrightarrow> exact_m src (k q) (pmatch pat src q)"
    and i: "\<And>ep. classend pat p = Inr ep \<Longrightarrow> item_at pat p ep"
    and p: "p < length pat" and pre: "pre_ok ms s" "ms_src ms = src"
  shows "decides (match_item k pat p ms s) (pmatch pat src p (caps ms) s)"
  unfolding match_item_def
proof (intro decides_bind)
  fix ep m x assume ep: "classend pat p = Inr ep" and m: "matches_here (ms_src ms) s pat p ep = Inr m" and x: "rd pat ep = Inr x"
  note inv = pmatch_item [OF i [OF ep] x, of src "caps ms" s]
  have epl: "p < ep" "ep \<le> length pat" using classend_ok [OF p] ep by simp_all
  have k1: "exact_m src (k (ep + 1)) (pmatch pat src (ep + 1))" if "x \<noteq> NUL" using k rd_nonnul [OF x that] epl by simp
  have s: "s \<le> length src" using pre by (simp add: pre_ok_def)
  have one: "all_single src s 1 pat p ep \<longleftrightarrow> m" "all_single src s 0 pat p ep"
    using m pre(2) s all_single_Suc [of src s 0 pat p ep] by (simp_all add: all_single_def)
  have m1: "s + 1 \<le> length src" if m using one(1) that by (simp add: all_single_def)
  let ?R = "pmatch pat src p (caps ms) s"
  show "decides (if x = CHR ''?'' then
         (if m then bindR (k (ep + 1) ms (s + 1)) (\<lambda>(ms', r).
            case r of Some e \<Rightarrow> Inr (ms', Some e) | None \<Rightarrow> k (ep + 1) ms' s)
          else k (ep + 1) ms s)
       else if x = CHR ''*'' then max_expand (k (ep + 1)) ms s pat p ep
       else if x = CHR ''+'' then (if m then max_expand (k (ep + 1)) ms (s + 1) pat p ep else Inr (ms, None))
       else if x = CHR ''-'' then min_expand (ms_src ms) (k (ep + 1)) ms s pat p ep
       else if m then k ep ms (s + 1) else Inr (ms, None)) ?R"
  proof (intro decides_if)
    assume x: "x = CHR ''?''" and m: m
    have inv: "?R cs e \<longleftrightarrow> pmatch pat src (ep + 1) (caps ms) (s + 1) cs e \<or> pmatch pat src (ep + 1) (caps ms) s cs e" for cs e
      unfolding inv using one m x by (auto simp: times_ok_def after_item_def le_Suc_eq)
    have k1: "exact_m src (k (ep + 1)) (pmatch pat src (ep + 1))" using k1 x by simp
    show "decides (bindR (k (ep + 1) ms (s + 1)) (\<lambda>(ms', r).
            case r of Some e \<Rightarrow> Inr (ms', Some e) | None \<Rightarrow> k (ep + 1) ms' s)) ?R"
    proof (rule decides_cong [OF decides_then inv [symmetric]])
      show "decides (k (ep + 1) ms (s + 1)) (pmatch pat src (ep + 1) (caps ms) (s + 1))"
        by (rule exact_at [OF k1 pre]) (use m1 [OF m] in auto)
      fix ms' assume "k (ep + 1) ms (s + 1) = Inr (ms', None)"
      note e = exact_next [OF k1 pre this _ m1 [OF m]]
      show "decides (k (ep + 1) ms' s) (pmatch pat src (ep + 1) (caps ms) s)"
        using exact_D [OF k1 e(2,3)] e(4) by simp
    qed
  next
    assume x: "x = CHR ''?''" and m: "\<not> m"
    have "?R cs e \<longleftrightarrow> pmatch pat src (ep + 1) (caps ms) s cs e" for cs e
      unfolding inv using one m x by (auto simp: times_ok_def after_item_def le_Suc_eq)
    with exact_D [OF k1 pre] x show "decides (k (ep + 1) ms s) ?R" by (auto elim!: decides_cong)
  next
    assume x: "x = CHR ''*''"
    have "?R cs e \<longleftrightarrow> (\<exists>n. all_single src s n pat p ep \<and> pmatch pat src (ep + 1) (caps ms) (s + n) cs e)" for cs e
      unfolding inv using x by (simp add: times_ok_def after_item_def)
    from decides_cong [OF max_expand_decides [OF k1 pre] this [symmetric]] x
    show "decides (max_expand (k (ep + 1)) ms s pat p ep) ?R" by simp
  next
    assume x: "x = CHR ''+''" and m: m
    have mh: "matches_here src s pat p ep = Inr True" using \<open>matches_here (ms_src ms) s pat p ep = Inr m\<close> pre(2) m by simp
    have e: "?R cs e \<longleftrightarrow> (\<exists>n. all_single src (s + 1) n pat p ep \<and> pmatch pat src (ep + 1) (caps ms) (s + 1 + n) cs e)" for cs e
      unfolding inv using x all_single_shift [OF mh] by (simp add: times_ok_def after_item_def ex_pos)
    have "pre_ok ms (s + 1)" by (rule pre_ok_mono [OF pre(1)]) (use m1 [OF m] pre(2) in auto)
    from decides_cong [OF max_expand_decides [OF k1 this pre(2)] e [symmetric]] x
    show "decides (max_expand (k (ep + 1)) ms (s + 1) pat p ep) ?R" by simp
  next
    assume x: "x = CHR ''+''" and m: "\<not> m"
    have "\<not> all_single src s n pat p ep" if "1 \<le> n" for n using one(1) m all_single_mono that by blast
    then show "decides (Inr (ms, None)) ?R" unfolding inv using x by (auto simp: times_ok_def)
  next
    assume x: "x = CHR ''-''"
    have "?R cs e \<longleftrightarrow> (\<exists>n. all_single src s n pat p ep \<and> pmatch pat src (ep + 1) (caps ms) (s + n) cs e)" for cs e
      unfolding inv using x by (simp add: times_ok_def after_item_def)
    from decides_cong [OF min_expand_decides [OF k1 pre] this [symmetric]] x pre(2)
    show "decides (min_expand (ms_src ms) (k (ep + 1)) ms s pat p ep) ?R" by simp
  next
    assume x: "x \<noteq> CHR ''?''" "x \<noteq> CHR ''*''" "x \<noteq> CHR ''+''" "x \<noteq> CHR ''-''" and m: m
    have "?R cs e \<longleftrightarrow> pmatch pat src ep (caps ms) (s + 1) cs e" for cs e
      unfolding inv using x one m by (auto simp: times_ok_def after_item_def)
    moreover have "decides (k ep ms (s + 1)) (pmatch pat src ep (caps ms) (s + 1))"
      by (rule exact_at [OF k pre]) (use epl m1 [OF m] in auto)
    ultimately show "decides (k ep ms (s + 1)) ?R" by (auto elim!: decides_cong)
  next
    assume x: "x \<noteq> CHR ''?''" "x \<noteq> CHR ''*''" "x \<noteq> CHR ''+''" "x \<noteq> CHR ''-''" and m: "\<not> m"
    then show "decides (Inr (ms, None)) ?R" unfolding inv using one(1) by (simp add: times_ok_def)
  qed
qed

lemma frontier_decides:
  assumes k: "\<And>q. p < q \<Longrightarrow> q \<le> length pat \<Longrightarrow> exact_m src (k q) (pmatch pat src q)"
    and p: "p \<le> length pat" and pre: "pre_ok ms s" "ms_src ms = src"
  shows "decides (match_frontier k pat p ms s) (\<lambda>cs e. \<exists>ep. frontier_at src s pat p ep \<and> pmatch pat src ep (caps ms) s cs e)"
  unfolding match_frontier_def
proof (rule decides_bind, rule decides_if [OF decides_Inl], intro decides_bind)
  fix x ep c0 b0
  assume x: "rd pat p = Inr x" "\<not> x \<noteq> CHR ''[''" and ep: "classend pat p = Inr ep"
    and c0: "(if s = 0 then Inr NUL else rd (ms_src ms) (s - 1)) = Inr c0"
    and b0: "matchbracketclass c0 pat p (ep - 1) = Inr b0"
  have s: "s \<le> length src" using pre by (simp add: pre_ok_def)
  have pl: "p < length pat" using x rd_nonnul [OF x(1)] by auto
  have epl: "p < ep" "ep \<le> length pat" using classend_ok [OF pl] ep by simp_all
  have c0': "c0 = (if s = 0 then NUL else src ! (s - 1))" using c0 pre(2) s by (auto simp: rd_def split: if_splits)
  let ?F = "\<lambda>cs e. \<exists>ep. frontier_at src s pat p ep \<and> pmatch pat src ep (caps ms) s cs e"
  show "decides (if b0 then Inr (ms, None)
         else bindR (rd (ms_src ms) s) (\<lambda>c.
           bindR (matchbracketclass c pat p (ep - 1)) (\<lambda>b.
             if b then k ep ms s else Inr (ms, None)))) ?F"
  proof (rule decides_if)
    assume b0
    then show "decides (Inr (ms, None)) ?F" using b0 ep by (auto simp: frontier_at_def c0')
  next
    assume n0: "\<not> b0"
    show "decides (bindR (rd (ms_src ms) s) (\<lambda>c. bindR (matchbracketclass c pat p (ep - 1)) (\<lambda>b.
             if b then k ep ms s else Inr (ms, None)))) ?F"
    proof (intro decides_bind)
      fix c b assume c: "rd (ms_src ms) s = Inr c" and b: "matchbracketclass c pat p (ep - 1) = Inr b"
      have "c = char_or_nul src s" using c pre(2) s by (auto simp: rd_def char_or_nul_def split: if_splits)
      then have f: "frontier_at src s pat p q \<longleftrightarrow> q = ep \<and> b" for q
        using x ep b b0 n0 by (auto simp: frontier_at_def c0')
      have "decides (k ep ms s) (pmatch pat src ep (caps ms) s)" by (rule exact_D [OF k pre]) (use epl in auto)
      then show "decides (if b then k ep ms s else Inr (ms, None)) ?F" by (simp add: f)
    qed
  qed
qed

lemma not_special_item:
  assumes "rd pat p = Inr c" "c \<noteq> CHR ''(''" "c \<noteq> CHR '')''" "c \<noteq> NUL"
    and "c = L_ESC \<Longrightarrow> rd pat (p + 1) = Inr d \<and> d \<noteq> CHR ''b'' \<and> d \<noteq> CHR ''f'' \<and> \<not> isdigit_c d"
    and "c = CHR ''$'' \<Longrightarrow> rd pat (p + 1) \<noteq> Inr NUL" and "classend pat p = Inr ep"
  shows "item_at pat p ep"
  using assms by (auto simp: item_at_def)

lemma step_decides:
  assumes k: "\<And>q. p < q \<Longrightarrow> q \<le> length pat \<Longrightarrow> exact_m src (k q) (pmatch pat src q)"
    and p: "p \<le> length pat" and pre: "pre_ok ms s" "ms_src ms = src"
  shows "decides (match_step k pat p ms s) (pmatch pat src p (caps ms) s)"
  unfolding match_step_def
proof (rule decides_bind, intro decides_if)
  fix c assume c: "rd pat p = Inr c"
  have n: "p < length pat" if "c \<noteq> NUL" using rd_nonnul [OF c that] by simp
  have s: "s \<le> length src" using pre by (simp add: pre_ok_def)
  have nx: "q + 1 \<le> length pat" if "rd pat q = Inr d" "d \<noteq> NUL" for q d using rd_nonnul [OF that] by simp
  let ?R = "pmatch pat src p (caps ms) s"
  {
    assume o: "c = CHR ''(''"
    show "decides (bindR (rd pat (p + 1)) (\<lambda>d.
       if d = CHR '')'' then start_capture (k (p + 2)) ms s CAP_POSITION
       else start_capture (k (p + 1)) ms s CAP_UNFINISHED)) ?R"
    proof (rule decides_bind, rule decides_if)
      fix d assume d: "rd pat (p + 1) = Inr d" "d = CHR '')''"
      have "exact_m src (k (p + 2)) (pmatch pat src (p + 2))" using k nx [OF d(1)] d(2) by simp
      note sc = start_capture_decides [OF this pre]
      show "decides (start_capture (k (p + 2)) ms s CAP_POSITION) ?R"
        by (rule decides_eqI [OF pmatch_position sc]) (use c o d in simp_all)
    next
      fix d assume d: "rd pat (p + 1) = Inr d" "d \<noteq> CHR '')''"
      have "exact_m src (k (p + 1)) (pmatch pat src (p + 1))" using k n o by simp
      note sc = start_capture_decides [OF this pre]
      show "decides (start_capture (k (p + 1)) ms s CAP_UNFINISHED) ?R"
        by (rule decides_eqI [OF pmatch_opened sc]) (use c o d in simp_all)
    qed
  next
    assume o: "c = CHR '')''"
    have ex: "exact_m src (k (p + 1)) (pmatch pat src (p + 1))" using k n o by simp
    show "decides (end_capture (k (p + 1)) ms s) ?R"
    proof (cases "last_open (caps ms) (length (caps ms))")
      case (Inl e)
      then show ?thesis using last_open_caps [OF pre(1)] by (simp add: end_capture_def capture_to_close_def)
    next
      case (Inr l)
      show ?thesis by (rule decides_eqI [OF pmatch_closing [OF c [unfolded o] Inr] end_capture_decides [OF ex pre Inr]])
    qed
  next
    assume o: "c = L_ESC"
    show "decides (bindR (rd pat (p + 1)) (\<lambda>d.
       if d = CHR ''b'' then bindR (matchbalance (ms_src ms) s pat (p + 2)) (\<lambda>r.
         case r of None \<Rightarrow> Inr (ms, None) | Some s' \<Rightarrow> k (p + 4) ms s')
       else if d = CHR ''f'' then match_frontier k pat (p + 2) ms s
       else if isdigit_c d then bindR (match_capture ms s d) (\<lambda>r.
         case r of None \<Rightarrow> Inr (ms, None) | Some s' \<Rightarrow> k (p + 2) ms s')
       else match_item k pat p ms s)) ?R"
    proof (rule decides_bind, intro decides_if)
      fix d assume d: "rd pat (p + 1) = Inr d" "d = CHR ''b''"
      note inv = pmatch_balanced [OF c [unfolded o] d(1) [unfolded d(2)], of src "caps ms" s]
      have p2: "p + 2 \<le> length pat" using nx [OF d(1)] d(2) by simp
      show "decides (bindR (matchbalance (ms_src ms) s pat (p + 2)) (\<lambda>r.
         case r of None \<Rightarrow> Inr (ms, None) | Some s' \<Rightarrow> k (p + 4) ms s')) ?R"
      proof (rule decides_bind)
        fix r assume r: "matchbalance (ms_src ms) s pat (p + 2) = Inr r"
        from matchbalance_ok [OF p2 s] r pre(2)
        have b: "p + 4 \<le> length pat" "\<And>t. r = Some t \<Longrightarrow> s < t \<and> t \<le> length src" by auto
        have "decides (k (p + 4) ms t) (pmatch pat src (p + 4) (caps ms) t)" if "r = Some t" for t
          by (rule exact_at [OF k pre]) (use b that in auto)
        then show "decides (case r of None \<Rightarrow> Inr (ms, None) | Some s' \<Rightarrow> k (p + 4) ms s') ?R"
          by (intro decides_eqI [OF inv], cases r) (use r pre(2) in simp_all)
      qed
    next
      fix d assume d: "rd pat (p + 1) = Inr d" "d = CHR ''f''"
      note inv = pmatch_frontier [OF c [unfolded o] d(1) [unfolded d(2)], of src "caps ms" s]
      have p2: "p + 2 \<le> length pat" using nx [OF d(1)] d(2) by simp
      show "decides (match_frontier k pat (p + 2) ms s) ?R"
        by (rule decides_cong [OF frontier_decides [OF k p2 pre] inv [symmetric]]) auto
    next
      fix d assume d: "rd pat (p + 1) = Inr d" "isdigit_c d"
      note inv = pmatch_again [OF c [unfolded o] d, of src "caps ms" s]
      have "d \<noteq> NUL" using d(2) by (auto simp: isdigit_c_def char_val_def)
      then have p2: "p + 2 \<le> length pat" using nx [OF d(1)] by simp
      show "decides (bindR (match_capture ms s d) (\<lambda>r.
         case r of None \<Rightarrow> Inr (ms, None) | Some s' \<Rightarrow> k (p + 2) ms s')) ?R"
      proof (rule decides_bind)
        fix r assume r: "match_capture ms s d = Inr r"
        note br = match_capture_iff [OF r pre]
        have "decides (k (p + 2) ms t) (pmatch pat src (p + 2) (caps ms) t)" if "r = Some t" for t
        proof (rule exact_at [OF k pre])
          from match_capture_ok [of s ms d] r s pre(2) that show "s \<le> t" "t \<le> length src" by auto
        qed (use p2 in auto)
        then show "decides (case r of None \<Rightarrow> Inr (ms, None) | Some s' \<Rightarrow> k (p + 2) ms s') ?R"
          by (intro decides_eqI [OF inv], cases r) (simp_all add: br)
      qed
    next
      fix d assume "rd pat (p + 1) = Inr d" "d \<noteq> CHR ''b''" "d \<noteq> CHR ''f''" "\<not> isdigit_c d"
      with o show "decides (match_item k pat p ms s) ?R"
        by (intro item_decides [OF k _ _ pre] not_special_item [OF c, where d = d] n) auto
    qed
  next
    assume "c = NUL"
    then show "decides (Inr (ms, Some s)) ?R" using pmatch_stop c by simp
  next
    assume o: "c = CHR ''$''"
    show "decides (bindR (rd pat (p + 1)) (\<lambda>d.
       if d = NUL then Inr (ms, if s = length (ms_src ms) then Some s else None)
       else match_item k pat p ms s)) ?R"
    proof (rule decides_bind, rule decides_if)
      fix d assume d: "rd pat (p + 1) = Inr d" "d = NUL"
      show "decides (Inr (ms, if s = length (ms_src ms) then Some s else None)) ?R"
        using pmatch_eos [OF c [unfolded o] d(1) [unfolded d(2)], of src "caps ms" s] pre(2) by (cases "s = length src") simp_all
    next
      fix d assume "rd pat (p + 1) = Inr d" "d \<noteq> NUL"
      with o show "decides (match_item k pat p ms s) ?R"
        by (intro item_decides [OF k _ _ pre] not_special_item [OF c, where d = d] n) auto
    qed
  next
    assume "c \<noteq> CHR ''(''" "c \<noteq> CHR '')''" "c \<noteq> L_ESC" "c \<noteq> NUL" "c \<noteq> CHR ''$''"
    then show "decides (match_item k pat p ms s) ?R"
      by (intro item_decides [OF k _ _ pre] not_special_item [OF c] n) auto
  }
qed

lemma match_exact: "p \<le> length pat \<Longrightarrow> exact_m src (match pat p) (pmatch pat src p)"
proof (induction "length pat - p" arbitrary: p rule: less_induct)
  case less
  have m: "match pat p = match_step (match pat) pat p" by (intro ext) (rule match.simps)
  have "decides (match_step (match pat) pat p ms s) (pmatch pat src p (caps ms) s)" if "pre_ok ms s" "ms_src ms = src" for ms s
    by (rule step_decides [OF _ less.prems that]) (use less.hyps in auto)
  then show ?case using match_safe [OF less.prems] m by (simp add: exact_m_def)
qed

text \<open>C20: The backtracking matcher implements the meaning of patterns. When it answers an end, the
  declarative relation holds with that end and exactly the captures the matcher recorded; when it
  answers failure, no choice of repetitions makes the pattern match there.\<close>

theorem match_is_the_meaning:
  assumes "fresh src ms" "p \<le> length pat" "s \<le> length src" "match pat p ms s = Inr (ms', r)"
  shows "case r of Some e \<Rightarrow> pmatch pat src p [] s (take (ms_level ms') (ms_capture ms')) e
    | None \<Rightarrow> \<forall>cs e. \<not> pmatch pat src p [] s cs e"
proof -
  have "decides (match pat p ms s) (pmatch pat src p (caps ms) s)"
    by (rule exact_D [OF match_exact [OF assms(2)] fresh_pre [OF assms(1,3)]]) (use assms(1) in \<open>simp add: fresh_def\<close>)
  moreover have "caps ms = []" using assms(1) by (simp add: caps_def fresh_def)
  ultimately have "decides (match pat p ms s) (pmatch pat src p [] s)" by (simp only:)
  then show ?thesis unfolding assms(4) decides_def caps_def by simp
qed

theorem match_is_the_meaning_witness:
  "\<exists>cs. pmatch ''a?'' ''ab'' 0 [] 0 cs 1"
proof -
  have r: "rd ''a?'' 0 = Inr (CHR ''a'')" "rd ''a?'' 1 = Inr (CHR ''?'')" "rd ''a?'' 2 = Inr NUL"
    by (simp_all add: rd_def)
  have stop: "match ''a?'' 2 ms t = Inr (ms, Some t)" for ms t
    by (subst match.simps) (use r in \<open>simp add: match_step_def\<close>)
  have "match ''a?'' 0 (init_ms ''ab'') 0 = Inr (init_ms ''ab'', Some 1)"
    by (subst match.simps)
      (use r stop in \<open>simp add: numeral_2_eq_2 match_step_def match_item_def classend_def matches_here_def singlematch_def init_ms_def\<close>)
  from match_is_the_meaning [OF fresh_init _ _ this] show ?thesis by auto
qed

end
