(* ===== verification/Lua_Strlib.thy ===== *)
theory Lua_Strlib
  imports Lua_Lval Lua_Pattern_Lang
begin

text \<open>
  The string library, \<open>lua/lstrlib.c\<close>: the simple functions, searching, iteration and substitution.
  A string that the code builds through a \<open>luaL_Buffer\<close> is here the list of its bytes (the buffer
  itself is the subject of \<open>Lua_Buffer\<close>). Lengths and positions are below \<open>2 ^ 31\<close>, as the
  \<open>ptrdiff_t\<close> of the code needs them; a position handed in by the script is any \<open>int\<close>.
\<close>

subsection \<open>Simple functions\<close>

definition str_len :: "'a luaenv_scheme \<Rightarrow> cfunction" where
  "str_len E args = bindR (luaL_checklstring E args 1) (\<lambda>s. Inr [pushinteger (int (length s))])"

definition posrelat :: "int \<Rightarrow> nat \<Rightarrow> int" where
  "posrelat pos len = (let pos = (if pos < 0 then pos + int len + 1 else pos) in if 0 \<le> pos then pos else 0)"

text \<open>\<open>n\<close> bytes from the byte at index \<open>i\<close> on.\<close>

definition slice :: "string \<Rightarrow> nat \<Rightarrow> nat \<Rightarrow> string" where
  "slice s i n = take n (drop i s)"

definition str_sub :: "'a luaenv_scheme \<Rightarrow> cfunction" where
  "str_sub E args =
     bindR (luaL_checklstring E args 1) (\<lambda>s. let l = length s in
     bindR (luaL_checkinteger E args 2) (\<lambda>i.
     bindR (luaL_optinteger E args 3 (- 1)) (\<lambda>j.
       let start = posrelat i l; e = posrelat j l;
           start = (if start < 1 then 1 else start); e = (if int l < e then int l else e) in
       if start \<le> e then Inr [LStr (slice s (nat (start - 1)) (nat (e - start + 1)))]
       else Inr [LStr []])))"

definition str_reverse :: "'a luaenv_scheme \<Rightarrow> cfunction" where
  "str_reverse E args = bindR (luaL_checklstring E args 1) (\<lambda>s. Inr [LStr (rev s)])"

definition str_lower :: "'a luaenv_scheme \<Rightarrow> cfunction" where
  "str_lower E args = bindR (luaL_checklstring E args 1) (\<lambda>s. Inr [LStr (map tolower_c s)])"

definition str_upper :: "'a luaenv_scheme \<Rightarrow> cfunction" where
  "str_upper E args = bindR (luaL_checklstring E args 1) (\<lambda>s. Inr [LStr (map toupper_c s)])"

definition str_rep :: "'a luaenv_scheme \<Rightarrow> cfunction" where
  "str_rep E args =
     bindR (luaL_checklstring E args 1) (\<lambda>s.
     bindR (luaL_checkinteger E args 2) (\<lambda>n. Inr [LStr (concat (replicate (nat n) s))]))"

definition str_byte :: "'a luaenv_scheme \<Rightarrow> cfunction" where
  "str_byte E args =
     bindR (luaL_checklstring E args 1) (\<lambda>s. let l = length s in
     bindR (luaL_optinteger E args 2 1) (\<lambda>i. let posi = posrelat i l in
     bindR (luaL_optinteger E args 3 posi) (\<lambda>j. let pose = posrelat j l;
       posi = (if posi \<le> 0 then 1 else posi); pose = (if int l < pose then int l else pose) in
       if pose < posi then Inr []
       else let n = pose - posi + 1 in
         if posi + n \<le> pose then Inl (LuaErr ''string slice too long'')
         else bindR (luaL_checkstack E (length args) n ''string slice too long'') (\<lambda>_.
           Inr (map (\<lambda>i. pushinteger (int (char_val (s ! (nat posi + i - 1))))) [0 ..< nat n])))))"

fun char_args :: "'a luaenv_scheme \<Rightarrow> args \<Rightarrow> nat \<Rightarrow> nat \<Rightarrow> string lres" where
  "char_args E args i 0 = Inr []"
| "char_args E args i (Suc n) = bindR (luaL_checkinteger E args i) (\<lambda>c.
     bindR (luaL_argcheck E (0 \<le> c \<and> c < 256) i ''invalid value'') (\<lambda>_.
     bindR (char_args E args (i + 1) n) (\<lambda>cs. Inr (char_of (nat c) # cs))))"

definition str_char :: "'a luaenv_scheme \<Rightarrow> cfunction" where
  "str_char E args = bindR (char_args E args 1 (length args)) (\<lambda>s. Inr [LStr s])"

subsection \<open>Plain search\<close>

text \<open>\<open>memchr(s + i, c, n)\<close>, as an index from \<open>i\<close>.\<close>

definition memchr :: "string \<Rightarrow> nat \<Rightarrow> char \<Rightarrow> nat \<Rightarrow> nat option" where
  "memchr s i c n = (let w = takeWhile (\<lambda>x. x \<noteq> c) (slice s i n) in
     if length w < length (slice s i n) then Some (length w) else None)"

function lmemfind_loop :: "string \<Rightarrow> nat \<Rightarrow> nat \<Rightarrow> char \<Rightarrow> string \<Rightarrow> nat option" where
  "lmemfind_loop s off l1 c s2 = (if l1 = 0 then None
     else case memchr s off c l1 of None \<Rightarrow> None
     | Some k \<Rightarrow> if slice s (off + k + 1) (length s2) = s2 then Some (off + k)
                 else lmemfind_loop s (off + k + 1) (l1 - (k + 1)) c s2)"
  by auto
termination lmemfind_loop
  by (relation "measure (\<lambda>(s, off, l1, c, s2). l1)") auto

declare lmemfind_loop.simps [simp del]

definition lmemfind :: "string \<Rightarrow> nat \<Rightarrow> nat \<Rightarrow> string \<Rightarrow> nat option" where
  "lmemfind s off l1 s2 = (case s2 of [] \<Rightarrow> Some off
     | c # r \<Rightarrow> if l1 < length s2 then None else lmemfind_loop s off (l1 - length r) c r)"

subsection \<open>Captures of a match\<close>

definition push_onecapture :: "match_state \<Rightarrow> nat \<Rightarrow> nat \<Rightarrow> nat \<Rightarrow> lval lres" where
  "push_onecapture ms i s e = (
     if ms_level ms \<le> i then
       (if i = 0 then Inr (LStr (slice (ms_src ms) s (e - s))) else Inl (LuaErr ''invalid capture index''))
     else let (init, l) = ms_capture ms ! i in
       if l = CAP_UNFINISHED then Inl (LuaErr ''unfinished capture'')
       else if l = CAP_POSITION then Inr (pushinteger (int init + 1))
       else if l < 0 then Inl (LuaFault OutOfBounds)
       else Inr (LStr (slice (ms_src ms) init (nat l))))"

fun push_from :: "match_state \<Rightarrow> nat \<Rightarrow> nat \<Rightarrow> nat \<Rightarrow> nat \<Rightarrow> args lres" where
  "push_from ms s e i 0 = Inr []"
| "push_from ms s e i (Suc n) = bindR (push_onecapture ms i s e) (\<lambda>v.
     bindR (push_from ms s e (i + 1) n) (\<lambda>vs. Inr (v # vs)))"

text \<open>\<open>whole\<close> is false when the code passes a null pointer for the match.\<close>

definition push_captures :: "'a luaenv_scheme \<Rightarrow> nat \<Rightarrow> match_state \<Rightarrow> bool \<Rightarrow> nat \<Rightarrow> nat \<Rightarrow> args lres" where
  "push_captures E used ms whole s e = (let nlevels = (if ms_level ms = 0 \<and> whole then 1 else ms_level ms) in
     bindR (luaL_checkstack E used (int nlevels) ''too many captures'') (\<lambda>_. push_from ms s e 0 nlevels))"

subsection \<open>Find and match\<close>

definition SPECIALS :: string where
  "SPECIALS = ''^$*+?.([%-''"

definition has_specials :: "string \<Rightarrow> bool" where
  "has_specials p = list_ex (\<lambda>c. c \<in> set SPECIALS) (c_str p)"

definition reset :: "match_state \<Rightarrow> match_state" where
  "reset ms = ms\<lparr>ms_level := 0\<rparr>"

text \<open>The first position from \<open>s1\<close> on where the pattern matches, with the state and the end of that
  match; only \<open>s1\<close> itself when the pattern is anchored.\<close>

function find_loop :: "string \<Rightarrow> nat \<Rightarrow> string \<Rightarrow> bool \<Rightarrow> match_state \<Rightarrow> nat \<Rightarrow> (match_state \<times> nat \<times> nat) option lres" where
  "find_loop pat p src anchor ms s1 = bindR (match pat p (reset ms) s1) (\<lambda>(ms', r). case r of
       Some e \<Rightarrow> Inr (Some (ms', s1, e))
     | None \<Rightarrow> if s1 < length src \<and> \<not> anchor then find_loop pat p src anchor ms' (s1 + 1) else Inr None)"
  by auto
termination find_loop
  by (relation "measure (\<lambda>(pat, p, src, anchor, ms, s1). length src - s1)") auto

declare find_loop.simps [simp del]

definition is_anchored :: "string \<Rightarrow> bool" where
  "is_anchored p = (case p of c # _ \<Rightarrow> c = CHR ''^'' | [] \<Rightarrow> False)"

definition find_start :: "int \<Rightarrow> nat \<Rightarrow> nat" where
  "find_start i l = (let k = posrelat i l - 1 in if k < 0 then 0 else if int l < k then l else nat k)"

text \<open>What is pushed after the search: \<open>isfind\<close> tells \<open>string.find\<close> from \<open>string.match\<close>.\<close>

definition plain_results :: "string \<Rightarrow> nat option \<Rightarrow> args" where
  "plain_results p r = (case r of Some k \<Rightarrow> [pushinteger (int k + 1), pushinteger (int k + int (length p))] | None \<Rightarrow> [LNil])"

definition match_results :: "'a luaenv_scheme \<Rightarrow> bool \<Rightarrow> nat \<Rightarrow> (match_state \<times> nat \<times> nat) option \<Rightarrow> args lres" where
  "match_results E isfind used r = (case r of
     Some (ms, s1, e) \<Rightarrow>
       (if isfind then bindR (push_captures E (used + 2) ms False s1 e) (\<lambda>vs.
          Inr (pushinteger (int s1 + 1) # pushinteger (int e) # vs))
        else push_captures E used ms True s1 e)
   | None \<Rightarrow> Inr [LNil])"

definition str_find_aux :: "'a luaenv_scheme \<Rightarrow> bool \<Rightarrow> cfunction" where
  "str_find_aux E isfind args =
     bindR (luaL_checklstring E args 1) (\<lambda>s.
     bindR (luaL_checklstring E args 2) (\<lambda>p.
     bindR (luaL_optinteger E args 3 1) (\<lambda>i. let init = find_start i (length s) in
       if isfind \<and> (lua_toboolean args 4 \<or> \<not> has_specials p)
       then Inr (plain_results p (lmemfind s init (length s - init) p))
       else let anchor = is_anchored p in
         bindR (find_loop p (if anchor then 1 else 0) s anchor (init_ms s) init) (match_results E isfind (length args)))))"

definition str_find :: "'a luaenv_scheme \<Rightarrow> cfunction" where
  "str_find E args = str_find_aux E True args"

definition str_match :: "'a luaenv_scheme \<Rightarrow> cfunction" where
  "str_match E args = str_find_aux E False args"

subsection \<open>Iteration over matches\<close>

text \<open>The three upvalues of the iterator: subject, pattern and the position to go on from.\<close>

record gmatch_iter =
  gm_s :: string
  gm_p :: string
  gm_pos :: nat

function gmatch_loop :: "string \<Rightarrow> string \<Rightarrow> match_state \<Rightarrow> nat \<Rightarrow> (match_state \<times> nat \<times> nat) option lres" where
  "gmatch_loop p s ms src = (if length s < src then Inr None
     else bindR (match p 0 (reset ms) src) (\<lambda>(ms', r). case r of
       Some e \<Rightarrow> Inr (Some (ms', src, e)) | None \<Rightarrow> gmatch_loop p s ms' (src + 1)))"
  by auto
termination gmatch_loop
  by (relation "measure (\<lambda>(p, s, ms, src). Suc (length s) - src)") auto

declare gmatch_loop.simps [simp del]

definition gmatch_aux :: "'a luaenv_scheme \<Rightarrow> gmatch_iter \<Rightarrow> (gmatch_iter \<times> args) lres" where
  "gmatch_aux E g = bindR (gmatch_loop (gm_p g) (gm_s g) (init_ms (gm_s g)) (gm_pos g)) (\<lambda>r. case r of
       Some (ms, src, e) \<Rightarrow>
         bindR (push_captures E (stack_used E) ms True src e) (\<lambda>vs.
           Inr (g\<lparr>gm_pos := (if e = src then e + 1 else e)\<rparr>, vs))
     | None \<Rightarrow> Inr (g, []))"

definition gmatch :: "'a luaenv_scheme \<Rightarrow> args \<Rightarrow> gmatch_iter lres" where
  "gmatch E args = bindR (luaL_checklstring E args 1) (\<lambda>s. bindR (luaL_checklstring E args 2) (\<lambda>p.
     Inr \<lparr>gm_s = s, gm_p = p, gm_pos = 0\<rparr>))"

definition gfind_nodef :: cfunction where
  "gfind_nodef args = Inl (LuaErr (LUA_QL ''string.gfind'' @ '' was renamed to '' @ LUA_QL ''string.gmatch''))"

subsection \<open>Substitution\<close>

text \<open>What substitution needs of the interpreter: calling a function value with some arguments for
  one result, and indexing a table, both of which may run arbitrary code on its state \<open>'w\<close>.\<close>

record 'w interp =
  lua_call :: "addr \<Rightarrow> args \<Rightarrow> 'w \<Rightarrow> ('w \<times> lval) lres"
  lua_gettable :: "addr \<Rightarrow> lval \<Rightarrow> 'w \<Rightarrow> ('w \<times> lval) lres"

function add_s_loop :: "'a luaenv_scheme \<Rightarrow> match_state \<Rightarrow> string \<Rightarrow> nat \<Rightarrow> nat \<Rightarrow> nat \<Rightarrow> string lres" where
  "add_s_loop E ms news s e i = (if \<not> i < length news then Inr []
     else if news ! i \<noteq> L_ESC then bindR (add_s_loop E ms news s e (i + 1)) (\<lambda>b. Inr (news ! i # b))
     else bindR (rd news (i + 1)) (\<lambda>d.
       bindR (if \<not> isdigit_c d then Inr [d]
              else if d = CHR ''0'' then Inr (slice (ms_src ms) s (e - s))
              else bindR (push_onecapture ms (char_val d - 49) s e) (\<lambda>v.
                of_opt (LuaFault NullDeref) (lua_tolstring E v))) (\<lambda>x.
       bindR (add_s_loop E ms news s e (i + 2)) (\<lambda>b. Inr (x @ b)))))"
  by auto
termination add_s_loop
  by (relation "measure (\<lambda>(E, ms, news, s, e, i). length news - i)") auto

declare add_s_loop.simps [simp del]

definition add_s :: "'a luaenv_scheme \<Rightarrow> match_state \<Rightarrow> string \<Rightarrow> nat \<Rightarrow> nat \<Rightarrow> string lres" where
  "add_s E ms news s e = add_s_loop E ms news s e 0"

text \<open>The tail of \<open>add_value\<close>: a false result keeps the original text.\<close>

definition keep_value :: "'a luaenv_scheme \<Rightarrow> match_state \<Rightarrow> nat \<Rightarrow> nat \<Rightarrow> 'w \<times> lval \<Rightarrow> ('w \<times> string) lres" where
  "keep_value E ms s e r = (case r of (w, v) \<Rightarrow>
     if v = LNil \<or> v = LBool False then Inr (w, slice (ms_src ms) s (e - s))
     else case lua_tolstring E v of Some t \<Rightarrow> Inr (w, t)
       | None \<Rightarrow> Inl (LuaErr (''invalid replacement value (a '' @ lua_typename (ttype v) @ '')'')))"

definition add_value :: "'a luaenv_scheme \<Rightarrow> 'w interp \<Rightarrow> match_state \<Rightarrow> lval \<Rightarrow> nat \<Rightarrow> nat \<Rightarrow> 'w \<Rightarrow> ('w \<times> string) lres" where
  "add_value E I ms repl s e w = (case repl of
       LNum n \<Rightarrow> bindR (add_s E ms (number2str E n) s e) (\<lambda>x. Inr (w, x))
     | LStr news \<Rightarrow> bindR (add_s E ms news s e) (\<lambda>x. Inr (w, x))
     | LFun f \<Rightarrow> bindR (push_captures E (stack_used E) ms True s e) (\<lambda>vs.
         bindR (lua_call I f vs w) (keep_value E ms s e))
     | LTab t \<Rightarrow> bindR (push_onecapture ms 0 s e) (\<lambda>k. bindR (lua_gettable I t k w) (keep_value E ms s e))
     | _ \<Rightarrow> Inl (LuaFault AssertFail))"

text \<open>The loop of \<open>str_gsub\<close>: the state of the matcher, the position, the count \<open>n\<close> and the buffer.\<close>

function gsub_loop :: "'a luaenv_scheme \<Rightarrow> 'w interp \<Rightarrow> string \<Rightarrow> nat \<Rightarrow> lval \<Rightarrow> int \<Rightarrow> bool \<Rightarrow>
    string \<Rightarrow> match_state \<Rightarrow> nat \<Rightarrow> int \<Rightarrow> string \<Rightarrow> 'w \<Rightarrow> ('w \<times> nat \<times> int \<times> string) lres" where
  "gsub_loop E I pat p repl max_s anchor src ms i n b w = (if \<not> n < max_s then Inr (w, i, n, b)
     else bindR (match pat p (reset ms) i) (\<lambda>(ms', r).
       bindR (case r of Some e \<Rightarrow> bindR (add_value E I ms' repl i e w) (\<lambda>(w', x). Inr (w', n + 1, b @ x))
              | None \<Rightarrow> Inr (w, n, b)) (\<lambda>(w', n', b').
       let j = (case r of Some e \<Rightarrow> e | None \<Rightarrow> i) in
       if i < j then (if length src < j then Inl (LuaFault OutOfBounds)
         else if anchor then Inr (w', j, n', b')
         else gsub_loop E I pat p repl max_s anchor src ms' j n' b' w')
       else if i < length src then (if anchor then Inr (w', i + 1, n', b' @ [src ! i])
         else gsub_loop E I pat p repl max_s anchor src ms' (i + 1) n' (b' @ [src ! i]) w')
       else Inr (w', i, n', b'))))"
  by auto
termination gsub_loop
  by (relation "measure (\<lambda>(E, I, pat, p, repl, max_s, anchor, src, ms, i, n, b, w). length src - i)") auto

declare gsub_loop.simps [simp del]

definition str_gsub :: "'a luaenv_scheme \<Rightarrow> 'w interp \<Rightarrow> args \<Rightarrow> 'w \<Rightarrow> ('w \<times> args) lres" where
  "str_gsub E I args w =
     bindR (luaL_checklstring E args 1) (\<lambda>src.
     bindR (luaL_checklstring E args 2) (\<lambda>p.
     let tr = lua_type args 3 in
     bindR (luaL_optinteger E args 4 (int (length src) + 1)) (\<lambda>max_s.
     let anchor = is_anchored p in
     bindR (luaL_argcheck E (tr = 3 \<or> tr = 4 \<or> tr = 6 \<or> tr = 5) 3 ''string/function/table expected'') (\<lambda>_.
     bindR (gsub_loop E I p (if anchor then 1 else 0) (arg args 3) max_s anchor src (init_ms src) 0 0 [] w) (\<lambda>(w', i, n, b).
       Inr (w', [LStr (b @ drop i src), pushinteger n]))))))"

end
