(* ===== verification/Lua_Strlib_Props.thy ===== *)
theory Lua_Strlib_Props
  imports Lua_Strlib
begin

text \<open>Properties of the string library: what searching finds, that it is leftmost, and round trips.\<close>

subsection \<open>Plain search\<close>

lemma length_slice: "i + n \<le> length s \<Longrightarrow> length (slice s i n) = n"
  by (simp add: slice_def)

lemma nth_slice: "i + n \<le> length s \<Longrightarrow> j < n \<Longrightarrow> slice s i n ! j = s ! (i + j)"
  by (simp add: slice_def)

lemma memchr_spec:
  assumes "i + n \<le> length s"
  shows "case memchr s i c n of None \<Rightarrow> \<forall>j < n. s ! (i + j) \<noteq> c
    | Some k \<Rightarrow> k < n \<and> s ! (i + k) = c \<and> (\<forall>j < k. s ! (i + j) \<noteq> c)"
proof -
  let ?t = "slice s i n" and ?w = "takeWhile (\<lambda>x. x \<noteq> c) (slice s i n)"
  note len = length_slice [OF assms]
  show ?thesis
  proof (cases "length ?w < length ?t")
    case True
    have "?t ! length ?w = c" using nth_length_takeWhile [OF True] by simp
    moreover have "?t ! j \<noteq> c" if "j < length ?w" for j
      using takeWhile_nth [OF that] set_takeWhileD [OF nth_mem [OF that]] by simp
    ultimately show ?thesis using True len nth_slice [OF assms] by (simp add: memchr_def)
  next
    case False
    then have "?w = ?t" by (metis le_antisym length_takeWhile_le not_le takeWhile_eq_take take_all_iff)
    then have "\<forall>x \<in> set ?t. x \<noteq> c" by (simp add: takeWhile_eq_all_conv)
    then show ?thesis using False len nth_slice [OF assms] nth_mem [of _ ?t] by (simp add: memchr_def)
  qed
qed

definition occurs :: "string \<Rightarrow> string \<Rightarrow> nat \<Rightarrow> bool" where
  "occurs s p i = (i + length p \<le> length s \<and> slice s i (length p) = p)"

definition first_from :: "(nat \<Rightarrow> bool) \<Rightarrow> nat \<Rightarrow> nat option \<Rightarrow> bool" where
  "first_from P a r = (case r of None \<Rightarrow> \<forall>i \<ge> a. \<not> P i | Some k \<Rightarrow> a \<le> k \<and> P k \<and> (\<forall>i. a \<le> i \<and> i < k \<longrightarrow> \<not> P i))"

lemma first_from_cong: "(\<And>i. a \<le> i \<Longrightarrow> P i \<longleftrightarrow> Q i) \<Longrightarrow> first_from P a r \<longleftrightarrow> first_from Q a r"
  by (auto simp: first_from_def split: option.splits)

lemma first_from_skip: "(\<And>i. a \<le> i \<Longrightarrow> i < b \<Longrightarrow> \<not> P i) \<Longrightarrow> a \<le> b \<Longrightarrow> first_from P b r \<Longrightarrow> first_from P a r"
  by (auto simp: first_from_def split: option.splits) (metis not_le)+

lemma lmemfind_loop_first:
  "off + l1 + length s2 \<le> length s \<Longrightarrow>
   first_from (\<lambda>i. i < off + l1 \<and> s ! i = c \<and> slice s (i + 1) (length s2) = s2) off (lmemfind_loop s off l1 c s2)"
proof (induction s off l1 c s2 rule: lmemfind_loop.induct)
  case (1 s off l1 c s2)
  let ?P = "\<lambda>i. i < off + l1 \<and> s ! i = c \<and> slice s (i + 1) (length s2) = s2"
  have m: "case memchr s off c l1 of None \<Rightarrow> \<forall>j < l1. s ! (off + j) \<noteq> c
    | Some k \<Rightarrow> k < l1 \<and> s ! (off + k) = c \<and> (\<forall>j < k. s ! (off + j) \<noteq> c)"
    using memchr_spec 1(2) by simp
  show ?case
  proof (cases "l1 = 0")
    case True
    then show ?thesis by (subst lmemfind_loop.simps) (simp add: first_from_def)
  next
    case l1: False
    show ?thesis
    proof (cases "memchr s off c l1")
      case None
      then have "\<not> ?P i" if "off \<le> i" for i using m that by (auto dest!: spec [of _ "i - off"])
      then show ?thesis using None l1 by (subst lmemfind_loop.simps) (simp add: first_from_def)
    next
      case (Some k)
      with m have k: "k < l1" "s ! (off + k) = c" "\<And>j. j < k \<Longrightarrow> s ! (off + j) \<noteq> c" by auto
      have before: "\<not> ?P i" if "off \<le> i" "i < off + k" for i using k(3) [of "i - off"] that by auto
      show ?thesis
      proof (cases "slice s (off + k + 1) (length s2) = s2")
        case True
        then show ?thesis using Some l1 k before by (subst lmemfind_loop.simps) (simp add: first_from_def)
      next
        case False
        then have rest: "\<not> ?P i" if "off \<le> i" "i < off + k + 1" for i
          using before [OF that(1)] that(2) by (cases "i = off + k") auto
        have "off + k + 1 + (l1 - (k + 1)) = off + l1" using k(1) by simp
        then have "first_from ?P (off + k + 1) (lmemfind_loop s (off + k + 1) (l1 - (k + 1)) c s2)"
          using 1(1) [OF l1 Some False] 1(2) by simp
        from first_from_skip [OF rest _ this] show ?thesis
          using Some l1 False by (subst lmemfind_loop.simps) simp
      qed
    qed
  qed
qed

lemma occurs_Cons: "occurs s (c # p) i \<longleftrightarrow> i + length p < length s \<and> s ! i = c \<and> slice s (i + 1) (length p) = p"
proof (cases "i < length s")
  case True
  then show ?thesis by (auto simp: occurs_def slice_def Cons_nth_drop_Suc [symmetric])
qed (simp add: occurs_def)

lemma lmemfind_first: "off \<le> length s \<Longrightarrow> first_from (occurs s p) off (lmemfind s off (length s - off) p)"
proof (cases p)
  case Nil
  assume "off \<le> length s"
  with Nil show ?thesis by (simp add: lmemfind_def first_from_def occurs_def slice_def)
next
  case (Cons c r)
  assume off: "off \<le> length s"
  show ?thesis
  proof (cases "length s - off < length p")
    case True
    then have "\<not> occurs s p i" if "off \<le> i" for i using that off Cons by (auto simp: occurs_def)
    then show ?thesis using True Cons by (simp add: lmemfind_def first_from_def)
  next
    case False
    let ?l = "length s - off - length r"
    have "off + ?l + length r \<le> length s" using False Cons off by simp
    from lmemfind_loop_first [OF this, of c]
    have "first_from (\<lambda>i. i < off + ?l \<and> s ! i = c \<and> slice s (i + 1) (length r) = r) off (lmemfind s off (length s - off) p)"
      using False Cons by (simp add: lmemfind_def)
    moreover have "i < off + ?l \<longleftrightarrow> i + length r < length s" for i using False Cons off by auto
    ultimately show ?thesis using Cons by (simp add: occurs_Cons [abs_def])
  qed
qed

subsection \<open>Searching for a pattern\<close>

definition ready :: "string \<Rightarrow> match_state \<Rightarrow> bool" where
  "ready src ms = (ms_src ms = src \<and> length (ms_capture ms) = LUA_MAXCAPTURES)"

lemma ready_init [simp]: "ready src (init_ms src)"
  by (simp add: ready_def init_ms_def)

lemma ready_reset: "ready src ms \<Longrightarrow> fresh src (reset ms)"
  by (simp add: ready_def fresh_def reset_def)

lemma fresh_ready: "fresh src ms \<Longrightarrow> ready src ms"
  by (simp add: ready_def fresh_def)

text \<open>The captures of the final state of a match that ended at \<open>e\<close>: all end there or earlier.\<close>

definition final_ok :: "string \<Rightarrow> match_state \<Rightarrow> nat \<Rightarrow> bool" where
  "final_ok src ms e = (ready src ms \<and> ms_level ms \<le> LUA_MAXCAPTURES \<and> e \<le> length src \<and>
     (\<forall>l < ms_level ms. capture_in 0 e (ms_capture ms ! l)))"

text \<open>One attempt: an error message, a failure where there is no match, or a match.\<close>

lemma attempt:
  assumes "ready src ms" "p \<le> length pat" "s \<le> length src"
  shows "lua_ok (\<lambda>(ms', r). case r of None \<Rightarrow> ready src ms' \<and> (\<forall>cs e. \<not> pmatch pat src p [] s cs e)
      | Some e \<Rightarrow> s \<le> e \<and> final_ok src ms' e \<and> pmatch pat src p [] s (caps ms') e) (match pat p (reset ms) s)"
proof -
  note f = ready_reset [OF assms(1)]
  have ok: "lua_ok (\<lambda>(ms', r). post (reset ms) s ms' r) (match pat p (reset ms) s)"
    using safe_mD [OF match_safe [OF assms(2)] fresh_pre [OF f assms(3)]] .
  have d: "decides (match pat p (reset ms) s) (pmatch pat src p [] s)"
  proof -
    have "decides (match pat p (reset ms) s) (pmatch pat src p (caps (reset ms)) s)"
      by (rule exact_D [OF match_exact [OF assms(2)] fresh_pre [OF f assms(3)]]) (use f in \<open>simp add: fresh_def\<close>)
    then show ?thesis by (simp add: caps_def reset_def)
  qed
  show ?thesis
  proof (rule lua_ok_mono [OF ok], clarify)
    fix ms' r assume m: "match pat p (reset ms) s = Inr (ms', r)" and p: "post (reset ms) s ms' r"
    show "case r of None \<Rightarrow> ready src ms' \<and> (\<forall>cs e. \<not> pmatch pat src p [] s cs e)
      | Some e \<Rightarrow> s \<le> e \<and> final_ok src ms' e \<and> pmatch pat src p [] s (caps ms') e"
    proof (cases r)
      case None
      then show ?thesis using d m p f by (simp add: post_def agree_def ready_def fresh_def)
    next
      case (Some e)
      then show ?thesis using d m p f
        by (auto simp: post_def ready_def fresh_def final_ok_def pre_ok_def capture_in_def)
    qed
  qed
qed

definition no_match :: "string \<Rightarrow> string \<Rightarrow> nat \<Rightarrow> nat \<Rightarrow> bool" where
  "no_match pat src p s = (\<forall>cs e. \<not> pmatch pat src p [] s cs e)"

definition leftmost :: "string \<Rightarrow> nat \<Rightarrow> string \<Rightarrow> bool \<Rightarrow> nat \<Rightarrow> (match_state \<times> nat \<times> nat) option \<Rightarrow> bool" where
  "leftmost pat p src anchor s1 r = (case r of
     None \<Rightarrow> \<forall>i. s1 \<le> i \<and> i \<le> (if anchor then s1 else length src) \<longrightarrow> no_match pat src p i
   | Some (ms, i, e) \<Rightarrow> s1 \<le> i \<and> i \<le> e \<and> (anchor \<longrightarrow> i = s1) \<and> final_ok src ms e \<and>
       pmatch pat src p [] i (caps ms) e \<and> (\<forall>j. s1 \<le> j \<and> j < i \<longrightarrow> no_match pat src p j))"

lemma leftmost_skip:
  assumes "no_match pat src p s1" "leftmost pat p src False (s1 + 1) r"
  shows "leftmost pat p src False s1 r"
proof -
  have "no_match pat src p j" if "s1 \<le> j" "s1 + 1 \<le> j \<Longrightarrow> no_match pat src p j" for j
    using assms(1) that by (cases "j = s1") auto
  then show ?thesis using assms(2) by (auto simp: leftmost_def split: option.splits)
qed

lemma find_loop_leftmost:
  "ready src ms \<Longrightarrow> p \<le> length pat \<Longrightarrow> s1 \<le> length src \<Longrightarrow>
   lua_ok (leftmost pat p src anchor s1) (find_loop pat p src anchor ms s1)"
proof (induction pat p src anchor ms s1 rule: find_loop.induct)
  case (1 pat p src anchor ms s1)
  show ?case
  proof (subst find_loop.simps, rule lua_ok_bind [OF attempt [OF 1(2-4)]], clarify)
    fix ms' r
    assume m: "match pat p (reset ms) s1 = Inr (ms', r)"
      and a: "case r of None \<Rightarrow> ready src ms' \<and> (\<forall>cs e. \<not> pmatch pat src p [] s1 cs e)
        | Some e \<Rightarrow> s1 \<le> e \<and> final_ok src ms' e \<and> pmatch pat src p [] s1 (caps ms') e"
    show "lua_ok (leftmost pat p src anchor s1) (case r of Some e \<Rightarrow> Inr (Some (ms', s1, e))
     | None \<Rightarrow> if s1 < length src \<and> \<not> anchor then find_loop pat p src anchor ms' (s1 + 1) else Inr None)"
    proof (cases r)
      case (Some e)
      then show ?thesis using a by (auto simp: leftmost_def)
    next
      case None
      with a have n: "ready src ms'" "no_match pat src p s1" by (simp_all add: no_match_def)
      show ?thesis
      proof (cases "s1 < length src \<and> \<not> anchor")
        case True
        then have "lua_ok (leftmost pat p src anchor (s1 + 1)) (find_loop pat p src anchor ms' (s1 + 1))"
          by (intro 1(1) [OF m refl None True n(1) 1(3)]) simp
        then have "lua_ok (leftmost pat p src anchor s1) (find_loop pat p src anchor ms' (s1 + 1))"
          by (rule lua_ok_mono) (use n(2) True leftmost_skip in auto)
        then show ?thesis using None True by simp
      next
        case False
        have "i = s1" if "s1 \<le> i" "i \<le> (if anchor then s1 else length src)" for i
          using False that 1(4) by (auto split: if_splits)
        then have "leftmost pat p src anchor s1 None" using n(2) unfolding leftmost_def option.case by blast
        then show ?thesis using None False by auto
      qed
    qed
  qed
qed

subsection \<open>The results of find and match\<close>

lemma onecapture_ok:
  "final_ok src ms e \<Longrightarrow> lua_ok (\<lambda>_. True) (push_onecapture ms i s e)"
proof (cases "ms_level ms \<le> i")
  case False
  assume f: "final_ok src ms e"
  obtain a l where c: "ms_capture ms ! i = (a, l)" by fastforce
  with f False have "capture_in 0 e (a, l)" by (auto simp: final_ok_def dest!: spec [of _ i])
  then have "l = CAP_UNFINISHED \<or> l = CAP_POSITION \<or> 0 \<le> l" by (auto simp: capture_in_def)
  then show ?thesis using False c by (auto simp: push_onecapture_def)
qed (simp add: push_onecapture_def)

lemma push_from_ok: "final_ok src ms e \<Longrightarrow> lua_ok (\<lambda>vs. length vs = n) (push_from ms s e i n)"
proof (induction n arbitrary: i)
  case (Suc n)
  show ?case unfolding push_from.simps
    by (intro lua_ok_bind [OF onecapture_ok [OF Suc.prems]] lua_ok_bind [OF Suc.IH [OF Suc.prems]]) simp
qed simp

lemma push_captures_ok:
  "final_ok src ms e \<Longrightarrow> lua_ok (\<lambda>vs. length vs = (if ms_level ms = 0 \<and> whole then 1 else ms_level ms))
     (push_captures E used ms whole s e)"
  unfolding push_captures_def Let_def by (intro lua_ok_bind [OF checkstack_ok] push_from_ok)

text \<open>What a search may answer.\<close>

lemma find_start_le: "find_start i l \<le> l"
  by (auto simp: find_start_def Let_def)

definition find_hit :: "bool \<Rightarrow> string \<Rightarrow> string \<Rightarrow> nat \<Rightarrow> nat \<Rightarrow> bool" where
  "find_hit literal s p k e = (k \<le> e \<and> e \<le> length s \<and>
     (if literal then occurs s p k \<and> e = k + length p
      else \<exists>cs. pmatch p s (if is_anchored p then 1 else 0) [] k cs e))"

definition find_place :: "bool \<Rightarrow> string \<Rightarrow> string \<Rightarrow> nat \<Rightarrow> nat \<Rightarrow> bool" where
  "find_place literal s p init k = (init \<le> k \<and> k \<le> length s \<and> (literal \<or> \<not> is_anchored p \<or> k = init))"

definition find_answer :: "bool \<Rightarrow> string \<Rightarrow> string \<Rightarrow> nat \<Rightarrow> args \<Rightarrow> bool" where
  "find_answer literal s p init vs = (
     vs = [LNil] \<and> (\<forall>k e. find_place literal s p init k \<longrightarrow> \<not> find_hit literal s p k e) \<or>
     (\<exists>k e rest. vs = pushinteger (int k + 1) # pushinteger (int e) # rest \<and>
        find_place literal s p init k \<and> find_hit literal s p k e \<and>
        (\<forall>j d. find_place literal s p init j \<and> j < k \<longrightarrow> \<not> find_hit literal s p j d)))"

lemma find_answer_hit:
  "find_place literal s p init k \<Longrightarrow> find_hit literal s p k e \<Longrightarrow>
   (\<And>j d. find_place literal s p init j \<Longrightarrow> j < k \<Longrightarrow> \<not> find_hit literal s p j d) \<Longrightarrow>
   find_answer literal s p init (pushinteger (int k + 1) # pushinteger (int e) # rest)"
  by (auto simp: find_answer_def)

lemma plain_answer:
  assumes "init \<le> length s"
  shows "find_answer True s p init (plain_results p (lmemfind s init (length s - init) p))"
proof (cases "lmemfind s init (length s - init) p")
  case None
  then show ?thesis using lmemfind_first [OF assms, of p]
    by (auto simp: plain_results_def find_answer_def first_from_def find_hit_def find_place_def)
next
  case (Some k)
  with lmemfind_first [OF assms, of p] have k: "init \<le> k" "occurs s p k" "\<And>i. init \<le> i \<Longrightarrow> i < k \<Longrightarrow> \<not> occurs s p i"
    by (auto simp: first_from_def)
  have e: "k + length p \<le> length s" using k(2) by (simp add: occurs_def)
  have "find_answer True s p init (pushinteger (int k + 1) # pushinteger (int (k + length p)) # [])"
    by (rule find_answer_hit) (use k e in \<open>auto simp: find_hit_def find_place_def\<close>)
  with Some show ?thesis by (simp add: plain_results_def)
qed

lemma pmatch_answer:
  assumes "leftmost p (if is_anchored p then 1 else 0) s (is_anchored p) init r" "init \<le> length s"
  shows "case r of None \<Rightarrow> find_answer False s p init [LNil]
    | Some (ms, k, e) \<Rightarrow> find_answer False s p init (pushinteger (int k + 1) # pushinteger (int e) # rest)"
proof (cases r)
  case None
  then have "no_match p s (if is_anchored p then 1 else 0) k" if "find_place False s p init k" for k
    using assms that by (auto simp: leftmost_def find_place_def split: if_splits)
  then show ?thesis using None by (auto simp: find_answer_def find_hit_def no_match_def)
next
  case (Some x)
  obtain ms k e where x: "x = (ms, k, e)" by (cases x) auto
  with Some assms have k: "init \<le> k" "k \<le> e" "is_anchored p \<Longrightarrow> k = init" "e \<le> length s"
    "pmatch p s (if is_anchored p then 1 else 0) [] k (caps ms) e"
    "\<And>j. init \<le> j \<Longrightarrow> j < k \<Longrightarrow> no_match p s (if is_anchored p then 1 else 0) j"
    by (auto simp: leftmost_def final_ok_def)
  then have "find_place False s p init k" "find_hit False s p k e" by (auto simp: find_place_def find_hit_def)
  moreover have "\<not> find_hit False s p j d" if "find_place False s p init j" "j < k" for j d
    using k(6) [of j] that by (auto simp: find_place_def find_hit_def no_match_def)
  ultimately show ?thesis using Some x by (simp add: find_answer_hit)
qed

lemma str_find_answer:
  assumes "conf_ok E"
  shows "arg args 1 = LStr s \<Longrightarrow> arg args 2 = LStr p \<Longrightarrow> luaL_optinteger E args 3 1 = Inr i \<Longrightarrow>
    lua_ok (find_answer (lua_toboolean args 4 \<or> \<not> has_specials p) s p (find_start i (length s))) (str_find E args)"
proof -
  assume a: "arg args 1 = LStr s" "arg args 2 = LStr p" "luaL_optinteger E args 3 1 = Inr i"
  let ?init = "find_start i (length s)" and ?lit = "lua_toboolean args 4 \<or> \<not> has_specials p"
  have l: "?init \<le> length s" by (rule find_start_le)
  show ?thesis
  proof (cases ?lit)
    case True
    then have "str_find E args = Inr (plain_results p (lmemfind s ?init (length s - ?init) p))"
      using a by (simp add: str_find_def str_find_aux_def checklstring_str Let_def)
    moreover have "?lit = True" using True by simp
    ultimately show ?thesis using plain_answer [OF l, of p] by (simp only: lua_ok_simps)
  next
    case False
    let ?p = "if is_anchored p then 1 else 0"
    have "?p \<le> length p" by (cases p) (auto simp: is_anchored_def)
    from find_loop_leftmost [OF ready_init this l]
    have f: "lua_ok (leftmost p ?p s (is_anchored p) ?init) (find_loop p ?p s (is_anchored p) (init_ms s) ?init)" .
    have "lua_ok (find_answer False s p ?init) (match_results E True (length args) r)"
      if r: "leftmost p ?p s (is_anchored p) ?init r" for r
    proof (cases r)
      case None
      then show ?thesis using pmatch_answer [OF r l] by (simp add: match_results_def)
    next
      case (Some x)
      obtain ms k e where x: "x = (ms, k, e)" by (cases x) auto
      have "final_ok s ms e" using r Some x by (simp add: leftmost_def)
      have "lua_ok (find_answer False s p ?init) (bindR (push_captures E (length args + 2) ms False k e) (\<lambda>vs.
                Inr (pushinteger (int k + 1) # pushinteger (int e) # vs)))"
        by (rule lua_ok_bind [OF push_captures_ok [OF \<open>final_ok s ms e\<close>]])
          (use pmatch_answer [OF r l] Some x in simp)
      then show ?thesis using Some x by (simp add: match_results_def)
    qed
    note run = lua_ok_bind [OF f this]
    have "str_find E args = bindR (find_loop p ?p s (is_anchored p) (init_ms s) ?init) (match_results E True (length args))"
      using False a by (simp add: str_find_def str_find_aux_def checklstring_str Let_def)
    then show ?thesis using run False by simp
  qed
qed

text \<open>C22: \<open>string.find\<close> answers the leftmost place. For every subject, pattern, start position (also
  negative or outside the subject) and mode - the literal search by \<open>lmemfind\<close> or the matcher - the
  call ends in an error message or in an answer: nil exactly when nothing matches at any place from the
  start on, otherwise the first place where something does, with the end of a match there.\<close>

theorem find_is_leftmost:
  assumes "conf_ok E" "arg args 1 = LStr s" "arg args 2 = LStr p" "luaL_optinteger E args 3 1 = Inr i"
  shows "(\<exists>m. str_find E args = Inl (LuaErr m)) \<or>
    (\<exists>vs. str_find E args = Inr vs \<and>
       find_answer (lua_toboolean args 4 \<or> \<not> has_specials p) s p (find_start i (length s)) vs)"
  using str_find_answer [OF assms] by (auto simp: lua_ok_def split: sum.splits)

definition test_env :: luaenv where
  "test_env = luaconf.extend trunc_conf \<lparr>maxcstack = 8000, stack_used = 0, caller = None\<rparr>"

lemma test_env_ok [simp]: "conf_ok test_env"
  using trunc_conf_ok by (simp add: conf_ok_def test_env_def luaconf.defs trunc_conf_def)

theorem find_is_leftmost_witness:
  "\<exists>vs. str_find test_env [LStr ''abcb'', LStr ''b''] = Inr vs \<and>
     find_answer True ''abcb'' ''b'' 0 vs"
proof -
  let ?a = "[LStr ''abcb'', LStr ''b'']"
  have i: "luaL_optinteger test_env ?a 3 1 = Inr 1"
    by (simp add: luaL_optinteger_def lua_isnoneornil_def lua_type_def index2adr_def LUA_TNONE_def)
  have p: "\<not> has_specials ''b''" by (simp add: has_specials_def c_str_def SPECIALS_def)
  have r: "str_find test_env ?a \<noteq> Inl (LuaErr m)" for m
    using i p by (simp add: str_find_def str_find_aux_def checklstring_str Let_def split: option.splits)
  have "find_start 1 n = 0" for n by (simp add: find_start_def posrelat_def)
  with find_is_leftmost [OF test_env_ok _ _ i, of "''abcb''" "''b''"] r p show ?thesis by simp
qed

end
