(* ===== verification/Lua_Gsub_Props.thy ===== *)
theory Lua_Gsub_Props
  imports Lua_Strlib_Props
begin

text \<open>Substitution and iteration: they end, count correctly, and never fault; the bytes of a string and
  back.\<close>

subsection \<open>Replacements\<close>

lemma onecapture_string:
  "final_ok src ms e \<Longrightarrow> lua_ok (\<lambda>v. lua_tolstring E v \<noteq> None) (push_onecapture ms i s e)"
proof (rule lua_ok_mono [OF onecapture_ok])
  fix v assume "push_onecapture ms i s e = Inr v"
  then show "lua_tolstring E v \<noteq> None"
    by (auto simp: push_onecapture_def lua_tolstring_def pushinteger_def Let_def split: if_splits prod.splits)
qed

lemma add_s_loop_ok: "final_ok src ms e \<Longrightarrow> lua_ok (\<lambda>_. True) (add_s_loop E ms news s e i)"
proof (induction E ms news s e i rule: add_s_loop.induct)
  case (1 E ms news s e i)
  show ?case
  proof (subst add_s_loop.simps, intro lua_ok_if)
    assume i: "\<not> \<not> i < length news" and c: "news ! i \<noteq> L_ESC"
    show "lua_ok (\<lambda>_. True) (bindR (add_s_loop E ms news s e (i + 1)) (\<lambda>b. Inr (news ! i # b)))"
      by (rule lua_ok_bind [OF 1(1) [OF i c 1(3)]]) simp
  next
    assume i: "\<not> \<not> i < length news" and c: "\<not> news ! i \<noteq> L_ESC"
    show "lua_ok (\<lambda>_. True) (bindR (rd news (i + 1)) (\<lambda>d.
       bindR (if \<not> isdigit_c d then Inr [d]
              else if d = CHR ''0'' then Inr (slice (ms_src ms) s (e - s))
              else bindR (push_onecapture ms (char_val d - 49) s e) (\<lambda>v.
                of_opt (LuaFault NullDeref) (lua_tolstring E v))) (\<lambda>x.
       bindR (add_s_loop E ms news s e (i + 2)) (\<lambda>b. Inr (x @ b)))))"
    proof (rule lua_ok_rd)
      show "i + 1 \<le> length news" using i by simp
    next
      fix d assume d: "rd news (i + 1) = Inr d"
      let ?x = "if \<not> isdigit_c d then Inr [d]
              else if d = CHR ''0'' then Inr (slice (ms_src ms) s (e - s))
              else bindR (push_onecapture ms (char_val d - 49) s e) (\<lambda>v.
                of_opt (LuaFault NullDeref) (lua_tolstring E v))"
      have "lua_ok (\<lambda>_. True) ?x"
        by (intro lua_ok_if lua_ok_bind [OF onecapture_string [OF 1(3), of E]]) auto
      then show "lua_ok (\<lambda>_. True) (bindR ?x (\<lambda>x. bindR (add_s_loop E ms news s e (i + 2)) (\<lambda>b. Inr (x @ b))))"
      proof (rule lua_ok_bind)
        fix x assume "?x = Inr x"
        show "lua_ok (\<lambda>_. True) (bindR (add_s_loop E ms news s e (i + 2)) (\<lambda>b. Inr (x @ b)))"
          by (rule lua_ok_bind [OF 1(2) [OF i c d \<open>?x = Inr x\<close> 1(3)]]) simp
      qed
    qed
  qed simp
qed

definition callbacks_ok :: "'w interp \<Rightarrow> bool" where
  "callbacks_ok I = ((\<forall>f vs w. lua_ok (\<lambda>_. True) (lua_call I f vs w)) \<and> (\<forall>t k w. lua_ok (\<lambda>_. True) (lua_gettable I t k w)))"

definition repl_ok :: "lval \<Rightarrow> bool" where
  "repl_ok v = (ttype v \<in> {3, 4, 5, 6})"

lemma add_value_ok:
  assumes I: "callbacks_ok I" and f: "final_ok src ms e" and r: "repl_ok repl"
  shows "lua_ok (\<lambda>_. True) (add_value E I ms repl s e w)"
proof -
  have keep: "lua_ok (\<lambda>_. True) (keep_value E ms s e r)" for r :: "'w \<times> lval"
    by (auto simp: keep_value_def split: option.splits prod.splits)
  show ?thesis
  proof (cases repl)
    case (LNum n)
    then show ?thesis by (auto simp: add_value_def add_s_def intro!: lua_ok_bind [OF add_s_loop_ok [OF f]])
  next
    case (LStr t)
    then show ?thesis by (auto simp: add_value_def add_s_def intro!: lua_ok_bind [OF add_s_loop_ok [OF f]])
  next
    case (LTab t)
    have "lua_ok (\<lambda>_. True) (lua_gettable I t k w)" for k using I by (simp add: callbacks_ok_def)
    then show ?thesis unfolding LTab add_value_def lval.case
      by (intro lua_ok_bind [OF onecapture_ok [OF f]] lua_ok_bind [where f = "keep_value E ms s e"] keep)
  next
    case (LFun g)
    have "lua_ok (\<lambda>_. True) (lua_call I g vs w)" for vs using I by (simp add: callbacks_ok_def)
    then show ?thesis unfolding LFun add_value_def lval.case
      by (intro lua_ok_bind [OF push_captures_ok [OF f]] lua_ok_bind [where f = "keep_value E ms s e"] keep)
  qed (use r in \<open>simp_all add: repl_ok_def\<close>)
qed

subsection \<open>The loop\<close>

text \<open>What the loop gives back from position \<open>i\<close>, count \<open>n\<close> and buffer \<open>b\<close> on: it ends inside the
  subject, having made at most as many substitutions as allowed and as there are places left.\<close>

definition gsub_post :: "string \<Rightarrow> int \<Rightarrow> nat \<Rightarrow> int \<Rightarrow> 'w \<times> nat \<times> int \<times> string \<Rightarrow> bool" where
  "gsub_post src max_s i n = (\<lambda>(w', j, n', b'). i \<le> j \<and> j \<le> length src \<and> n \<le> n' \<and>
     (n < n' \<longrightarrow> n' \<le> max_s) \<and> n' - n \<le> int (length src) - int i + 1)"

lemma gsub_post_step:
  "gsub_post src max_s i' n' r \<Longrightarrow> i < i' \<Longrightarrow> i' \<le> length src \<Longrightarrow> n \<le> n' \<Longrightarrow> n' \<le> n + 1 \<Longrightarrow> n < max_s \<Longrightarrow>
   gsub_post src max_s i n r"
  by (auto simp: gsub_post_def split: prod.splits)

lemma gsub_loop_ok:
  "callbacks_ok I \<Longrightarrow> repl_ok repl \<Longrightarrow> p \<le> length pat \<Longrightarrow> ready src ms \<Longrightarrow> i \<le> length src \<Longrightarrow>
   lua_ok (gsub_post src max_s i n) (gsub_loop E I pat p repl max_s anchor src ms i n b w)"
proof (induction E I pat p repl max_s anchor src ms i n b w rule: gsub_loop.induct)
  case (1 E I pat p repl max_s anchor src ms i n b w)
  let ?go = "gsub_loop E I pat p repl max_s anchor src" and ?P = "gsub_post src max_s i n"
  show ?case
  proof (subst gsub_loop.simps, rule lua_ok_if)
    assume nm: "\<not> \<not> n < max_s"
    let ?val = "\<lambda>ms' r. case r of Some e \<Rightarrow> bindR (add_value E I ms' repl i e w) (\<lambda>(w', x). Inr (w', n + 1, b @ x))
              | None \<Rightarrow> Inr (w, n, b)"
    show "lua_ok ?P (bindR (match pat p (reset ms) i) (\<lambda>(ms', r). bindR (?val ms' r) (\<lambda>(w', n', b').
       let j = (case r of Some e \<Rightarrow> e | None \<Rightarrow> i) in
       if i < j then (if length src < j then Inl (LuaFault OutOfBounds)
         else if anchor then Inr (w', j, n', b') else ?go ms' j n' b' w')
       else if i < length src then (if anchor then Inr (w', i + 1, n', b' @ [src ! i])
         else ?go ms' (i + 1) n' (b' @ [src ! i]) w')
       else Inr (w', i, n', b'))))"
    proof (rule lua_ok_bind [OF attempt [OF 1(6,5,7)]], clarify)
      fix ms' r
      assume m: "match pat p (reset ms) i = Inr (ms', r)"
        and a: "case r of None \<Rightarrow> ready src ms' \<and> (\<forall>cs e. \<not> pmatch pat src p [] i cs e)
          | Some e \<Rightarrow> i \<le> e \<and> final_ok src ms' e \<and> pmatch pat src p [] i (caps ms') e"
      let ?j = "case r of Some e \<Rightarrow> e | None \<Rightarrow> i"
      have rdy: "ready src ms'" and j: "i \<le> ?j" "?j \<le> length src"
        using a 1(7) by (auto simp: final_ok_def split: option.splits)
      have v: "lua_ok (\<lambda>(w', n', b'). n \<le> n' \<and> n' \<le> n + 1) (?val ms' r)"
      proof (cases r)
        case (Some e)
        then have "final_ok src ms' e" using a by simp
        then show ?thesis unfolding Some option.case
          by (intro lua_ok_bind [OF add_value_ok [OF 1(3) _ 1(4)]]) (simp_all add: case_prod_unfold)
      qed simp
      show "lua_ok ?P (bindR (?val ms' r) (\<lambda>(w', n', b').
       let j = ?j in
       if i < j then (if length src < j then Inl (LuaFault OutOfBounds)
         else if anchor then Inr (w', j, n', b') else ?go ms' j n' b' w')
       else if i < length src then (if anchor then Inr (w', i + 1, n', b' @ [src ! i])
         else ?go ms' (i + 1) n' (b' @ [src ! i]) w')
       else Inr (w', i, n', b')))"
      proof (rule lua_ok_bind [OF v], clarify)
        fix w' n' b' assume val: "?val ms' r = Inr (w', n', b')" and n': "n \<le> n'" "n' \<le> n + 1"
        note step = gsub_post_step [OF _ _ _ n'] and IH = 1(1,2) [OF nm m refl val refl refl refl]
        show "lua_ok ?P (let j = ?j in
           if i < j then (if length src < j then Inl (LuaFault OutOfBounds)
             else if anchor then Inr (w', j, n', b') else ?go ms' j n' b' w')
           else if i < length src then (if anchor then Inr (w', i + 1, n', b' @ [src ! i])
             else ?go ms' (i + 1) n' (b' @ [src ! i]) w')
           else Inr (w', i, n', b'))"
          unfolding Let_def
        proof (intro lua_ok_if)
          assume "i < ?j" "length src < ?j"
          then show "lua_ok ?P (Inl (LuaFault OutOfBounds))" using j by simp
        next
          assume "i < ?j" "\<not> length src < ?j" anchor
          then show "lua_ok ?P (Inr (w', ?j, n', b'))" using j n' nm by (auto simp: gsub_post_def)
        next
          assume c: "i < ?j" "\<not> length src < ?j" "\<not> anchor"
          have "lua_ok (gsub_post src max_s ?j n') (?go ms' ?j n' b' w')"
            by (rule 1(1) [OF nm m refl val refl refl refl c 1(3-5) rdy j(2)])
          then show "lua_ok ?P (?go ms' ?j n' b' w')"
            by (rule lua_ok_mono) (use step [OF _ c(1) j(2)] nm in auto)
        next
          assume "\<not> i < ?j" "i < length src" anchor
          then show "lua_ok ?P (Inr (w', i + 1, n', b' @ [src ! i]))" using n' nm by (auto simp: gsub_post_def)
        next
          assume c: "\<not> i < ?j" "i < length src" "\<not> anchor"
          have "lua_ok (gsub_post src max_s (i + 1) n') (?go ms' (i + 1) n' (b' @ [src ! i]) w')"
            by (rule 1(2) [OF nm m refl val refl refl refl c 1(3-5) rdy]) (use c in simp)
          then show "lua_ok ?P (?go ms' (i + 1) n' (b' @ [src ! i]) w')"
            by (rule lua_ok_mono) (use step [of src max_s "i + 1" _ i] c nm in auto)
        next
          assume "\<not> i < ?j" "\<not> i < length src"
          then show "lua_ok ?P (Inr (w', i, n', b'))" using 1(7) n' nm by (auto simp: gsub_post_def)
        qed
      qed
    qed
  qed (use 1(7) in \<open>simp add: gsub_post_def\<close>)
qed

lemma optinteger_any: "lua_ok (\<lambda>_. True) (luaL_optinteger E args n d)"
  by (simp add: luaL_optinteger_def luaL_checkinteger_def Let_def tag_error_ok)

lemma arg_type: "lua_type args i = t \<Longrightarrow> 0 \<le> t \<Longrightarrow> ttype (arg args i) = t"
  by (simp add: lua_type_def arg_def LUA_TNONE_def split: option.splits)

text \<open>C24: \<open>string.gsub\<close> on any arguments ends in an error message or in a string and an integer. The
  integer, the number of substitutions, is not negative, not above the limit asked for and not above
  the number of places of the subject - provided the functions and tables it calls end so.\<close>

theorem gsub_is_safe:
  assumes "callbacks_ok I"
  shows "(\<exists>m. str_gsub E I args w = Inl (LuaErr m)) \<or>
    (\<exists>w' src max_s t n. str_gsub E I args w = Inr (w', [LStr t, pushinteger n]) \<and>
       luaL_checklstring E args 1 = Inr src \<and> luaL_optinteger E args 4 (int (length src) + 1) = Inr max_s \<and>
       0 \<le> n \<and> n \<le> max 0 max_s \<and> n \<le> int (length src) + 1)"
proof -
  let ?Q = "\<lambda>(w', vs). \<exists>src max_s t n. vs = [LStr t, pushinteger n] \<and>
       luaL_checklstring E args 1 = Inr src \<and> luaL_optinteger E args 4 (int (length src) + 1) = Inr max_s \<and>
       0 \<le> n \<and> n \<le> max 0 max_s \<and> n \<le> int (length src) + 1"
  have "lua_ok ?Q (str_gsub E I args w)"
    unfolding str_gsub_def Let_def
  proof (rule lua_ok_bind [OF checklstring_ok], rule lua_ok_bind [OF checklstring_ok],
      rule lua_ok_bind [OF optinteger_any], rule lua_ok_bind [OF argcheck_ok])
    fix src p max_s
    assume src: "luaL_checklstring E args 1 = Inr src"
      and m: "luaL_optinteger E args 4 (int (length src) + 1) = Inr max_s"
      and t: "lua_type args 3 = 3 \<or> lua_type args 3 = 4 \<or> lua_type args 3 = 6 \<or> lua_type args 3 = 5"
    have r: "repl_ok (arg args 3)" using t arg_type [of args 3] by (auto simp: repl_ok_def)
    have p: "(if is_anchored p then 1 else 0) \<le> length p" by (cases p) (auto simp: is_anchored_def)
    note loop = gsub_loop_ok [OF assms r p ready_init, of 0 src max_s 0]
    show "lua_ok ?Q (bindR (gsub_loop E I p (if is_anchored p then 1 else 0) (arg args 3) max_s (is_anchored p)
       src (init_ms src) 0 0 [] w) (\<lambda>(w', i, n, b). Inr (w', [LStr (b @ drop i src), pushinteger n])))"
    proof (rule lua_ok_bind [OF loop], simp, clarify)
      fix w' i n b assume "gsub_post src max_s 0 0 (w', i, n, b)"
      then have "0 \<le> n \<and> n \<le> max 0 max_s \<and> n \<le> int (length src) + 1" by (auto simp: gsub_post_def)
      then show "lua_ok ?Q (Inr (w', [LStr (b @ drop i src), pushinteger n]))" using src m by auto
    qed
  qed
  then show ?thesis by (auto simp: lua_ok_def split: sum.splits)
qed

theorem gsub_is_safe_witness:
  "\<exists>r. str_gsub test_env \<lparr>lua_call = \<lambda>f vs w. Inr (w, LNil), lua_gettable = \<lambda>t k w. Inr (w, LBool False)\<rparr> [] () = Inl (LuaErr r)"
proof -
  have "callbacks_ok \<lparr>lua_call = \<lambda>f vs w :: unit. Inr (w, LNil), lua_gettable = \<lambda>t k w. Inr (w, LBool False)\<rparr>"
    by (simp add: callbacks_ok_def)
  from gsub_is_safe [OF this, of test_env "[]" "()"] show ?thesis
    by (auto simp: luaL_checklstring_def lua_tolstring_def)
qed

subsection \<open>Replacing every match by itself\<close>

lemma slice_append: "slice s i a @ slice s (i + a) b = slice s i (a + b)"
  by (simp add: slice_def take_add add.commute)

lemma slice_one: "i < length s \<Longrightarrow> slice s i 1 = [s ! i]"
  by (simp add: slice_def take_Suc_conv_app_nth)

lemma add_s_whole: "add_s E ms ''%0'' s e = Inr (slice (ms_src ms) s (e - s))"
  unfolding add_s_def
  by (subst add_s_loop.simps, subst add_s_loop.simps) (simp add: rd_def isdigit_c_def char_val_def)

lemma gsub_loop_same:
  "repl = LStr ''%0'' \<Longrightarrow> p \<le> length pat \<Longrightarrow> ready src ms \<Longrightarrow> i \<le> length src \<Longrightarrow>
   lua_ok (\<lambda>(w', j, n', b'). w' = w \<and> i \<le> j \<and> b' = b @ slice src i (j - i))
     (gsub_loop E I pat p repl max_s anchor src ms i n b w)"
proof (induction E I pat p repl max_s anchor src ms i n b w rule: gsub_loop.induct)
  case (1 E I pat p repl max_s anchor src ms i n b w)
  let ?go = "gsub_loop E I pat p repl max_s anchor src"
  let ?P = "\<lambda>b i (w', j, n', b'). w' = w \<and> i \<le> j \<and> b' = b @ slice src i (j - i)"
  show ?case
  proof (subst gsub_loop.simps, rule lua_ok_if)
    assume nm: "\<not> \<not> n < max_s"
    let ?val = "\<lambda>ms' r. case r of Some e \<Rightarrow> bindR (add_value E I ms' repl i e w) (\<lambda>(w', x). Inr (w', n + 1, b @ x))
              | None \<Rightarrow> Inr (w, n, b)"
    show "lua_ok (?P b i) (bindR (match pat p (reset ms) i) (\<lambda>(ms', r). bindR (?val ms' r) (\<lambda>(w', n', b').
       let j = (case r of Some e \<Rightarrow> e | None \<Rightarrow> i) in
       if i < j then (if length src < j then Inl (LuaFault OutOfBounds)
         else if anchor then Inr (w', j, n', b') else ?go ms' j n' b' w')
       else if i < length src then (if anchor then Inr (w', i + 1, n', b' @ [src ! i])
         else ?go ms' (i + 1) n' (b' @ [src ! i]) w')
       else Inr (w', i, n', b'))))"
    proof (rule lua_ok_bind [OF attempt [OF 1(5,4,6)]], clarify)
      fix ms' r
      assume m: "match pat p (reset ms) i = Inr (ms', r)"
        and a: "case r of None \<Rightarrow> ready src ms' \<and> (\<forall>cs e. \<not> pmatch pat src p [] i cs e)
          | Some e \<Rightarrow> i \<le> e \<and> final_ok src ms' e \<and> pmatch pat src p [] i (caps ms') e"
      let ?j = "case r of Some e \<Rightarrow> e | None \<Rightarrow> i"
      have rdy: "ready src ms'" and j: "i \<le> ?j" "?j \<le> length src"
        using a 1(6) by (auto simp: final_ok_def split: option.splits)
      have v: "\<exists>n'. ?val ms' r = Inr (w, n', b @ slice src i (?j - i))"
        using rdy 1(3) by (cases r) (auto simp: add_value_def add_s_whole ready_def slice_def)
      then obtain n' where val: "?val ms' r = Inr (w, n', b @ slice src i (?j - i))" by blast
      let ?b = "b @ slice src i (?j - i)"
      have "lua_ok (?P b i) (
           if i < ?j then (if length src < ?j then Inl (LuaFault OutOfBounds)
             else if anchor then Inr (w, ?j, n', ?b) else ?go ms' ?j n' ?b w)
           else if i < length src then (if anchor then Inr (w, i + 1, n', ?b @ [src ! i])
             else ?go ms' (i + 1) n' (?b @ [src ! i]) w)
           else Inr (w, i, n', ?b))"
      proof (intro lua_ok_if)
        assume "i < ?j" "length src < ?j"
        then show "lua_ok (?P b i) (Inl (LuaFault OutOfBounds))" using j by simp
      next
        assume c: "i < ?j" "\<not> length src < ?j" "\<not> anchor"
        have "lua_ok (?P ?b ?j) (?go ms' ?j n' ?b w)"
          by (rule 1(1) [OF nm m refl val refl refl refl c 1(3,4) rdy j(2)])
        moreover have "?b @ slice src ?j (k - ?j) = b @ slice src i (k - i)" if "?j \<le> k" for k
          using slice_append [of src i "?j - i" "k - ?j"] j that by simp
        ultimately show "lua_ok (?P b i) (?go ms' ?j n' ?b w)"
          by (elim lua_ok_mono) (use j in auto)
      next
        assume c: "\<not> i < ?j" "i < length src" "\<not> anchor"
        then have bb: "?b @ [src ! i] = b @ slice src i 1" using slice_one j by (simp add: slice_def)
        have "lua_ok (?P (b @ slice src i 1) (i + 1)) (?go ms' (i + 1) n' (?b @ [src ! i]) w)"
          unfolding bb [symmetric] by (rule 1(2) [OF nm m refl val refl refl refl c 1(3,4) rdy]) (use c in simp)
        moreover have "(b @ slice src i 1) @ slice src (i + 1) (k - (i + 1)) = b @ slice src i (k - i)" if "i + 1 \<le> k" for k
          using slice_append [of src i 1 "k - (i + 1)"] that by (simp add: Suc_le_eq Suc_diff_Suc)
        ultimately show "lua_ok (?P b i) (?go ms' (i + 1) n' (?b @ [src ! i]) w)"
          by (elim lua_ok_mono) auto
      qed (use j slice_one in \<open>auto simp: slice_def\<close>)
      then show "lua_ok (?P b i) (bindR (?val ms' r) (\<lambda>(w', n', b').
       let j = ?j in
       if i < j then (if length src < j then Inl (LuaFault OutOfBounds)
         else if anchor then Inr (w', j, n', b') else ?go ms' j n' b' w')
       else if i < length src then (if anchor then Inr (w', i + 1, n', b' @ [src ! i])
         else ?go ms' (i + 1) n' (b' @ [src ! i]) w')
       else Inr (w', i, n', b')))"
        unfolding val Let_def by simp
    qed
  qed (simp add: slice_def)
qed

text \<open>C23: Replacing every match of any pattern by itself (\<open>%0\<close>) gives the subject back: the loop
  copies what it skips, loses nothing at empty matches and adds the rest at the end.\<close>

theorem gsub_itself:
  assumes "arg args 1 = LStr s" "arg args 3 = LStr ''%0''" "str_gsub E I args w = Inr (w', vs)"
  shows "w' = w \<and> (\<exists>n. vs = [LStr s, pushinteger n])"
proof -
  obtain p max_s where p: "luaL_checklstring E args 2 = Inr p" "luaL_optinteger E args 4 (int (length s) + 1) = Inr max_s"
    using assms by (auto simp: str_gsub_def checklstring_str Let_def)
  let ?p = "if is_anchored p then 1 else 0"
  let ?go = "gsub_loop E I p ?p (LStr ''%0'') max_s (is_anchored p) s (init_ms s) 0 0 [] w"
  have "?p \<le> length p" by (cases p) (auto simp: is_anchored_def)
  from gsub_loop_same [OF refl this ready_init, of 0 s w "[]" E I max_s "is_anchored p" 0]
  have ok: "lua_ok (\<lambda>(w', j, n', b'). w' = w \<and> b' = slice s 0 j) ?go" by (auto elim!: lua_ok_mono)
  obtain j n b where r: "?go = Inr (w', j, n, b)" "vs = [LStr (b @ drop j s), pushinteger n]"
    using assms p by (auto simp: str_gsub_def checklstring_str Let_def)
  with ok show ?thesis by (auto simp: slice_def)
qed

theorem gsub_itself_witness:
  "\<exists>vs n. str_gsub test_env \<lparr>lua_call = \<lambda>f vs w. Inr (w, LNil), lua_gettable = \<lambda>t k w. Inr (w, LBool False)\<rparr>
     [LStr ''ab'', LStr ''b'', LStr ''%0'', pushinteger 0] () = Inr ((), vs) \<and> vs = [LStr ''ab'', pushinteger n]"
proof -
  let ?a = "[LStr ''ab'', LStr ''b'', LStr ''%0'', pushinteger 0]"
  let ?I = "\<lparr>lua_call = \<lambda>f vs w :: unit. Inr (w, LNil), lua_gettable = \<lambda>t k w. Inr (w, LBool False)\<rparr>"
  have a4: "arg ?a 4 = pushinteger 0" "lua_isnoneornil ?a 4 = False" "lua_type ?a 3 = 4"
    by (simp_all add: arg_def index2adr_def lua_isnoneornil_def lua_type_def pushinteger_def eval_nat_numeral)
  have "luaL_optinteger test_env ?a 4 d = Inr 0" for d
    using checkinteger_num [OF test_env_ok _ a4(1)] a4(2) by (simp add: luaL_optinteger_def is_int_def)
  moreover have c: "luaL_checklstring test_env ?a 1 = Inr ''ab''" "luaL_checklstring test_env ?a 2 = Inr ''b''"
    by (simp_all add: luaL_checklstring_def lua_tolstring_def arg_def index2adr_def)
  moreover have "gsub_loop test_env ?I ''b'' 0 v 0 False s ms 0 0 [] () = Inr ((), 0, 0, [])" for v s ms
    by (subst gsub_loop.simps) simp
  ultimately have r: "str_gsub test_env ?I ?a () = Inr ((), [LStr ''ab'', pushinteger 0])"
    by (simp add: str_gsub_def Let_def a4 luaL_argcheck_def is_anchored_def)
  moreover have "\<exists>n. [LStr ''ab'', pushinteger 0] = [LStr ''ab'', pushinteger n]"
    using gsub_itself [OF _ _ r, of "''ab''"] by (simp add: arg_def index2adr_def)
  ultimately show ?thesis by blast
qed

subsection \<open>Iteration\<close>

lemma gmatch_loop_ok:
  "ready s ms \<Longrightarrow> lua_ok (\<lambda>r. case r of None \<Rightarrow> True
     | Some (ms', i, e) \<Rightarrow> src \<le> i \<and> i \<le> e \<and> final_ok s ms' e) (gmatch_loop p s ms src)"
proof (induction p s ms src rule: gmatch_loop.induct)
  case (1 p s ms src)
  let ?P = "\<lambda>a r. case r of None \<Rightarrow> True | Some (ms', i, e) \<Rightarrow> a \<le> i \<and> i \<le> e \<and> final_ok s ms' e"
  show ?case
  proof (subst gmatch_loop.simps, rule lua_ok_if)
    assume l: "\<not> length s < src"
    have "src \<le> length s" using l by simp
    show "lua_ok (?P src) (bindR (match p 0 (reset ms) src) (\<lambda>(ms', r). case r of
       Some e \<Rightarrow> Inr (Some (ms', src, e)) | None \<Rightarrow> gmatch_loop p s ms' (src + 1)))"
    proof (rule lua_ok_bind [OF attempt [OF 1(2) le0 \<open>src \<le> length s\<close>]], clarify)
      fix ms' r
      assume m: "match p 0 (reset ms) src = Inr (ms', r)"
        and a: "case r of None \<Rightarrow> ready s ms' \<and> (\<forall>cs e. \<not> pmatch p s 0 [] src cs e)
          | Some e \<Rightarrow> src \<le> e \<and> final_ok s ms' e \<and> pmatch p s 0 [] src (caps ms') e"
      show "lua_ok (?P src) (case r of Some e \<Rightarrow> Inr (Some (ms', src, e)) | None \<Rightarrow> gmatch_loop p s ms' (src + 1))"
      proof (cases r)
        case None
        with a have "ready s ms'" by simp
        from 1(1) [OF l m refl None this] show ?thesis
          unfolding None option.case by (rule lua_ok_mono) (auto split: option.splits)
      next
        case (Some e)
        then show ?thesis using a by simp
      qed
    qed
  qed simp
qed

text \<open>One call of the iterator: an error message, no results and the same state, or results and a
  strictly later position.\<close>

lemma gmatch_aux_ok:
  "lua_ok (\<lambda>(g', vs). gm_s g' = gm_s g \<and> gm_p g' = gm_p g \<and>
     (vs = [] \<or> gm_pos g < gm_pos g' \<and> gm_pos g' \<le> length (gm_s g) + 1)) (gmatch_aux E g)"
  unfolding gmatch_aux_def
proof (rule lua_ok_bind [OF gmatch_loop_ok [OF ready_init]])
  fix r
  assume r: "case r of None \<Rightarrow> True | Some (ms', i, e) \<Rightarrow> gm_pos g \<le> i \<and> i \<le> e \<and> final_ok (gm_s g) ms' e"
  show "lua_ok (\<lambda>(g', vs). gm_s g' = gm_s g \<and> gm_p g' = gm_p g \<and>
       (vs = [] \<or> gm_pos g < gm_pos g' \<and> gm_pos g' \<le> length (gm_s g) + 1))
     (case r of Some (ms, src, e) \<Rightarrow> bindR (push_captures E (stack_used E) ms True src e) (\<lambda>vs.
           Inr (g\<lparr>gm_pos := (if e = src then e + 1 else e)\<rparr>, vs))
     | None \<Rightarrow> Inr (g, []))"
  proof (cases r)
    case (Some x)
    obtain ms i e where x: "x = (ms, i, e)" by (cases x) auto
    with r Some have f: "final_ok (gm_s g) ms e" "gm_pos g \<le> i" "i \<le> e" by simp_all
    then have "e \<le> length (gm_s g)" by (simp add: final_ok_def)
    then show ?thesis unfolding Some x option.case prod.case
      by (intro lua_ok_bind [OF push_captures_ok [OF f(1)]]) (use f in auto)
  qed simp
qed

text \<open>The calls a generic \<open>for\<close> makes: until there are no results, at most \<open>n\<close> of them.\<close>

fun gmatch_calls :: "'a luaenv_scheme \<Rightarrow> nat \<Rightarrow> gmatch_iter \<Rightarrow> args list lres" where
  "gmatch_calls E 0 g = Inl (LuaFault OutOfFuel)"
| "gmatch_calls E (Suc n) g = bindR (gmatch_aux E g) (\<lambda>(g', vs).
     if vs = [] then Inr [] else bindR (gmatch_calls E n g') (\<lambda>vss. Inr (vs # vss)))"

declare gmatch_calls.simps [simp del]

lemma gmatch_calls_ok:
  "length (gm_s g) + 2 \<le> n + gm_pos g \<Longrightarrow> gm_pos g \<le> length (gm_s g) + 1 \<Longrightarrow>
   lua_ok (\<lambda>vss. length vss < n) (gmatch_calls E n g)"
proof (induction n arbitrary: g)
  case (Suc n)
  show ?case unfolding gmatch_calls.simps
  proof (rule lua_ok_bind [OF gmatch_aux_ok], clarify, rule lua_ok_if)
    fix g' :: gmatch_iter and vs :: args
    assume s: "gm_s g' = gm_s g" and "vs = [] \<or> gm_pos g < gm_pos g' \<and> gm_pos g' \<le> length (gm_s g) + 1" "vs \<noteq> []"
    then have "length (gm_s g') + 2 \<le> n + gm_pos g'" "gm_pos g' \<le> length (gm_s g') + 1" using Suc.prems by auto
    then show "lua_ok (\<lambda>vss. length vss < Suc n) (bindR (gmatch_calls E n g') (\<lambda>vss. Inr (vs # vss)))"
      by (intro lua_ok_bind [OF Suc.IH]) simp_all
  qed simp
qed (simp add: gmatch_calls.simps)

text \<open>C25: The loop over \<open>string.gmatch\<close> ends. For every subject and pattern the iterator answers at most
  one match for each place of the subject (its end included), each call going on strictly after the
  place of the one before, also at empty matches, and then no results - or an error message ends it.\<close>

theorem gmatch_ends:
  assumes "gmatch E args = Inr g"
  shows "(\<exists>m. gmatch_calls E (length (gm_s g) + 2) g = Inl (LuaErr m)) \<or>
    (\<exists>vss. gmatch_calls E (length (gm_s g) + 2) g = Inr vss \<and> length vss \<le> length (gm_s g) + 1)"
proof -
  have "gm_pos g = 0" using assms by (auto simp: gmatch_def)
  then have "lua_ok (\<lambda>vss. length vss < length (gm_s g) + 2) (gmatch_calls E (length (gm_s g) + 2) g)"
    by (intro gmatch_calls_ok) simp_all
  then show ?thesis by (auto simp: lua_ok_def split: sum.splits)
qed

theorem gmatch_ends_witness:
  "\<exists>g. gmatch test_env [LStr ''ab'', LStr []] = Inr g \<and> gmatch_calls test_env 4 g \<noteq> Inl (LuaFault OutOfFuel)"
proof -
  have "gmatch test_env [LStr ''ab'', LStr []] = Inr \<lparr>gm_s = ''ab'', gm_p = [], gm_pos = 0\<rparr>"
    by (simp add: gmatch_def checklstring_str)
  with gmatch_ends [OF this] show ?thesis by (auto simp: eval_nat_numeral)
qed

subsection \<open>The bytes of a string and back\<close>

lemma char_args_bytes:
  assumes "conf_ok E"
  shows "\<forall>j < length cs. arg args (i + j) = pushinteger (int (char_val (cs ! j))) \<Longrightarrow> char_args E args i (length cs) = Inr cs"
proof (induction cs arbitrary: i)
  case (Cons c cs)
  have "char_val c < 256" by (simp add: char_val_def)
  moreover have "arg args i = pushinteger (int (char_val c))" using Cons.prems by (auto dest: spec [of _ 0])
  ultimately have "luaL_checkinteger E args i = Inr (int (char_val c))"
    by (intro checkinteger_num [OF assms]) (simp_all add: is_int_def)
  moreover have "char_args E args (i + 1) (length cs) = Inr cs"
    by (rule Cons.IH) (use Cons.prems in \<open>auto dest: spec [of _ "Suc _"]\<close>)
  ultimately show ?case using \<open>char_val c < 256\<close> by (simp add: luaL_argcheck_def char_val_def)
qed simp

text \<open>C26: \<open>string.char\<close> puts together what \<open>string.byte\<close> takes apart: for every string whose bytes fit
  the C stack, all its bytes given to \<open>string.char\<close> are the string again.\<close>

theorem char_of_bytes:
  assumes "conf_ok E" "int (length s) + 3 \<le> maxcstack E"
  shows "\<exists>bs. str_byte E [LStr s, pushinteger 1, pushinteger (- 1)] = Inr bs \<and> str_char E bs = Inr [LStr s]"
proof -
  let ?a = "[LStr s, pushinteger 1, pushinteger (- 1)]"
  let ?bs = "map (\<lambda>i. pushinteger (int (char_val (s ! (1 + i - 1))))) [0 ..< length s]"
  have "lua_isnoneornil ?a 2 = False" "lua_isnoneornil ?a 3 = False"
    by (simp_all add: lua_isnoneornil_def lua_type_def index2adr_def pushinteger_def eval_nat_numeral)
  then have i: "luaL_optinteger E ?a 2 1 = Inr 1" "luaL_optinteger E ?a 3 d = Inr (- 1)" for d
    using checkinteger_num [OF assms(1), of 1 ?a 2] checkinteger_num [OF assms(1), of "- 1" ?a 3]
    by (simp_all add: luaL_optinteger_def is_int_def)
  have "str_byte E ?a = Inr ?bs"
  proof (cases "s = []")
    case True
    then show ?thesis using i by (simp add: str_byte_def checklstring_str posrelat_def Let_def)
  next
    case False
    then have "0 < length s" by simp
    then show ?thesis using assms(2)
      by (simp add: str_byte_def checklstring_str i posrelat_def Let_def luaL_checkstack_def lua_checkstack_def)
  qed
  moreover have "char_args E ?bs 1 (length s) = Inr s"
    by (rule char_args_bytes [OF assms(1)]) (simp add: arg_def index2adr_def)
  ultimately show ?thesis by (simp add: str_char_def)
qed

theorem char_of_bytes_witness:
  "\<exists>bs. str_byte test_env [LStr ''hi'', pushinteger 1, pushinteger (- 1)] = Inr bs \<and> str_char test_env bs = Inr [LStr ''hi'']"
  by (rule char_of_bytes [OF test_env_ok]) (simp_all add: test_env_def luaconf.defs)

end
