(* ===== verification/Lua_Zio.thy ===== *)
theory Lua_Zio
  imports Lua_Value
begin

text \<open>
  The input streams of the interpreter (\<open>lua/lzio.c\<close>) and the readers of \<open>lua/lauxlib.c\<close> they are
  filled by. A reader is a function on its own state that answers the next piece, or \<open>None\<close> for a null
  pointer; a stream is what is left of the current piece and the state of its reader.

  The interface between the two is the locale \<open>reader\<close>: the pieces a reader answers, put together,
  are its content. Over it a stream is the sequence of its bytes, however they are cut into pieces.
\<close>

type_synonym 'd lua_Reader = "'d \<Rightarrow> string option \<times> 'd"

record 'd zio =
  z_p :: string     \<comment> \<open>the \<open>n\<close> bytes from \<open>p\<close> on\<close>
  z_data :: 'd

definition luaZ_init :: "'d \<Rightarrow> 'd zio" where
  "luaZ_init d = \<lparr>z_p = [], z_data = d\<rparr>"

text \<open>\<open>None\<close> is \<open>EOZ\<close>.\<close>

definition luaZ_fill :: "'d lua_Reader \<Rightarrow> 'd zio \<Rightarrow> char option \<times> 'd zio" where
  "luaZ_fill rd z = (case rd (z_data z) of (buff, d) \<Rightarrow> case buff of
     None \<Rightarrow> (None, z\<lparr>z_data := d\<rparr>) | Some [] \<Rightarrow> (None, z\<lparr>z_data := d\<rparr>)
   | Some (c # s) \<Rightarrow> (Some c, \<lparr>z_p = s, z_data = d\<rparr>))"

definition luaZ_lookahead :: "'d lua_Reader \<Rightarrow> 'd zio \<Rightarrow> char option \<times> 'd zio" where
  "luaZ_lookahead rd z = (case z_p z of
     [] \<Rightarrow> (case luaZ_fill rd z of (None, z) \<Rightarrow> (None, z) | (Some c, z) \<Rightarrow> (Some c, z\<lparr>z_p := c # z_p z\<rparr>))
   | c # s \<Rightarrow> (Some c, z))"

text \<open>The macro \<open>zgetc\<close>: the next byte, taken. (At the end of the stream the count of bytes left is
  taken to stay 0; nothing reads the stream after its end.)\<close>

definition zgetc :: "'d lua_Reader \<Rightarrow> 'd zio \<Rightarrow> char option \<times> 'd zio" where
  "zgetc rd z = (case z_p z of [] \<Rightarrow> luaZ_fill rd z | c # s \<Rightarrow> (Some c, z\<lparr>z_p := s\<rparr>))"

lemma lookahead_some: "luaZ_lookahead rd z = (Some c, z') \<Longrightarrow> \<exists>s. z_p z' = c # s"
  by (auto simp: luaZ_lookahead_def split: list.splits prod.splits option.splits)

text \<open>The number of missing bytes, the bytes read, and the stream.\<close>

function luaZ_read :: "'d lua_Reader \<Rightarrow> 'd zio \<Rightarrow> nat \<Rightarrow> nat \<times> string \<times> 'd zio" where
  "luaZ_read rd z n = (if n = 0 then (0, [], z) else
     case luaZ_lookahead rd z of
       (None, z) \<Rightarrow> (n, [], z)
     | (Some c, z) \<Rightarrow> let m = (if n \<le> length (z_p z) then n else length (z_p z));
           (r, b, z') = luaZ_read rd (z\<lparr>z_p := drop m (z_p z)\<rparr>) (n - m) in (r, take m (z_p z) @ b, z'))"
  by pat_completeness auto
termination luaZ_read
proof (relation "measure (\<lambda>(rd, z, n). n)", goal_cases)
  case (2 rd z n x1 z' c m)
  then have "z_p z' \<noteq> []" using lookahead_some by (metis list.distinct(1))
  then have "0 < m" using 2 by (auto split: if_splits)
  then show ?case using 2(1) by simp
qed simp

declare luaZ_read.simps [simp del]

definition LUA_MINBUFFER :: nat where "LUA_MINBUFFER = 32"

text \<open>The size of the buffer after room for \<open>n\<close> bytes was asked for.\<close>

definition luaZ_openspace :: "nat \<Rightarrow> nat \<Rightarrow> nat" where
  "luaZ_openspace buffsize n = (if buffsize < n then (if n < LUA_MINBUFFER then LUA_MINBUFFER else n) else buffsize)"

lemma openspace_enough: "n \<le> luaZ_openspace b n" "b \<le> luaZ_openspace b n"
  by (auto simp: luaZ_openspace_def)

subsection \<open>The contract\<close>

locale reader =
  fixes rd :: "'d lua_Reader" and content :: "'d \<Rightarrow> string"
  assumes at_end: "rd d = (None, d') \<Longrightarrow> content d = []"
    and empty_end: "rd d = (Some [], d') \<Longrightarrow> content d = []"
    and piece: "rd d = (Some (c # s), d') \<Longrightarrow> content d = c # s @ content d'"
    and stays: "content d = [] \<Longrightarrow> content (snd (rd d)) = []"
begin

definition bytes_of :: "'d zio \<Rightarrow> string" where
  "bytes_of z = z_p z @ content (z_data z)"

lemma bytes_init: "bytes_of (luaZ_init d) = content d"
  by (simp add: bytes_of_def luaZ_init_def)

lemma fill_bytes: "z_p z = [] \<Longrightarrow> luaZ_fill rd z = (r, z') \<Longrightarrow>
    (case r of None \<Rightarrow> bytes_of z = [] \<and> bytes_of z' = [] | Some c \<Rightarrow> bytes_of z = c # bytes_of z')"
  using at_end empty_end piece stays [of "z_data z"]
  by (auto simp: luaZ_fill_def bytes_of_def split: prod.splits option.splits list.splits)

lemma zgetc_bytes: "zgetc rd z = (r, z') \<Longrightarrow>
    (case r of None \<Rightarrow> bytes_of z = [] \<and> bytes_of z' = [] | Some c \<Rightarrow> bytes_of z = c # bytes_of z')"
  using fill_bytes by (auto simp: zgetc_def bytes_of_def split: list.splits)

lemma lookahead_bytes: "luaZ_lookahead rd z = (r, z') \<Longrightarrow>
    bytes_of z' = bytes_of z \<and> (r = None \<longleftrightarrow> bytes_of z = []) \<and> (\<forall>c. r = Some c \<longrightarrow> (\<exists>s. z_p z' = c # s))"
proof (cases "z_p z")
  case Nil
  assume l: "luaZ_lookahead rd z = (r, z')"
  obtain q z1 where f: "luaZ_fill rd z = (q, z1)" by fastforce
  show ?thesis
  proof (cases q)
    case None
    then show ?thesis using l f Nil fill_bytes [OF Nil f] by (simp add: luaZ_lookahead_def)
  next
    case (Some c)
    then have "r = Some c" "z' = z1\<lparr>z_p := c # z_p z1\<rparr>" using l f Nil by (simp_all add: luaZ_lookahead_def)
    then show ?thesis using fill_bytes [OF Nil f] Some by (simp add: bytes_of_def)
  qed
next
  case (Cons c s)
  assume "luaZ_lookahead rd z = (r, z')"
  then show ?thesis using Cons by (auto simp: luaZ_lookahead_def bytes_of_def)
qed

text \<open>Reading takes bytes off the front, and misses exactly those that are not there.\<close>

lemma read_bytes: "luaZ_read rd z n = (r, b, z') \<Longrightarrow>
    b = take n (bytes_of z) \<and> bytes_of z' = drop n (bytes_of z) \<and> r = n - length (bytes_of z)"
proof (induction n arbitrary: z r b z' rule: less_induct)
  case (less n)
  show ?case
  proof (cases "n = 0")
    case True
    then show ?thesis using less.prems by (simp add: luaZ_read.simps)
  next
    case n: False
    obtain q z1 where l: "luaZ_lookahead rd z = (q, z1)" by fastforce
    note lb = lookahead_bytes [OF l]
    show ?thesis
    proof (cases q)
      case None
      then show ?thesis using less.prems n l lb by (simp add: luaZ_read.simps)
    next
      case (Some c)
      define m where "m = (if n \<le> length (z_p z1) then n else length (z_p z1))"
      obtain r2 b2 z2 where rec: "luaZ_read rd (z1\<lparr>z_p := drop m (z_p z1)\<rparr>) (n - m) = (r2, b2, z2)"
        by (metis prod_cases3)
      have m: "0 < m" "m \<le> n" "m \<le> length (z_p z1)" using lb Some n by (auto simp: m_def)
      have res: "r = r2" "b = take m (z_p z1) @ b2" "z' = z2"
        using less.prems n l Some rec unfolding m_def by (simp_all add: luaZ_read.simps [of rd z n] Let_def)
      have bz: "bytes_of z = z_p z1 @ content (z_data z1)" using lb by (simp add: bytes_of_def)
      have "bytes_of (z1\<lparr>z_p := drop m (z_p z1)\<rparr>) = drop m (bytes_of z)" unfolding bz using m(3) by (simp add: bytes_of_def)
      with less.IH [OF _ rec] m n have "b2 = take (n - m) (drop m (bytes_of z))"
        "bytes_of z2 = drop n (bytes_of z)" "r2 = n - m - (length (bytes_of z) - m)" by (simp_all add: add.commute)
      moreover have "take m (z_p z1) = take m (bytes_of z)" unfolding bz using m(3) by simp
      moreover have "take m (bytes_of z) @ take (n - m) (drop m (bytes_of z)) = take n (bytes_of z)"
        using m(2) by (metis le_add_diff_inverse take_add)
      moreover have "m \<le> length (bytes_of z)" unfolding bz using m(3) by simp
      ultimately show ?thesis using res m by auto
    qed
  qed
qed

end

subsection \<open>The readers\<close>

text \<open>\<open>getS\<close>: one string, all of it at once. Its state is the string and what is left of \<open>size\<close>.\<close>

definition getS :: "(string \<times> nat) lua_Reader" where
  "getS ls = (case ls of (s, n) \<Rightarrow> if n = 0 then (None, ls) else (Some (take n s), (s, 0)))"

definition getS_content :: "string \<times> nat \<Rightarrow> string" where
  "getS_content ls = take (snd ls) (fst ls)"

interpretation getS: reader getS getS_content
  by unfold_locales (auto simp: getS_def getS_content_def split: if_splits)

text \<open>\<open>getF\<close>: a file, \<open>LUAL_BUFFERSIZE\<close> bytes at a time, with a newline first where the first line was
  skipped. \<open>lf_eof\<close> is the end-of-file flag, set by a read that wanted more than there was.\<close>

record loadf =
  lf_extraline :: bool
  lf_file :: string
  lf_eof :: bool

definition getF :: "nat \<Rightarrow> loadf lua_Reader" where
  "getF bufsize lf = (
     if lf_extraline lf then (Some [CHR 0x0A], lf\<lparr>lf_extraline := False\<rparr>)
     else if lf_eof lf then (None, lf)
     else let b = take bufsize (lf_file lf) in
       (if b \<noteq> [] then Some b else None,
        lf\<lparr>lf_file := drop bufsize (lf_file lf), lf_eof := length (lf_file lf) < bufsize\<rparr>))"

definition getF_content :: "loadf \<Rightarrow> string" where
  "getF_content lf = (if lf_extraline lf then [CHR 0x0A] else []) @ (if lf_eof lf then [] else lf_file lf)"

interpretation getF: reader "getF (Suc n)" getF_content
proof unfold_locales
  fix d d' c s assume "getF (Suc n) d = (Some (c # s), d')"
  then show "getF_content d = c # s @ getF_content d'"
    by (cases "lf_file d") (auto simp: getF_def getF_content_def Let_def split: if_splits)
qed (auto simp: getF_def getF_content_def Let_def split: if_splits)

text \<open>\<open>generic_reader\<close>, for a call \<open>load(f)\<close> whose function answers these pieces one after the
  other and then nil; an empty piece ends the chunk. Calls of \<open>f\<close> that end in an error, and answers
  that are no string (``reader function must return a string''), leave \<open>lua_load\<close> as a Lua
  error; such calls are outside this reader.\<close>

definition generic_reader :: "string list lua_Reader" where
  "generic_reader ps = (case ps of [] \<Rightarrow> (None, []) | p # r \<Rightarrow> (Some p, if p = [] then [] else r))"

fun pieces_content :: "string list \<Rightarrow> string" where
  "pieces_content [] = []"
| "pieces_content (p # r) = (if p = [] then [] else p @ pieces_content r)"

interpretation generic: reader generic_reader pieces_content
  by unfold_locales (auto simp: generic_reader_def split: list.splits if_splits)

end
