(* ===== verification/Lua_Undump.thy ===== *)
theory Lua_Undump
  imports Lua_Zio
begin

text \<open>
  Precompiled chunks: \<open>lua/ldump.c\<close> writes a function prototype as bytes, \<open>lua/lundump.c\<close> reads one
  from a stream. A prototype is a tree: its own fields and its nested prototypes. The representation of
  numbers, the check of the loaded code (\<open>luaG_checkcode\<close>) and the limit on nested calls are
  fields of the environment; the integers, sizes and instructions are those of a 32-bit little-endian
  host, as the header of a chunk records.
\<close>

subsection \<open>Prototypes\<close>

datatype konst = KNil | KBool bool | KNum dbl | KStr "string option"  \<comment> \<open>\<open>None\<close>: a null string pointer\<close>

record locvar =
  lv_varname :: "string option"
  lv_startpc :: i32
  lv_endpc :: i32

record pinfo =
  pr_source :: "string option"
  pr_linedefined :: i32
  pr_lastlinedefined :: i32
  pr_nups :: u8
  pr_numparams :: u8
  pr_is_vararg :: u8
  pr_maxstacksize :: u8
  pr_code :: "u32 list"
  pr_k :: "konst list"
  pr_lineinfo :: "i32 list"
  pr_locvars :: "locvar list"
  pr_upvalues :: "string option list"

datatype proto = Proto (pr_info: pinfo) (pr_p: "proto list")

record undump_env = luaconf +
  num_bytes :: "dbl \<Rightarrow> string"    \<comment> \<open>the eight bytes of a \<open>lua_Number\<close>\<close>
  bytes_num :: "string \<Rightarrow> dbl"
  checkcode :: "proto \<Rightarrow> bool"
  maxccalls :: nat

subsection \<open>Bytes of integers\<close>

definition byte :: "u8 \<Rightarrow> char" where
  "byte w = char_of (unat w)"

definition unbyte :: "char \<Rightarrow> u8" where
  "unbyte c = of_nat (char_val c)"

definition bytes32 :: "u32 \<Rightarrow> string" where
  "bytes32 w = map (\<lambda>i. char_of (unat w div 256 ^ i)) [0 ..< 4]"

fun num_of :: "string \<Rightarrow> nat" where
  "num_of [] = 0"
| "num_of (c # s) = char_val c + 256 * num_of s"

definition unbytes32 :: "string \<Rightarrow> u32" where
  "unbytes32 s = of_nat (num_of s)"

subsection \<open>Writing\<close>

record 'w dump_state =
  d_data :: 'w
  d_strip :: bool
  d_status :: int

type_synonym 'w lua_Writer = "'w \<Rightarrow> string \<Rightarrow> 'w \<times> int"
type_synonym 'w dumper = "'w dump_state \<Rightarrow> 'w dump_state"

definition DumpBlock :: "'w lua_Writer \<Rightarrow> string \<Rightarrow> 'w dumper" where
  "DumpBlock W b D = (if d_status D = 0 then (case W (d_data D) b of (d, st) \<Rightarrow> D\<lparr>d_data := d, d_status := st\<rparr>) else D)"

definition DumpChar :: "'w lua_Writer \<Rightarrow> u8 \<Rightarrow> 'w dumper" where
  "DumpChar W y = DumpBlock W [byte y]"

definition DumpInt :: "'w lua_Writer \<Rightarrow> i32 \<Rightarrow> 'w dumper" where
  "DumpInt W x = DumpBlock W (bytes32 x)"

definition DumpNumber :: "'a undump_env_scheme \<Rightarrow> 'w lua_Writer \<Rightarrow> dbl \<Rightarrow> 'w dumper" where
  "DumpNumber E W x = DumpBlock W (num_bytes E x)"

definition DumpVector :: "'w lua_Writer \<Rightarrow> u32 list \<Rightarrow> 'w dumper" where
  "DumpVector W b D = DumpBlock W (concat (map bytes32 b)) (DumpInt W (of_nat (length b)) D)"

definition DumpString :: "'w lua_Writer \<Rightarrow> string option \<Rightarrow> 'w dumper" where
  "DumpString W s D = (case s of None \<Rightarrow> DumpBlock W (bytes32 0) D
     | Some t \<Rightarrow> DumpBlock W (t @ [CHR 0x00]) (DumpBlock W (bytes32 (of_nat (length t + 1))) D))"

definition DumpConstant :: "'a undump_env_scheme \<Rightarrow> 'w lua_Writer \<Rightarrow> konst \<Rightarrow> 'w dumper" where
  "DumpConstant E W o1 D = (case o1 of
     KNil \<Rightarrow> DumpChar W 0 D
   | KBool b \<Rightarrow> DumpChar W (if b then 1 else 0) (DumpChar W 1 D)
   | KNum n \<Rightarrow> DumpNumber E W n (DumpChar W 3 D)
   | KStr s \<Rightarrow> DumpString W s (DumpChar W 4 D))"

definition DumpLocvar :: "'w lua_Writer \<Rightarrow> locvar \<Rightarrow> 'w dumper" where
  "DumpLocvar W v D = DumpInt W (lv_endpc v) (DumpInt W (lv_startpc v) (DumpString W (lv_varname v) D))"

definition DumpDebug :: "'w lua_Writer \<Rightarrow> pinfo \<Rightarrow> 'w dumper" where
  "DumpDebug W f D = (let D = DumpVector W (if d_strip D then [] else pr_lineinfo f) D;
     lv = (if d_strip D then [] else pr_locvars f);
     D = fold (DumpLocvar W) lv (DumpInt W (of_nat (length lv)) D);
     uv = (if d_strip D then [] else pr_upvalues f) in
     fold (DumpString W) uv (DumpInt W (of_nat (length uv)) D))"

text \<open>The part of \<open>DumpConstants\<close> before the nested functions.\<close>

definition DumpConstants :: "'a undump_env_scheme \<Rightarrow> 'w lua_Writer \<Rightarrow> pinfo \<Rightarrow> 'w dumper" where
  "DumpConstants E W f D = fold (DumpConstant E W) (pr_k f) (DumpInt W (of_nat (length (pr_k f))) D)"

definition DumpStart :: "'w lua_Writer \<Rightarrow> pinfo \<Rightarrow> string option \<Rightarrow> 'w dumper" where
  "DumpStart W f p D = (
     let D = DumpString W (if pr_source f = p \<or> d_strip D then None else pr_source f) D;
         D = DumpInt W (pr_linedefined f) D; D = DumpInt W (pr_lastlinedefined f) D;
         D = DumpChar W (pr_nups f) D; D = DumpChar W (pr_numparams f) D;
         D = DumpChar W (pr_is_vararg f) D; D = DumpChar W (pr_maxstacksize f) D in
     DumpVector W (pr_code f) D)"

fun DumpFunction :: "'a undump_env_scheme \<Rightarrow> 'w lua_Writer \<Rightarrow> proto \<Rightarrow> string option \<Rightarrow> 'w dumper" where
  "DumpFunction E W (Proto f ps) p D = (
     let D = DumpConstants E W f (DumpStart W f p D);
         D = fold (\<lambda>q. DumpFunction E W q (pr_source f)) ps (DumpInt W (of_nat (length ps)) D) in
     DumpDebug W f D)"

text \<open>The header: signature, version, format, endianness, the sizes of \<open>int\<close>, \<open>size_t\<close>, an
  instruction and a number, and whether numbers are integral.\<close>

definition luaU_header :: string where
  "luaU_header = [CHR 0x1B] @ ''Lua'' @ [CHR 0x51, CHR 0x00, CHR 0x01, CHR 0x04, CHR 0x04, CHR 0x04, CHR 0x08, CHR 0x00]"

definition DumpHeader :: "'w lua_Writer \<Rightarrow> 'w dumper" where
  "DumpHeader W = DumpBlock W luaU_header"

definition luaU_dump :: "'a undump_env_scheme \<Rightarrow> proto \<Rightarrow> 'w lua_Writer \<Rightarrow> 'w \<Rightarrow> bool \<Rightarrow> 'w \<times> int" where
  "luaU_dump E f W d strip = (let D = DumpFunction E W f None (DumpHeader W \<lparr>d_data = d, d_strip = strip, d_status = 0\<rparr>)
     in (d_data D, d_status D))"

text \<open>The writer of \<open>string.dump\<close>: it appends to a buffer and never fails.\<close>

definition writer :: "string lua_Writer" where
  "writer b s = (b @ s, 0)"

subsection \<open>Reading\<close>

text \<open>A loader takes a value off a stream, or ends in an error message.\<close>

type_synonym ('d, 'x) loader = "'d zio \<Rightarrow> ('x \<times> 'd zio) lres"

definition bindL :: "('d, 'x) loader \<Rightarrow> ('x \<Rightarrow> ('d, 'y) loader) \<Rightarrow> ('d, 'y) loader" where
  "bindL m f z = bindR (m z) (\<lambda>(x, z'). f x z')"

definition retL :: "'x \<Rightarrow> ('d, 'x) loader" where
  "retL x z = Inr (x, z)"

lemma bindL_cong [fundef_cong]:
  "m = m' \<Longrightarrow> (\<And>x z2. f x z2 = f' x z2) \<Longrightarrow> z = z' \<Longrightarrow> bindL m f z = bindL m' f' z'"
  by (simp add: bindL_def)

definition load_error :: "string \<Rightarrow> string \<Rightarrow> ('d, 'x) loader" where
  "load_error name why z = Inl (LuaErr (name @ '': '' @ why @ '' in precompiled chunk''))"

definition LoadBlock :: "string \<Rightarrow> 'd lua_Reader \<Rightarrow> nat \<Rightarrow> ('d, string) loader" where
  "LoadBlock name rd n z = (case luaZ_read rd z n of (r, b, z') \<Rightarrow>
     if r \<noteq> 0 then load_error name ''unexpected end'' z' else Inr (b, z'))"

text \<open>\<open>LoadByte\<close> is \<open>LoadChar\<close> as an unsigned byte.\<close>

definition LoadChar :: "string \<Rightarrow> 'd lua_Reader \<Rightarrow> ('d, u8) loader" where
  "LoadChar name rd = bindL (LoadBlock name rd 1) (\<lambda>b. retL (unbyte (hd b)))"

definition LoadInt :: "string \<Rightarrow> 'd lua_Reader \<Rightarrow> ('d, i32) loader" where
  "LoadInt name rd = bindL (LoadBlock name rd 4) (\<lambda>b. let x = unbytes32 b in
     if sint x < 0 then load_error name ''bad integer'' else retL x)"

definition LoadNumber :: "'a undump_env_scheme \<Rightarrow> string \<Rightarrow> 'd lua_Reader \<Rightarrow> ('d, dbl) loader" where
  "LoadNumber E name rd = bindL (LoadBlock name rd 8) (\<lambda>b. retL (bytes_num E b))"

definition LoadString :: "string \<Rightarrow> 'd lua_Reader \<Rightarrow> ('d, string option) loader" where
  "LoadString name rd = bindL (LoadBlock name rd 4) (\<lambda>b. let n = unbytes32 b in
     if n = 0 then retL None
     else bindL (LoadBlock name rd (unat n)) (\<lambda>s. retL (Some (take (unat n - 1) s))))"

text \<open>The check of \<open>luaM_newvector\<close>: a vector of \<open>n\<close> elements of \<open>e\<close> bytes has to fit a \<open>size_t\<close>. The
  allocation itself is taken to succeed.\<close>

definition newvector :: "nat \<Rightarrow> nat \<Rightarrow> ('d, unit) loader" where
  "newvector n e z = (if n + 1 \<le> (2 ^ 32 - 3) div e then Inr ((), z)
     else Inl (LuaErr ''memory allocation error: block too big''))"

fun words_of :: "nat \<Rightarrow> string \<Rightarrow> u32 list" where
  "words_of 0 s = []"
| "words_of (Suc n) s = unbytes32 (take 4 s) # words_of n (drop 4 s)"

definition LoadVector :: "string \<Rightarrow> 'd lua_Reader \<Rightarrow> ('d, u32 list) loader" where
  "LoadVector name rd = bindL (LoadInt name rd) (\<lambda>n.
     bindL (newvector (unat n) 4) (\<lambda>_.
     bindL (LoadBlock name rd (unat n * 4)) (\<lambda>s. retL (words_of (unat n) s))))"

fun load_list :: "('d, 'x) loader \<Rightarrow> nat \<Rightarrow> ('d, 'x list) loader" where
  "load_list m 0 = retL []"
| "load_list m (Suc n) = bindL m (\<lambda>x. bindL (load_list m n) (\<lambda>xs. retL (x # xs)))"

definition LoadArray :: "string \<Rightarrow> 'd lua_Reader \<Rightarrow> nat \<Rightarrow> ('d, 'x) loader \<Rightarrow> ('d, 'x list) loader" where
  "LoadArray name rd e m = bindL (LoadInt name rd) (\<lambda>n. bindL (newvector (unat n) e) (\<lambda>_. load_list m (unat n)))"

definition LoadConstant :: "'a undump_env_scheme \<Rightarrow> string \<Rightarrow> 'd lua_Reader \<Rightarrow> ('d, konst) loader" where
  "LoadConstant E name rd = bindL (LoadChar name rd) (\<lambda>t.
     if t = 0 then retL KNil
     else if t = 1 then bindL (LoadChar name rd) (\<lambda>b. retL (KBool (b \<noteq> 0)))
     else if t = 3 then bindL (LoadNumber E name rd) (\<lambda>n. retL (KNum n))
     else if t = 4 then bindL (LoadString name rd) (\<lambda>s. retL (KStr s))
     else load_error name ''bad constant'')"

definition LoadLocvar :: "string \<Rightarrow> 'd lua_Reader \<Rightarrow> ('d, locvar) loader" where
  "LoadLocvar name rd = bindL (LoadString name rd) (\<lambda>s. bindL (LoadInt name rd) (\<lambda>a. bindL (LoadInt name rd) (\<lambda>b.
     retL \<lparr>lv_varname = s, lv_startpc = a, lv_endpc = b\<rparr>)))"

text \<open>The fields before the nested functions, and the debug information after them.\<close>

definition LoadStart :: "'a undump_env_scheme \<Rightarrow> string \<Rightarrow> 'd lua_Reader \<Rightarrow> string option \<Rightarrow> ('d, pinfo) loader" where
  "LoadStart E name rd p =
     bindL (LoadString name rd) (\<lambda>s.
     bindL (LoadInt name rd) (\<lambda>ld. bindL (LoadInt name rd) (\<lambda>lld.
     bindL (LoadChar name rd) (\<lambda>nu. bindL (LoadChar name rd) (\<lambda>np.
     bindL (LoadChar name rd) (\<lambda>va. bindL (LoadChar name rd) (\<lambda>ms.
     bindL (LoadVector name rd) (\<lambda>code.
     bindL (LoadArray name rd 16 (LoadConstant E name rd)) (\<lambda>k.
       retL \<lparr>pr_source = (case s of None \<Rightarrow> p | Some _ \<Rightarrow> s), pr_linedefined = ld, pr_lastlinedefined = lld,
         pr_nups = nu, pr_numparams = np, pr_is_vararg = va, pr_maxstacksize = ms, pr_code = code, pr_k = k,
         pr_lineinfo = [], pr_locvars = [], pr_upvalues = []\<rparr>)))))))))"

definition LoadDebug :: "string \<Rightarrow> 'd lua_Reader \<Rightarrow> pinfo \<Rightarrow> ('d, pinfo) loader" where
  "LoadDebug name rd f =
     bindL (LoadVector name rd) (\<lambda>li.
     bindL (LoadArray name rd 12 (LoadLocvar name rd)) (\<lambda>lv.
     bindL (LoadArray name rd 4 (LoadString name rd)) (\<lambda>uv.
       retL (f\<lparr>pr_lineinfo := li, pr_locvars := lv, pr_upvalues := uv\<rparr>))))"

text \<open>The first argument is the number of nested calls left of \<open>LUAI_MAXCCALLS\<close>.\<close>

primrec LoadFunction :: "nat \<Rightarrow> 'a undump_env_scheme \<Rightarrow> string \<Rightarrow> 'd lua_Reader \<Rightarrow> string option \<Rightarrow> ('d, proto) loader" where
  "LoadFunction 0 E name rd p = load_error name ''code too deep''"
| "LoadFunction (Suc d) E name rd p =
     bindL (LoadStart E name rd p) (\<lambda>f.
     bindL (LoadArray name rd 4 (LoadFunction d E name rd (pr_source f))) (\<lambda>ps.
     bindL (LoadDebug name rd f) (\<lambda>f.
       if \<not> checkcode E (Proto f ps) then load_error name ''bad code'' else retL (Proto f ps))))"

definition LoadHeader :: "string \<Rightarrow> 'd lua_Reader \<Rightarrow> ('d, unit) loader" where
  "LoadHeader name rd = bindL (LoadBlock name rd (length luaU_header)) (\<lambda>s.
     if s \<noteq> luaU_header then load_error name ''bad header'' else retL ())"

definition chunk_name :: "string \<Rightarrow> string" where
  "chunk_name name = (case name of c # s \<Rightarrow> if c = CHR ''@'' \<or> c = CHR ''='' then s
       else if c = CHR 0x1B then ''binary string'' else name | [] \<Rightarrow> name)"

definition luaU_undump :: "'a undump_env_scheme \<Rightarrow> nat \<Rightarrow> 'd lua_Reader \<Rightarrow> string \<Rightarrow> ('d, proto) loader" where
  "luaU_undump E ncalls rd name =
     bindL (LoadHeader (chunk_name name) rd) (\<lambda>_.
       LoadFunction (maxccalls E - ncalls) E (chunk_name name) rd (Some ''=?''))"

end
