(* ===== verification/Lua_Undump_Props.thy ===== *)
theory Lua_Undump_Props
  imports Lua_Undump
begin

text \<open>
  What is dumped is loaded: the bytes of a prototype, the writer that produces them, the loader that
  takes them off any stream, and the error of a chunk that ends too early.
\<close>

subsection \<open>The bytes of a prototype\<close>

definition enc_vec :: "u32 list \<Rightarrow> string" where
  "enc_vec ws = bytes32 (of_nat (length ws)) @ concat (map bytes32 ws)"

definition enc_arr :: "('x \<Rightarrow> string) \<Rightarrow> 'x list \<Rightarrow> string" where
  "enc_arr f xs = bytes32 (of_nat (length xs)) @ concat (map f xs)"

lemma enc_arr_cong [fundef_cong]: "xs = ys \<Longrightarrow> (\<And>x. x \<in> set ys \<Longrightarrow> f x = g x) \<Longrightarrow> enc_arr f xs = enc_arr g ys"
  by (simp add: enc_arr_def cong: map_cong)

definition enc_str :: "string option \<Rightarrow> string" where
  "enc_str s = (case s of None \<Rightarrow> bytes32 0 | Some t \<Rightarrow> bytes32 (of_nat (length t + 1)) @ t @ [CHR 0x00])"

definition enc_const :: "'a undump_env_scheme \<Rightarrow> konst \<Rightarrow> string" where
  "enc_const E k = (case k of KNil \<Rightarrow> [byte 0] | KBool b \<Rightarrow> [byte 1, byte (if b then 1 else 0)]
     | KNum n \<Rightarrow> byte 3 # num_bytes E n | KStr s \<Rightarrow> byte 4 # enc_str s)"

definition enc_locvar :: "locvar \<Rightarrow> string" where
  "enc_locvar v = enc_str (lv_varname v) @ bytes32 (lv_startpc v) @ bytes32 (lv_endpc v)"

definition enc_start :: "'a undump_env_scheme \<Rightarrow> bool \<Rightarrow> string option \<Rightarrow> pinfo \<Rightarrow> string" where
  "enc_start E strip p f = enc_str (if pr_source f = p \<or> strip then None else pr_source f) @
     bytes32 (pr_linedefined f) @ bytes32 (pr_lastlinedefined f) @ [byte (pr_nups f)] @ [byte (pr_numparams f)] @
     [byte (pr_is_vararg f)] @ [byte (pr_maxstacksize f)] @ enc_vec (pr_code f) @ enc_arr (enc_const E) (pr_k f)"

definition enc_debug :: "bool \<Rightarrow> pinfo \<Rightarrow> string" where
  "enc_debug strip f = enc_vec (if strip then [] else pr_lineinfo f) @
     enc_arr enc_locvar (if strip then [] else pr_locvars f) @ enc_arr enc_str (if strip then [] else pr_upvalues f)"

fun enc_fun :: "'a undump_env_scheme \<Rightarrow> bool \<Rightarrow> string option \<Rightarrow> proto \<Rightarrow> string" where
  "enc_fun E strip p (Proto f ps) = enc_start E strip p f @ enc_arr (enc_fun E strip (pr_source f)) ps @ enc_debug strip f"

subsection \<open>Dumping writes them\<close>

definition emits :: "bool \<Rightarrow> string dumper \<Rightarrow> string \<Rightarrow> bool" where
  "emits strip F bs = (\<forall>D. d_status D = 0 \<longrightarrow> d_strip D = strip \<longrightarrow> F D = D\<lparr>d_data := d_data D @ bs\<rparr>)"

lemma emits_D: "emits strip F bs \<Longrightarrow> d_status D = 0 \<Longrightarrow> d_strip D = strip \<Longrightarrow> F D = D\<lparr>d_data := d_data D @ bs\<rparr>"
  by (simp add: emits_def)

lemma emits_block: "emits strip (DumpBlock writer b) b"
  by (simp add: emits_def DumpBlock_def writer_def)

lemma emits_char: "emits strip (DumpChar writer y) [byte y]"
  using emits_block by (simp add: emits_def DumpChar_def)

lemma emits_int: "emits strip (DumpInt writer x) (bytes32 x)"
  using emits_block by (simp add: emits_def DumpInt_def)

lemma emits_fold: "(\<And>x. emits strip (F x) (f x)) \<Longrightarrow> emits strip (fold F xs) (concat (map f xs))"
  by (induction xs) (simp_all add: emits_def)

lemmas emits_rules = emits_D [OF emits_block] emits_D [OF emits_char] emits_D [OF emits_int]

lemma emits_vec: "emits strip (DumpVector writer ws) (enc_vec ws)"
  by (simp add: emits_def DumpVector_def enc_vec_def emits_rules)

lemma emits_str: "emits strip (DumpString writer s) (enc_str s)"
  by (simp add: emits_def DumpString_def enc_str_def emits_rules split: option.splits)

lemma emits_const: "emits strip (DumpConstant E writer k) (enc_const E k)"
  by (cases k) (simp_all add: emits_def DumpConstant_def DumpNumber_def enc_const_def emits_rules emits_D [OF emits_str])

lemma emits_locvar: "emits strip (DumpLocvar writer v) (enc_locvar v)"
  by (simp add: emits_def DumpLocvar_def enc_locvar_def emits_rules emits_D [OF emits_str])

lemma emits_start: "emits strip (\<lambda>D. DumpConstants E writer f (DumpStart writer f p D)) (enc_start E strip p f)"
  by (simp add: emits_def DumpStart_def DumpConstants_def enc_start_def enc_arr_def Let_def emits_rules
      emits_D [OF emits_str] emits_D [OF emits_vec] emits_D [OF emits_fold [OF emits_const]])

lemma emits_debug: "emits strip (DumpDebug writer f) (enc_debug strip f)"
  by (simp add: emits_def DumpDebug_def enc_debug_def enc_arr_def Let_def emits_rules
      emits_D [OF emits_vec] emits_D [OF emits_fold [OF emits_locvar]] emits_D [OF emits_fold [OF emits_str]])

lemma emits_fold_set: "(\<And>x. x \<in> set xs \<Longrightarrow> emits strip (F x) (f x)) \<Longrightarrow> emits strip (fold F xs) (concat (map f xs))"
  by (induction xs) (simp_all add: emits_def)

lemma emits_fun: "emits strip (DumpFunction E writer q p) (enc_fun E strip p q)"
proof (induction q arbitrary: p)
  case (Proto f ps)
  have "emits strip (fold (\<lambda>q. DumpFunction E writer q (pr_source f)) ps) (concat (map (enc_fun E strip (pr_source f)) ps))"
    by (rule emits_fold_set) (rule Proto)
  note r = emits_D [OF this] emits_D [OF emits_start] emits_D [OF emits_debug] emits_rules
  show ?case by (simp add: emits_def Let_def enc_arr_def r)
qed

lemma dump_bytes: "luaU_dump E f writer b strip = (b @ luaU_header @ enc_fun E strip None f, 0)"
  by (simp add: luaU_dump_def DumpHeader_def emits_rules emits_D [OF emits_fun])

subsection \<open>Bytes and integers\<close>

lemma unbyte_byte [simp]: "unbyte (byte w) = w"
  using unsigned_less [of w, where ?'a = nat] by (simp add: unbyte_def byte_def char_val_def take_bit_nat_eq_self)

lemma length_bytes32 [simp]: "length (bytes32 w) = 4"
  by (simp add: bytes32_def)

lemma unbytes32_bytes32 [simp]: "unbytes32 (bytes32 w) = w"
proof -
  let ?b = "\<lambda>i. unat w div 256 ^ i mod 256"
  have w: "unat w < 2 ^ 32" using unsigned_less [of w, where ?'a = nat] by simp
  have "num_of (bytes32 w) = ?b 0 + 256 * (?b 1 + 256 * (?b 2 + 256 * ?b 3))"
    by (simp add: bytes32_def char_val_def upt_rec)
  also have "\<dots> = unat w"
  proof -
    let ?a = "unat w div 256" and ?c = "unat w div 256 div 256 div 256"
    have d: "unat w div 256 ^ 2 = ?a div 256" "unat w div 256 ^ 3 = ?c"
      by (simp_all only: power2_eq_square power3_eq_cube div_mult2_eq)
    have "?c < 256" using w by (simp add: div_less_dividend less_mult_imp_div_less)
    then have "?c mod 256 = ?c" by simp
    then show ?thesis unfolding d power_0 power_one_right div_by_1 by (simp only: mod_mult_div_eq)
  qed
  finally show ?thesis by (simp add: unbytes32_def)
qed

lemma words_of_concat: "length ws = n \<Longrightarrow> words_of n (concat (map bytes32 ws)) = ws"
  by (induction ws arbitrary: n) auto

subsection \<open>Well-formed prototypes\<close>

definition small :: "'x list \<Rightarrow> bool" where
  "small xs = (length xs < 2 ^ 26)"

definition wf_str :: "string option \<Rightarrow> bool" where
  "wf_str s = (case s of None \<Rightarrow> True | Some t \<Rightarrow> length t < 2 ^ 31)"

text \<open>A number constant is one the host represents: its bytes are eight and give it back.\<close>

definition wf_const :: "'a undump_env_scheme \<Rightarrow> konst \<Rightarrow> bool" where
  "wf_const E k = (case k of KStr s \<Rightarrow> wf_str s
     | KNum n \<Rightarrow> length (num_bytes E n) = 8 \<and> bytes_num E (num_bytes E n) = n | _ \<Rightarrow> True)"

definition wf_locvar :: "locvar \<Rightarrow> bool" where
  "wf_locvar v = (wf_str (lv_varname v) \<and> 0 \<le> sint (lv_startpc v) \<and> 0 \<le> sint (lv_endpc v))"

definition wf_info :: "'a undump_env_scheme \<Rightarrow> pinfo \<Rightarrow> bool" where
  "wf_info E f = (wf_str (pr_source f) \<and> 0 \<le> sint (pr_linedefined f) \<and> 0 \<le> sint (pr_lastlinedefined f) \<and>
     small (pr_code f) \<and> small (pr_k f) \<and> small (pr_lineinfo f) \<and> small (pr_locvars f) \<and> small (pr_upvalues f) \<and>
     list_all (wf_const E) (pr_k f) \<and> list_all wf_locvar (pr_locvars f) \<and> list_all wf_str (pr_upvalues f))"

fun wf_proto :: "'a undump_env_scheme \<Rightarrow> proto \<Rightarrow> bool" where
  "wf_proto E (Proto f ps) = (wf_info E f \<and> small ps \<and> list_all (wf_proto E) ps)"

text \<open>Nested at most \<open>d\<close> deep.\<close>

fun fits :: "nat \<Rightarrow> proto \<Rightarrow> bool" where
  "fits 0 q = False"
| "fits (Suc d) (Proto f ps) = list_all (fits d) ps"

text \<open>What a prototype is after dumping, stripped or not, and loading: a source that is the enclosing
  function's is not written, and a source that is not there is the enclosing function's.\<close>

definition loaded_source :: "bool \<Rightarrow> string option \<Rightarrow> string option \<Rightarrow> string option \<Rightarrow> string option" where
  "loaded_source strip p p' s = (if s = p \<or> strip \<or> s = None then p' else s)"

fun loaded :: "bool \<Rightarrow> string option \<Rightarrow> string option \<Rightarrow> proto \<Rightarrow> proto" where
  "loaded strip p p' (Proto f ps) = (let s = loaded_source strip p p' (pr_source f) in
     Proto (f\<lparr>pr_source := s, pr_lineinfo := (if strip then [] else pr_lineinfo f),
         pr_locvars := (if strip then [] else pr_locvars f), pr_upvalues := (if strip then [] else pr_upvalues f)\<rparr>)
       (map (loaded strip (pr_source f) s) ps))"

fun all_protos :: "(proto \<Rightarrow> bool) \<Rightarrow> proto \<Rightarrow> bool" where
  "all_protos P (Proto f ps) = (P (Proto f ps) \<and> list_all (all_protos P) ps)"

lemma loaded_same:
  "all_protos (\<lambda>q. pr_source (pr_info q) \<noteq> None) q \<Longrightarrow> p = p' \<or> pr_source (pr_info q) \<noteq> p \<Longrightarrow> loaded False p p' q = q"
proof (induction q arbitrary: p p')
  case (Proto f ps)
  have s: "loaded_source False p p' (pr_source f) = pr_source f" using Proto.prems by (auto simp: loaded_source_def)
  have "map (loaded False (pr_source f) (pr_source f)) ps = ps"
    using Proto by (intro map_idI) (auto simp: list_all_iff)
  then show ?case by (simp add: s)
qed

subsection \<open>Loading takes them off a stream\<close>

lemma unat_32: "n < 2 ^ 32 \<Longrightarrow> unat (of_nat n :: u32) = n"
  by (simp add: unat_of_nat take_bit_nat_eq_self)

lemma of_nat_31:
  assumes "n < 2 ^ 31"
  shows "unat (of_nat n :: u32) = n" "0 \<le> sint (of_nat n :: u32)"
proof -
  show "unat (of_nat n :: u32) = n" using assms by (simp add: unat_of_nat take_bit_nat_eq_self)
  have "sint (word_of_int (int n) :: u32) = int n" by (rule sint_of_int) (use assms in \<open>simp add: is_int_def\<close>)
  then show "0 \<le> sint (of_nat n :: u32)" by simp
qed

definition unexpected_end :: "string \<Rightarrow> lua_error" where
  "unexpected_end name = LuaErr (name @ '': unexpected end in precompiled chunk'')"

lemma pieces_concat: "[] \<notin> set ps \<Longrightarrow> pieces_content ps = concat ps"
  by (induction ps) auto

context reader
begin

text \<open>The loader takes the bytes \<open>bs\<close> as the value \<open>x\<close>, and a stream that ends before them is
  refused.\<close>

definition reads :: "string \<Rightarrow> ('d, 'x) loader \<Rightarrow> string \<Rightarrow> 'x \<Rightarrow> bool" where
  "reads name m bs x = (
     (\<forall>z rest. bytes_of z = bs @ rest \<longrightarrow> (\<exists>z'. m z = Inr (x, z') \<and> bytes_of z' = rest)) \<and>
     (\<forall>z t. t \<noteq> [] \<longrightarrow> bytes_of z @ t = bs \<longrightarrow> m z = Inl (unexpected_end name)))"

lemma reads_take: "reads name m bs x \<Longrightarrow> bytes_of z = bs @ rest \<Longrightarrow> \<exists>z'. m z = Inr (x, z') \<and> bytes_of z' = rest"
  by (simp add: reads_def)

lemma reads_short: "reads name m bs x \<Longrightarrow> bytes_of z @ t = bs \<Longrightarrow> t \<noteq> [] \<Longrightarrow> m z = Inl (unexpected_end name)"
  by (simp add: reads_def)

lemma reads_ret: "reads name (retL x) [] x"
  by (simp add: reads_def retL_def)

lemma reads_bind:
  assumes m: "reads name m bs x" and f: "reads name (f x) cs y"
  shows "reads name (bindL m f) (bs @ cs) y"
  unfolding reads_def
proof (intro conjI allI impI)
  fix z rest assume "bytes_of z = (bs @ cs) @ rest"
  then obtain z' where z': "m z = Inr (x, z')" "bytes_of z' = cs @ rest" using reads_take [OF m, of z "cs @ rest"] by auto
  then show "\<exists>z'. bindL m f z = Inr (y, z') \<and> bytes_of z' = rest"
    using reads_take [OF f z'(2)] by (simp add: bindL_def)
next
  fix z t assume t: "t \<noteq> []" "bytes_of z @ t = bs @ cs"
  then obtain us where "bytes_of z = bs @ us \<and> us @ t = cs \<or> bytes_of z @ us = bs \<and> t = us @ cs"
    by (auto simp: append_eq_append_conv2)
  then consider (front) "us \<noteq> []" "bytes_of z @ us = bs" | (behind) us where "bytes_of z = bs @ us" "us @ t = cs" by force
  then show "bindL m f z = Inl (unexpected_end name)"
  proof cases
    case front
    then show ?thesis using reads_short [OF m] by (simp add: bindL_def)
  next
    case behind
    then obtain z' where z': "m z = Inr (x, z')" "bytes_of z' = us" using reads_take [OF m] by blast
    then show ?thesis using reads_short [OF f _ t(1), of z'] behind(2) by (simp add: bindL_def)
  qed
qed

lemma reads_bind_ret: "reads name m bs x \<Longrightarrow> f x = retL y \<Longrightarrow> reads name (bindL m f) bs y"
  using reads_bind [of name m bs x f "[]" y] reads_ret [of name y] by simp

lemma reads_block: "length bs = n \<Longrightarrow> reads name (LoadBlock name rd n) bs bs"
  unfolding reads_def
proof (intro conjI allI impI)
  fix z rest assume n: "length bs = n" "bytes_of z = bs @ rest"
  obtain r b z' where "luaZ_read rd z n = (r, b, z')" by (metis prod_cases3)
  with read_bytes [OF this] n show "\<exists>z'. LoadBlock name rd n z = Inr (bs, z') \<and> bytes_of z' = rest"
    by (simp add: LoadBlock_def)
next
  fix z t assume n: "length bs = n" "t \<noteq> []" "bytes_of z @ t = bs"
  then have "length (bytes_of z) < n" by (metis length_append length_greater_0_conv less_add_same_cancel1)
  obtain r b z' where "luaZ_read rd z n = (r, b, z')" by (metis prod_cases3)
  with read_bytes [OF this] \<open>length (bytes_of z) < n\<close> show "LoadBlock name rd n z = Inl (unexpected_end name)"
    by (simp add: LoadBlock_def load_error_def unexpected_end_def)
qed

lemma reads_char: "reads name (LoadChar name rd) [byte y] y"
  unfolding LoadChar_def by (rule reads_bind_ret [OF reads_block]) simp_all

lemma reads_int: "0 \<le> sint x \<Longrightarrow> reads name (LoadInt name rd) (bytes32 x) x"
  unfolding LoadInt_def by (rule reads_bind_ret [OF reads_block]) simp_all

lemma reads_len: "small xs \<Longrightarrow> reads name (LoadInt name rd) (bytes32 (of_nat (length xs))) (of_nat (length xs))"
  by (rule reads_int) (rule of_nat_31, simp add: small_def)

lemma reads_number: "length (num_bytes E n) = 8 \<Longrightarrow> bytes_num E (num_bytes E n) = n \<Longrightarrow> reads name (LoadNumber E name rd) (num_bytes E n) n"
  unfolding LoadNumber_def by (rule reads_bind_ret [OF reads_block]) simp_all

lemma reads_str: "wf_str s \<Longrightarrow> reads name (LoadString name rd) (enc_str s) s"
proof (cases s)
  case None
  then show ?thesis unfolding LoadString_def enc_str_def option.case
    by (intro reads_bind_ret [OF reads_block]) (simp_all add: Let_def)
next
  case (Some t)
  assume "wf_str s"
  with Some have t: "length t + 1 < 2 ^ 32" by (simp add: wf_str_def)
  then have u: "unat (of_nat (length t + 1) :: u32) = length t + 1" by (rule unat_32)
  then have nz: "of_nat (length t + 1) \<noteq> (0 :: u32)" by (metis add_is_0 one_neq_zero unat_0)
  have "reads name (bindL (LoadBlock name rd (length t + 1)) (\<lambda>s. retL (Some (take (length t) s)))) (t @ [CHR 0x00]) (Some t)"
    by (rule reads_bind_ret [OF reads_block]) simp_all
  then show ?thesis unfolding LoadString_def enc_str_def Some option.case
    by (intro reads_bind [OF reads_block]) (simp_all only: unbytes32_bytes32 Let_def u nz if_False length_bytes32 add_diff_cancel_right')
qed

lemma reads_newvector: "small xs \<Longrightarrow> e \<le> 16 \<Longrightarrow> 0 < e \<Longrightarrow> reads name (newvector (length xs) e) [] ()"
proof -
  assume s: "small xs" "e \<le> 16" "0 < e"
  have "(length xs + 1) * e \<le> 2 ^ 26 * 16" using s by (intro mult_le_mono) (simp_all add: small_def)
  also have "\<dots> \<le> 2 ^ 32 - 3" by simp
  finally have "length xs + 1 \<le> (2 ^ 32 - 3) div e" using s(3) by (metis less_eq_div_iff_mult_less_eq)
  then show ?thesis by (simp add: reads_def newvector_def)
qed

lemma reads_vec: "small ws \<Longrightarrow> reads name (LoadVector name rd) (enc_vec ws) ws"
proof -
  assume s: "small ws"
  have u: "unat (of_nat (length ws) :: u32) = length ws" by (rule of_nat_31) (use s in \<open>simp add: small_def\<close>)
  have l: "length (concat (map bytes32 ws)) = length ws * 4" by (induction ws) simp_all
  have "reads name (bindL (LoadBlock name rd (length ws * 4)) (\<lambda>s. retL (words_of (length ws) s))) (concat (map bytes32 ws)) ws"
    by (rule reads_bind_ret [OF reads_block [OF l]]) (simp add: words_of_concat)
  from reads_bind [OF reads_newvector [OF s, of 4] this]
  have "reads name (bindL (newvector (length ws) 4) (\<lambda>_. bindL (LoadBlock name rd (length ws * 4))
      (\<lambda>s. retL (words_of (length ws) s)))) (concat (map bytes32 ws)) ws" by simp
  then show ?thesis unfolding LoadVector_def enc_vec_def by (intro reads_bind [OF reads_len [OF s]]) (simp only: u)
qed

lemma reads_list: "(\<And>x. x \<in> set xs \<Longrightarrow> reads name m (f x) (g x)) \<Longrightarrow>
    reads name (load_list m (length xs)) (concat (map f xs)) (map g xs)"
proof (induction xs)
  case (Cons x xs)
  then have "reads name (load_list m (length xs)) (concat (map f xs)) (map g xs)" by simp
  then have "reads name (bindL (load_list m (length xs)) (\<lambda>ys. retL (g x # ys))) (concat (map f xs)) (g x # map g xs)"
    by (rule reads_bind_ret) simp
  then show ?case using reads_bind [OF Cons.prems [of x]] by simp
qed (simp add: reads_ret)

lemma reads_arr:
  assumes "small xs" "e \<le> 16" "0 < e" "\<And>x. x \<in> set xs \<Longrightarrow> reads name m (f x) (g x)"
  shows "reads name (LoadArray name rd e m) (enc_arr f xs) (map g xs)"
proof -
  have u: "unat (of_nat (length xs) :: u32) = length xs" by (rule of_nat_31) (use assms(1) in \<open>simp add: small_def\<close>)
  from reads_bind [OF reads_newvector [OF assms(1-3)] reads_list [OF assms(4)]]
  have "reads name (bindL (newvector (length xs) e) (\<lambda>_. load_list m (length xs))) (concat (map f xs)) (map g xs)" by simp
  then show ?thesis unfolding LoadArray_def enc_arr_def by (intro reads_bind [OF reads_len [OF assms(1)]]) (simp only: u)
qed

lemma reads_arr_id:
  "small xs \<Longrightarrow> e \<le> 16 \<Longrightarrow> 0 < e \<Longrightarrow> (\<And>x. x \<in> set xs \<Longrightarrow> reads name m (f x) x) \<Longrightarrow>
   reads name (LoadArray name rd e m) (enc_arr f xs) xs"
  using reads_arr [of xs e name m f "\<lambda>x. x"] by simp

lemma reads_const: "wf_const E k \<Longrightarrow> reads name (LoadConstant E name rd) (enc_const E k) k"
proof (cases k)
  case KNil
  then show ?thesis unfolding LoadConstant_def enc_const_def by (simp add: reads_bind_ret [OF reads_char])
next
  case (KBool b)
  have "reads name (bindL (LoadChar name rd) (\<lambda>b. retL (KBool (b \<noteq> 0)))) [byte (if b then 1 else 0)] (KBool b)"
    by (rule reads_bind_ret [OF reads_char]) simp
  then have "reads name (LoadConstant E name rd) ([byte 1] @ [byte (if b then 1 else 0)]) (KBool b)"
    unfolding LoadConstant_def by (intro reads_bind [OF reads_char]) simp
  then show ?thesis by (simp add: enc_const_def KBool)
next
  case (KNum n)
  assume "wf_const E k"
  then have "reads name (bindL (LoadNumber E name rd) (\<lambda>n. retL (KNum n))) (num_bytes E n) (KNum n)"
    by (intro reads_bind_ret [OF reads_number]) (simp_all add: wf_const_def KNum)
  then have "reads name (LoadConstant E name rd) ([byte 3] @ num_bytes E n) (KNum n)"
    unfolding LoadConstant_def by (intro reads_bind [OF reads_char]) simp
  then show ?thesis by (simp add: enc_const_def KNum)
next
  case (KStr s)
  assume "wf_const E k"
  then have "reads name (bindL (LoadString name rd) (\<lambda>s. retL (KStr s))) (enc_str s) (KStr s)"
    by (intro reads_bind_ret [OF reads_str]) (simp_all add: wf_const_def KStr)
  then have "reads name (LoadConstant E name rd) ([byte 4] @ enc_str s) (KStr s)"
    unfolding LoadConstant_def by (intro reads_bind [OF reads_char]) simp
  then show ?thesis by (simp add: enc_const_def KStr)
qed

lemma reads_locvar: "wf_locvar v \<Longrightarrow> reads name (LoadLocvar name rd) (enc_locvar v) v"
  unfolding LoadLocvar_def enc_locvar_def
  by (intro reads_bind [OF reads_str] reads_bind [OF reads_int] reads_bind_ret [OF reads_int]) (cases v; simp add: wf_locvar_def)+

lemma reads_start:
  assumes f: "wf_info E f"
  shows "reads name (LoadStart E name rd p') (enc_start E strip p f)
    (f\<lparr>pr_source := loaded_source strip p p' (pr_source f), pr_lineinfo := [], pr_locvars := [], pr_upvalues := []\<rparr>)"
proof -
  have k: "\<And>k. k \<in> set (pr_k f) \<Longrightarrow> wf_const E k" using f by (simp add: wf_info_def list_all_iff)
  show ?thesis unfolding LoadStart_def enc_start_def
    by (intro reads_bind [OF reads_str] reads_bind [OF reads_int] reads_bind [OF reads_char] reads_bind [OF reads_vec]
        reads_bind_ret [OF reads_arr_id] reads_const k)
      (use f in \<open>cases f; auto simp: wf_info_def wf_str_def loaded_source_def split: option.splits\<close>)+
qed

lemma reads_debug:
  assumes f: "wf_info E f"
  shows "reads name (LoadDebug name rd g) (enc_debug strip f)
    (g\<lparr>pr_lineinfo := (if strip then [] else pr_lineinfo f), pr_locvars := (if strip then [] else pr_locvars f),
       pr_upvalues := (if strip then [] else pr_upvalues f)\<rparr>)"
proof -
  have e: "\<And>v. v \<in> set (if strip then [] else pr_locvars f) \<Longrightarrow> wf_locvar v"
    "\<And>v. v \<in> set (if strip then [] else pr_upvalues f) \<Longrightarrow> wf_str v"
    using f by (auto simp: wf_info_def list_all_iff split: if_splits)
  show ?thesis unfolding LoadDebug_def enc_debug_def
    by (intro reads_bind [OF reads_vec] reads_bind [OF reads_arr_id] reads_bind_ret [OF reads_arr_id]
        reads_locvar reads_str e) (use f in \<open>simp_all add: wf_info_def small_def\<close>)
qed

lemma reads_function:
  "fits d q \<Longrightarrow> wf_proto E q \<Longrightarrow> all_protos (checkcode E) (loaded strip p p' q) \<Longrightarrow>
   reads name (LoadFunction d E name rd p') (enc_fun E strip p q) (loaded strip p p' q)"
proof (induction d q arbitrary: p p' rule: fits.induct)
  case (2 d f ps)
  define s where "s = loaded_source strip p p' (pr_source f)"
  define g where "g = f\<lparr>pr_source := s, pr_lineinfo := [], pr_locvars := [], pr_upvalues := []\<rparr>"
  define qs where "qs = map (loaded strip (pr_source f) s) ps"
  have f: "wf_info E f" and ps: "small ps" using 2(3) by simp_all
  have arr: "reads name (LoadArray name rd 4 (LoadFunction d E name rd (pr_source g)))
      (enc_arr (enc_fun E strip (pr_source f)) ps) qs"
    unfolding qs_def
  proof (rule reads_arr)
    fix q assume "q \<in> set ps"
    then show "reads name (LoadFunction d E name rd (pr_source g)) (enc_fun E strip (pr_source f) q)
        (loaded strip (pr_source f) s q)"
      using 2 by (auto simp: g_def s_def list_all_iff Let_def)
  qed (use ps in simp_all)
  define h where "h = g\<lparr>pr_lineinfo := (if strip then [] else pr_lineinfo f),
      pr_locvars := (if strip then [] else pr_locvars f), pr_upvalues := (if strip then [] else pr_upvalues f)\<rparr>"
  have l: "loaded strip p p' (Proto f ps) = Proto h qs" by (simp add: h_def g_def s_def qs_def Let_def)
  have st: "reads name (LoadStart E name rd p') (enc_start E strip p f) g" unfolding g_def s_def by (rule reads_start [OF f])
  have d: "reads name (LoadDebug name rd g) (enc_debug strip f) h" unfolding h_def by (rule reads_debug [OF f])
  have "checkcode E (Proto h qs)" using 2(4) unfolding l by simp
  then have "reads name (bindL (LoadDebug name rd g) (\<lambda>f. if \<not> checkcode E (Proto f qs) then load_error name ''bad code''
      else retL (Proto f qs))) (enc_debug strip f) (Proto h qs)"
    by (intro reads_bind_ret [OF d]) simp
  then show ?case unfolding LoadFunction.simps enc_fun.simps l
    by (intro reads_bind [OF st] reads_bind [OF arr])
qed simp

lemma reads_header: "reads name (LoadHeader name rd) luaU_header ()"
  unfolding LoadHeader_def by (intro reads_bind_ret [OF reads_block]) simp_all

lemma reads_chunk:
  assumes "fits (maxccalls E - ncalls) f" "wf_proto E f" "all_protos (checkcode E) (loaded strip None (Some ''=?'') f)"
  shows "reads (chunk_name name) (luaU_undump E ncalls rd name) (luaU_header @ enc_fun E strip None f)
    (loaded strip None (Some ''=?'') f)"
  unfolding luaU_undump_def by (rule reads_bind [OF reads_header reads_function [OF assms]])

end

subsection \<open>Round trip and truncation\<close>

text \<open>C31: A function that is dumped and loaded again comes back, however the bytes are cut into the
  (non-empty) pieces a reader answers: with its debug information removed when it was stripped, and
  with the sources that were not written filled in. Nothing of the stream behind the chunk is taken.\<close>

theorem dump_undump:
  assumes "wf_proto E f" "fits (maxccalls E - ncalls) f"
    and "all_protos (checkcode E) (loaded strip None (Some ''=?'') f)"
    and "luaU_dump E f writer [] strip = (bytes, st)"
    and "[] \<notin> set pieces" "concat pieces = bytes @ rest"
  shows "st = 0 \<and> (\<exists>z. luaU_undump E ncalls generic_reader name (luaZ_init pieces) =
      Inr (loaded strip None (Some ''=?'') f, z) \<and> generic.bytes_of z = rest)"
proof -
  have b: "bytes = luaU_header @ enc_fun E strip None f" "st = 0" using assms(4) by (simp_all add: dump_bytes)
  have "generic.bytes_of (luaZ_init pieces) = bytes @ rest"
    using assms(5,6) by (simp add: generic.bytes_init pieces_concat)
  then show ?thesis
    using generic.reads_take [OF generic.reads_chunk [OF assms(2,1,3)], of "luaZ_init pieces" rest name] b by simp
qed

definition test_undump :: undump_env where
  "test_undump = luaconf.extend trunc_conf \<lparr>num_bytes = \<lambda>n. replicate 8 (if n = cast_num 1 then CHR 0x3F else CHR 0x00),
     bytes_num = \<lambda>s. if s = replicate 8 (CHR 0x3F) then cast_num 1 else cast_num 0, checkcode = \<lambda>q. True, maxccalls = 200\<rparr>"

definition test_info :: pinfo where
  "test_info = \<lparr>pr_source = Some ''@a.lua'', pr_linedefined = 0, pr_lastlinedefined = 7, pr_nups = 0, pr_numparams = 1,
     pr_is_vararg = 2, pr_maxstacksize = 3, pr_code = [30, 4294967295], pr_k = [KNil, KBool True, KNum (cast_num 1), KStr (Some ''x'')],
     pr_lineinfo = [1, 7], pr_locvars = [\<lparr>lv_varname = Some ''v'', lv_startpc = 0, lv_endpc = 2\<rparr>],
     pr_upvalues = [Some ''u'']\<rparr>"

definition test_proto :: proto where
  "test_proto = Proto test_info [Proto test_info []]"

lemma all_protos_true [simp]: "all_protos (\<lambda>q. True) q"
  by (induction q) (simp add: list_all_iff)

lemma test_proto_ok: "wf_proto test_undump test_proto" "fits (maxccalls test_undump - 0) test_proto"
  "all_protos (checkcode test_undump) (loaded strip None (Some ''=?'') test_proto)"
proof -
  have d: "maxccalls test_undump - 0 = Suc (Suc 198)" "checkcode test_undump = (\<lambda>q. True)"
    by (simp_all add: test_undump_def luaconf.defs)
  show "wf_proto test_undump test_proto"
    by (simp add: test_proto_def test_info_def wf_info_def wf_str_def wf_const_def wf_locvar_def small_def
        test_undump_def luaconf.defs)
  show "fits (maxccalls test_undump - 0) test_proto" unfolding d test_proto_def fits.simps list.pred_inject by (intro conjI) simp_all
  show "all_protos (checkcode test_undump) (loaded strip None (Some ''=?'') test_proto)" unfolding d by simp
qed

lemma test_proto_same: "loaded False None (Some ''=?'') test_proto = test_proto"
  by (rule loaded_same) (simp_all add: test_proto_def test_info_def)

theorem dump_undump_witness:
  "\<exists>bytes z. luaU_dump test_undump test_proto writer [] False = (bytes, 0) \<and>
     luaU_undump test_undump 0 generic_reader ''=x'' (luaZ_init [take 5 bytes, drop 5 bytes @ ''more'']) =
       Inr (test_proto, z) \<and> generic.bytes_of z = ''more''"
proof -
  obtain bytes st where d: "luaU_dump test_undump test_proto writer [] False = (bytes, st)" by fastforce
  then have "5 < length bytes" by (auto simp: dump_bytes luaU_header_def)
  then have "[] \<notin> set [take 5 bytes, drop 5 bytes @ ''more'']" "concat [take 5 bytes, drop 5 bytes @ ''more''] = bytes @ ''more''"
    by auto
  from dump_undump [OF test_proto_ok d this, of "''=x''"] d show ?thesis unfolding test_proto_same by auto
qed

text \<open>C32: A precompiled chunk that is cut short anywhere is refused with the error of an unexpected
  end; it is never loaded as something else.\<close>

theorem truncated_chunk_refused:
  assumes "wf_proto E f" "fits (maxccalls E - ncalls) f"
    and "all_protos (checkcode E) (loaded strip None (Some ''=?'') f)"
    and "luaU_dump E f writer [] strip = (bytes, st)" "n < length bytes"
  shows "luaU_undump E ncalls getS name (luaZ_init (take n bytes, n)) = Inl (unexpected_end (chunk_name name))"
proof -
  have "getS.bytes_of (luaZ_init (take n bytes, n)) @ drop n bytes = luaU_header @ enc_fun E strip None f"
    using assms(4) by (auto simp: getS.bytes_init getS_content_def dump_bytes)
  then show ?thesis using getS.reads_short [OF getS.reads_chunk [OF assms(2,1,3)]] assms(5) by simp
qed

theorem truncated_chunk_refused_witness:
  "\<exists>bytes. luaU_dump test_undump test_proto writer [] True = (bytes, 0) \<and>
     luaU_undump test_undump 0 getS ''@a.luac'' (luaZ_init (take 11 bytes, 11)) =
       Inl (LuaErr ''a.luac: unexpected end in precompiled chunk'')"
proof -
  obtain bytes st where d: "luaU_dump test_undump test_proto writer [] True = (bytes, st)" by fastforce
  then have "11 < length bytes" "st = 0" by (auto simp: dump_bytes luaU_header_def)
  with truncated_chunk_refused [OF test_proto_ok d this(1), of "''@a.luac''"] d show ?thesis
    by (auto simp: unexpected_end_def chunk_name_def)
qed

end
