(* ===== verification/Lua_Tablib.thy ===== *)
theory Lua_Tablib
  imports Lua_Strlib
begin

text \<open>
  The table library (\<open>lua/ltablib.c\<close>). A C function takes its arguments and the state \<open>'w\<close> of the
  interpreter; tables are read and written through the functions of the C interface, which are fields
  of \<open>tabint\<close>. A called Lua function may do anything to the state.

  Positions are the C ints of the source; a table has at most \<open>2 ^ 26\<close> entries, so their sums stay in
  range. Loops whose number of rounds is not known from the arguments take a number of steps.
\<close>

record 'w tabint = "'w interp" +
  lua_rawgeti :: "addr \<Rightarrow> int \<Rightarrow> 'w \<Rightarrow> lval"
  lua_rawseti :: "addr \<Rightarrow> int \<Rightarrow> lval \<Rightarrow> 'w \<Rightarrow> 'w lres"
  luaL_getn :: "addr \<Rightarrow> 'w \<Rightarrow> int"
  lua_next :: "addr \<Rightarrow> lval \<Rightarrow> 'w \<Rightarrow> (lval \<times> lval) option lres"
  lua_lessthan :: "lval \<Rightarrow> lval \<Rightarrow> 'w \<Rightarrow> ('w \<times> bool) lres"

definition totab :: "args \<Rightarrow> nat \<Rightarrow> addr lres" where
  "totab args i = (case arg args i of LTab p \<Rightarrow> Inr p | _ \<Rightarrow> Inl (LuaFault BadCast))"

definition tofun :: "args \<Rightarrow> nat \<Rightarrow> addr lres" where
  "tofun args i = (case arg args i of LFun p \<Rightarrow> Inr p | _ \<Rightarrow> Inl (LuaFault BadCast))"

text \<open>The table at an argument, after its check, and its size.\<close>

definition aux_getn :: "'a luaenv_scheme \<Rightarrow> ('w, 'b) tabint_scheme \<Rightarrow> args \<Rightarrow> nat \<Rightarrow> 'w \<Rightarrow> (addr \<times> int) lres" where
  "aux_getn E I args i w = bindR (luaL_checktype E args i 5) (\<lambda>_. bindR (totab args i) (\<lambda>t. Inr (t, luaL_getn I t w)))"

subsection \<open>Traversal\<close>

primrec foreachi_loop :: "('w, 'b) tabint_scheme \<Rightarrow> addr \<Rightarrow> addr \<Rightarrow> nat \<Rightarrow> int \<Rightarrow> 'w \<Rightarrow> ('w \<times> args) lres" where
  "foreachi_loop I t f 0 i w = Inr (w, [])"
| "foreachi_loop I t f (Suc m) i w =
     bindR (lua_call I f [pushinteger i, lua_rawgeti I t i w] w) (\<lambda>(w, v).
       if v \<noteq> LNil then Inr (w, [v]) else foreachi_loop I t f m (i + 1) w)"

definition foreachi :: "'a luaenv_scheme \<Rightarrow> ('w, 'b) tabint_scheme \<Rightarrow> args \<Rightarrow> 'w \<Rightarrow> ('w \<times> args) lres" where
  "foreachi E I args w = bindR (aux_getn E I args 1 w) (\<lambda>(t, n).
     bindR (luaL_checktype E args 2 6) (\<lambda>_. bindR (tofun args 2) (\<lambda>f. foreachi_loop I t f (nat n) 1 w)))"

primrec foreach_loop :: "nat \<Rightarrow> ('w, 'b) tabint_scheme \<Rightarrow> addr \<Rightarrow> addr \<Rightarrow> lval \<Rightarrow> 'w \<Rightarrow> ('w \<times> args) lres" where
  "foreach_loop 0 I t f k w = Inl (LuaFault OutOfFuel)"
| "foreach_loop (Suc m) I t f k w = bindR (lua_next I t k w) (\<lambda>r. case r of
       None \<Rightarrow> Inr (w, [])
     | Some (k, x) \<Rightarrow> bindR (lua_call I f [k, x] w) (\<lambda>(w, v).
         if v \<noteq> LNil then Inr (w, [v]) else foreach_loop m I t f k w))"

definition foreach :: "nat \<Rightarrow> 'a luaenv_scheme \<Rightarrow> ('w, 'b) tabint_scheme \<Rightarrow> args \<Rightarrow> 'w \<Rightarrow> ('w \<times> args) lres" where
  "foreach m E I args w = bindR (luaL_checktype E args 1 5) (\<lambda>_. bindR (luaL_checktype E args 2 6) (\<lambda>_.
     bindR (totab args 1) (\<lambda>t. bindR (tofun args 2) (\<lambda>f. foreach_loop m I t f LNil w))))"

primrec maxn_loop :: "nat \<Rightarrow> ('w, 'b) tabint_scheme \<Rightarrow> addr \<Rightarrow> lval \<Rightarrow> dbl \<Rightarrow> 'w \<Rightarrow> dbl lres" where
  "maxn_loop 0 I t k mx w = Inl (LuaFault OutOfFuel)"
| "maxn_loop (Suc m) I t k mx w = bindR (lua_next I t k w) (\<lambda>r. case r of
       None \<Rightarrow> Inr mx
     | Some (k, x) \<Rightarrow> maxn_loop m I t k (case k of LNum v \<Rightarrow> if d_less mx v then v else mx | _ \<Rightarrow> mx) w)"

definition maxn :: "nat \<Rightarrow> 'a luaenv_scheme \<Rightarrow> ('w, 'b) tabint_scheme \<Rightarrow> args \<Rightarrow> 'w \<Rightarrow> args lres" where
  "maxn m E I args w = bindR (luaL_checktype E args 1 5) (\<lambda>_. bindR (totab args 1) (\<lambda>t.
     bindR (maxn_loop m I t LNil (Fin 0) w) (\<lambda>mx. Inr [LNum mx])))"

definition getn :: "'a luaenv_scheme \<Rightarrow> ('w, 'b) tabint_scheme \<Rightarrow> args \<Rightarrow> 'w \<Rightarrow> args lres" where
  "getn E I args w = bindR (aux_getn E I args 1 w) (\<lambda>(t, n). Inr [pushinteger n])"

text \<open>The macro \<open>luaL_setn\<close> is defined (and does nothing) where sizes are not stored.\<close>

definition setn :: "'a luaenv_scheme \<Rightarrow> args \<Rightarrow> args lres" where
  "setn E args = bindR (luaL_checktype E args 1 5) (\<lambda>_. Inl (LuaErr (LUA_QL ''setn'' @ '' is obsolete'')))"

subsection \<open>Insertion and removal\<close>

text \<open>\<open>t[i] = t[i - 1]\<close> for \<open>m\<close> positions from \<open>i\<close> down.\<close>

primrec move_up :: "('w, 'b) tabint_scheme \<Rightarrow> addr \<Rightarrow> nat \<Rightarrow> int \<Rightarrow> 'w \<Rightarrow> 'w lres" where
  "move_up I t 0 i w = Inr w"
| "move_up I t (Suc m) i w = bindR (lua_rawseti I t i (lua_rawgeti I t (i - 1) w) w) (move_up I t m (i - 1))"

definition tinsert :: "'a luaenv_scheme \<Rightarrow> ('w, 'b) tabint_scheme \<Rightarrow> args \<Rightarrow> 'w \<Rightarrow> ('w \<times> args) lres" where
  "tinsert E I args w = bindR (aux_getn E I args 1 w) (\<lambda>(t, n). let e = n + 1 in
     if length args = 2 then bindR (lua_rawseti I t e (arg args 2) w) (\<lambda>w. Inr (w, []))
     else if length args = 3 then bindR (luaL_checkinteger E args 2) (\<lambda>pos.
       let e = (if e < pos then pos else e) in
       bindR (move_up I t (nat (e - pos)) e w) (\<lambda>w. bindR (lua_rawseti I t pos (arg args 3) w) (\<lambda>w. Inr (w, []))))
     else Inl (LuaErr (''wrong number of arguments to '' @ LUA_QL ''insert'')))"

primrec move_down :: "('w, 'b) tabint_scheme \<Rightarrow> addr \<Rightarrow> nat \<Rightarrow> int \<Rightarrow> 'w \<Rightarrow> 'w lres" where
  "move_down I t 0 pos w = Inr w"
| "move_down I t (Suc m) pos w =
     bindR (lua_rawseti I t pos (lua_rawgeti I t (pos + 1) w) w) (move_down I t m (pos + 1))"

definition tremove :: "'a luaenv_scheme \<Rightarrow> ('w, 'b) tabint_scheme \<Rightarrow> args \<Rightarrow> 'w \<Rightarrow> ('w \<times> args) lres" where
  "tremove E I args w = bindR (aux_getn E I args 1 w) (\<lambda>(t, e).
     bindR (luaL_optinteger E args 2 e) (\<lambda>pos.
     if \<not> (1 \<le> pos \<and> pos \<le> e) then Inr (w, [])
     else let v = lua_rawgeti I t pos w in
       bindR (move_down I t (nat (e - pos)) pos w) (\<lambda>w.
       bindR (lua_rawseti I t e LNil w) (\<lambda>w. Inr (w, [v])))))"

subsection \<open>Concatenation\<close>

definition addfield :: "'a luaenv_scheme \<Rightarrow> ('w, 'b) tabint_scheme \<Rightarrow> addr \<Rightarrow> 'w \<Rightarrow> string \<Rightarrow> int \<Rightarrow> string lres" where
  "addfield E I t w b i = (let v = lua_rawgeti I t i w in
     if \<not> lua_isstring [v] 1
     then Inl (LuaErr (''invalid value ('' @ lua_typename (ttype v) @ '') at index '' @ number2str E (cast_num i) @
            '' in table for '' @ LUA_QL ''concat''))
     else bindR (of_opt (LuaFault NullDeref) (lua_tolstring E v)) (\<lambda>s. Inr (b @ s)))"

primrec concat_loop :: "'a luaenv_scheme \<Rightarrow> ('w, 'b) tabint_scheme \<Rightarrow> addr \<Rightarrow> 'w \<Rightarrow> string \<Rightarrow> nat \<Rightarrow> int \<Rightarrow> string \<Rightarrow> string lres" where
  "concat_loop E I t w sep 0 i b = Inr b"
| "concat_loop E I t w sep (Suc m) i b = bindR (addfield E I t w b i) (\<lambda>b. concat_loop E I t w sep m (i + 1) (b @ sep))"

definition tconcat :: "'a luaenv_scheme \<Rightarrow> ('w, 'b) tabint_scheme \<Rightarrow> args \<Rightarrow> 'w \<Rightarrow> args lres" where
  "tconcat E I args w = bindR (luaL_optlstring E args 2 (Some [])) (\<lambda>sep.
     bindR (of_opt (LuaFault NullDeref) sep) (\<lambda>sep.
     bindR (luaL_checktype E args 1 5) (\<lambda>_. bindR (totab args 1) (\<lambda>t.
     bindR (luaL_optinteger E args 3 1) (\<lambda>i.
     bindR (if lua_isnoneornil args 4 then Inr (luaL_getn I t w) else luaL_checkinteger E args 4) (\<lambda>last.
     bindR (concat_loop E I t w sep (nat (last - i)) i []) (\<lambda>b.
     bindR (if i \<le> last then addfield E I t w b last else Inr b) (\<lambda>b. Inr [LStr b]))))))))"

subsection \<open>Sorting\<close>

text \<open>\<open>set2\<close> pops two values: the top one goes to \<open>i\<close>, the one below to \<open>j\<close>.\<close>

definition set2 :: "('w, 'b) tabint_scheme \<Rightarrow> addr \<Rightarrow> int \<Rightarrow> int \<Rightarrow> lval \<Rightarrow> lval \<Rightarrow> 'w \<Rightarrow> 'w lres" where
  "set2 I t i j top1 below w = bindR (lua_rawseti I t i top1 w) (lua_rawseti I t j below)"

text \<open>The comparison of \<open>a\<close> and \<open>b\<close>: \<open>f\<close> is the second argument of \<open>sort\<close>.\<close>

definition sort_comp :: "('w, 'b) tabint_scheme \<Rightarrow> lval \<Rightarrow> lval \<Rightarrow> lval \<Rightarrow> 'w \<Rightarrow> ('w \<times> bool) lres" where
  "sort_comp I f a b w = (if f \<noteq> LNil
     then (case f of LFun p \<Rightarrow> bindR (lua_call I p [a, b] w) (\<lambda>(w, v). Inr (w, v \<noteq> LNil \<and> v \<noteq> LBool False))
           | _ \<Rightarrow> Inl (LuaFault BadCast))
     else lua_lessthan I a b w)"

definition invalid_order :: "'a lres" where
  "invalid_order = Inl (LuaErr ''invalid order function for sorting'')"

text \<open>Repeat \<open>++i\<close> until \<open>a[i] >= P\<close>, and \<open>--j\<close> until \<open>a[j] <= P\<close>; the element stays on the stack.\<close>

function scan_up :: "('w, 'b) tabint_scheme \<Rightarrow> addr \<Rightarrow> lval \<Rightarrow> lval \<Rightarrow> int \<Rightarrow> int \<Rightarrow> 'w \<Rightarrow> ('w \<times> int \<times> lval) lres" where
  "scan_up I t f P u i w = (let a = lua_rawgeti I t (i + 1) w in bindR (sort_comp I f a P w) (\<lambda>(w, c).
     if c then (if u < i + 1 then invalid_order else scan_up I t f P u (i + 1) w) else Inr (w, i + 1, a)))"
  by auto
termination scan_up
  by (relation "measure (\<lambda>(I, t, f, P, u, i, w). nat (u - i))") auto

function scan_down :: "('w, 'b) tabint_scheme \<Rightarrow> addr \<Rightarrow> lval \<Rightarrow> lval \<Rightarrow> int \<Rightarrow> int \<Rightarrow> 'w \<Rightarrow> ('w \<times> int \<times> lval) lres" where
  "scan_down I t f P l j w = (let a = lua_rawgeti I t (j - 1) w in bindR (sort_comp I f P a w) (\<lambda>(w, c).
     if c then (if j - 1 < l then invalid_order else scan_down I t f P l (j - 1) w) else Inr (w, j - 1, a)))"
  by auto
termination scan_down
  by (relation "measure (\<lambda>(I, t, f, P, l, j, w). nat (j - l))") auto

declare scan_up.simps [simp del] scan_down.simps [simp del]

text \<open>The loop that partitions \<open>a[l..u]\<close> around \<open>P\<close>; the result is the last \<open>i\<close>.\<close>

primrec partition_loop :: "nat \<Rightarrow> ('w, 'b) tabint_scheme \<Rightarrow> addr \<Rightarrow> lval \<Rightarrow> lval \<Rightarrow> int \<Rightarrow> int \<Rightarrow> int \<Rightarrow> int \<Rightarrow> 'w \<Rightarrow> ('w \<times> int) lres" where
  "partition_loop 0 I t f P l u i j w = Inl (LuaFault OutOfFuel)"
| "partition_loop (Suc m) I t f P l u i j w =
     bindR (scan_up I t f P u i w) (\<lambda>(w, i, ai).
     bindR (scan_down I t f P l j w) (\<lambda>(w, j, aj).
     if j < i then Inr (w, i)
     else bindR (set2 I t i j aj ai w) (partition_loop m I t f P l u i j)))"

text \<open>The first lines of the loop of \<open>auxsort\<close>: order \<open>a[l]\<close> and \<open>a[u]\<close>, then \<open>a[i]\<close> with both.\<close>

definition order_ends :: "('w, 'b) tabint_scheme \<Rightarrow> addr \<Rightarrow> lval \<Rightarrow> int \<Rightarrow> int \<Rightarrow> 'w \<Rightarrow> 'w lres" where
  "order_ends I t f l u w = (let al = lua_rawgeti I t l w; au = lua_rawgeti I t u w in
     bindR (sort_comp I f au al w) (\<lambda>(w, c). if c then set2 I t l u au al w else Inr w))"

definition order_middle :: "('w, 'b) tabint_scheme \<Rightarrow> addr \<Rightarrow> lval \<Rightarrow> int \<Rightarrow> int \<Rightarrow> int \<Rightarrow> 'w \<Rightarrow> 'w lres" where
  "order_middle I t f l u i w = (let ai = lua_rawgeti I t i w; al = lua_rawgeti I t l w in
     bindR (sort_comp I f ai al w) (\<lambda>(w, c). if c then set2 I t i l al ai w
     else let au = lua_rawgeti I t u w in
       bindR (sort_comp I f au ai w) (\<lambda>(w, c). if c then set2 I t i u au ai w else Inr w)))"

text \<open>The rest of it: take \<open>a[i]\<close> as the pivot, partition, and put the pivot in its place.\<close>

definition partition_around :: "nat \<Rightarrow> ('w, 'b) tabint_scheme \<Rightarrow> addr \<Rightarrow> lval \<Rightarrow> int \<Rightarrow> int \<Rightarrow> int \<Rightarrow> 'w \<Rightarrow> ('w \<times> int) lres" where
  "partition_around m I t f l u i w = (let P = lua_rawgeti I t i w in
     bindR (set2 I t i (u - 1) (lua_rawgeti I t (u - 1) w) P w) (\<lambda>w.
     bindR (partition_loop m I t f P l u l (u - 1) w) (\<lambda>(w, i).
     bindR (set2 I t (u - 1) i (lua_rawgeti I t i w) (lua_rawgeti I t (u - 1) w) w) (\<lambda>w. Inr (w, i)))))"

text \<open>One step of the first argument is one round of a loop or one nested call. The smaller part is
  sorted by a nested call, the larger one by the next round.\<close>

primrec auxsort :: "nat \<Rightarrow> ('w, 'b) tabint_scheme \<Rightarrow> addr \<Rightarrow> lval \<Rightarrow> int \<Rightarrow> int \<Rightarrow> 'w \<Rightarrow> 'w lres" where
  "auxsort 0 I t f l u w = (if l < u then Inl (LuaFault OutOfFuel) else Inr w)"
| "auxsort (Suc m) I t f l u w = (if \<not> l < u then Inr w else
     bindR (order_ends I t f l u w) (\<lambda>w. if u - l = 1 then Inr w else
     let i = (l + u) div 2 in
     bindR (order_middle I t f l u i w) (\<lambda>w. if u - l = 2 then Inr w else
     bindR (partition_around m I t f l u i w) (\<lambda>(w, i).
       let (j, i', l', u') = (if i - l < u - i then (l, i - 1, i + 1, u) else (i + 1, u, l, i - 1)) in
       bindR (auxsort m I t f j i' w) (auxsort m I t f l' u')))))"

definition sort_tab :: "nat \<Rightarrow> 'a luaenv_scheme \<Rightarrow> ('w, 'b) tabint_scheme \<Rightarrow> args \<Rightarrow> 'w \<Rightarrow> ('w \<times> args) lres" where
  "sort_tab m E I args w = bindR (aux_getn E I args 1 w) (\<lambda>(t, n).
     bindR (luaL_checkstack E (stack_used E) 40 []) (\<lambda>_.
     bindR (if \<not> lua_isnoneornil args 2 then luaL_checktype E args 2 6 else Inr ()) (\<lambda>_.
     bindR (auxsort m I t (arg args 2) 1 n w) (\<lambda>w. Inr (w, [])))))"

end
