(* ===== verification/Lua_Sort.thy ===== *)
theory Lua_Sort
  imports Lua_Tablib "HOL-Library.Multiset"
begin

text \<open>
  What \<open>table.sort\<close> does. The locale \<open>sortable\<close> is what it needs of a table, a comparison and an
  interpreter: positions are read and written like those of a list, and the comparison answers a strict
  weak order. Under it the quicksort of the library returns, sorts, and only permutes.
\<close>

subsection \<open>Positions of a list, from 1\<close>

definition el :: "'v list \<Rightarrow> int \<Rightarrow> 'v" where
  "el xs i = xs ! nat (i - 1)"

definition upd :: "'v list \<Rightarrow> int \<Rightarrow> 'v \<Rightarrow> 'v list" where
  "upd xs i v = xs[nat (i - 1) := v]"

definition inside :: "'v list \<Rightarrow> int \<Rightarrow> bool" where
  "inside xs i = (1 \<le> i \<and> i \<le> int (length xs))"

definition exchange :: "'v list \<Rightarrow> int \<Rightarrow> int \<Rightarrow> 'v list" where
  "exchange xs i j = upd (upd xs i (el xs j)) j (el xs i)"

lemma inside_upd [simp]: "inside (upd xs i v) k = inside xs k" "inside (exchange xs i j) k = inside xs k"
  by (simp_all add: inside_def upd_def exchange_def)

lemma at_upd: "inside xs i \<Longrightarrow> inside xs k \<Longrightarrow> el (upd xs i v) k = (if i = k then v else el xs k)"
  by (auto simp: el_def upd_def inside_def nth_list_update)

lemma at_exchange: "inside xs i \<Longrightarrow> inside xs j \<Longrightarrow> inside xs k \<Longrightarrow>
    el (exchange xs i j) k = (if k = j then el xs i else if k = i then el xs j else el xs k)"
  by (simp add: exchange_def at_upd)

lemma at_set [simp]: "inside xs i \<Longrightarrow> el xs i \<in> set xs"
  by (auto simp: el_def inside_def intro!: nth_mem)

lemma mset_exchange: "inside xs i \<Longrightarrow> inside xs j \<Longrightarrow> mset (exchange xs i j) = mset xs"
  unfolding exchange_def upd_def el_def by (rule mset_swap) (auto simp: inside_def)

text \<open>\<open>ys\<close> is \<open>xs\<close> with the elements at \<open>l..u\<close> in another order.\<close>

definition rearranged :: "int \<Rightarrow> int \<Rightarrow> 'v list \<Rightarrow> 'v list \<Rightarrow> bool" where
  "rearranged l u xs ys = (length ys = length xs \<and> mset ys = mset xs \<and>
     (\<forall>k. inside xs k \<longrightarrow> k < l \<or> u < k \<longrightarrow> el ys k = el xs k))"

lemma rearranged_refl [simp]: "rearranged l u xs xs"
  by (simp add: rearranged_def)

lemma rearranged_trans: "rearranged l u xs ys \<Longrightarrow> rearranged l u ys zs \<Longrightarrow> rearranged l u xs zs"
  by (auto simp: rearranged_def inside_def)

lemma rearranged_mono: "rearranged l u xs ys \<Longrightarrow> l' \<le> l \<Longrightarrow> u \<le> u' \<Longrightarrow> rearranged l' u' xs ys"
  by (auto simp: rearranged_def)

lemma rearranged_inside: "rearranged l u xs ys \<Longrightarrow> inside ys k = inside xs k"
  by (simp add: rearranged_def inside_def)

lemma rearranged_out: "rearranged l u xs ys \<Longrightarrow> inside xs k \<Longrightarrow> k < l \<or> u < k \<Longrightarrow> el ys k = el xs k"
  unfolding rearranged_def by blast

lemma rearranged_exchange:
  "inside xs i \<Longrightarrow> inside xs j \<Longrightarrow> l \<le> i \<Longrightarrow> i \<le> u \<Longrightarrow> l \<le> j \<Longrightarrow> j \<le> u \<Longrightarrow> rearranged l u xs (exchange xs i j)"
  by (auto simp: rearranged_def mset_exchange at_exchange) (simp add: exchange_def upd_def)

lemma rearranged_from:
  assumes r: "rearranged l u xs ys" and b: "1 \<le> l" "u \<le> int (length xs)" and k: "l \<le> k" "k \<le> u"
  shows "\<exists>k'. l \<le> k' \<and> k' \<le> u \<and> el ys k = el xs k'"
proof -
  define a n where "a = nat (l - 1)" and "n = nat (u - l + 1)"
  have split: "zs = take a zs @ take n (drop a zs) @ drop (a + n) zs" for zs :: "'a list"
    by (metis append_take_drop_id drop_drop add.commute)
  have out: "ys ! i = xs ! i" if "i < length xs" "i < a \<or> a + n \<le> i" for i
  proof -
    have "el ys (int i + 1) = el xs (int i + 1)"
      by (rule rearranged_out [OF r]) (use that b k in \<open>auto simp: inside_def a_def n_def\<close>)
    then show ?thesis by (simp add: el_def)
  qed
  have len: "length ys = length xs" using r by (simp add: rearranged_def)
  have "take a ys = take a xs" "drop (a + n) ys = drop (a + n) xs"
    using len out by (auto intro!: nth_equalityI)
  moreover have "mset ys = mset xs" using r by (simp add: rearranged_def)
  ultimately have "mset (take n (drop a ys)) = mset (take n (drop a xs))"
    by (subst (asm) split [of ys], subst (asm) split [of xs]) simp
  then have s: "set (take n (drop a ys)) = set (take n (drop a xs))" by (metis set_mset_mset)
  have "take n (drop a ys) ! nat (k - l) = el ys k" "nat (k - l) < length (take n (drop a ys))"
    using b k len by (auto simp: el_def a_def n_def nat_diff_distrib)
  then have "el ys k \<in> set (take n (drop a xs))" unfolding s [symmetric] by (metis nth_mem)
  then obtain i where i: "i < n" "a + i < length xs" "el ys k = xs ! (a + i)"
    by (auto simp: in_set_conv_nth)
  moreover have "nat (l + int i - 1) = a + i" using b by (simp add: a_def)
  ultimately have "el ys k = el xs (l + int i)" "l + int i \<le> u" by (auto simp: el_def n_def)
  then show ?thesis by (intro exI [of _ "l + int i"]) simp
qed

subsection \<open>The contract\<close>

locale sortable =
  fixes I :: "('w, 'b) tabint_scheme" and t :: addr and f :: lval
    and holds :: "'w \<Rightarrow> lval list \<Rightarrow> bool" and ok :: "lval \<Rightarrow> bool" and less :: "lval \<Rightarrow> lval \<Rightarrow> bool"
  assumes values_ok: "holds w xs \<Longrightarrow> x \<in> set xs \<Longrightarrow> ok x"
    and get: "holds w xs \<Longrightarrow> inside xs i \<Longrightarrow> lua_rawgeti I t i w = el xs i"
    and store: "holds w xs \<Longrightarrow> inside xs i \<Longrightarrow> ok v \<Longrightarrow> \<exists>w'. lua_rawseti I t i v w = Inr w' \<and> holds w' (upd xs i v)"
    and comp: "holds w xs \<Longrightarrow> ok a \<Longrightarrow> ok b \<Longrightarrow> \<exists>w'. sort_comp I f a b w = Inr (w', less a b) \<and> holds w' xs"
    and asym: "ok a \<Longrightarrow> ok b \<Longrightarrow> less a b \<Longrightarrow> \<not> less b a"
    and neg_trans: "ok a \<Longrightarrow> ok b \<Longrightarrow> ok c \<Longrightarrow> \<not> less b a \<Longrightarrow> \<not> less c b \<Longrightarrow> \<not> less c a"
begin

lemma at_ok: "holds w xs \<Longrightarrow> inside xs i \<Longrightarrow> ok (el xs i)"
  using values_ok by simp

lemma set2_exchange:
  assumes h: "holds w xs" and i: "inside xs i" and j: "inside xs j"
  shows "\<exists>w'. set2 I t i j (el xs j) (el xs i) w = Inr w' \<and> holds w' (exchange xs i j)"
proof -
  obtain w1 where w1: "lua_rawseti I t i (el xs j) w = Inr w1" "holds w1 (upd xs i (el xs j))"
    using store [OF h i at_ok [OF h j]] by blast
  obtain w2 where "lua_rawseti I t j (el xs i) w1 = Inr w2" "holds w2 (upd (upd xs i (el xs j)) j (el xs i))"
    using store [OF w1(2) _ at_ok [OF h i]] j by auto
  then show ?thesis using w1 by (simp add: set2_def exchange_def)
qed

definition sorted_in :: "int \<Rightarrow> int \<Rightarrow> lval list \<Rightarrow> bool" where
  "sorted_in l u xs = (\<forall>i j. l \<le> i \<longrightarrow> i < j \<longrightarrow> j \<le> u \<longrightarrow> \<not> less (el xs j) (el xs i))"

lemma order_ends_ok:
  assumes h: "holds w xs" and l: "inside xs l" and u: "inside xs u" "l < u"
  shows "\<exists>w' ys. order_ends I t f l u w = Inr w' \<and> holds w' ys \<and> rearranged l u xs ys \<and> \<not> less (el ys u) (el ys l)"
proof -
  let ?c = "less (el xs u) (el xs l)"
  obtain w1 where w1: "sort_comp I f (el xs u) (el xs l) w = Inr (w1, ?c)" "holds w1 xs"
    using comp [OF h at_ok [OF h u(1)] at_ok [OF h l]] by blast
  show ?thesis
  proof (cases ?c)
    case True
    obtain w2 where "set2 I t l u (el xs u) (el xs l) w1 = Inr w2" "holds w2 (exchange xs l u)"
      using set2_exchange [OF w1(2) l u(1)] by blast
    moreover have "\<not> less (el xs l) (el xs u)" using asym True h l u at_ok by blast
    ultimately show ?thesis using w1 True l u rearranged_exchange [OF l u(1), of l u]
      by (auto simp: order_ends_def get [OF h] at_exchange intro!: exI [of _ "exchange xs l u"])
  qed (use w1 l u in \<open>auto simp: order_ends_def get [OF h] intro!: exI [of _ xs]\<close>)
qed

lemma order_middle_ok:
  assumes h: "holds w xs" and l: "inside xs l" and u: "inside xs u" and i: "l < i" "i < u"
    and ul: "\<not> less (el xs u) (el xs l)"
  shows "\<exists>w' ys. order_middle I t f l u i w = Inr w' \<and> holds w' ys \<and> rearranged l u xs ys \<and>
    \<not> less (el ys i) (el ys l) \<and> \<not> less (el ys u) (el ys i)"
proof -
  have ii: "inside xs i" using l u i by (auto simp: inside_def)
  note oks = at_ok [OF h l] at_ok [OF h u] at_ok [OF h ii]
  let ?c = "less (el xs i) (el xs l)" and ?d = "less (el xs u) (el xs i)"
  obtain w1 where w1: "sort_comp I f (el xs i) (el xs l) w = Inr (w1, ?c)" "holds w1 xs"
    using comp [OF h oks(3,1)] by blast
  obtain w2 where w2: "sort_comp I f (el xs u) (el xs i) w1 = Inr (w2, ?d)" "holds w2 xs"
    using comp [OF w1(2) oks(2,3)] by blast
  consider (low) ?c | (high) "\<not> ?c" ?d | (mid) "\<not> ?c" "\<not> ?d" by blast
  then show ?thesis
  proof cases
    case low
    obtain w3 where "set2 I t i l (el xs l) (el xs i) w1 = Inr w3" "holds w3 (exchange xs i l)"
      using set2_exchange [OF w1(2) ii l] by blast
    then show ?thesis using w1 low asym [OF oks(3,1)] ul l u ii i rearranged_exchange [OF ii l, of l u]
      by (auto simp: order_middle_def get [OF h] at_exchange intro!: exI [of _ "exchange xs i l"])
  next
    case high
    obtain w3 where "set2 I t i u (el xs u) (el xs i) w2 = Inr w3" "holds w3 (exchange xs i u)"
      using set2_exchange [OF w2(2) ii u] by blast
    then show ?thesis using w1 w2 high asym [OF oks(2,3)] ul l u ii i rearranged_exchange [OF ii u, of l u]
      by (auto simp: order_middle_def get [OF h] get [OF w1(2)] at_exchange intro!: exI [of _ "exchange xs i u"])
  next
    case mid
    then show ?thesis using w1 w2 l u ii
      by (auto simp: order_middle_def get [OF h] get [OF w1(2)] intro!: exI [of _ xs])
  qed
qed

lemma scan_up_ok:
  assumes "holds w xs" "ok P" "i < k" "k \<le> u" "1 \<le> i + 1" "u \<le> int (length xs)" "\<not> less (el xs k) P"
  shows "\<exists>w' i'. scan_up I t f P u i w = Inr (w', i', el xs i') \<and> holds w' xs \<and> i < i' \<and> i' \<le> k \<and>
    \<not> less (el xs i') P \<and> (\<forall>m. i < m \<longrightarrow> m < i' \<longrightarrow> less (el xs m) P)"
  using assms
proof (induction "nat (k - i)" arbitrary: i w rule: less_induct)
  case less
  have ins: "inside xs (i + 1)" using less.prems by (simp add: inside_def)
  obtain w1 where w1: "sort_comp I f (el xs (i + 1)) P w = Inr (w1, less (el xs (i + 1)) P)" "holds w1 xs"
    using comp [OF less.prems(1) at_ok [OF less.prems(1) ins] less.prems(2)] by blast
  show ?case
  proof (cases "less (el xs (i + 1)) P")
    case True
    then have "i + 1 \<noteq> k" using less.prems by auto
    then have k: "i + 1 < k" using less.prems(3) by linarith
    obtain w2 i' where r: "scan_up I t f P u (i + 1) w1 = Inr (w2, i', el xs i')" "holds w2 xs" "i + 1 < i'" "i' \<le> k"
      "\<not> less (el xs i') P" "\<forall>m. i + 1 < m \<longrightarrow> m < i' \<longrightarrow> less (el xs m) P"
      using less.hyps [of "i + 1" w1] w1(2) k less.prems by auto
    have "less (el xs m) P" if "i < m" "m < i'" for m
      using r(6) that True by (cases "m = i + 1") auto
    then show ?thesis using True w1 r k less.prems get [OF less.prems(1) ins]
      by (intro exI [of _ w2] exI [of _ i']) (auto simp: scan_up.simps [of I t f P u i w] Let_def)
  next
    case False
    then show ?thesis using w1 less.prems get [OF less.prems(1) ins]
      by (intro exI [of _ w1] exI [of _ "i + 1"]) (auto simp: scan_up.simps [of I t f P u i w] Let_def)
  qed
qed

lemma scan_down_ok:
  assumes "holds w xs" "ok P" "k < j" "l \<le> k" "1 \<le> l" "j - 1 \<le> int (length xs)" "\<not> less P (el xs k)"
  shows "\<exists>w' j'. scan_down I t f P l j w = Inr (w', j', el xs j') \<and> holds w' xs \<and> k \<le> j' \<and> j' < j \<and>
    \<not> less P (el xs j') \<and> (\<forall>m. j' < m \<longrightarrow> m < j \<longrightarrow> less P (el xs m))"
  using assms
proof (induction "nat (j - k)" arbitrary: j w rule: less_induct)
  case less
  have ins: "inside xs (j - 1)" using less.prems by (simp add: inside_def)
  obtain w1 where w1: "sort_comp I f P (el xs (j - 1)) w = Inr (w1, less P (el xs (j - 1)))" "holds w1 xs"
    using comp [OF less.prems(1,2) at_ok [OF less.prems(1) ins]] by blast
  show ?case
  proof (cases "less P (el xs (j - 1))")
    case True
    then have "j - 1 \<noteq> k" using less.prems by auto
    then have k: "k < j - 1" using less.prems(3) by linarith
    obtain w2 j' where r: "scan_down I t f P l (j - 1) w1 = Inr (w2, j', el xs j')" "holds w2 xs" "k \<le> j'" "j' < j - 1"
      "\<not> less P (el xs j')" "\<forall>m. j' < m \<longrightarrow> m < j - 1 \<longrightarrow> less P (el xs m)"
      using less.hyps [of "j - 1" w1] w1(2) k less.prems by auto
    have "less P (el xs m)" if "j' < m" "m < j" for m
      using r(6) that True by (cases "m = j - 1") auto
    then show ?thesis using True w1 r k less.prems get [OF less.prems(1) ins]
      by (intro exI [of _ w2] exI [of _ j']) (auto simp: scan_down.simps [of I t f P l j w] Let_def)
  next
    case False
    then show ?thesis using w1 less.prems get [OF less.prems(1) ins]
      by (intro exI [of _ w1] exI [of _ "j - 1"]) (auto simp: scan_down.simps [of I t f P l j w] Let_def)
  qed
qed

text \<open>The state of a partition: up to \<open>i\<close> nothing is above the pivot, from \<open>j\<close> on nothing below.\<close>

definition parted :: "int \<Rightarrow> int \<Rightarrow> int \<Rightarrow> int \<Rightarrow> lval \<Rightarrow> lval list \<Rightarrow> bool" where
  "parted l u i j P xs = ((\<forall>k. l \<le> k \<longrightarrow> k \<le> i \<longrightarrow> \<not> less P (el xs k)) \<and>
     (\<forall>k. j \<le> k \<longrightarrow> k \<le> u \<longrightarrow> \<not> less (el xs k) P))"

lemma partition_loop_ok:
  assumes "holds w xs" "ok P" "1 \<le> l" "u \<le> int (length xs)" "l \<le> i" "i \<le> j" "j \<le> u - 1" "i < u - 1"
    "i < j \<or> l < i" "nat (j - i) < m" "parted l u i j P xs"
  shows "\<exists>w' ys k. partition_loop m I t f P l u i j w = Inr (w', k) \<and> holds w' ys \<and>
    rearranged (l + 1) (u - 2) xs ys \<and> l < k \<and> k \<le> u - 1 \<and> parted l u (k - 1) k P ys"
  using assms
proof (induction m arbitrary: xs i j w)
  case (Suc m)
  note prems = Suc.prems
  define p q where "p = (if i < j then j else i + 1)" and "q = (if i < j then i else j - 1)"
  have p: "i < p" "p \<le> u" "p \<le> j \<or> p = i + 1" and up: "\<not> less (el xs p) P"
    using prems unfolding parted_def p_def by auto
  have q: "q < j" "l \<le> q" "i - 1 \<le> q" and down: "\<not> less P (el xs q)" using prems unfolding parted_def q_def by auto
  have b: "1 \<le> i + 1" "j - 1 \<le> int (length xs)" using prems by auto
  obtain w1 i1 where s1: "scan_up I t f P u i w = Inr (w1, i1, el xs i1)" "holds w1 xs" "i < i1"
    "i1 \<le> p" "\<not> less (el xs i1) P" "\<forall>k. i < k \<longrightarrow> k < i1 \<longrightarrow> less (el xs k) P"
    using scan_up_ok [OF prems(1,2) p(1,2) b(1) prems(4) up] by blast
  obtain w2 j1 where s2: "scan_down I t f P l j w1 = Inr (w2, j1, el xs j1)" "holds w2 xs"
    "q \<le> j1" "j1 < j" "\<not> less P (el xs j1)" "\<forall>k. j1 < k \<longrightarrow> k < j \<longrightarrow> less P (el xs k)"
    using scan_down_ok [OF s1(2) prems(2) q(1,2) prems(3) b(2) down] by blast
  have i1: "i1 \<le> u - 1" "l < i1" "inside xs i1" and j1: "l \<le> j1" "j1 \<le> u - 2" "inside xs j1"
    using prems s1(3,4) s2(3,4) p q by (auto simp: inside_def)
  have oks: "ok (el xs k)" if "l \<le> k" "k \<le> u" for k
    using at_ok [OF prems(1)] prems that by (simp add: inside_def)
  have low: "\<not> less P (el xs k)" if "l \<le> k" "k < i1" for k
  proof (cases "k \<le> i")
    case False
    then have "less (el xs k) P" using s1(6) that by simp
    then show ?thesis by (rule asym [OF oks prems(2), rotated 2]) (use that i1 in auto)
  qed (use prems(11) that in \<open>auto simp: parted_def\<close>)
  have high: "\<not> less (el xs k) P" if "j1 < k" "k \<le> u" for k
  proof (cases "j \<le> k")
    case False
    then have "less P (el xs k)" using s2(6) that by simp
    then show ?thesis by (rule asym [OF prems(2) oks, rotated 2]) (use that j1 in auto)
  qed (use prems(11) that in \<open>auto simp: parted_def\<close>)
  show ?case
  proof (cases "j1 < i1")
    case True
    have "parted l u (i1 - 1) i1 P xs" using low high True by (auto simp: parted_def)
    then show ?thesis using True s1 s2 i1
      by (intro exI [of _ w2] exI [of _ xs] exI [of _ i1]) simp
  next
    case False
    define ys where "ys = exchange xs i1 j1"
    obtain w3 where w3: "set2 I t i1 j1 (el xs j1) (el xs i1) w2 = Inr w3" "holds w3 ys"
      using set2_exchange [OF s2(2) i1(3) j1(3)] unfolding ys_def by blast
    have r: "rearranged (l + 1) (u - 2) xs ys"
      unfolding ys_def by (rule rearranged_exchange) (use i1 j1 False in auto)
    have ins: "inside xs k" if "l \<le> k" "k \<le> u" for k using that prems by (simp add: inside_def)
    have "parted l u i1 j1 P ys"
      using low high s1(5) s2(5) i1 j1 False ins by (auto simp: parted_def ys_def at_exchange)
    then have "\<exists>w' zs k. partition_loop m I t f P l u i1 j1 w3 = Inr (w', k) \<and> holds w' zs \<and>
        rearranged (l + 1) (u - 2) ys zs \<and> l < k \<and> k \<le> u - 1 \<and> parted l u (k - 1) k P zs"
      using prems i1 j1 False s1(3) s2(4) r by (intro Suc.IH w3) (auto simp: rearranged_def)
    then obtain w4 zs k where z: "partition_loop m I t f P l u i1 j1 w3 = Inr (w4, k)" "holds w4 zs"
        "rearranged (l + 1) (u - 2) ys zs" "l < k" "k \<le> u - 1" "parted l u (k - 1) k P zs" by blast
    then show ?thesis using s1(1) s2(1) w3(1) False rearranged_trans [OF r z(3)]
      by (intro exI [of _ w4] exI [of _ zs] exI [of _ k]) simp
  qed
qed simp

lemma partition_around_ok:
  assumes h: "holds w xs" and l: "1 \<le> l" and u: "u \<le> int (length xs)" "l + 3 \<le> u" and i: "l < i" "i < u - 1"
    and o: "\<not> less (el xs i) (el xs l)" "\<not> less (el xs u) (el xs i)" and m: "nat (u - l) \<le> m"
  shows "\<exists>w' ys k. partition_around m I t f l u i w = Inr (w', k) \<and> holds w' ys \<and> rearranged l u xs ys \<and>
    l < k \<and> k < u \<and> parted l u k k (el ys k) ys"
proof -
  define P where "P = el xs i"
  define ys where "ys = exchange xs i (u - 1)"
  have ins: "inside xs k" if "l \<le> k" "k \<le> u" for k using that l u by (simp add: inside_def)
  have ok: "ok P" unfolding P_def by (rule at_ok [OF h ins]) (use i in auto)
  obtain w1 where w1: "set2 I t i (u - 1) (el xs (u - 1)) P w = Inr w1" "holds w1 ys"
    using set2_exchange [OF h ins ins, of i "u - 1"] i u unfolding P_def ys_def by auto
  have r: "rearranged l u xs ys" unfolding ys_def by (rule rearranged_exchange) (use i u ins in auto)
  have P: "el ys (u - 1) = P" unfolding ys_def P_def using i u ins by (simp add: at_exchange)
  have irr: "\<not> less P P" using asym ok by blast
  have "el ys l = el xs l" "el ys u = el xs u" using i u ins by (auto simp: ys_def at_exchange)
  then have "parted l u l (u - 1) P ys" using o P irr unfolding parted_def P_def [symmetric]
    by (metis order.antisym zle_diff1_eq add_le_same_cancel1 linorder_not_le diff_add_cancel zless_imp_add1_zle order_le_less)
  then have "\<exists>w' zs k. partition_loop m I t f P l u l (u - 1) w1 = Inr (w', k) \<and> holds w' zs \<and>
      rearranged (l + 1) (u - 2) ys zs \<and> l < k \<and> k \<le> u - 1 \<and> parted l u (k - 1) k P zs"
    using r l u m by (intro partition_loop_ok w1 ok) (auto simp: rearranged_def)
  then obtain w2 zs k where p: "partition_loop m I t f P l u l (u - 1) w1 = Inr (w2, k)" "holds w2 zs"
      "rearranged (l + 1) (u - 2) ys zs" "l < k" "k \<le> u - 1" "parted l u (k - 1) k P zs" by blast
  have zins: "inside zs k" if "l \<le> k" "k \<le> u" for k
    using ins [OF that] rearranged_inside [OF r] rearranged_inside [OF p(3)] by simp
  have zu: "el zs (u - 1) = P" using rearranged_out [OF p(3), of "u - 1"] P ins [of "u - 1"] rearranged_inside [OF r] u
    by simp
  define vs where "vs = exchange zs (u - 1) k"
  obtain w3 where w3: "set2 I t (u - 1) k (el zs k) (el zs (u - 1)) w2 = Inr w3" "holds w3 vs"
    using set2_exchange [OF p(2) zins zins, of "u - 1" k] p u unfolding vs_def by auto
  have k: "el vs k = P" using zins p u zu by (simp add: vs_def at_exchange)
  have "rearranged l u zs vs" unfolding vs_def by (rule rearranged_exchange) (use p u zins in auto)
  then have "rearranged l u xs vs" 
    using rearranged_trans [OF rearranged_trans [OF r rearranged_mono [OF p(3)]]] by simp
  moreover have "parted l u k k P vs"
  proof -
    have "\<not> less P (el vs j)" if "l \<le> j" "j \<le> k" for j
      using p(6) that zins p(4,5) u zu irr by (cases "j = k") (auto simp: parted_def vs_def at_exchange)
    moreover have "\<not> less (el vs j) P" if "k \<le> j" "j \<le> u" for j
      using p(6) that zins p(4,5) u zu irr by (cases "j = k") (auto simp: parted_def vs_def at_exchange)
    ultimately show ?thesis by (simp add: parted_def)
  qed
  moreover have "partition_around m I t f l u i w = Inr (w3, k)"
    using w1 p(1) w3 zu get [OF h ins [of i]] get [OF h ins [of "u - 1"]] get [OF p(2) zins [of k]]
      get [OF p(2) zins [of "u - 1"]] i u p(4,5)
    by (simp add: partition_around_def Let_def P_def)
  ultimately show ?thesis using w3(2) p(4,5) k by (intro exI [of _ w3] exI [of _ vs] exI [of _ k]) auto
qed

text \<open>Two sorted parts with the pivot between them are sorted.\<close>

lemma sorted_join:
  assumes h: "holds w vs" and l: "1 \<le> l" "u \<le> int (length vs)" and k: "l < k" "k < u"
    and low: "\<And>i. l \<le> i \<Longrightarrow> i < k \<Longrightarrow> \<not> less (el vs k) (el vs i)"
    and high: "\<And>i. k < i \<Longrightarrow> i \<le> u \<Longrightarrow> \<not> less (el vs i) (el vs k)"
    and s: "sorted_in l (k - 1) vs" "sorted_in (k + 1) u vs"
  shows "sorted_in l u vs"
  unfolding sorted_in_def
proof (intro allI impI)
  fix i j assume ij: "l \<le> i" "i < j" "j \<le> u"
  have oks: "ok (el vs m)" if "l \<le> m" "m \<le> u" for m using at_ok [OF h] l that by (simp add: inside_def)
  consider "j < k" | "k < i" | "i = k" | "j = k" | "i < k" "k < j" by linarith
  then show "\<not> less (el vs j) (el vs i)"
  proof cases
    case 5
    then show ?thesis using neg_trans [OF oks oks oks low high] ij k by simp
  qed (use ij s low high in \<open>auto simp: sorted_in_def\<close>)
qed

lemma sorted_parts:
  assumes h: "holds w vs" and l: "1 \<le> l" "u \<le> int (length ys)" and k: "l < k" "k < u"
    and p: "parted l u k k (el ys k) ys"
    and r: "rearranged a b ys zs" "rearranged c d zs vs" and s: "sorted_in a b zs" "sorted_in c d vs"
    and parts: "a = l \<and> b = k - 1 \<and> c = k + 1 \<and> d = u \<or> a = k + 1 \<and> b = u \<and> c = l \<and> d = k - 1"
  shows "rearranged l u ys vs \<and> sorted_in l u vs"
proof -
  have len: "length zs = length ys" "length vs = length ys" using r by (simp_all add: rearranged_def)
  have ins: "inside ys i" "inside zs i" if "l \<le> i" "i \<le> u" for i using l len that by (simp_all add: inside_def)
  have pz: "\<exists>i'. a \<le> i' \<and> i' \<le> b \<and> el zs i = el ys i'" if "a \<le> i" "i \<le> b" for i
    by (rule rearranged_from [OF r(1) _ _ that]) (use parts l k in auto)
  have zv: "\<exists>i'. c \<le> i' \<and> i' \<le> d \<and> el vs i = el zs i'" if "c \<le> i" "i \<le> d" for i
    by (rule rearranged_from [OF r(2) _ _ that]) (use parts l k len in auto)
  have out1: "el zs i = el ys i" if "l \<le> i" "i \<le> u" "i < a \<or> b < i" for i
    by (rule rearranged_out [OF r(1) ins(1) that(3)]) (use that in auto)
  have out2: "el vs i = el zs i" if "l \<le> i" "i \<le> u" "i < c \<or> d < i" for i
    by (rule rearranged_out [OF r(2) ins(2) that(3)]) (use that in auto)
  have vk: "el vs k = el ys k" using out1 [of k] out2 [of k] parts k by auto
  have low: "\<exists>i'. l \<le> i' \<and> i' < k \<and> el vs i = el ys i'" if ik: "l \<le> i" "i < k" for i
    using parts
  proof (elim disjE conjE)
    assume e: "a = l" "b = k - 1" "c = k + 1" "d = u"
    then show ?thesis using pz [of i] out2 [of i] ik k by auto
  next
    assume e: "a = k + 1" "b = u" "c = l" "d = k - 1"
    then obtain i' where "l \<le> i'" "i' \<le> k - 1" "el vs i = el zs i'" using zv [of i] ik by auto
    then show ?thesis using out1 [of i'] e k by auto
  qed
  have high: "\<exists>i'. k < i' \<and> i' \<le> u \<and> el vs i = el ys i'" if ik: "k < i" "i \<le> u" for i
    using parts
  proof (elim disjE conjE)
    assume e: "a = l" "b = k - 1" "c = k + 1" "d = u"
    then obtain i' where "k + 1 \<le> i'" "i' \<le> u" "el vs i = el zs i'" using zv [of i] ik by auto
    then show ?thesis using out1 [of i'] e k by (intro exI [of _ i']) auto
  next
    assume e: "a = k + 1" "b = u" "c = l" "d = k - 1"
    then have "\<exists>i'. k + 1 \<le> i' \<and> i' \<le> u \<and> el vs i = el ys i'" using pz [of i] out2 [of i] ik k by auto
    then show ?thesis by (metis zless_iff_Suc_zadd add1_zle_eq)
  qed
  have ab: "sorted_in a b vs"
    unfolding sorted_in_def
  proof (intro allI impI)
    fix i j assume "a \<le> i" "i < j" "j \<le> b"
    then show "\<not> less (el vs j) (el vs i)" using s(1) out2 [of i] out2 [of j] parts k by (auto simp: sorted_in_def)
  qed
  have "sorted_in l u vs"
  proof (rule sorted_join [OF h l(1) _ k])
    fix i assume "l \<le> i" "i < k"
    with low show "\<not> less (el vs k) (el vs i)" using p unfolding vk parted_def by (metis order_less_imp_le)
  next
    fix i assume "k < i" "i \<le> u"
    with high show "\<not> less (el vs i) (el vs k)" using p unfolding vk parted_def by (metis order_less_imp_le)
  qed (use parts ab s(2) l len in auto)
  moreover have "rearranged l u ys vs"
    by (rule rearranged_trans [OF rearranged_mono [OF r(1)] rearranged_mono [OF r(2)]]) (use parts k in auto)
  ultimately show ?thesis by simp
qed

theorem auxsort_ok:
  "holds w xs \<Longrightarrow> 1 \<le> l \<Longrightarrow> u \<le> int (length xs) \<Longrightarrow> u - l < int m \<Longrightarrow>
   \<exists>w' ys. auxsort m I t f l u w = Inr w' \<and> holds w' ys \<and> rearranged l u xs ys \<and> sorted_in l u ys"
proof (induction m arbitrary: w xs l u)
  case 0
  then show ?case by (auto simp: sorted_in_def)
next
  case (Suc m)
  show ?case
  proof (cases "l < u")
    case False
    then show ?thesis using Suc.prems by (auto simp: sorted_in_def)
  next
    case lu: True
    have ins: "inside xs k" if "l \<le> k" "k \<le> u" for k using that Suc.prems by (simp add: inside_def)
    obtain w1 x1 where 1: "order_ends I t f l u w = Inr w1" "holds w1 x1" "rearranged l u xs x1" "\<not> less (el x1 u) (el x1 l)"
      using order_ends_ok [OF Suc.prems(1) ins ins lu] lu by auto
    have len: "length x1 = length xs" using 1 by (simp add: rearranged_def)
    show ?thesis
    proof (cases "u - l = 1")
      case True
      then have "i = l \<and> j = u" if "l \<le> i" "i < j" "j \<le> u" for i j using that by linarith
      then have "sorted_in l u x1" using 1(4) unfolding sorted_in_def by blast
      then show ?thesis using 1 True lu by auto
    next
      case n1: False
      define i where "i = (l + u) div 2"
      have i: "l < i" "i < u" using lu n1 unfolding i_def by linarith+
      have ins1: "inside x1 k" if "l \<le> k" "k \<le> u" for k using ins [OF that] len by (simp add: inside_def)
      obtain w2 x2 where 2: "order_middle I t f l u i w1 = Inr w2" "holds w2 x2" "rearranged l u x1 x2"
        "\<not> less (el x2 i) (el x2 l)" "\<not> less (el x2 u) (el x2 i)"
        using order_middle_ok [OF 1(2) ins1 ins1 i 1(4)] lu by auto
      have r2: "rearranged l u xs x2" by (rule rearranged_trans [OF 1(3) 2(3)])
      then have len2: "length x2 = length xs" by (simp add: rearranged_def)
      show ?thesis
      proof (cases "u - l = 2")
        case True
        have "sorted_in l u x2"
          by (rule sorted_join [OF 2(2) Suc.prems(2) _ i])
            (use True 2 i Suc.prems len2 in \<open>auto simp: sorted_in_def dest: order.antisym\<close>)
        then show ?thesis using 1 2 r2 True lu by (auto simp: i_def Let_def)
      next
        case n2: False
        have "i < u - 1" "l + 3 \<le> u" "nat (u - l) \<le> m" using lu n1 n2 Suc.prems(4) unfolding i_def by linarith+
        then obtain w3 x3 k where 3: "partition_around m I t f l u i w2 = Inr (w3, k)" "holds w3 x3" "rearranged l u x2 x3"
          "l < k" "k < u" "parted l u k k (el x3 k) x3"
          using partition_around_ok [OF 2(2) Suc.prems(2) _ _ i(1) _ 2(4,5), of m] Suc.prems(3,4) len2 by auto
        have r3: "rearranged l u xs x3" by (rule rearranged_trans [OF r2 3(3)])
        then have len3: "length x3 = length xs" by (simp add: rearranged_def)
        define q where "q = (if k - l < u - k then (l, k - 1, k + 1, u) else (k + 1, u, l, k - 1))"
        obtain a b c d where q: "q = (a, b, c, d)" by (metis prod_cases4)
        have parts: "a = l \<and> b = k - 1 \<and> c = k + 1 \<and> d = u \<or> a = k + 1 \<and> b = u \<and> c = l \<and> d = k - 1"
          using q unfolding q_def by (auto split: if_splits)
        obtain w4 x4 where 4: "auxsort m I t f a b w3 = Inr w4" "holds w4 x4" "rearranged a b x3 x4" "sorted_in a b x4"
          using Suc.IH [OF 3(2), of a b] parts 3(4,5) Suc.prems len3 by auto
        have len4: "length x4 = length xs" using 4 len3 by (simp add: rearranged_def)
        obtain w5 x5 where 5: "auxsort m I t f c d w4 = Inr w5" "holds w5 x5" "rearranged c d x4 x5" "sorted_in c d x5"
          using Suc.IH [OF 4(2), of c d] parts 3(4,5) Suc.prems len4 by auto
        have f: "rearranged l u x3 x5 \<and> sorted_in l u x5"
          by (rule sorted_parts [OF 5(2) Suc.prems(2) _ 3(4-6) 4(3) 5(3) 4(4) 5(4) parts]) (use Suc.prems len3 in simp)
        have "auxsort (Suc m) I t f l u w = Inr w5"
          using 1(1) 2(1) 3(1) 4(1) 5(1) lu n1 n2 q unfolding q_def i_def by (simp add: Let_def)
        then show ?thesis using 5(2) f rearranged_trans [OF r3] by blast
      qed
    qed
  qed
qed

end

end
