(* ===== verification/Lua_Compare.thy ===== *)
theory Lua_Compare
  imports Lua_Lval
begin

text \<open>
  The comparisons of the virtual machine (\<open>lua/lvm.c\<close>): strings piece by piece between their zero
  bytes, numbers, and the metamethods of the other types. \<open>strcoll\<close> is the C library's; what a
  metamethod answers is an argument (\<open>None\<close>: there is none).
\<close>

type_synonym collation = "string \<Rightarrow> string \<Rightarrow> int"

lemma c_str_length: "length (c_str s) \<le> length s"
  by (simp add: c_str_def length_takeWhile_le)

function l_strcmp :: "collation \<Rightarrow> string \<Rightarrow> string \<Rightarrow> int" where
  "l_strcmp coll l r = (let temp = coll (c_str l) (c_str r) in
     if temp \<noteq> 0 then temp
     else let len = length (c_str l) in
       if len = length r then (if len = length l then 0 else 1)
       else if len = length l then - 1
       else l_strcmp coll (drop (len + 1) l) (drop (len + 1) r))"
  by auto
termination
proof (relation "measure (\<lambda>(coll, l, r). length l)")
  fix coll :: collation and l r :: string and temp len
  assume "len = length (c_str l)" "len \<noteq> length l"
  then have "len < length l" using c_str_length [of l] by simp
  then show "((coll, drop (len + 1) l, drop (len + 1) r), coll, l, r) \<in> measure (\<lambda>(coll, l, r). length l)" by auto
qed simp

declare l_strcmp.simps [simp del]

definition luaG_ordererror :: "lval \<Rightarrow> lval \<Rightarrow> 'a lres" where
  "luaG_ordererror a b = (let t1 = lua_typename (ttype a); t2 = lua_typename (ttype b) in
     if t1 ! 2 = t2 ! 2 then Inl (LuaErr (''attempt to compare two '' @ t1 @ '' values''))
     else Inl (LuaErr (''attempt to compare '' @ t1 @ '' with '' @ t2)))"

text \<open>What a comparison metamethod of two values does to the state and answers.\<close>

type_synonym 'w order_tm = "lval \<Rightarrow> lval \<Rightarrow> 'w \<Rightarrow> ('w \<times> bool) option lres"

definition luaV_lessthan :: "collation \<Rightarrow> 'w order_tm \<Rightarrow> lval \<Rightarrow> lval \<Rightarrow> 'w \<Rightarrow> ('w \<times> bool) lres" where
  "luaV_lessthan coll lt l r w = (if ttype l \<noteq> ttype r then luaG_ordererror l r else
     case (l, r) of
       (LNum a, LNum b) \<Rightarrow> Inr (w, d_less a b)
     | (LStr a, LStr b) \<Rightarrow> Inr (w, l_strcmp coll a b < 0)
     | _ \<Rightarrow> bindR (lt l r w) (\<lambda>res. case res of Some q \<Rightarrow> Inr q | None \<Rightarrow> luaG_ordererror l r))"

definition lessequal :: "collation \<Rightarrow> 'w order_tm \<Rightarrow> 'w order_tm \<Rightarrow> lval \<Rightarrow> lval \<Rightarrow> 'w \<Rightarrow> ('w \<times> bool) lres" where
  "lessequal coll le lt l r w = (if ttype l \<noteq> ttype r then luaG_ordererror l r else
     case (l, r) of
       (LNum a, LNum b) \<Rightarrow> Inr (w, d_le a b)
     | (LStr a, LStr b) \<Rightarrow> Inr (w, l_strcmp coll a b \<le> 0)
     | _ \<Rightarrow> bindR (le l r w) (\<lambda>res. case res of Some q \<Rightarrow> Inr q
         | None \<Rightarrow> bindR (lt r l w) (\<lambda>res. case res of Some (w, b) \<Rightarrow> Inr (w, \<not> b) | None \<Rightarrow> luaG_ordererror l r)))"

subsection \<open>The order of strings\<close>

text \<open>What is relied on of \<open>strcoll\<close>: it orders the strings without zero bytes, and totally.\<close>

definition coll_ok :: "collation \<Rightarrow> bool" where
  "coll_ok coll = ((\<forall>a b. coll a b = 0 \<longleftrightarrow> a = b) \<and> (\<forall>a b. coll a b < 0 \<longleftrightarrow> 0 < coll b a) \<and>
     (\<forall>a b c. coll a b < 0 \<longrightarrow> coll b c < 0 \<longrightarrow> coll a c < 0))"

text \<open>A string is its first piece and, behind a zero byte, the rest.\<close>

fun after_zero :: "string \<Rightarrow> string option" where
  "after_zero [] = None"
| "after_zero (c # s) = (if c = CHR 0x00 then Some s else after_zero s)"

lemma c_str_simps [simp]: "c_str [] = []" "c_str (c # s) = (if c = CHR 0x00 then [] else c # c_str s)"
  by (simp_all add: c_str_def)

lemma after_zero_None: "after_zero s = None \<longleftrightarrow> length (c_str s) = length s"
  using c_str_length by (induction s) (auto simp: not_less_eq_eq)

lemma after_zero_drop: "after_zero s = (if length (c_str s) = length s then None else Some (drop (length (c_str s) + 1) s))"
  using c_str_length by (induction s) (auto simp: le_Suc_eq)

lemma after_zero_less: "after_zero s = Some t \<Longrightarrow> length t < length s"
  by (induction s) (auto split: if_splits)

lemma pieces_inject: "c_str a = c_str b \<Longrightarrow> after_zero a = after_zero b \<Longrightarrow> a = b"
proof (induction a arbitrary: b)
  case Nil
  then show ?case by (cases b) (auto split: if_splits)
next
  case (Cons c a)
  then show ?case by (cases b) (auto split: if_splits)
qed

lemma strcmp_pieces:
  assumes "coll_ok coll"
  shows "l_strcmp coll l r = (if coll (c_str l) (c_str r) \<noteq> 0 then coll (c_str l) (c_str r)
     else case (after_zero l, after_zero r) of
       (None, None) \<Rightarrow> 0 | (None, Some _) \<Rightarrow> - 1 | (Some _, None) \<Rightarrow> 1 | (Some a, Some b) \<Rightarrow> l_strcmp coll a b)"
proof (cases "coll (c_str l) (c_str r) = 0")
  case True
  then have "c_str l = c_str r" using assms by (simp add: coll_ok_def)
  then show ?thesis using True unfolding l_strcmp.simps [of coll l r] after_zero_drop by (simp add: Let_def)
qed (simp add: l_strcmp.simps [of coll l r])

lemma strcmp_rev:
  "coll_ok coll \<Longrightarrow> (l_strcmp coll a b < 0 \<longleftrightarrow> 0 < l_strcmp coll b a) \<and> (l_strcmp coll a b = 0 \<longleftrightarrow> l_strcmp coll b a = 0)"
proof (induction a arbitrary: b rule: measure_induct_rule [of length])
  case (less a)
  have s: "coll (c_str a) (c_str b) < 0 \<longleftrightarrow> 0 < coll (c_str b) (c_str a)" "coll (c_str a) (c_str b) = 0 \<longleftrightarrow> coll (c_str b) (c_str a) = 0"
    using less.prems unfolding coll_ok_def by metis+
  show ?case unfolding strcmp_pieces [OF less.prems, of a b] strcmp_pieces [OF less.prems, of b a]
    using s less.IH [OF after_zero_less less.prems] by (auto split: option.splits)
qed

lemma strcmp_zero: "coll_ok coll \<Longrightarrow> l_strcmp coll a b = 0 \<longleftrightarrow> a = b"
proof (induction a arbitrary: b rule: measure_induct_rule [of length])
  case (less a)
  have s: "coll (c_str a) (c_str b) = 0 \<longleftrightarrow> c_str a = c_str b" using less.prems unfolding coll_ok_def by metis
  have "l_strcmp coll a b = 0 \<longleftrightarrow> c_str a = c_str b \<and> after_zero a = after_zero b"
    unfolding strcmp_pieces [OF less.prems, of a b]
    using s less.IH [OF after_zero_less less.prems] by (auto split: option.splits)
  then show ?case using pieces_inject by auto
qed

lemma strcmp_less:
  assumes "coll_ok coll"
  shows "l_strcmp coll l r < 0 \<longleftrightarrow> coll (c_str l) (c_str r) < 0 \<or> c_str l = c_str r \<and>
    (case after_zero r of None \<Rightarrow> False | Some b \<Rightarrow>
       (case after_zero l of None \<Rightarrow> True | Some a \<Rightarrow> l_strcmp coll a b < 0))"
proof (cases "c_str l = c_str r")
  case True
  then have "coll (c_str l) (c_str r) = 0" using assms by (simp add: coll_ok_def)
  then show ?thesis using True by (simp add: strcmp_pieces [OF assms, of l r] split: option.splits)
next
  case False
  then have "coll (c_str l) (c_str r) \<noteq> 0" using assms by (simp add: coll_ok_def)
  then show ?thesis using False by (simp add: strcmp_pieces [OF assms, of l r])
qed

lemma strcmp_trans:
  "coll_ok coll \<Longrightarrow> l_strcmp coll a b < 0 \<Longrightarrow> l_strcmp coll b c < 0 \<Longrightarrow> l_strcmp coll a c < 0"
proof (induction a arbitrary: b c rule: measure_induct_rule [of length])
  case (less a)
  note sl = strcmp_less [OF less.prems(1), of a b] strcmp_less [OF less.prems(1), of b c] strcmp_less [OF less.prems(1), of a c]
  have t: "coll x y < 0 \<Longrightarrow> coll y z < 0 \<Longrightarrow> coll x z < 0" for x y z
    using less.prems(1) unfolding coll_ok_def by metis
  show ?case
  proof (cases "coll (c_str a) (c_str b) < 0 \<or> coll (c_str b) (c_str c) < 0")
    case True
    then have "coll (c_str a) (c_str c) < 0" using t less.prems(2,3) unfolding sl by metis
    then show ?thesis unfolding sl by simp
  next
    case False
    then have "c_str a = c_str b" "c_str b = c_str c" using less.prems(2,3) unfolding sl by blast+
    moreover obtain y z where yz: "after_zero b = Some y" "after_zero c = Some z" "l_strcmp coll y z < 0"
      using False less.prems(2,3) unfolding sl by (auto split: option.splits)
    moreover have "l_strcmp coll x z < 0" if "after_zero a = Some x" for x
      using less.IH [OF after_zero_less [OF that] less.prems(1) _ yz(3)] False less.prems(2) yz(1) that
      unfolding sl by (auto split: option.splits)
    ultimately show ?thesis unfolding sl by (auto split: option.splits)
  qed
qed

text \<open>So \<open>plain_less\<close> below is a strict weak order on numbers other than NaN, and on strings.\<close>

definition swo :: "'v set \<Rightarrow> ('v \<Rightarrow> 'v \<Rightarrow> bool) \<Rightarrow> bool" where
  "swo X lt = ((\<forall>a\<in>X. \<forall>b\<in>X. lt a b \<longrightarrow> \<not> lt b a) \<and>
     (\<forall>a\<in>X. \<forall>b\<in>X. \<forall>c\<in>X. \<not> lt b a \<longrightarrow> \<not> lt c b \<longrightarrow> \<not> lt c a))"

fun plain_less :: "collation \<Rightarrow> lval \<Rightarrow> lval \<Rightarrow> bool" where
  "plain_less coll (LNum a) (LNum b) = d_less a b"
| "plain_less coll (LStr a) (LStr b) = (l_strcmp coll a b < 0)"
| "plain_less coll _ _ = False"

lemma plain_less_run: "a \<in> range LNum \<and> b \<in> range LNum \<or> a \<in> range LStr \<and> b \<in> range LStr \<Longrightarrow>
    luaV_lessthan coll tm a b w = Inr (w, plain_less coll a b)"
  by (auto simp: luaV_lessthan_def)

lemma d_less_asym: "d_less a b \<Longrightarrow> \<not> d_less b a"
  by (cases "(a, b)" rule: d_less.cases) auto

lemma d_less_neg: "b \<noteq> NaN \<Longrightarrow> \<not> d_less b a \<Longrightarrow> \<not> d_less c b \<Longrightarrow> \<not> d_less c a"
  by (cases a; cases b; cases c) auto

lemma swo_numbers: "NaN \<notin> X \<Longrightarrow> swo (LNum ` X) (plain_less coll)"
  using d_less_asym d_less_neg unfolding swo_def by (auto simp del: d_less.simps) metis

lemma swo_strings: "coll_ok coll \<Longrightarrow> swo (range LStr) (plain_less coll)"
proof -
  assume c: "coll_ok coll"
  have "\<not> l_strcmp coll y x < 0 \<Longrightarrow> \<not> l_strcmp coll z y < 0 \<Longrightarrow> \<not> l_strcmp coll z x < 0" for x y z
    using strcmp_trans [OF c] strcmp_rev [OF c] strcmp_zero [OF c] by (metis linorder_neqE_linordered_idom)
  moreover have "\<not> (l_strcmp coll x y < 0 \<and> l_strcmp coll y x < 0)" for x y
    using strcmp_rev [OF c, of x y] by auto
  ultimately show ?thesis unfolding swo_def by (metis (no_types, lifting) imageE plain_less.simps(2))
qed

end
