(* ===== verification/Lua_Rawtab.thy ===== *)
theory Lua_Rawtab
  imports Lua_Sort Lua_Compare Lua_Table_Props Lua_Strlib_Props
begin

text \<open>
  The raw access to tables of the C interface (\<open>lua/lapi.c\<close>) on the tables of \<open>lua/ltable.c\<close>, and
  sorting on top of it. The state is the heap of tables; \<open>S\<close> is the string table, which gives every
  sequence of bytes its one \<open>tstring\<close>.
\<close>

type_synonym tabs = "addr \<Rightarrow> ltable"

text \<open>Pushing a value of the C interface: strings are interned.\<close>

fun unview :: "(string \<Rightarrow> tstring) \<Rightarrow> lval \<Rightarrow> tvalue" where
  "unview S LNil = TNil"
| "unview S (LBool b) = TBool b"
| "unview S (LNum n) = TNum n"
| "unview S (LStr s) = TStr (S s)"
| "unview S (LTab p) = TGC KTable p"
| "unview S (LFun p) = TGC KFunction p"
| "unview S (LUser p) = TGC KUserdata p"
| "unview S (LLight p) = TLight p"
| "unview S (LThread p) = TGC KThread p"

definition interns :: "(string \<Rightarrow> tstring) \<Rightarrow> bool" where
  "interns S = (\<forall>s. ts_str (S s) = s)"

lemma view_unview: "interns S \<Longrightarrow> view (unview S v) = Some v"
  by (cases v) (simp_all add: interns_def)

lemma unview_nil [simp]: "unview S v = TNil \<longleftrightarrow> v = LNil"
  by (cases v) simp_all

text \<open>A fault inside \<open>luaH_getnum\<close>, which a well-formed table excludes, reads as nil.\<close>

definition rawgeti :: "'a luaconf_scheme \<Rightarrow> addr \<Rightarrow> int \<Rightarrow> tabs \<Rightarrow> lval" where
  "rawgeti C t n w = (case luaH_getnum C (w t) n of Inl e \<Rightarrow> LNil
     | Inr p \<Rightarrow> (case view (slot_val (w t) p) of Some v \<Rightarrow> v | None \<Rightarrow> LNil))"

definition rawseti :: "'a luaconf_scheme \<Rightarrow> (string \<Rightarrow> tstring) \<Rightarrow> addr \<Rightarrow> int \<Rightarrow> lval \<Rightarrow> tabs \<Rightarrow> tabs lres" where
  "rawseti C S t n v w = bindR (luaH_setnum C (w t) n) (\<lambda>(t', s). Inr (w(t := set_slot s (unview S v) t')))"

definition objlen_tab :: "'a luaconf_scheme \<Rightarrow> addr \<Rightarrow> tabs \<Rightarrow> int" where
  "objlen_tab C t w = (case luaH_getn C (w t) of Inr n \<Rightarrow> int n | Inl e \<Rightarrow> 0)"

definition rawnext :: "'a luaconf_scheme \<Rightarrow> (string \<Rightarrow> tstring) \<Rightarrow> addr \<Rightarrow> lval \<Rightarrow> tabs \<Rightarrow> (lval \<times> lval) option lres" where
  "rawnext C S t k w = bindR (luaH_next C (w t) (unview S k)) (\<lambda>r. case r of
     None \<Rightarrow> Inr None
   | Some (k, v) \<Rightarrow> bindR (of_opt (LuaFault BadCast) (view k)) (\<lambda>k. bindR (of_opt (LuaFault BadCast) (view v)) (\<lambda>v. Inr (Some (k, v)))))"

text \<open>The interface of the table library over these tables; calls, indexing and comparison metamethods
  are arguments.\<close>

definition raw_tabint :: "'a luaconf_scheme \<Rightarrow> (string \<Rightarrow> tstring) \<Rightarrow> collation \<Rightarrow> tabs order_tm \<Rightarrow>
    (addr \<Rightarrow> args \<Rightarrow> tabs \<Rightarrow> (tabs \<times> lval) lres) \<Rightarrow> (addr \<Rightarrow> lval \<Rightarrow> tabs \<Rightarrow> (tabs \<times> lval) lres) \<Rightarrow> tabs tabint" where
  "raw_tabint C S coll tm call gettable = \<lparr>lua_call = call, lua_gettable = gettable, lua_rawgeti = rawgeti C,
     lua_rawseti = rawseti C S, luaL_getn = objlen_tab C, lua_next = rawnext C S, lua_lessthan = luaV_lessthan coll tm\<rparr>"

subsection \<open>Reading and writing by position\<close>

definition key_at :: "int \<Rightarrow> tvalue" where
  "key_at n = TNum (cast_num n)"

lemma key_at_ok [simp]: "proper (key_at n)" "in_heap H (key_at n)"
  by (simp_all add: key_at_def proper_def in_heap_def)

lemma rawgeti_lookup:
  assumes "conf_ok C" "tab_ok C H (w t)" "is_int n" "lookup C (w t) (key_at n) = unview S v" "interns S"
  shows "rawgeti C t n w = v"
proof -
  obtain s where s: "luaH_getnum C (w t) n = Inr s" "slot_for C (w t) (key_at n) s"
    using getnum_spec [OF assms(1-3)] unfolding key_at_def by blast
  then have "slot_val (w t) s = unview S v" using slot_for_val [OF assms(1,2) key_at_ok(1) s(2)] assms(4) by simp
  then show ?thesis using s(1) view_unview [OF assms(5)] by (simp add: rawgeti_def)
qed

lemma rawseti_there:
  assumes C: "conf_ok C" and ok: "tab_ok C H (w t)" and n: "is_int n" and nn: "lookup C (w t) (key_at n) \<noteq> TNil"
  shows "\<exists>t'. rawseti C S t n v w = Inr (w(t := t')) \<and> tab_ok C H t' \<and>
    (\<forall>k. proper k \<longrightarrow> lookup C t' k = (if k = key_at n then unview S v else lookup C (w t) k))"
proof -
  obtain p where p: "luaH_getnum C (w t) n = Inr p" "slot_for C (w t) (key_at n) p"
    using getnum_spec [OF C ok n] unfolding key_at_def by blast
  then obtain s where s: "p = Some s" using slot_for_val [OF C ok _ p(2)] nn by (cases p) auto
  let ?t = "set_slot s (unview S v) (w t)"
  have "rawseti C S t n v w = Inr (w(t := ?t))" using p(1) s by (simp add: rawseti_def luaH_setnum_def setnum_by_def)
  then show ?thesis using set_slot_ok [OF C ok key_at_ok(1) p(2) [unfolded s]] by blast
qed

subsection \<open>The contract of sorting\<close>

text \<open>The comparison \<open>f\<close> of the values \<open>X\<close> leaves the state alone and answers \<open>lt\<close>.\<close>

definition compares :: "(tabs, 'b) tabint_scheme \<Rightarrow> lval \<Rightarrow> lval set \<Rightarrow> (lval \<Rightarrow> lval \<Rightarrow> bool) \<Rightarrow> bool" where
  "compares I f X lt = (swo X lt \<and> (\<forall>a\<in>X. \<forall>b\<in>X. \<forall>w. sort_comp I f a b w = Inr (w, lt a b)))"

text \<open>The first table of \<open>w0\<close> with the values \<open>xs\<close> at 1 to their number, and nothing else changed.\<close>

definition stored :: "'a luaconf_scheme \<Rightarrow> (addr \<Rightarrow> tstring) \<Rightarrow> (string \<Rightarrow> tstring) \<Rightarrow> addr \<Rightarrow> tabs \<Rightarrow> tabs \<Rightarrow> lval list \<Rightarrow> bool" where
  "stored C H S t w0 w xs = (tab_ok C H (w t) \<and> (\<forall>t'. t' \<noteq> t \<longrightarrow> w t' = w0 t') \<and>
     (\<forall>i. inside xs i \<longrightarrow> lookup C (w t) (key_at i) = unview S (el xs i)) \<and>
     (\<forall>k. proper k \<longrightarrow> (\<forall>i. inside xs i \<longrightarrow> k \<noteq> key_at i) \<longrightarrow> lookup C (w t) k = lookup C (w0 t) k))"

definition raw_holds :: "'a luaconf_scheme \<Rightarrow> (addr \<Rightarrow> tstring) \<Rightarrow> (string \<Rightarrow> tstring) \<Rightarrow> collation \<Rightarrow> tabs order_tm \<Rightarrow>
    (addr \<Rightarrow> args \<Rightarrow> tabs \<Rightarrow> (tabs \<times> lval) lres) \<Rightarrow> (addr \<Rightarrow> lval \<Rightarrow> tabs \<Rightarrow> (tabs \<times> lval) lres) \<Rightarrow>
    addr \<Rightarrow> lval \<Rightarrow> lval set \<Rightarrow> (lval \<Rightarrow> lval \<Rightarrow> bool) \<Rightarrow> tabs \<Rightarrow> tabs \<Rightarrow> lval list \<Rightarrow> bool" where
  "raw_holds C H S coll tm call gettable t f X lt w0 w xs = (conf_ok C \<and> interns S \<and> LNil \<notin> X \<and>
     compares (raw_tabint C S coll tm call gettable) f X lt \<and> set xs \<subseteq> X \<and> is_int (int (length xs)) \<and> stored C H S t w0 w xs)"

lemma inside_int: "is_int (int (length xs)) \<Longrightarrow> inside xs i \<Longrightarrow> is_int i"
  by (auto simp: is_int_def inside_def)

lemma key_at_eq [simp]: "key_at i = key_at j \<longleftrightarrow> i = j"
  by (simp add: key_at_def)

lemma stored_upd:
  assumes C: "conf_ok C" "interns S" and st: "stored C H S t w0 w xs" and i: "inside xs i" "is_int i" "el xs i \<noteq> LNil"
  shows "\<exists>w'. rawseti C S t i v w = Inr w' \<and> stored C H S t w0 w' (upd xs i v)"
proof -
  have "lookup C (w t) (key_at i) \<noteq> TNil" using st i by (simp add: stored_def)
  then obtain t' where t': "rawseti C S t i v w = Inr (w(t := t'))" "tab_ok C H t'"
    "\<forall>k. proper k \<longrightarrow> lookup C t' k = (if k = key_at i then unview S v else lookup C (w t) k)"
    using rawseti_there [OF C(1) _ i(2), of H w t S v] st unfolding stored_def by blast
  have "stored C H S t w0 (w(t := t')) (upd xs i v)"
    using st t'(2,3) i(1) unfolding stored_def by (auto simp: at_upd)
  then show ?thesis using t'(1) by blast
qed

lemma swo_asym: "swo X lt \<Longrightarrow> a \<in> X \<Longrightarrow> b \<in> X \<Longrightarrow> lt a b \<Longrightarrow> \<not> lt b a"
  unfolding swo_def by blast

lemma swo_neg: "swo X lt \<Longrightarrow> a \<in> X \<Longrightarrow> b \<in> X \<Longrightarrow> c \<in> X \<Longrightarrow> \<not> lt b a \<Longrightarrow> \<not> lt c b \<Longrightarrow> \<not> lt c a"
  unfolding swo_def by blast

interpretation raw: sortable "raw_tabint C S coll tm call gettable" t f
  "raw_holds C H S coll tm call gettable t f X lt w0" "\<lambda>v. v \<in> X \<and> LNil \<notin> X \<and> swo X lt" lt
proof unfold_locales
  fix w xs i assume h: "raw_holds C H S coll tm call gettable t f X lt w0 w xs" and i: "inside xs i"
  have o: "tab_ok C H (w t)" "lookup C (w t) (key_at i) = unview S (el xs i)" using h i by (simp_all add: raw_holds_def stored_def)
  have "is_int i" using h inside_int [OF _ i] by (simp add: raw_holds_def)
  then show "lua_rawgeti (raw_tabint C S coll tm call gettable) t i w = el xs i"
    using rawgeti_lookup [where w = w and t = t, OF _ o(1) _ o(2)] h by (simp add: raw_tabint_def raw_holds_def)
  fix v assume v: "v \<in> X \<and> LNil \<notin> X \<and> swo X lt"
  have "el xs i \<noteq> LNil" using h at_set [OF i] by (auto simp: raw_holds_def)
  then obtain w' where "rawseti C S t i v w = Inr w'" "stored C H S t w0 w' (upd xs i v)"
    using stored_upd [OF _ _ _ i \<open>is_int i\<close>] h unfolding raw_holds_def by blast
  moreover have "set (upd xs i v) \<subseteq> X" "length (upd xs i v) = length xs"
    using v h set_update_subset_insert [of xs _ v] by (auto simp: upd_def raw_holds_def)
  ultimately show "\<exists>w'. lua_rawseti (raw_tabint C S coll tm call gettable) t i v w = Inr w' \<and>
      raw_holds C H S coll tm call gettable t f X lt w0 w' (upd xs i v)"
    using h by (auto simp: raw_tabint_def raw_holds_def)
next
  fix w xs x assume "raw_holds C H S coll tm call gettable t f X lt w0 w xs" "x \<in> set xs"
  then show "x \<in> X \<and> LNil \<notin> X \<and> swo X lt" unfolding raw_holds_def compares_def by blast
next
  fix w xs a b assume "raw_holds C H S coll tm call gettable t f X lt w0 w xs"
    "a \<in> X \<and> LNil \<notin> X \<and> swo X lt" "b \<in> X \<and> LNil \<notin> X \<and> swo X lt"
  then show "\<exists>w'. sort_comp (raw_tabint C S coll tm call gettable) f a b w = Inr (w', lt a b) \<and>
      raw_holds C H S coll tm call gettable t f X lt w0 w' xs"
    by (intro exI [of _ w]) (simp add: raw_holds_def compares_def)
next
  fix a b assume "a \<in> X \<and> LNil \<notin> X \<and> swo X lt" "b \<in> X \<and> LNil \<notin> X \<and> swo X lt" "lt a b"
  then show "\<not> lt b a" by (elim conjE) (rule swo_asym)
next
  fix a b c assume "a \<in> X \<and> LNil \<notin> X \<and> swo X lt" "b \<in> X \<and> LNil \<notin> X \<and> swo X lt"
    "c \<in> X \<and> LNil \<notin> X \<and> swo X lt" "\<not> lt b a" "\<not> lt c b"
  then show "\<not> lt c a" by (elim conjE) (rule swo_neg)
qed

subsection \<open>Sorting a table\<close>

text \<open>C30: \<open>table.sort\<close> on a table of the interpreter that holds \<open>n\<close> values, under a comparison
  that is a strict weak order of them and leaves the state alone, returns within \<open>n\<close> nested steps;
  afterwards the positions 1 to \<open>n\<close> hold the same values, no later one below an earlier one, the
  table is well formed, and no other entry and no other table has changed.\<close>

theorem sort_sorts:
  assumes I: "I = raw_tabint C S coll tm call gettable" and C: "conf_ok C" "interns S"
    and t: "tab_ok C H (w t)" "objlen_tab C t w = int (length xs)" "is_int (int (length xs))"
    and xs: "\<forall>i. inside xs i \<longrightarrow> lookup C (w t) (key_at i) = unview S (el xs i)" "LNil \<notin> set xs"
    and f: "f = LNil \<or> f = LFun p" "compares I f (set xs) lt"
    and E: "int (stack_used E) + 40 \<le> maxcstack E"
  shows "\<exists>w' ys. sort_tab (length xs) E I [LTab t, f] w = Inr (w', []) \<and> mset ys = mset xs \<and>
    (\<forall>i j. 1 \<le> i \<longrightarrow> i < j \<longrightarrow> j \<le> int (length xs) \<longrightarrow> \<not> lt (el ys j) (el ys i)) \<and> stored C H S t w w' ys"
proof -
  let ?h = "raw_holds C H S coll tm call gettable t f (set xs) lt w"
  have "stored C H S t w w xs" using t xs by (simp add: stored_def)
  then have h: "?h w xs" using C t(3) xs(2) f(2) I by (simp add: raw_holds_def)
  obtain w' ys where r: "auxsort (length xs) I t f 1 (int (length xs)) w = Inr w'" "?h w' ys"
    "rearranged 1 (int (length xs)) xs ys" "raw.sorted_in lt 1 (int (length xs)) ys"
    using raw.auxsort_ok [OF h, of 1 "int (length xs)" "length xs"] I by auto
  have "aux_getn E I [LTab t, f] 1 w = Inr (t, int (length xs))"
    using t(2) I by (simp add: aux_getn_def luaL_checktype_def lua_type_def index2adr_def totab_def raw_tabint_def)
  moreover have "luaL_checkstack E (stack_used E) 40 [] = Inr ()" using E by (simp add: luaL_checkstack_def lua_checkstack_def)
  moreover have "(if \<not> lua_isnoneornil [LTab t, f] 2 then luaL_checktype E [LTab t, f] 2 6 else Inr ()) = Inr ()"
    using f(1) by (auto simp: luaL_checktype_def lua_type_def index2adr_def lua_isnoneornil_def)
  ultimately have "sort_tab (length xs) E I [LTab t, f] w = Inr (w', [])" using r(1) by (simp add: sort_tab_def)
  moreover have "stored C H S t w w' ys" using r(2) by (simp add: raw_holds_def)
  moreover have "mset ys = mset xs" using r(3) by (simp add: rearranged_def)
  ultimately show ?thesis using r(4) by (auto simp: raw.sorted_in_def)
qed

definition three :: ltable where
  "three = \<lparr>t_flags = 0, t_metatable = None, t_array = map (\<lambda>k. TNum (cast_num k)) [3, 1, 2], t_node = None,
     t_lsizenode = 0, t_lastfree = 0\<rparr>"

lemma three_ok: "tab_ok trunc_conf a_heap three"
  using chain_ok_fresh [of trunc_conf a_heap 1]
  by (simp add: tab_ok_def three_def node_vec_def sizenode_def dummynode_def MAXASIZE_def MAXBITS_def)

lemma compares_numbers:
  "NaN \<notin> X \<Longrightarrow> compares (raw_tabint C S coll tm call gettable) LNil (LNum ` X) (plain_less coll)"
  by (auto simp: compares_def swo_numbers sort_comp_def raw_tabint_def luaV_lessthan_def)

theorem sort_sorts_witness:
  "\<exists>w' ys. sort_tab 3 test_env (raw_tabint trunc_conf (\<lambda>s. \<lparr>ts_ptr = 0, ts_hash = 0, ts_str = s\<rparr>) (\<lambda>a b. 0)
        (\<lambda>a b w. Inr None) (\<lambda>f vs w. Inr (w, LNil)) (\<lambda>t k w. Inr (w, LNil))) [LTab 9, LNil] (\<lambda>t. three) = Inr (w', []) \<and>
     mset ys = mset (map pushinteger [3, 1, 2]) \<and>
     (\<forall>i j. 1 \<le> i \<longrightarrow> i < j \<longrightarrow> j \<le> 3 \<longrightarrow> \<not> plain_less (\<lambda>a b. 0) (el ys j) (el ys i))"
proof -
  let ?xs = "map pushinteger [3, 1, 2]"
  have set: "set ?xs = LNum ` {cast_num 3, cast_num 1, cast_num 2}" by (auto simp: pushinteger_def)
  have c: "compares (raw_tabint trunc_conf S coll tm call gettable) LNil (set ?xs) (plain_less coll)" for S coll tm call gettable
    unfolding set by (rule compares_numbers) (simp add: cast_num_def)
  have l: "\<forall>i. inside ?xs i \<longrightarrow> lookup trunc_conf three (key_at i) = unview S (el ?xs i)" for S
  proof (intro allI impI)
    fix i assume "inside ?xs i"
    then consider "i = 1" | "i = 2" | "i = 3" by (fastforce simp: inside_def)
    then show "lookup trunc_conf three (key_at i) = unview S (el ?xs i)"
      by cases (simp_all add: lookup_def in_array_def key_at_def arrayindex_cast [OF trunc_conf_ok] is_int_def three_def
          el_def pushinteger_def)
  qed
  have n: "objlen_tab trunc_conf 9 (\<lambda>t. three) = int (length ?xs)"
    by (simp add: objlen_tab_def luaH_getn_def three_def ttisnil_def)
  have len: "length ?xs = 3" by simp
  have s: "interns (\<lambda>s. \<lparr>ts_ptr = 0, ts_hash = 0, ts_str = s\<rparr>)" by (simp add: interns_def)
  have e: "LNil \<notin> set ?xs" "is_int (int (length ?xs))" "int (stack_used test_env) + 40 \<le> maxcstack test_env"
    by (auto simp: pushinteger_def is_int_def test_env_def luaconf.defs)
  from sort_sorts [OF refl trunc_conf_ok s three_ok n e(2) l e(1) disjI1 [OF refl] c e(3), unfolded len of_nat_numeral] show ?thesis by blast
qed

end
