(* ===== verification/Lua_Format.thy ===== *)
theory Lua_Format
  imports Lua_Strlib_Props
begin

text \<open>
  \<open>string.format\<close> (\<open>lua/lstrlib.c\<close>). What \<open>sprintf\<close> writes for a directive is a field of the
  environment; the two buffers it works on are checked: a directive that does not fit \<open>form\<close>, or an
  item that does not fit \<open>buff\<close>, is an access out of bounds. A \<open>long\<close> has 32 bits.
\<close>

record fmtenv = luaenv +
  sprintf_int :: "string \<Rightarrow> int \<Rightarrow> string"      \<comment> \<open>\<open>%c\<close>, \<open>%ld\<close>, \<open>%li\<close>\<close>
  sprintf_uns :: "string \<Rightarrow> nat \<Rightarrow> string"      \<comment> \<open>\<open>%lo\<close>, \<open>%lu\<close>, \<open>%lx\<close>, \<open>%lX\<close>\<close>
  sprintf_dbl :: "string \<Rightarrow> dbl \<Rightarrow> string"      \<comment> \<open>\<open>%e\<close>, \<open>%E\<close>, \<open>%f\<close>, \<open>%g\<close>, \<open>%G\<close>\<close>
  sprintf_str :: "string \<Rightarrow> string \<Rightarrow> string"   \<comment> \<open>\<open>%s\<close>\<close>

definition MAX_ITEM :: nat where "MAX_ITEM = 512"
definition FLAGS :: string where "FLAGS = ''-+ #0''"
definition LUA_INTFRMLEN :: string where "LUA_INTFRMLEN = ''l''"

text \<open>\<open>sizeof\<close> counts the terminators.\<close>

definition MAX_FORMAT :: nat where
  "MAX_FORMAT = (length FLAGS + 1) + (length LUA_INTFRMLEN + 1) + 10"

text \<open>A string written to a buffer of \<open>size\<close> bytes.\<close>

definition into :: "nat \<Rightarrow> string \<Rightarrow> string lres" where
  "into sz s = (if length s < sz then Inr s else Inl (LuaFault OutOfBounds))"

subsection \<open>Quoting\<close>

definition quote_char :: "char \<Rightarrow> string" where
  "quote_char c = (if c = CHR 0x22 \<or> c = CHR 0x5C \<or> c = CHR 0x0A then [CHR 0x5C, c]
     else if c = CHR 0x0D then [CHR 0x5C, CHR ''r'']
     else if c = CHR 0x00 then CHR 0x5C # ''000''
     else [c])"

definition quoted :: "string \<Rightarrow> string" where
  "quoted s = CHR 0x22 # concat (map quote_char s) @ [CHR 0x22]"

definition addquoted :: "'a luaenv_scheme \<Rightarrow> args \<Rightarrow> nat \<Rightarrow> string lres" where
  "addquoted E args k = bindR (luaL_checklstring E args k) (\<lambda>s. Inr (quoted s))"

subsection \<open>Directives\<close>

definition digits2 :: "string \<Rightarrow> string" where
  "digits2 s = takeWhile isdigit_c (take 2 s)"

text \<open>The number of characters before the conversion, and the directive as a C string.\<close>

definition scanformat :: "string \<Rightarrow> (nat \<times> string) lres" where
  "scanformat s = (let fl = takeWhile (\<lambda>c. c \<in> set FLAGS) s; s1 = drop (length fl) s in
     if length FLAGS + 1 \<le> length fl then Inl (LuaErr ''invalid format (repeated flags)'')
     else let wd = digits2 s1; s2 = drop (length wd) s1;
       pr = (case s2 of c # r \<Rightarrow> if c = CHR ''.'' then c # digits2 r else [] | [] \<Rightarrow> []);
       s3 = drop (length pr) s2 in
     if (case s3 of c # r \<Rightarrow> isdigit_c c | [] \<Rightarrow> False) then Inl (LuaErr ''invalid format (width or precision too long)'')
     else bindR (into MAX_FORMAT (CHR ''%'' # fl @ wd @ pr @ c_str (take 1 s3))) (\<lambda>form.
       Inr (length fl + length wd + length pr, form)))"

definition addintlen :: "string \<Rightarrow> string lres" where
  "addintlen form = into MAX_FORMAT (butlast form @ LUA_INTFRMLEN @ [last form])"

definition to_int :: "dbl \<Rightarrow> int lres" where
  "to_int x = (case dbl_to_i32 x of Inr w \<Rightarrow> Inr (sint w) | Inl e \<Rightarrow> Inl (LuaFault e))"

definition to_uns :: "dbl \<Rightarrow> nat lres" where
  "to_uns x = (case dbl_to_u32 x of Inr w \<Rightarrow> Inr (unat w) | Inl e \<Rightarrow> Inl (LuaFault e))"

text \<open>The text of one item; what \<open>buff\<close> holds counts up to its first zero byte.\<close>

definition format_item :: "'a fmtenv_scheme \<Rightarrow> char \<Rightarrow> string \<Rightarrow> args \<Rightarrow> nat \<Rightarrow> string lres" where
  "format_item E c form args k = (
     if c = CHR ''c'' then bindR (luaL_checknumber E args k) (\<lambda>x. bindR (to_int x) (\<lambda>i.
       bindR (into MAX_ITEM (sprintf_int E form i)) (\<lambda>b. Inr (c_str b))))
     else if c \<in> set ''di'' then bindR (addintlen form) (\<lambda>form. bindR (luaL_checknumber E args k) (\<lambda>x.
       bindR (to_int x) (\<lambda>i. bindR (into MAX_ITEM (sprintf_int E form i)) (\<lambda>b. Inr (c_str b)))))
     else if c \<in> set ''ouxX'' then bindR (addintlen form) (\<lambda>form. bindR (luaL_checknumber E args k) (\<lambda>x.
       bindR (to_uns x) (\<lambda>i. bindR (into MAX_ITEM (sprintf_uns E form i)) (\<lambda>b. Inr (c_str b)))))
     else if c \<in> set ''eEfgG'' then bindR (luaL_checknumber E args k) (\<lambda>x.
       bindR (into MAX_ITEM (sprintf_dbl E form x)) (\<lambda>b. Inr (c_str b)))
     else if c = CHR ''q'' then addquoted E args k
     else if c = CHR ''s'' then bindR (luaL_checklstring E args k) (\<lambda>s.
       if CHR ''.'' \<notin> set form \<and> 100 \<le> length s then Inr s
       else bindR (into MAX_ITEM (sprintf_str E form (c_str s))) (\<lambda>b. Inr (c_str b)))
     else Inl (LuaErr (''invalid option '' @ LUA_QL (CHR ''%'' # c_str [c]) @ '' to '' @ LUA_QL ''format'')))"

function format_loop :: "'a fmtenv_scheme \<Rightarrow> string \<Rightarrow> args \<Rightarrow> nat \<Rightarrow> nat \<Rightarrow> string \<Rightarrow> string lres" where
  "format_loop E fmt args i k b = (
     if \<not> i < length fmt then Inr b
     else if fmt ! i \<noteq> L_ESC then format_loop E fmt args (i + 1) k (b @ [fmt ! i])
     else if i + 1 < length fmt \<and> fmt ! (i + 1) = L_ESC then format_loop E fmt args (i + 2) k (b @ [L_ESC])
     else bindR (scanformat (drop (i + 1) fmt)) (\<lambda>(p, form).
       let j = i + 1 + p in
       bindR (format_item E (if j < length fmt then fmt ! j else CHR 0x00) form args (k + 1)) (\<lambda>s.
         format_loop E fmt args (j + 1) (k + 1) (b @ s))))"
  by auto
termination
  by (relation "measure (\<lambda>(E, fmt, args, i, k, b). length fmt - i)") auto

declare format_loop.simps [simp del]

definition str_format :: "'a fmtenv_scheme \<Rightarrow> args \<Rightarrow> args lres" where
  "str_format E args = bindR (luaL_checklstring E args 1) (\<lambda>fmt.
     bindR (format_loop E fmt args 0 1 []) (\<lambda>b. Inr [LStr b]))"

subsection \<open>The buffers are large enough\<close>

text \<open>The directives that reach \<open>sprintf\<close>: at most five flags, two digits of width, two of precision.\<close>

definition directive :: "string \<Rightarrow> bool" where
  "directive f = (\<exists>fl wd pr conv. f = CHR ''%'' # fl @ wd @ pr @ conv \<and> set fl \<subseteq> set FLAGS \<and> length fl \<le> 5 \<and>
     list_all isdigit_c wd \<and> length wd \<le> 2 \<and> length conv \<le> 2 \<and>
     (pr = [] \<or> (\<exists>d. pr = CHR ''.'' # d \<and> list_all isdigit_c d \<and> length d \<le> 2)))"

text \<open>What \<open>sprintf\<close> writes for them is shorter than \<open>MAX_ITEM\<close>, given a string that is shorter
  than 100 or cut by a precision: the longest is \<open>%99.99f\<close> of the largest number.\<close>

definition sprintf_ok :: "'a fmtenv_scheme \<Rightarrow> bool" where
  "sprintf_ok E = (\<forall>f. directive f \<longrightarrow> (\<forall>i. length (sprintf_int E f i) < 512) \<and> (\<forall>i. length (sprintf_uns E f i) < 512) \<and>
     (\<forall>x. length (sprintf_dbl E f x) < 512) \<and>
     (\<forall>s. length s < 100 \<or> CHR ''.'' \<in> set f \<longrightarrow> length (sprintf_str E f s) < 512))"

definition no_overrun :: "'x lres \<Rightarrow> bool" where
  "no_overrun r = (r \<noteq> Inl (LuaFault OutOfBounds))"

lemma no_overrun_simps [simp]: "no_overrun (Inr x)" "no_overrun (Inl (LuaErr m))"
  by (simp_all add: no_overrun_def)

lemma no_overrun_bind: "no_overrun m \<Longrightarrow> (\<And>x. m = Inr x \<Longrightarrow> no_overrun (f x)) \<Longrightarrow> no_overrun (bindR m f)"
  by (cases m) (simp_all add: no_overrun_def)

lemma no_overrun_if: "(c \<Longrightarrow> no_overrun x) \<Longrightarrow> (\<not> c \<Longrightarrow> no_overrun y) \<Longrightarrow> no_overrun (if c then x else y)"
  by simp

lemma no_overrun_ok: "lua_ok P m \<Longrightarrow> no_overrun m"
  by (auto simp: lua_ok_def no_overrun_def split: sum.splits)

lemma no_overrun_cast: "no_overrun (to_int x)" "no_overrun (to_uns x)"
  by (cases x; auto simp: to_int_def to_uns_def no_overrun_def split: if_splits sum.splits)+

lemma digits2: "list_all isdigit_c (digits2 s)" "length (digits2 s) \<le> 2"
  using length_takeWhile_le [of isdigit_c "take 2 s"] by (auto simp: digits2_def list_all_iff dest: set_takeWhileD)

text \<open>A directive as \<open>scanformat\<close> leaves it, with the conversion \<open>c\<close>.\<close>

definition scanned :: "char \<Rightarrow> string \<Rightarrow> bool" where
  "scanned c f = (\<exists>fl wd pr. f = CHR ''%'' # fl @ wd @ pr @ c_str [c] \<and> set fl \<subseteq> set FLAGS \<and> length fl \<le> 5 \<and>
     list_all isdigit_c wd \<and> length wd \<le> 2 \<and>
     (pr = [] \<or> (\<exists>d. pr = CHR ''.'' # d \<and> list_all isdigit_c d \<and> length d \<le> 2)))"

lemma scanned_directive: "scanned c f \<Longrightarrow> directive f"
  unfolding scanned_def directive_def
  by (elim exE conjE, intro exI conjI, assumption+) (simp_all add: c_str_def)

lemma scanned_length: "scanned c f \<Longrightarrow> length f \<le> 12"
  by (auto simp: scanned_def c_str_def)

lemma scanformat_ok: "lua_ok (\<lambda>(p, form). scanned (if p < length s then s ! p else CHR 0x00) form) (scanformat s)"
proof -
  define fl where "fl = takeWhile (\<lambda>c. c \<in> set FLAGS) s"
  define s1 where "s1 = drop (length fl) s"
  define wd where "wd = digits2 s1"
  define s2 where "s2 = drop (length wd) s1"
  define pr where "pr = (case s2 of c # r \<Rightarrow> if c = CHR ''.'' then c # digits2 r else [] | [] \<Rightarrow> [])"
  define p where "p = length fl + length wd + length pr"
  define c where "c = (if p < length s then s ! p else CHR 0x00)"
  have pr: "pr = [] \<or> (\<exists>d. pr = CHR ''.'' # d \<and> list_all isdigit_c d \<and> length d \<le> 2)"
    using digits2 unfolding pr_def by (auto split: list.splits)
  have wd: "list_all isdigit_c wd" "length wd \<le> 2" unfolding wd_def by (rule digits2)+
  have fl: "set fl \<subseteq> set FLAGS" unfolding fl_def by (auto dest: set_takeWhileD)
  have "drop (length pr) s2 = drop p s" by (simp add: s2_def s1_def p_def add.commute add.left_commute)
  then have conv: "c_str (take 1 (drop (length pr) s2)) = c_str [c]"
    by (cases "p < length s") (simp_all add: c_def c_str_def take_Suc_conv_app_nth hd_drop_conv_nth take_Suc)
  show ?thesis
  proof (cases "length FLAGS + 1 \<le> length fl")
    case True
    then show ?thesis by (simp add: scanformat_def Let_def fl_def)
  next
    case False
    then have "length fl \<le> 5" by (simp add: FLAGS_def)
    with fl wd pr have sc: "scanned c (CHR ''%'' # fl @ wd @ pr @ c_str [c])" unfolding scanned_def by blast
    moreover have "length (CHR ''%'' # fl @ wd @ pr @ c_str [c]) < MAX_FORMAT"
      using scanned_length [OF sc] by (simp add: MAX_FORMAT_def FLAGS_def LUA_INTFRMLEN_def)
    ultimately show ?thesis using False
      unfolding scanformat_def Let_def fl_def [symmetric] s1_def [symmetric] wd_def [symmetric] s2_def [symmetric]
        pr_def [symmetric] conv p_def [symmetric] by (simp add: into_def c_def)
  qed
qed

lemma addintlen_ok: "scanned c form \<Longrightarrow> c \<noteq> CHR 0x00 \<Longrightarrow> lua_ok directive (addintlen form)"
proof -
  assume "scanned c form" "c \<noteq> CHR 0x00"
  then obtain fl wd pr where f: "form = (CHR ''%'' # fl @ wd @ pr) @ [c]" "set fl \<subseteq> set FLAGS" "length fl \<le> 5"
     "list_all isdigit_c wd" "length wd \<le> 2" "pr = [] \<or> (\<exists>d. pr = CHR ''.'' # d \<and> list_all isdigit_c d \<and> length d \<le> 2)"
    by (auto simp: scanned_def c_str_def)
  have e: "butlast form @ LUA_INTFRMLEN @ [last form] = CHR ''%'' # fl @ wd @ pr @ [CHR ''l'', c]"
    unfolding f(1) butlast_snoc last_snoc by (simp add: LUA_INTFRMLEN_def)
  have "directive (CHR ''%'' # fl @ wd @ pr @ [CHR ''l'', c])" unfolding directive_def
    by (intro exI [of _ fl] exI [of _ wd] exI [of _ pr] exI [of _ "[CHR ''l'', c]"]) (use f in simp)
  moreover have "length (CHR ''%'' # fl @ wd @ pr @ [CHR ''l'', c]) < MAX_FORMAT"
    using f by (auto simp: MAX_FORMAT_def FLAGS_def LUA_INTFRMLEN_def)
  ultimately show ?thesis unfolding addintlen_def e by (simp add: into_def)
qed

lemma into_item: "length s < 512 \<Longrightarrow> no_overrun (into MAX_ITEM s)"
  by (simp add: into_def MAX_ITEM_def)

lemma format_item_safe:
  assumes E: "sprintf_ok E" and f: "scanned c form"
  shows "no_overrun (format_item E c form args k)"
proof -
  note d = scanned_directive [OF f]
  have i: "no_overrun (into MAX_ITEM (sprintf_int E g j))" "no_overrun (into MAX_ITEM (sprintf_uns E g u))"
    "no_overrun (into MAX_ITEM (sprintf_dbl E g x))"
    "length s < 100 \<or> CHR ''.'' \<in> set g \<Longrightarrow> no_overrun (into MAX_ITEM (sprintf_str E g s))"
    if "directive g" for g j u x s
    using E that unfolding sprintf_ok_def by (blast intro: into_item)+
  have num: "no_overrun (luaL_checknumber E args k)" by (rule no_overrun_ok [OF checknumber_ok])
  have str: "no_overrun (luaL_checklstring E args k)" by (rule no_overrun_ok [OF checklstring_ok])
  have long: "no_overrun (addintlen form)" "addintlen form = Inr g \<Longrightarrow> directive g" if "c \<noteq> CHR 0x00" for g
    using addintlen_ok [OF f that] by (auto intro: no_overrun_ok)
  have short: "length (c_str s) < 100 \<or> CHR ''.'' \<in> set form" if "\<not> (CHR ''.'' \<notin> set form \<and> 100 \<le> length s)" for s
    using that length_takeWhile_le [of "\<lambda>c. c \<noteq> CHR 0x00" s] by (auto simp: c_str_def)
  have nonul: "c \<noteq> CHR 0x00" if "c \<in> set ''di'' \<or> c \<in> set ''ouxX''" using that by auto
  show ?thesis unfolding format_item_def addquoted_def
    by (intro no_overrun_if no_overrun_bind num str no_overrun_cast i(1-3) d no_overrun_simps)
      (use nonul long(2) short d in \<open>auto intro!: i long(1)\<close>)
qed

text \<open>C35: Formatting never overruns its buffers: the directive always fits \<open>MAX_FORMAT\<close> bytes, the
  length modifier included, and an item fits \<open>MAX_ITEM\<close> bytes - for every format string and all
  arguments.\<close>

theorem format_is_safe:
  assumes "sprintf_ok E"
  shows "str_format E args \<noteq> Inl (LuaFault OutOfBounds)"
proof -
  have loop: "no_overrun (format_loop E fmt args i k b)" for fmt i k b
  proof (induction "length fmt - i" arbitrary: i k b rule: less_induct)
    case less
    show ?case
    proof (cases "i < length fmt \<and> fmt ! i = L_ESC \<and> \<not> (i + 1 < length fmt \<and> fmt ! (i + 1) = L_ESC)")
      case True
      define t where "t = drop (i + 1) fmt"
      have step: "format_loop E fmt args i k b = bindR (scanformat t) (\<lambda>(p, form). bindR
          (format_item E (if i + 1 + p < length fmt then fmt ! (i + 1 + p) else CHR 0x00) form args (k + 1)) (\<lambda>s.
           format_loop E fmt args (i + 1 + p + 1) (k + 1) (b @ s)))"
        unfolding format_loop.simps [of E fmt args i k b] t_def Let_def using True
        by (elim conjE) (simp only: not_True_eq_False if_False if_True simp_thms)
      show ?thesis unfolding step
      proof (rule no_overrun_bind [OF no_overrun_ok [OF scanformat_ok]])
        fix r assume r: "scanformat t = Inr r"
        obtain p form where pf: "r = (p, form)" by fastforce
        have "scanned (if p < length t then t ! p else CHR 0x00) form" using lua_ok_D [OF scanformat_ok r] pf by simp
        moreover have "(if p < length t then t ! p else CHR 0x00) = (if i + 1 + p < length fmt then fmt ! (i + 1 + p) else CHR 0x00)"
          by (auto simp: t_def)
        ultimately have sc: "scanned (if i + 1 + p < length fmt then fmt ! (i + 1 + p) else CHR 0x00) form" by simp
        show "no_overrun (case r of (p, form) \<Rightarrow> bindR
            (format_item E (if i + 1 + p < length fmt then fmt ! (i + 1 + p) else CHR 0x00) form args (k + 1)) (\<lambda>s.
             format_loop E fmt args (i + 1 + p + 1) (k + 1) (b @ s)))"
          unfolding pf prod.case
          by (rule no_overrun_bind [OF format_item_safe [OF assms sc]], rule less.hyps) (use True in linarith)
      qed
    next
      case False
      then show ?thesis using less by (subst format_loop.simps) auto
    qed
  qed
  have "no_overrun (str_format E args)" unfolding str_format_def
    by (intro no_overrun_bind no_overrun_ok [OF checklstring_ok] loop) simp
  then show ?thesis by (simp add: no_overrun_def)
qed

definition test_fmt :: fmtenv where
  "test_fmt = luaenv.extend test_env \<lparr>sprintf_int = \<lambda>f i. ''-7'', sprintf_uns = \<lambda>f i. ''7'', sprintf_dbl = \<lambda>f x. ''7.0'',
     sprintf_str = \<lambda>f s. take 99 s\<rparr>"

theorem format_is_safe_witness:
  "str_format test_fmt [LStr ''%-+ #099.99d'', LNum (cast_num 3)] \<noteq> Inl (LuaFault OutOfBounds)"
  by (rule format_is_safe) (auto simp: sprintf_ok_def test_fmt_def luaenv.defs min_def)

end
