(* ===== verification/Lua_Lex.thy ===== *)
theory Lua_Lex
  imports Lua_Zio Lua_Lval
begin

text \<open>
  The lexical analyser (\<open>lua/llex.c\<close>): from the bytes of a stream to tokens. \<open>rd\<close> is the reader of the
  stream; the current character is \<open>None\<close> at its end. The buffer is the list of the saved bytes and its
  capacity. A string of the source is given as its bytes, a reserved word by its place in the list.

  Loops take the number of rounds they may make; one more than the bytes that are left is enough, as
  \<open>Lua_Lex_Props\<close> shows.
\<close>

subsection \<open>Tokens and state\<close>

definition FIRST_RESERVED :: int where "FIRST_RESERVED = 257"
definition NUM_RESERVED :: nat where "NUM_RESERVED = 21"

definition luaX_tokens :: "string list" where
  "luaX_tokens = [''and'', ''break'', ''do'', ''else'', ''elseif'', ''end'', ''false'', ''for'', ''function'', ''if'',
     ''in'', ''local'', ''nil'', ''not'', ''or'', ''repeat'', ''return'', ''then'', ''true'', ''until'', ''while'',
     ''..'', ''...'', ''=='', ''>='', ''<='', ''~='', ''<number>'', ''<name>'', ''<string>'', ''<eof>'']"

definition TK_CONCAT :: int where "TK_CONCAT = FIRST_RESERVED + 21"
definition TK_DOTS :: int where "TK_DOTS = FIRST_RESERVED + 22"
definition TK_EQ :: int where "TK_EQ = FIRST_RESERVED + 23"
definition TK_GE :: int where "TK_GE = FIRST_RESERVED + 24"
definition TK_LE :: int where "TK_LE = FIRST_RESERVED + 25"
definition TK_NE :: int where "TK_NE = FIRST_RESERVED + 26"
definition TK_NUMBER :: int where "TK_NUMBER = FIRST_RESERVED + 27"
definition TK_NAME :: int where "TK_NAME = FIRST_RESERVED + 28"
definition TK_STRING :: int where "TK_STRING = FIRST_RESERVED + 29"
definition TK_EOS :: int where "TK_EOS = FIRST_RESERVED + 30"

lemmas token_defs = TK_CONCAT_def TK_DOTS_def TK_EQ_def TK_GE_def TK_LE_def TK_NE_def TK_NUMBER_def TK_NAME_def
  TK_STRING_def TK_EOS_def FIRST_RESERVED_def

datatype seminfo = NoInfo | SNum dbl | SStr string

type_synonym token = "int \<times> seminfo"

record 'd lexstate =
  ls_current :: "char option"
  ls_linenumber :: int
  ls_lastline :: int
  ls_t :: token
  ls_lookahead :: token
  ls_z :: "'d zio"
  ls_buff :: string
  ls_buffsize :: nat
  ls_source :: string
  ls_decpoint :: char

text \<open>Besides the configuration: \<open>localeconv()->decimal_point[0]\<close>, and the value of
  \<open>LUA_COMPAT_LSTR\<close> (0 where it is not defined).\<close>

record lexconf = luaconf +
  decimal_point :: char
  compat_lstr :: nat

definition MAXSRC :: size_t where "MAXSRC = 80"
definition MAX_INT :: int where "MAX_INT = 2 ^ 31 - 3"
definition MAX_SIZET :: nat where "MAX_SIZET = 2 ^ 32 - 3"

definition isnl :: "char option \<Rightarrow> bool" where
  "isnl c = (c = Some (CHR 0x0A) \<or> c = Some (CHR 0x0D))"

definition cur :: "(char \<Rightarrow> bool) \<Rightarrow> 'd lexstate \<Rightarrow> bool" where
  "cur P ls = (case ls_current ls of None \<Rightarrow> False | Some c \<Rightarrow> P c)"

definition nextc :: "'d lua_Reader \<Rightarrow> 'd lexstate \<Rightarrow> 'd lexstate" where
  "nextc rd ls = (case zgetc rd (ls_z ls) of (c, z) \<Rightarrow> ls\<lparr>ls_current := c, ls_z := z\<rparr>)"

definition resetbuffer :: "'d lexstate \<Rightarrow> 'd lexstate" where
  "resetbuffer ls = ls\<lparr>ls_buff := []\<rparr>"

subsection \<open>Errors and the buffer\<close>

text \<open>\<open>luaX_lexerror\<close> without a token.\<close>

definition lexmsg :: "'a luaconf_scheme \<Rightarrow> 'd lexstate \<Rightarrow> string \<Rightarrow> string lres" where
  "lexmsg C ls msg = (case luaO_chunkid (ls_source ls) MAXSRC of Inl e \<Rightarrow> Inl (LuaFault e)
     | Inr buff \<Rightarrow> Inr (buff @ '':'' @ number2str C (cast_num (ls_linenumber ls)) @ '': '' @ msg))"

definition save :: "'a luaconf_scheme \<Rightarrow> char \<Rightarrow> 'd lexstate \<Rightarrow> 'd lexstate lres" where
  "save C c ls = (if ls_buffsize ls < length (ls_buff ls) + 1
     then if MAX_SIZET div 2 \<le> ls_buffsize ls
       then bindR (lexmsg C ls ''lexical element too long'') (\<lambda>m. Inl (LuaErr m))
       else Inr (ls\<lparr>ls_buff := ls_buff ls @ [c], ls_buffsize := ls_buffsize ls * 2\<rparr>)
     else Inr (ls\<lparr>ls_buff := ls_buff ls @ [c]\<rparr>))"

definition luaX_token2str :: "'a luaconf_scheme \<Rightarrow> int \<Rightarrow> string" where
  "luaX_token2str C token = (if token < FIRST_RESERVED
     then let c = char_of (nat token) in
       if iscntrl_c c then ''char('' @ number2str C (cast_num token) @ '')'' else [c]
     else luaX_tokens ! nat (token - FIRST_RESERVED))"

definition txtToken :: "'a luaconf_scheme \<Rightarrow> 'd lexstate \<Rightarrow> int \<Rightarrow> string lres" where
  "txtToken C ls token = (if token = TK_NAME \<or> token = TK_STRING \<or> token = TK_NUMBER
     then bindR (save C (CHR 0x00) ls) (\<lambda>ls. Inr (c_str (ls_buff ls)))
     else Inr (luaX_token2str C token))"

definition luaX_lexerror :: "'a luaconf_scheme \<Rightarrow> 'd lexstate \<Rightarrow> string \<Rightarrow> int \<Rightarrow> 'x lres" where
  "luaX_lexerror C ls msg token = bindR (lexmsg C ls msg) (\<lambda>m.
     if token \<noteq> 0 then bindR (txtToken C ls token) (\<lambda>t. Inl (LuaErr (m @ '' near '' @ LUA_QS t)))
     else Inl (LuaErr m))"

definition luaX_syntaxerror :: "'a luaconf_scheme \<Rightarrow> 'd lexstate \<Rightarrow> string \<Rightarrow> 'x lres" where
  "luaX_syntaxerror C ls msg = luaX_lexerror C ls msg (fst (ls_t ls))"

text \<open>Only called with a current character.\<close>

definition save_and_next :: "'a luaconf_scheme \<Rightarrow> 'd lua_Reader \<Rightarrow> 'd lexstate \<Rightarrow> 'd lexstate lres" where
  "save_and_next C rd ls = (case ls_current ls of
     None \<Rightarrow> bindR (save C (CHR 0xFF) ls) (\<lambda>ls. Inr (nextc rd ls))
   | Some c \<Rightarrow> bindR (save C c ls) (\<lambda>ls. Inr (nextc rd ls)))"

primrec save_while :: "nat \<Rightarrow> 'a luaconf_scheme \<Rightarrow> 'd lua_Reader \<Rightarrow> (char \<Rightarrow> bool) \<Rightarrow> 'd lexstate \<Rightarrow> 'd lexstate lres" where
  "save_while 0 C rd P ls = Inl (LuaFault OutOfFuel)"
| "save_while (Suc n) C rd P ls = (if cur P ls then bindR (save_and_next C rd ls) (save_while n C rd P) else Inr ls)"

definition inclinenumber :: "'a luaconf_scheme \<Rightarrow> 'd lua_Reader \<Rightarrow> 'd lexstate \<Rightarrow> 'd lexstate lres" where
  "inclinenumber C rd ls = (let old = ls_current ls; ls = nextc rd ls;
     ls = (if isnl (ls_current ls) \<and> ls_current ls \<noteq> old then nextc rd ls else ls);
     ls = ls\<lparr>ls_linenumber := ls_linenumber ls + 1\<rparr> in
     if MAX_INT \<le> ls_linenumber ls then luaX_syntaxerror C ls ''chunk has too many lines'' else Inr ls)"

definition luaX_setinput :: "'d lua_Reader \<Rightarrow> 'd zio \<Rightarrow> string \<Rightarrow> 'd lexstate" where
  "luaX_setinput rd z src = nextc rd \<lparr>ls_current = None, ls_linenumber = 1, ls_lastline = 1,
     ls_t = (0, NoInfo), ls_lookahead = (TK_EOS, NoInfo), ls_z = z, ls_buff = [], ls_buffsize = LUA_MINBUFFER,
     ls_source = src, ls_decpoint = CHR ''.''\<rparr>"

subsection \<open>Numbers\<close>

text \<open>\<open>strchr\<close> finds the terminator of its set, so a zero byte is in every set.\<close>

definition check_next :: "'a luaconf_scheme \<Rightarrow> 'd lua_Reader \<Rightarrow> string \<Rightarrow> 'd lexstate \<Rightarrow> ('d lexstate \<times> bool) lres" where
  "check_next C rd cs ls = (if cur (\<lambda>c. c = CHR 0x00 \<or> c \<in> set cs) ls
     then bindR (save_and_next C rd ls) (\<lambda>ls. Inr (ls, True)) else Inr (ls, False))"

definition buffreplace :: "char \<Rightarrow> char \<Rightarrow> 'd lexstate \<Rightarrow> 'd lexstate" where
  "buffreplace c d ls = ls\<lparr>ls_buff := map (\<lambda>x. if x = c then d else x) (ls_buff ls)\<rparr>"

definition trydecpoint :: "'a lexconf_scheme \<Rightarrow> 'd lexstate \<Rightarrow> ('d lexstate \<times> dbl) lres" where
  "trydecpoint C ls = (let old = ls_decpoint ls; ls = ls\<lparr>ls_decpoint := decimal_point C\<rparr>;
     ls = buffreplace old (ls_decpoint ls) ls in
     case luaO_str2d C (ls_buff ls) of
       Some r \<Rightarrow> Inr (ls, r)
     | None \<Rightarrow> luaX_lexerror C (buffreplace (ls_decpoint ls) (CHR ''.'') ls) ''malformed number'' TK_NUMBER)"

definition read_numeral :: "nat \<Rightarrow> 'a lexconf_scheme \<Rightarrow> 'd lua_Reader \<Rightarrow> 'd lexstate \<Rightarrow> ('d lexstate \<times> dbl) lres" where
  "read_numeral n C rd ls =
     bindR (save_and_next C rd ls) (\<lambda>ls.
     bindR (save_while n C rd (\<lambda>c. isdigit_c c \<or> c = CHR ''.'') ls) (\<lambda>ls.
     bindR (check_next C rd ''Ee'' ls) (\<lambda>(ls, e).
     bindR (if e then check_next C rd ''+-'' ls else Inr (ls, False)) (\<lambda>(ls, _).
     bindR (save_while n C rd (\<lambda>c. isalnum_c c \<or> c = CHR ''_'') ls) (\<lambda>ls.
     bindR (save C (CHR 0x00) ls) (\<lambda>ls. let ls = buffreplace (CHR ''.'') (ls_decpoint ls) ls in
       case luaO_str2d C (ls_buff ls) of Some r \<Rightarrow> Inr (ls, r) | None \<Rightarrow> trydecpoint C ls))))))"

subsection \<open>Strings\<close>

primrec count_eqs :: "nat \<Rightarrow> 'a luaconf_scheme \<Rightarrow> 'd lua_Reader \<Rightarrow> int \<Rightarrow> 'd lexstate \<Rightarrow> ('d lexstate \<times> int) lres" where
  "count_eqs 0 C rd count ls = Inl (LuaFault OutOfFuel)"
| "count_eqs (Suc n) C rd count ls = (if ls_current ls = Some (CHR ''='')
     then bindR (save_and_next C rd ls) (count_eqs n C rd (count + 1)) else Inr (ls, count))"

definition skip_sep :: "nat \<Rightarrow> 'a luaconf_scheme \<Rightarrow> 'd lua_Reader \<Rightarrow> 'd lexstate \<Rightarrow> ('d lexstate \<times> int) lres" where
  "skip_sep n C rd ls = (let s = ls_current ls in
     bindR (save_and_next C rd ls) (\<lambda>ls. bindR (count_eqs n C rd 0 ls) (\<lambda>(ls, count).
       Inr (ls, if ls_current ls = s then count else - count - 1))))"

text \<open>\<open>keep\<close>: a string, not a comment. \<open>cont\<close> counts the nested brackets of the old syntax.\<close>

primrec long_loop :: "nat \<Rightarrow> 'a lexconf_scheme \<Rightarrow> 'd lua_Reader \<Rightarrow> bool \<Rightarrow> int \<Rightarrow> int \<Rightarrow> 'd lexstate \<Rightarrow> 'd lexstate lres" where
  "long_loop 0 C rd keep sep cont ls = Inl (LuaFault OutOfFuel)"
| "long_loop (Suc n) C rd keep sep cont ls = (case ls_current ls of
     None \<Rightarrow> luaX_lexerror C ls (if keep then ''unfinished long string'' else ''unfinished long comment'') TK_EOS
   | Some c \<Rightarrow>
     if c = CHR ''['' \<and> compat_lstr C \<noteq> 0 then
       bindR (skip_sep n C rd ls) (\<lambda>(ls, k). if k = sep
         then bindR (save_and_next C rd ls) (\<lambda>ls.
           if compat_lstr C = 1 \<and> sep = 0 then luaX_lexerror C ls ''nesting of [[...]] is deprecated'' (of_char (CHR ''[''))
           else long_loop n C rd keep sep (cont + 1) ls)
         else long_loop n C rd keep sep cont ls)
     else if c = CHR '']'' then
       bindR (skip_sep n C rd ls) (\<lambda>(ls, k). if k = sep
         then bindR (save_and_next C rd ls) (\<lambda>ls.
           if compat_lstr C = 2 \<and> sep = 0 \<and> 0 \<le> cont - 1 then long_loop n C rd keep sep (cont - 1) ls
           else Inr ls)
         else long_loop n C rd keep sep cont ls)
     else if isnl (Some c) then
       bindR (save C (CHR 0x0A) ls) (\<lambda>ls. bindR (inclinenumber C rd ls) (\<lambda>ls.
         long_loop n C rd keep sep cont (if keep then ls else resetbuffer ls)))
     else if keep then bindR (save_and_next C rd ls) (long_loop n C rd keep sep cont)
     else long_loop n C rd keep sep cont (nextc rd ls))"

definition read_long_string :: "nat \<Rightarrow> 'a lexconf_scheme \<Rightarrow> 'd lua_Reader \<Rightarrow> bool \<Rightarrow> int \<Rightarrow> 'd lexstate \<Rightarrow> ('d lexstate \<times> string) lres" where
  "read_long_string n C rd keep sep ls =
     bindR (save_and_next C rd ls) (\<lambda>ls.
     bindR (if isnl (ls_current ls) then inclinenumber C rd ls else Inr ls) (\<lambda>ls.
     bindR (long_loop n C rd keep sep 0 ls) (\<lambda>ls. let k = nat (2 + sep) in
       Inr (ls, if keep then take (length (ls_buff ls) - 2 * k) (drop k (ls_buff ls)) else []))))"

text \<open>Up to \<open>k\<close> decimal digits.\<close>

primrec decimal :: "nat \<Rightarrow> 'd lua_Reader \<Rightarrow> nat \<Rightarrow> 'd lexstate \<Rightarrow> 'd lexstate \<times> nat" where
  "decimal 0 rd c ls = (ls, c)"
| "decimal (Suc k) rd c ls = (case ls_current ls of None \<Rightarrow> (ls, c)
     | Some d \<Rightarrow> if isdigit_c d then decimal k rd (10 * c + (char_val d - 48)) (nextc rd ls) else (ls, c))"

definition simple_escape :: "char \<Rightarrow> char option" where
  "simple_escape c = (if c = CHR ''a'' then Some (CHR 0x07) else if c = CHR ''b'' then Some (CHR 0x08)
     else if c = CHR ''f'' then Some (CHR 0x0C) else if c = CHR ''n'' then Some (CHR 0x0A)
     else if c = CHR ''r'' then Some (CHR 0x0D) else if c = CHR ''t'' then Some (CHR 0x09)
     else if c = CHR ''v'' then Some (CHR 0x0B) else None)"

text \<open>After a backslash.\<close>

definition read_escape :: "'a luaconf_scheme \<Rightarrow> 'd lua_Reader \<Rightarrow> 'd lexstate \<Rightarrow> 'd lexstate lres" where
  "read_escape C rd ls = (let ls = nextc rd ls in case ls_current ls of
     None \<Rightarrow> Inr ls
   | Some e \<Rightarrow> (case simple_escape e of
       Some c \<Rightarrow> bindR (save C c ls) (\<lambda>ls. Inr (nextc rd ls))
     | None \<Rightarrow>
       if isnl (Some e) then bindR (save C (CHR 0x0A) ls) (inclinenumber C rd)
       else if \<not> isdigit_c e then save_and_next C rd ls
       else (case decimal 3 rd 0 ls of (ls, c) \<Rightarrow>
         if 255 < c then luaX_lexerror C ls ''escape sequence too large'' TK_STRING
         else save C (char_of c) ls)))"

primrec string_loop :: "nat \<Rightarrow> 'a luaconf_scheme \<Rightarrow> 'd lua_Reader \<Rightarrow> char \<Rightarrow> 'd lexstate \<Rightarrow> 'd lexstate lres" where
  "string_loop 0 C rd del ls = Inl (LuaFault OutOfFuel)"
| "string_loop (Suc n) C rd del ls = (case ls_current ls of
     None \<Rightarrow> luaX_lexerror C ls ''unfinished string'' TK_EOS
   | Some c \<Rightarrow>
     if c = del then Inr ls
     else if isnl (Some c) then luaX_lexerror C ls ''unfinished string'' TK_STRING
     else if c = CHR 0x5C then bindR (read_escape C rd ls) (string_loop n C rd del)
     else bindR (save_and_next C rd ls) (string_loop n C rd del))"

definition read_string :: "nat \<Rightarrow> 'a luaconf_scheme \<Rightarrow> 'd lua_Reader \<Rightarrow> char \<Rightarrow> 'd lexstate \<Rightarrow> ('d lexstate \<times> string) lres" where
  "read_string n C rd del ls =
     bindR (save_and_next C rd ls) (\<lambda>ls.
     bindR (string_loop n C rd del ls) (\<lambda>ls.
     bindR (save_and_next C rd ls) (\<lambda>ls.
       Inr (ls, take (length (ls_buff ls) - 2) (drop 1 (ls_buff ls))))))"

subsection \<open>Tokens\<close>

primrec skip_line :: "nat \<Rightarrow> 'd lua_Reader \<Rightarrow> 'd lexstate \<Rightarrow> 'd lexstate lres" where
  "skip_line 0 rd ls = Inl (LuaFault OutOfFuel)"
| "skip_line (Suc n) rd ls = (if \<not> isnl (ls_current ls) \<and> ls_current ls \<noteq> None then skip_line n rd (nextc rd ls) else Inr ls)"

text \<open>After two dashes.\<close>

definition skip_comment :: "nat \<Rightarrow> 'a lexconf_scheme \<Rightarrow> 'd lua_Reader \<Rightarrow> 'd lexstate \<Rightarrow> 'd lexstate lres" where
  "skip_comment n C rd ls = (if ls_current ls = Some (CHR ''['')
     then bindR (skip_sep n C rd ls) (\<lambda>(ls, sep). let ls = resetbuffer ls in
       if 0 \<le> sep then bindR (read_long_string n C rd False sep ls) (\<lambda>(ls, _). Inr (resetbuffer ls))
       else skip_line n rd ls)
     else skip_line n rd ls)"

text \<open>The place of a word among the reserved ones.\<close>

definition reserved :: "string \<Rightarrow> nat option" where
  "reserved s = (case filter (\<lambda>i. luaX_tokens ! i = s) [0 ..< NUM_RESERVED] of [] \<Rightarrow> None | i # _ \<Rightarrow> Some i)"

definition one_or_two :: "'d lua_Reader \<Rightarrow> char \<Rightarrow> int \<Rightarrow> 'd lexstate \<Rightarrow> 'd lexstate \<times> token" where
  "one_or_two rd c two ls = (let ls = nextc rd ls in
     if ls_current ls \<noteq> Some (CHR ''='') then (ls, (of_char c, NoInfo)) else (nextc rd ls, (two, NoInfo)))"

definition read_dots :: "nat \<Rightarrow> 'a lexconf_scheme \<Rightarrow> 'd lua_Reader \<Rightarrow> 'd lexstate \<Rightarrow> ('d lexstate \<times> token) lres" where
  "read_dots n C rd ls =
     bindR (save_and_next C rd ls) (\<lambda>ls.
     bindR (check_next C rd ''.'' ls) (\<lambda>(ls, d).
     if d then bindR (check_next C rd ''.'' ls) (\<lambda>(ls, d). Inr (ls, (if d then TK_DOTS else TK_CONCAT, NoInfo)))
     else if \<not> cur isdigit_c ls then Inr (ls, (of_char (CHR ''.''), NoInfo))
     else bindR (read_numeral n C rd ls) (\<lambda>(ls, r). Inr (ls, (TK_NUMBER, SNum r)))))"

definition read_name :: "nat \<Rightarrow> 'a lexconf_scheme \<Rightarrow> 'd lua_Reader \<Rightarrow> 'd lexstate \<Rightarrow> ('d lexstate \<times> token) lres" where
  "read_name n C rd ls =
     bindR (save_and_next C rd ls) (\<lambda>ls.
     bindR (save_while n C rd (\<lambda>c. isalnum_c c \<or> c = CHR ''_'') ls) (\<lambda>ls. let ts = ls_buff ls in
       Inr (ls, case reserved ts of Some i \<Rightarrow> (int i + FIRST_RESERVED, NoInfo) | None \<Rightarrow> (TK_NAME, SStr ts))))"

definition read_bracket :: "nat \<Rightarrow> 'a lexconf_scheme \<Rightarrow> 'd lua_Reader \<Rightarrow> 'd lexstate \<Rightarrow> ('d lexstate \<times> token) lres" where
  "read_bracket n C rd ls = bindR (skip_sep n C rd ls) (\<lambda>(ls, sep).
     if 0 \<le> sep then bindR (read_long_string n C rd True sep ls) (\<lambda>(ls, s). Inr (ls, (TK_STRING, SStr s)))
     else if sep = - 1 then Inr (ls, (of_char (CHR ''[''), NoInfo))
     else luaX_lexerror C ls ''invalid long string delimiter'' TK_STRING)"

primrec llex_loop :: "nat \<Rightarrow> 'a lexconf_scheme \<Rightarrow> 'd lua_Reader \<Rightarrow> 'd lexstate \<Rightarrow> ('d lexstate \<times> token) lres" where
  "llex_loop 0 C rd ls = Inl (LuaFault OutOfFuel)"
| "llex_loop (Suc n) C rd ls = (case ls_current ls of
     None \<Rightarrow> Inr (ls, (TK_EOS, NoInfo))
   | Some c \<Rightarrow>
     if isnl (Some c) then bindR (inclinenumber C rd ls) (llex_loop n C rd)
     else if c = CHR ''-'' then (let ls = nextc rd ls in
       if ls_current ls \<noteq> Some (CHR ''-'') then Inr (ls, (of_char (CHR ''-''), NoInfo))
       else bindR (skip_comment n C rd (nextc rd ls)) (llex_loop n C rd))
     else if c = CHR ''['' then read_bracket n C rd ls
     else if c = CHR ''='' then Inr (one_or_two rd c TK_EQ ls)
     else if c = CHR ''<'' then Inr (one_or_two rd c TK_LE ls)
     else if c = CHR ''>'' then Inr (one_or_two rd c TK_GE ls)
     else if c = CHR ''~'' then Inr (one_or_two rd c TK_NE ls)
     else if c = CHR 0x22 \<or> c = CHR 0x27 then
       bindR (read_string n C rd c ls) (\<lambda>(ls, s). Inr (ls, (TK_STRING, SStr s)))
     else if c = CHR ''.'' then read_dots n C rd ls
     else if isspace_c c then llex_loop n C rd (nextc rd ls)
     else if isdigit_c c then bindR (read_numeral n C rd ls) (\<lambda>(ls, r). Inr (ls, (TK_NUMBER, SNum r)))
     else if isalpha_c c \<or> c = CHR ''_'' then read_name n C rd ls
     else Inr (nextc rd ls, (of_char c, NoInfo)))"

definition llex :: "nat \<Rightarrow> 'a lexconf_scheme \<Rightarrow> 'd lua_Reader \<Rightarrow> 'd lexstate \<Rightarrow> ('d lexstate \<times> token) lres" where
  "llex n C rd ls = llex_loop n C rd (resetbuffer ls)"

definition luaX_next :: "nat \<Rightarrow> 'a lexconf_scheme \<Rightarrow> 'd lua_Reader \<Rightarrow> 'd lexstate \<Rightarrow> 'd lexstate lres" where
  "luaX_next n C rd ls = (let ls = ls\<lparr>ls_lastline := ls_linenumber ls\<rparr> in
     if fst (ls_lookahead ls) \<noteq> TK_EOS then Inr (ls\<lparr>ls_t := ls_lookahead ls, ls_lookahead := (TK_EOS, snd (ls_lookahead ls))\<rparr>)
     else bindR (llex n C rd ls) (\<lambda>(ls, t). Inr (ls\<lparr>ls_t := t\<rparr>)))"

definition luaX_lookahead :: "nat \<Rightarrow> 'a lexconf_scheme \<Rightarrow> 'd lua_Reader \<Rightarrow> 'd lexstate \<Rightarrow> 'd lexstate lres" where
  "luaX_lookahead n C rd ls = (if fst (ls_lookahead ls) \<noteq> TK_EOS then Inl (LuaFault AssertFail)
     else bindR (llex n C rd ls) (\<lambda>(ls, t). Inr (ls\<lparr>ls_lookahead := t\<rparr>)))"

end
