(* ===== verification/Lua_Lex_Props.thy ===== *)
theory Lua_Lex_Props
  imports Lua_Lex
begin

text \<open>
  The lexical analyser ends on every stream: each loop takes bytes off it, so one round more than there
  are bytes is enough, and the outcome is a token or an error message.
\<close>

lemma lexmsg_ok: "lua_ok (\<lambda>m. True) (lexmsg C ls msg)"
  using chunkid_in_buffer [of MAXSRC "ls_source ls"] by (auto simp: lexmsg_def MAXSRC_def)

lemma lexmsg_Inr: "\<exists>m. lexmsg C ls msg = Inr m"
  using chunkid_in_buffer [of MAXSRC "ls_source ls"] by (auto simp: lexmsg_def MAXSRC_def)

lemma save_fields: "lua_ok (\<lambda>ls'. \<exists>sz. ls' = ls\<lparr>ls_buff := ls_buff ls @ [c], ls_buffsize := sz\<rparr>) (save C c ls)"
  using lexmsg_Inr [of C ls "''lexical element too long''"] by (auto simp: save_def intro: exI [of _ "ls_buffsize ls"])

lemma lexerror_ok: "lua_ok P (luaX_lexerror C ls msg token)"
  using lexmsg_Inr [of C ls msg] save_fields [of ls "CHR 0x00" C]
  by (auto simp: luaX_lexerror_def txtToken_def bindR_assoc split: if_splits
      intro!: lua_ok_bind [where Q = "\<lambda>_. True"] elim: lua_ok_mono)

lemma save_room:
  "length (ls_buff ls) < 2 ^ 30 \<Longrightarrow> \<exists>sz. save C c ls = Inr (ls\<lparr>ls_buff := ls_buff ls @ [c], ls_buffsize := sz\<rparr>)"
  by (auto simp: save_def MAX_SIZET_def intro: exI [of _ "ls_buffsize ls"])

context reader
begin

text \<open>The bytes that are left, the current one first.\<close>

definition left :: "'d lexstate \<Rightarrow> string" where
  "left ls = (case ls_current ls of None \<Rightarrow> [] | Some c \<Rightarrow> c # bytes_of (ls_z ls))"

definition lex_inv :: "'d lexstate \<Rightarrow> bool" where
  "lex_inv ls = (ls_current ls = None \<longrightarrow> bytes_of (ls_z ls) = [])"

lemma nextc_left:
  assumes "lex_inv ls"
  shows "left (nextc rd ls) = tl (left ls)" "lex_inv (nextc rd ls)"
    "\<exists>c z. nextc rd ls = ls\<lparr>ls_current := c, ls_z := z\<rparr>"
proof -
  obtain c z where "zgetc rd (ls_z ls) = (c, z)" by fastforce
  with zgetc_bytes [OF this] assms
  show "left (nextc rd ls) = tl (left ls)" "lex_inv (nextc rd ls)" "\<exists>c z. nextc rd ls = ls\<lparr>ls_current := c, ls_z := z\<rparr>"
    by (auto simp: nextc_def left_def lex_inv_def split: option.splits)
qed

text \<open>At least \<open>k\<close> bytes have been taken, and nothing is known ahead that was not before.\<close>

definition took :: "nat \<Rightarrow> 'd lexstate \<Rightarrow> 'd lexstate \<Rightarrow> bool" where
  "took k ls ls' = (lex_inv ls' \<and> length (left ls') + k \<le> length (left ls) \<and> ls_lookahead ls' = ls_lookahead ls)"

lemma took_refl: "lex_inv ls \<Longrightarrow> took 0 ls ls"
  by (simp add: took_def)

lemma took_trans: "took k ls ls' \<Longrightarrow> took m ls' ls'' \<Longrightarrow> took (k + m) ls ls''"
  by (simp add: took_def)

lemma took_weaken: "took k ls ls' \<Longrightarrow> m \<le> k \<Longrightarrow> took m ls ls'"
  by (simp add: took_def)

lemma took_inv: "took k ls ls' \<Longrightarrow> lex_inv ls'"
  by (simp add: took_def)

lemma took_next: "lex_inv ls \<Longrightarrow> took (if ls_current ls = None then 0 else Suc 0) ls (nextc rd ls)"
  using nextc_left [of ls] by (cases "ls_current ls") (auto simp: took_def left_def)

lemma took_next1: "lex_inv ls \<Longrightarrow> ls_current ls = Some c \<Longrightarrow> took (Suc 0) ls (nextc rd ls)"
  using took_next by fastforce

lemma took_next0: "lex_inv ls \<Longrightarrow> took 0 ls (nextc rd ls)"
  by (rule took_weaken [OF took_next]) simp_all

lemma took_fields [simp]:
  "took k ls (ls'\<lparr>ls_buff := b\<rparr>) = took k ls ls'" "took k (ls\<lparr>ls_buff := b\<rparr>) ls' = took k ls ls'"
  "took k ls (ls'\<lparr>ls_buffsize := sz\<rparr>) = took k ls ls'" "took k ls (ls'\<lparr>ls_linenumber := i\<rparr>) = took k ls ls'"
  "took k (ls\<lparr>ls_lastline := i\<rparr>) ls' = took k ls ls'" "took k ls (ls'\<lparr>ls_decpoint := d\<rparr>) = took k ls ls'"
  "took k ls (resetbuffer ls') = took k ls ls'" "took k (resetbuffer ls) ls' = took k ls ls'"
  "lex_inv (ls\<lparr>ls_buff := b\<rparr>) = lex_inv ls" "lex_inv (resetbuffer ls) = lex_inv ls" "left (resetbuffer ls) = left ls"
  "lex_inv (ls\<lparr>ls_lastline := i\<rparr>) = lex_inv ls" "left (ls\<lparr>ls_lastline := i\<rparr>) = left ls"
  by (simp_all add: took_def lex_inv_def left_def resetbuffer_def split: option.split)

text \<open>Sequencing: what follows starts from a state that took \<open>k\<close> bytes.\<close>

lemma took_bind:
  assumes "lua_ok (took k ls) m" "\<And>x. took k ls x \<Longrightarrow> lua_ok (took j x) (f x)"
  shows "lua_ok (took (k + j) ls) (bindR m f)"
  using assms took_trans by (fastforce intro!: lua_ok_bind elim!: lua_ok_mono)

lemma took_ok_weaken: "lua_ok (took k ls) m \<Longrightarrow> j \<le> k \<Longrightarrow> lua_ok (took j ls) m"
  by (erule lua_ok_mono) (rule took_weaken)

lemma took_left: "took k ls ls' \<Longrightarrow> length (left ls) < n + k \<Longrightarrow> length (left ls') < n"
  by (simp add: took_def)

lemma left_some: "lex_inv ls \<Longrightarrow> ls_current ls = Some c \<Longrightarrow> left ls \<noteq> []"
  by (simp add: left_def)

lemma save_took: "lex_inv ls \<Longrightarrow> lua_ok (\<lambda>ls'. took 0 ls ls' \<and> ls_current ls' = ls_current ls) (save C c ls)"
  by (rule lua_ok_mono [OF save_fields]) (auto simp: took_refl)

lemma save_and_next_took:
  assumes "lex_inv ls"
  shows "lua_ok (took (if ls_current ls = None then 0 else Suc 0) ls) (save_and_next C rd ls)"
proof -
  have "lua_ok (took (if ls_current ls = None then 0 else Suc 0) ls) (bindR (save C c ls) (\<lambda>ls. Inr (nextc rd ls)))" for c
  proof (rule lua_ok_bind [OF save_took [OF assms]])
    fix x assume "took 0 ls x \<and> ls_current x = ls_current ls"
    then show "lua_ok (took (if ls_current ls = None then 0 else Suc 0) ls) (Inr (nextc rd x))"
      using took_trans [OF _ took_next, of 0 ls x] took_inv by (auto split: if_splits)
  qed
  then show ?thesis unfolding save_and_next_def by (cases "ls_current ls") (simp_all only: option.case)
qed

lemma save_and_next_took0: "lex_inv ls \<Longrightarrow> lua_ok (took 0 ls) (save_and_next C rd ls)"
  by (rule took_ok_weaken [OF save_and_next_took]) simp_all

lemma save_and_next_took1: "lex_inv ls \<Longrightarrow> ls_current ls = Some c \<Longrightarrow> lua_ok (took (Suc 0) ls) (save_and_next C rd ls)"
  using save_and_next_took [of ls C] by simp

text \<open>A round of a loop takes a byte, so the other rounds are enough for the rest.\<close>

lemma took_loop:
  assumes "lua_ok (took (Suc 0) ls) m" "length (left ls) < Suc n"
    "\<And>x. lex_inv x \<Longrightarrow> length (left x) < n \<Longrightarrow> lua_ok (took 0 x) (f x)"
  shows "lua_ok (took 0 ls) (bindR m f)"
proof -
  have "lua_ok (took (Suc 0 + 0) ls) (bindR m f)"
  proof (rule took_bind [OF assms(1)])
    fix x assume x: "took (Suc 0) ls x"
    show "lua_ok (took 0 x) (f x)" by (rule assms(3) [OF took_inv [OF x]]) (use x assms(2) in \<open>simp add: took_def\<close>)
  qed
  then show ?thesis by (rule took_ok_weaken) simp
qed

lemma cur_some: "cur P ls \<Longrightarrow> \<exists>c. ls_current ls = Some c \<and> P c"
  by (simp add: cur_def split: option.splits)

lemma save_while_took: "lex_inv ls \<Longrightarrow> length (left ls) < n \<Longrightarrow> lua_ok (took 0 ls) (save_while n C rd P ls)"
proof (induction n arbitrary: ls)
  case (Suc n)
  show ?case
  proof (cases "cur P ls")
    case True
    then obtain c where "ls_current ls = Some c" using cur_some by blast
    from took_loop [OF save_and_next_took1 [OF Suc.prems(1) this] Suc.prems(2) Suc.IH] True show ?thesis by simp
  qed (use Suc.prems in \<open>simp add: took_refl\<close>)
qed simp

lemma inclinenumber_took:
  assumes "lex_inv ls" "ls_current ls = Some c"
  shows "lua_ok (took (Suc 0) ls) (inclinenumber C rd ls)"
proof -
  have 1: "took (Suc 0) ls (nextc rd ls)" by (rule took_next1 [OF assms])
  have "took (Suc 0 + 0) ls (nextc rd (nextc rd ls))" by (rule took_trans [OF 1 took_next0 [OF took_inv [OF 1]]])
  with 1 show ?thesis by (auto simp: inclinenumber_def Let_def luaX_syntaxerror_def lexerror_ok)
qed

text \<open>Sequences of steps, counted from where they began: \<open>b\<close>.\<close>

lemma base0: "took k b ls \<Longrightarrow> (lex_inv ls \<Longrightarrow> lua_ok (took 0 ls) m) \<Longrightarrow> lua_ok (took k b) m"
  using took_trans [of k b ls 0] took_inv [of k b ls] by (auto elim!: lua_ok_mono)

lemma base1: "took k b ls \<Longrightarrow> (lex_inv ls \<Longrightarrow> lua_ok (took (Suc 0) ls) m) \<Longrightarrow> lua_ok (took (Suc k) b) m"
  using took_trans [of k b ls "Suc 0"] took_inv [of k b ls] by (auto elim!: lua_ok_mono)

lemma b_save: "took k b ls \<Longrightarrow> lua_ok (took k b) (save C c ls)"
  by (erule base0) (erule lua_ok_mono [OF save_took], simp)

lemma b_san: "took k b ls \<Longrightarrow> lua_ok (took k b) (save_and_next C rd ls)"
  by (erule base0) (erule save_and_next_took0)

lemma b_san1: "took k b ls \<Longrightarrow> ls_current ls = Some c \<Longrightarrow> lua_ok (took (Suc k) b) (save_and_next C rd ls)"
  by (erule base1) (erule save_and_next_took1)

lemma b_next: "took k b ls \<Longrightarrow> took k b (nextc rd ls)"
  using took_trans [of k b ls 0, OF _ took_next0] took_inv [of k b ls] by simp

lemma b_next1: "took k b ls \<Longrightarrow> ls_current ls = Some c \<Longrightarrow> took (Suc k) b (nextc rd ls)"
  using took_trans [of k b ls "Suc 0", OF _ took_next1] took_inv [of k b ls] by simp

lemma b_while: "took k b ls \<Longrightarrow> length (left b) < n + k \<Longrightarrow> lua_ok (took k b) (save_while n C rd P ls)"
  by (frule took_left, assumption, erule base0) (rule save_while_took)

lemma b_inc: "took k b ls \<Longrightarrow> ls_current ls = Some c \<Longrightarrow> lua_ok (took (Suc k) b) (inclinenumber C rd ls)"
  by (erule base1) (erule inclinenumber_took)

lemma b_check: "took k b ls \<Longrightarrow> lua_ok (\<lambda>p. took k b (fst p)) (check_next C rd cs ls)"
  unfolding check_next_def by (auto intro!: lua_ok_bind [OF b_san])

lemmas lex_seq = lua_ok_bind [OF b_save] lua_ok_bind [OF b_san] lua_ok_bind [OF b_while] lua_ok_bind [OF b_check]

lemma buffreplace_took [simp]: "took k b (buffreplace c d ls) = took k b ls"
  by (simp add: buffreplace_def)

lemma b_numeral: "took k b ls \<Longrightarrow> length (left b) < n + Suc k \<Longrightarrow> ls_current ls = Some c \<Longrightarrow>
    lua_ok (\<lambda>p. took (Suc k) b (fst p)) (read_numeral n C rd ls)"
  unfolding read_numeral_def
  by (intro lua_ok_bind [OF b_san1]; auto simp: trydecpoint_def Let_def lexerror_ok split: option.splits intro!: lex_seq)

lemma lower: "lua_ok (took (Suc k) b) m \<Longrightarrow> lua_ok (took k b) m" "lua_ok (\<lambda>p. took (Suc k) b (fst p)) m' \<Longrightarrow> lua_ok (\<lambda>p. took k b (fst p)) m'"
  by (erule lua_ok_mono, simp add: took_def)+

lemma b_count: "took k b ls \<Longrightarrow> length (left b) < n + k \<Longrightarrow> lua_ok (\<lambda>p. took k b (fst p)) (count_eqs n C rd i ls)"
proof (induction n arbitrary: i ls k)
  case (Suc n)
  show ?case
  proof (cases "ls_current ls = Some (CHR ''='')")
    case True
    have "lua_ok (\<lambda>p. took k b (fst p)) (bindR (save_and_next C rd ls) (count_eqs n C rd (i + 1)))"
    proof (rule lua_ok_bind [OF b_san1 [OF Suc.prems(1) True]])
      fix x assume "took (Suc k) b x"
      then have "lua_ok (\<lambda>p. took (Suc k) b (fst p)) (count_eqs n C rd (i + 1) x)" using Suc by simp
      then show "lua_ok (\<lambda>p. took k b (fst p)) (count_eqs n C rd (i + 1) x)"
        by (rule lua_ok_mono) (erule took_weaken, simp)
    qed
    then show ?thesis using True by simp
  qed (use Suc.prems in simp)
qed (simp add: took_def)

lemma b_sep: "took k b ls \<Longrightarrow> length (left b) < n + Suc k \<Longrightarrow> ls_current ls = Some c \<Longrightarrow>
    lua_ok (\<lambda>p. took (Suc k) b (fst p)) (skip_sep n C rd ls)"
  unfolding skip_sep_def Let_def
  by (intro lua_ok_bind [OF b_san1] lua_ok_bind [OF b_count [where k = "Suc k"]]) (auto split: prod.splits)

lemma ok_if: "(c \<Longrightarrow> lua_ok P x) \<Longrightarrow> (\<not> c \<Longrightarrow> lua_ok P y) \<Longrightarrow> lua_ok P (if c then x else y)"
  by simp

lemma b_long:
  "took k b ls \<Longrightarrow> length (left b) < n + k \<Longrightarrow> lua_ok (took k b) (long_loop n C rd keep sep cont ls)"
proof (induction n arbitrary: ls k cont)
  case (Suc n)
  have rec: "lua_ok (took k b) (long_loop n C rd keep sep cont x)" if "took (Suc k) b x" for x cont
    by (rule lower, rule Suc.IH [OF that]) (use Suc.prems in simp)
  have more: "took (Suc k) b x \<Longrightarrow> took k b x" for x by (simp add: took_def)
  show ?case
  proof (cases "ls_current ls")
    case None
    then show ?thesis by (simp add: lexerror_ok)
  next
    case (Some c)
    have brackets: "lua_ok (took k b) (bindR (skip_sep n C rd ls) (\<lambda>(ls, q). if q = sep then bindR (save_and_next C rd ls) f
        else long_loop n C rd keep sep cont ls))"
      if f: "\<And>x. took (Suc k) b x \<Longrightarrow> lua_ok (took k b) (f x)" for f
      using Suc.prems Some rec f
      by (intro lua_ok_bind [OF b_sep [OF Suc.prems(1) _ Some]]) (auto intro!: lua_ok_bind [OF b_san] split: prod.splits)
    have b1: "lua_ok (took k b) (bindR (skip_sep n C rd ls) (\<lambda>(ls, q). if q = sep then bindR (save_and_next C rd ls) (\<lambda>ls.
           if compat_lstr C = 1 \<and> sep = 0 then luaX_lexerror C ls ''nesting of [[...]] is deprecated'' (of_char (CHR ''[''))
           else long_loop n C rd keep sep (cont + 1) ls) else long_loop n C rd keep sep cont ls))"
      by (rule brackets, intro ok_if lexerror_ok rec)
    have b2: "lua_ok (took k b) (bindR (skip_sep n C rd ls) (\<lambda>(ls, q). if q = sep then bindR (save_and_next C rd ls) (\<lambda>ls.
           if compat_lstr C = 2 \<and> sep = 0 \<and> 0 \<le> cont - 1 then long_loop n C rd keep sep (cont - 1) ls
           else Inr ls) else long_loop n C rd keep sep cont ls))"
      by (rule brackets, intro ok_if rec) (simp_all add: more)
    have nl: "lua_ok (took k b) (bindR (save C (CHR 0x0A) ls) (\<lambda>ls. bindR (inclinenumber C rd ls) (\<lambda>ls.
         long_loop n C rd keep sep cont (if keep then ls else resetbuffer ls))))"
    proof (rule lua_ok_bind [OF save_fields])
      fix x assume "\<exists>sz. x = ls\<lparr>ls_buff := ls_buff ls @ [CHR 0x0A], ls_buffsize := sz\<rparr>"
      then have "took k b x" "ls_current x = Some c" using Suc.prems Some by auto
      then show "lua_ok (took k b) (bindR (inclinenumber C rd x) (\<lambda>ls. long_loop n C rd keep sep cont (if keep then ls else resetbuffer ls)))"
        by (intro lua_ok_bind [OF b_inc] rec) auto
    qed
    have keeping: "lua_ok (took k b) (bindR (save_and_next C rd ls) (long_loop n C rd keep sep cont))"
      by (rule lua_ok_bind [OF b_san1 [OF Suc.prems(1) Some] rec])
    have skipping: "lua_ok (took k b) (long_loop n C rd keep sep cont (nextc rd ls))"
      by (rule rec [OF b_next1 [OF Suc.prems(1) Some]])
    show ?thesis unfolding long_loop.simps Some option.case by (intro ok_if b1 b2 nl keeping skipping)
  qed
qed (simp add: took_def)

lemma b_read_long: "took k b ls \<Longrightarrow> length (left b) < n + k \<Longrightarrow> lua_ok (\<lambda>p. took k b (fst p)) (read_long_string n C rd keep sep ls)"
proof -
  assume t: "took k b ls" and n: "length (left b) < n + k"
  have nl: "lua_ok (took k b) (if isnl (ls_current x) then inclinenumber C rd x else Inr x)" if "took k b x" for x
    using that lower(1) [OF b_inc [OF that]] by (auto simp: isnl_def)
  show ?thesis unfolding read_long_string_def
    by (intro lua_ok_bind [OF b_san [OF t]] lua_ok_bind [OF nl] lua_ok_bind [OF b_long]) (use n in \<open>auto simp: Let_def\<close>)
qed

lemma b_decimal: "took k b ls \<Longrightarrow> took k b (fst (decimal m rd c ls))"
proof (induction m arbitrary: c ls)
  case (Suc m)
  then show ?case using b_next by (auto split: option.splits)
qed simp

lemma b_escape: "took k b ls \<Longrightarrow> ls_current ls = Some c \<Longrightarrow> lua_ok (took (Suc k) b) (read_escape C rd ls)"
proof -
  assume t: "took k b ls" "ls_current ls = Some c"
  let ?x = "nextc rd ls"
  have x: "took (Suc k) b ?x" by (rule b_next1 [OF t])
  show ?thesis
  proof (cases "ls_current ?x")
    case None
    then show ?thesis using x by (simp add: read_escape_def)
  next
    case (Some e)
    have 1: "lua_ok (took (Suc k) b) (bindR (save C d ?x) (\<lambda>ls. Inr (nextc rd ls)))" for d
      by (intro lua_ok_bind [OF b_save [OF x]]) (simp add: b_next)
    have 2: "lua_ok (took (Suc k) b) (bindR (save C d ?x) (inclinenumber C rd))" for d
    proof (rule lua_ok_bind [OF save_fields])
      fix y assume "\<exists>sz. y = ?x\<lparr>ls_buff := ls_buff ?x @ [d], ls_buffsize := sz\<rparr>"
      then have "took (Suc k) b y" "ls_current y = Some e" using x Some by auto
      then show "lua_ok (took (Suc k) b) (inclinenumber C rd y)" by (rule lower(1) [OF b_inc])
    qed
    have 3: "lua_ok (took (Suc k) b) (case decimal 3 rd 0 ?x of (ls, c) \<Rightarrow>
         if 255 < c then luaX_lexerror C ls ''escape sequence too large'' TK_STRING else save C (char_of c) ls)"
      using b_decimal [OF x, of 3 0] b_save by (auto simp: lexerror_ok split: prod.splits)
    show ?thesis using 1 2 3 b_san [OF x, of C] by (simp add: read_escape_def Some Let_def split: option.split)
  qed
qed

lemma b_string: "took k b ls \<Longrightarrow> length (left b) < n + k \<Longrightarrow> lua_ok (took k b) (string_loop n C rd del ls)"
proof (induction n arbitrary: ls k)
  case (Suc n)
  have rec: "lua_ok (took k b) (string_loop n C rd del x)" if "took (Suc k) b x" for x
    by (rule lower, rule Suc.IH [OF that]) (use Suc.prems in simp)
  show ?case
  proof (cases "ls_current ls")
    case (Some c)
    show ?thesis unfolding string_loop.simps Some option.case
      by (intro ok_if lexerror_ok lua_ok_bind [OF b_escape [OF Suc.prems(1) Some] rec]
          lua_ok_bind [OF b_san1 [OF Suc.prems(1) Some] rec]) (use Suc.prems in simp)
  qed (simp add: lexerror_ok)
qed (simp add: took_def)

lemma b_read_string: "took k b ls \<Longrightarrow> length (left b) < n + Suc k \<Longrightarrow> ls_current ls = Some c \<Longrightarrow>
    lua_ok (\<lambda>p. took (Suc k) b (fst p)) (read_string n C rd del ls)"
  unfolding read_string_def
  by (intro lua_ok_bind [OF b_san1] lua_ok_bind [OF b_string [where k = "Suc k"]] lua_ok_bind [OF b_san]) auto

lemma b_skip_line: "took k b ls \<Longrightarrow> length (left b) < n + k \<Longrightarrow> lua_ok (took k b) (skip_line n rd ls)"
proof (induction n arbitrary: ls k)
  case (Suc n)
  have "lua_ok (took k b) (skip_line n rd (nextc rd ls))" if "ls_current ls = Some c" for c
    by (rule lower, rule Suc.IH [OF b_next1 [OF Suc.prems(1) that]]) (use Suc.prems in simp)
  then show ?case using Suc.prems by auto
qed (simp add: took_def)

lemma b_comment: "took k b ls \<Longrightarrow> length (left b) < n + k \<Longrightarrow> lua_ok (took k b) (skip_comment n C rd ls)"
proof -
  assume t: "took k b ls" and n: "length (left b) < n + k"
  have "lua_ok (took k b) (bindR (skip_sep n C rd ls) (\<lambda>(ls, sep). let ls = resetbuffer ls in
       if 0 \<le> sep then bindR (read_long_string n C rd False sep ls) (\<lambda>(ls, _). Inr (resetbuffer ls))
       else skip_line n rd ls))" if c: "ls_current ls = Some (CHR ''['')"
    using n by (intro lua_ok_bind [OF lower(2) [OF b_sep [OF t _ c]]])
      (auto simp: Let_def split: prod.splits intro!: lua_ok_bind [OF b_read_long] b_skip_line)
  then show ?thesis using b_skip_line [OF t n] by (simp add: skip_comment_def)
qed

text \<open>A token other than the end took a byte.\<close>

definition token_at :: "nat \<Rightarrow> 'd lexstate \<Rightarrow> 'd lexstate \<times> token \<Rightarrow> bool" where
  "token_at k b p = (took k b (fst p) \<and> (fst (snd p) \<noteq> TK_EOS \<longrightarrow> took (Suc k) b (fst p)))"

lemma token_I: "lua_ok (\<lambda>p. took (Suc k) b (fst p)) m \<Longrightarrow> lua_ok (token_at k b) m"
  by (erule lua_ok_mono) (simp add: token_at_def took_def)

lemma b_one_or_two: "took k b ls \<Longrightarrow> ls_current ls = Some c \<Longrightarrow> took (Suc k) b (fst (one_or_two rd d two ls))"
  using b_next1 [of k b ls c] b_next [of "Suc k" b "nextc rd ls"] by (simp add: one_or_two_def Let_def)

lemma b_dots: "took k b ls \<Longrightarrow> length (left b) < n + Suc k \<Longrightarrow> ls_current ls = Some c \<Longrightarrow>
    lua_ok (\<lambda>p. took (Suc k) b (fst p)) (read_dots n C rd ls)"
proof -
  assume t: "took k b ls" and n: "length (left b) < n + Suc k" and c: "ls_current ls = Some c"
  have num: "lua_ok (\<lambda>p. took (Suc k) b (fst p)) (bindR (read_numeral n C rd x) (\<lambda>(ls, r). Inr (ls, (TK_NUMBER, SNum r))))"
    if "took (Suc k) b x" "cur isdigit_c x" for x
    using cur_some [OF that(2)] n
    by (auto split: prod.splits intro!: lua_ok_bind [OF lower(2) [OF b_numeral [OF that(1)]]])
  show ?thesis unfolding read_dots_def
    by (intro lua_ok_bind [OF b_san1 [OF t c]] lua_ok_bind [OF b_check [where k = "Suc k"]])
      (auto split: prod.splits intro!: num lua_ok_bind [OF b_check [where k = "Suc k"]])
qed

lemma b_name: "took k b ls \<Longrightarrow> length (left b) < n + Suc k \<Longrightarrow> ls_current ls = Some c \<Longrightarrow>
    lua_ok (\<lambda>p. took (Suc k) b (fst p)) (read_name n C rd ls)"
  unfolding read_name_def
  by (intro lua_ok_bind [OF b_san1] lua_ok_bind [OF b_while [where k = "Suc k"]]) (auto simp: Let_def)

lemma b_bracket: "took k b ls \<Longrightarrow> length (left b) < n + Suc k \<Longrightarrow> ls_current ls = Some c \<Longrightarrow>
    lua_ok (\<lambda>p. took (Suc k) b (fst p)) (read_bracket n C rd ls)"
  unfolding read_bracket_def
  by (intro lua_ok_bind [OF b_sep])
    (auto simp: lexerror_ok split: prod.splits intro!: lua_ok_bind [OF b_read_long [where k = "Suc k"]])

lemma b_llex: "took k b ls \<Longrightarrow> length (left b) < n + k \<Longrightarrow> lua_ok (token_at k b) (llex_loop n C rd ls)"
proof (induction n arbitrary: ls k)
  case (Suc n)
  have rec: "lua_ok (token_at k b) (llex_loop n C rd x)" if "took (Suc k) b x" for x
    by (rule lua_ok_mono [OF Suc.IH [OF that]]) (use Suc.prems in \<open>auto simp: token_at_def took_def\<close>)
  have n: "length (left b) < n + Suc k" using Suc.prems by simp
  note t = Suc.prems(1)
  show ?case
  proof (cases "ls_current ls")
    case None
    then show ?thesis using t by (simp add: token_at_def)
  next
    case (Some c)
    note here = t n Some
    have x: "took (Suc k) b (nextc rd ls)" by (rule b_next1 [OF t Some])
    have minus: "lua_ok (token_at k b) (let ls = nextc rd ls in
       if ls_current ls \<noteq> Some (CHR ''-'') then Inr (ls, (of_char (CHR ''-''), NoInfo))
       else bindR (skip_comment n C rd (nextc rd ls)) (llex_loop n C rd))"
      using x n unfolding Let_def
      by (intro ok_if lua_ok_bind [OF b_comment [OF b_next [OF x]] rec]) (auto simp: token_at_def took_def)
    have string: "lua_ok (token_at k b) (bindR (read_string n C rd c ls) (\<lambda>(ls, s). Inr (ls, (TK_STRING, SStr s))))"
      by (rule token_I, rule lua_ok_bind [OF b_read_string [OF here]]) auto
    have number: "lua_ok (token_at k b) (bindR (read_numeral n C rd ls) (\<lambda>(ls, r). Inr (ls, (TK_NUMBER, SNum r))))"
      by (rule token_I, rule lua_ok_bind [OF b_numeral [OF here]]) auto
    have two: "lua_ok (token_at k b) (Inr (one_or_two rd c i ls))" for i
      using b_one_or_two [OF t Some, of c i] by (intro token_I) simp
    have single: "lua_ok (token_at k b) (Inr (nextc rd ls, tk))" for tk
      using x by (intro token_I) simp
    show ?thesis unfolding llex_loop.simps Some option.case
      by (intro ok_if lua_ok_bind [OF b_inc [OF t Some] rec] minus string number two single rec x
          token_I [OF b_bracket [OF here]] token_I [OF b_dots [OF here]] token_I [OF b_name [OF here]])
  qed
qed (simp add: took_def)

text \<open>Every token of a stream, with \<open>n\<close> rounds for each and \<open>m\<close> tokens at most.\<close>

lemma next_ok:
  assumes "lex_inv ls" "length (left ls) < n" "fst (ls_lookahead ls) = TK_EOS"
  shows "lua_ok (\<lambda>x. lex_inv x \<and> fst (ls_lookahead x) = TK_EOS \<and> length (left x) \<le> length (left ls) \<and>
    (fst (ls_t x) \<noteq> TK_EOS \<longrightarrow> length (left x) < length (left ls))) (luaX_next n C rd ls)"
proof -
  let ?b = "resetbuffer (ls\<lparr>ls_lastline := ls_linenumber ls\<rparr>)"
  have t: "took 0 ?b ?b" by (rule took_refl) (use assms in simp)
  have b: "left ?b = left ls" "ls_lookahead ?b = ls_lookahead ls" by (simp_all add: resetbuffer_def left_def split: option.split)
  have f: "lex_inv (x\<lparr>ls_t := tk\<rparr>) = lex_inv x" "left (x\<lparr>ls_t := tk\<rparr>) = left x" for x :: "'d lexstate" and tk
    by (simp_all add: lex_inv_def left_def split: option.split)
  have "lua_ok (token_at 0 ?b) (llex_loop n C rd ?b)" by (rule b_llex [OF t]) (use assms b in simp)
  then have "lua_ok (\<lambda>x. lex_inv x \<and> fst (ls_lookahead x) = TK_EOS \<and> length (left x) \<le> length (left ls) \<and>
      (fst (ls_t x) \<noteq> TK_EOS \<longrightarrow> length (left x) < length (left ls)))
    (bindR (llex_loop n C rd ?b) (\<lambda>(ls, t). Inr (ls\<lparr>ls_t := t\<rparr>)))"
    using assms(3) by (elim lua_ok_bind) (auto simp: token_at_def took_def b f split: prod.splits)
  then show ?thesis using assms(3) by (simp add: luaX_next_def llex_def Let_def)
qed

end

primrec all_tokens :: "nat \<Rightarrow> nat \<Rightarrow> 'a lexconf_scheme \<Rightarrow> 'd lua_Reader \<Rightarrow> 'd lexstate \<Rightarrow> token list lres" where
  "all_tokens 0 n C rd ls = Inl (LuaFault OutOfFuel)"
| "all_tokens (Suc m) n C rd ls = bindR (luaX_next n C rd ls) (\<lambda>ls.
     if fst (ls_t ls) = TK_EOS then Inr [] else bindR (all_tokens m n C rd ls) (\<lambda>ts. Inr (ls_t ls # ts)))"

context reader
begin

lemma all_tokens_ok:
  "lex_inv ls \<Longrightarrow> length (left ls) < n \<Longrightarrow> length (left ls) < m \<Longrightarrow> fst (ls_lookahead ls) = TK_EOS \<Longrightarrow>
   lua_ok (\<lambda>ts. length ts \<le> length (left ls)) (all_tokens m n C rd ls)"
proof (induction m arbitrary: ls)
  case (Suc m)
  show ?case unfolding all_tokens.simps
  proof (rule lua_ok_bind [OF next_ok [OF Suc.prems(1,2,4)]], rule ok_if)
    fix x assume "lex_inv x \<and> fst (ls_lookahead x) = TK_EOS \<and> length (left x) \<le> length (left ls) \<and>
      (fst (ls_t x) \<noteq> TK_EOS \<longrightarrow> length (left x) < length (left ls))" "fst (ls_t x) \<noteq> TK_EOS"
    then show "lua_ok (\<lambda>ts. length ts \<le> length (left ls)) (bindR (all_tokens m n C rd x) (\<lambda>ts. Inr (ls_t x # ts)))"
      using Suc.prems by (intro lua_ok_bind [OF Suc.IH]) auto
  qed simp
qed simp

lemma setinput_left: "lex_inv (luaX_setinput rd (luaZ_init d) src) \<and> left (luaX_setinput rd (luaZ_init d) src) = content d \<and>
    ls_lookahead (luaX_setinput rd (luaZ_init d) src) = (TK_EOS, NoInfo)"
proof -
  obtain c z where "zgetc rd (luaZ_init d) = (c, z)" by fastforce
  with zgetc_bytes [OF this] bytes_init [of d] show ?thesis
    by (auto simp: luaX_setinput_def nextc_def left_def lex_inv_def split: option.splits)
qed

end

text \<open>C34: The lexical analyser ends on every source, however its bytes are cut into pieces: with one
  round more than there are bytes it answers a token or an error message every time it is asked, and
  it reaches the end after at most one token per byte. It never gets stuck and never faults.\<close>

theorem lexer_ends:
  "let n = length (pieces_content pieces) in lua_ok (\<lambda>ts. length ts \<le> n)
    (all_tokens (n + 1) (n + 1) C generic_reader (luaX_setinput generic_reader (luaZ_init pieces) src))"
  using generic.all_tokens_ok [of "luaX_setinput generic_reader (luaZ_init pieces) src", where C = C]
    generic.setinput_left [of pieces src] by (simp add: Let_def del: all_tokens.simps)

end
