(* ===== verification/Lua_Quote.thy ===== *)
theory Lua_Quote
  imports Lua_Format Lua_Lex_Props
begin

text \<open>
  The directive \<open>%q\<close> of \<open>string.format\<close> and the lexical analyser: what the one writes the other reads
  back. The invariant of the proof says where the analyser stands: what is left of the stream, what
  is in the buffer, and the line.
\<close>

lemma quote_not_cr: "quote_char c \<noteq> [] \<and> hd (quote_char c) \<noteq> CHR 0x0D"
  by (simp add: quote_char_def)

lemma quoted_no_cr: "hd (concat (map quote_char s) @ CHR 0x22 # r) \<noteq> CHR 0x0D"
  using quote_not_cr by (cases s) (simp_all add: hd_append)

lemma char_of_0: "char_of (0 :: nat) = CHR 0x00"
  by (simp add: char_of_def)

definition newlines :: "string \<Rightarrow> nat" where
  "newlines s = length (filter (\<lambda>c. c = CHR 0x0A) s)"

lemma newlines_le: "newlines s \<le> length s"
  by (simp add: newlines_def)

context reader
begin

definition stands :: "'d lexstate \<Rightarrow> string \<Rightarrow> string \<Rightarrow> int \<Rightarrow> bool" where
  "stands ls cs b l = (lex_inv ls \<and> left ls = cs \<and> ls_buff ls = b \<and> ls_linenumber ls = l)"

lemma stands_cur: "stands ls (c # cs) b l \<Longrightarrow> ls_current ls = Some c"
  by (auto simp: stands_def left_def split: option.splits)

lemma stands_next: "stands ls (c # cs) b l \<Longrightarrow> stands (nextc rd ls) cs b l"
  using nextc_left [of ls] by (auto simp: stands_def)

lemma stands_save: "stands ls cs b l \<Longrightarrow> length b < 2 ^ 30 \<Longrightarrow> \<exists>ls'. save C c ls = Inr ls' \<and> stands ls' cs (b @ [c]) l"
  using save_room [of ls C c] by (auto simp: stands_def lex_inv_def left_def split: option.splits)

lemma stands_san:
  assumes "stands ls (c # cs) b l" "length b < 2 ^ 30"
  shows "\<exists>ls'. save_and_next C rd ls = Inr ls' \<and> stands ls' cs (b @ [c]) l"
proof -
  obtain x where "save C c ls = Inr x" "stands x (c # cs) (b @ [c]) l" using stands_save [OF assms] by blast
  then show ?thesis using stands_next stands_cur [OF assms(1)] by (auto simp: save_and_next_def)
qed

lemma stands_inc:
  assumes s: "stands ls (CHR 0x0A # cs) b l" and h: "cs = [] \<or> hd cs \<noteq> CHR 0x0D" and l: "l + 1 < MAX_INT"
  shows "\<exists>ls'. inclinenumber C rd ls = Inr ls' \<and> stands ls' cs b (l + 1)"
proof -
  have x: "stands (nextc rd ls) cs b l" by (rule stands_next [OF s])
  then have "\<not> (isnl (ls_current (nextc rd ls)) \<and> ls_current (nextc rd ls) \<noteq> ls_current ls)"
    using h stands_cur [OF s] by (auto simp: stands_def left_def isnl_def split: option.splits)
  then show ?thesis using x l
    by (auto simp: inclinenumber_def Let_def stands_def lex_inv_def left_def split: option.splits)
qed

lemma escape_reads:
  assumes s: "stands ls (quote_char c @ rest) b l" and c: "hd (quote_char c) = CHR 0x5C" and b: "length b < 2 ^ 30"
    and l: "l + int (newlines [c]) < MAX_INT" and r: "rest = [] \<or> hd rest \<noteq> CHR 0x0D"
  shows "\<exists>ls'. read_escape C rd ls = Inr ls' \<and> stands ls' rest (b @ [c]) (l + int (newlines [c]))"
proof -
  let ?x = "nextc rd ls"
  consider (lit) "c = CHR 0x22 \<or> c = CHR 0x5C" | (nl) "c = CHR 0x0A" | (cr) "c = CHR 0x0D" | (nul) "c = CHR 0x00"
    using c by (auto simp: quote_char_def split: if_splits)
  then show ?thesis
  proof cases
    case lit
    then have x: "stands ?x (c # rest) b l" using stands_next [of ls] s by (auto simp: quote_char_def)
    have "simple_escape c = None" "\<not> isnl (Some c)" "\<not> isdigit_c c" using lit
      by (auto simp: simple_escape_def isnl_def isdigit_c_def char_val_def)
    then have "read_escape C rd ls = save_and_next C rd ?x" using stands_cur [OF x] by (simp add: read_escape_def Let_def)
    moreover have "newlines [c] = 0" using lit by (auto simp: newlines_def)
    ultimately show ?thesis using stands_san [OF x b] by simp
  next
    case nl
    then have x: "stands ?x (c # rest) b l" using stands_next [of ls] s by (auto simp: quote_char_def)
    obtain y where y: "save C (CHR 0x0A) ?x = Inr y" "stands y (c # rest) (b @ [CHR 0x0A]) l"
      using stands_save [OF x b] by blast
    have n: "newlines [c] = 1" using nl by (simp add: newlines_def)
    obtain z where "inclinenumber C rd y = Inr z" "stands z rest (b @ [CHR 0x0A]) (l + 1)"
      using stands_inc [of y rest "b @ [CHR 0x0A]" l C] y(2) r l nl n by auto
    moreover have "read_escape C rd ls = bindR (save C (CHR 0x0A) ?x) (inclinenumber C rd)"
      using stands_cur [OF x] nl by (simp add: read_escape_def Let_def simple_escape_def isnl_def)
    ultimately show ?thesis using y(1) nl n by simp
  next
    case cr
    then have x: "stands ?x (CHR ''r'' # rest) b l" using stands_next [of ls] s by (auto simp: quote_char_def)
    obtain y where y: "save C (CHR 0x0D) ?x = Inr y" "stands y (CHR ''r'' # rest) (b @ [CHR 0x0D]) l"
      using stands_save [OF x b] by blast
    have "read_escape C rd ls = bindR (save C (CHR 0x0D) ?x) (\<lambda>ls. Inr (nextc rd ls))"
      using stands_cur [OF x] by (simp add: read_escape_def Let_def simple_escape_def)
    then show ?thesis using y(1) stands_next [OF y(2)] cr by (simp add: newlines_def)
  next
    case nul
    then have x: "stands ?x (CHR ''0'' # CHR ''0'' # CHR ''0'' # rest) b l" using stands_next [of ls] s by (auto simp: quote_char_def)
    note x1 = stands_next [OF x] and x2 = stands_next [OF stands_next [OF x]]
    have d: "isdigit_c (CHR ''0'')" "char_val (CHR ''0'') = 48" by (simp_all add: isdigit_c_def char_val_def)
    have "decimal 3 rd 0 ?x = (nextc rd (nextc rd (nextc rd ?x)), 0)"
      using stands_cur [OF x] stands_cur [OF x1] stands_cur [OF x2] d by (simp add: numeral_3_eq_3)
    then have "read_escape C rd ls = save C (char_of (0 :: nat)) (nextc rd (nextc rd (nextc rd ?x)))"
      using stands_cur [OF x] d by (simp add: read_escape_def Let_def simple_escape_def isnl_def)
    then show ?thesis using stands_save [OF stands_next [OF x2] b, of C "char_of (0 :: nat)"] nul char_of_0 by (simp add: newlines_def)
  qed
qed

lemma string_loop_reads:
  "stands ls (concat (map quote_char s) @ CHR 0x22 # rest) b l \<Longrightarrow> length s < n \<Longrightarrow> length b + length s < 2 ^ 30 \<Longrightarrow>
   l + int (newlines s) < MAX_INT \<Longrightarrow>
   \<exists>ls'. string_loop n C rd (CHR 0x22) ls = Inr ls' \<and> stands ls' (CHR 0x22 # rest) (b @ s) (l + int (newlines s))"
proof (induction s arbitrary: ls b l n)
  case Nil
  then obtain m where "n = Suc m" using gr0_implies_Suc by auto
  then show ?case using Nil stands_cur [of ls "CHR 0x22" rest b l] by (simp add: newlines_def)
next
  case (Cons c s)
  obtain m where m: "n = Suc m" using Cons.prems(2) by (cases n) auto
  let ?r = "concat (map quote_char s) @ CHR 0x22 # rest"
  have here: "stands ls (quote_char c @ ?r) b l" using Cons.prems(1) by simp
  have nl: "newlines (c # s) = newlines [c] + newlines s" by (simp add: newlines_def)
  have "\<exists>x. string_loop n C rd (CHR 0x22) ls = string_loop m C rd (CHR 0x22) x \<and> stands x ?r (b @ [c]) (l + int (newlines [c]))"
  proof (cases "hd (quote_char c) = CHR 0x5C")
    case True
    then obtain t where "quote_char c = CHR 0x5C # t" using quote_not_cr [of c] by (cases "quote_char c") auto
    then have "ls_current ls = Some (CHR 0x5C)" using here stands_cur by simp
    moreover obtain x where "read_escape C rd ls = Inr x" "stands x ?r (b @ [c]) (l + int (newlines [c]))"
      using escape_reads [OF here True] Cons.prems nl quoted_no_cr [of s rest] by auto
    ultimately show ?thesis using m by (intro exI [of _ x]) (simp add: isnl_def)
  next
    case False
    then have q: "quote_char c = [c]" "c \<noteq> CHR 0x22" "c \<noteq> CHR 0x5C" "c \<noteq> CHR 0x0A" "c \<noteq> CHR 0x0D" by (auto simp: quote_char_def split: if_splits)
    then have st: "stands ls (c # ?r) b l" using here by simp
    moreover obtain x where "save_and_next C rd ls = Inr x" "stands x ?r (b @ [c]) l"
      using stands_san [OF st] Cons.prems(3) by auto
    ultimately show ?thesis using m q stands_cur [OF st] by (intro exI [of _ x]) (simp add: isnl_def newlines_def)
  qed
  then obtain x where x: "string_loop n C rd (CHR 0x22) ls = string_loop m C rd (CHR 0x22) x" "stands x ?r (b @ [c]) (l + int (newlines [c]))"
    by blast
  show ?case using Cons.IH [OF x(2), of m] Cons.prems m nl x(1) by (simp add: add.assoc)
qed

lemma quoted_token:
  assumes s: "stands ls (quoted s @ rest) b l" and n: "length s + 1 < n" and sz: "length s + 2 \<le> 2 ^ 30"
    and l: "l + int (newlines s) < MAX_INT"
  shows "\<exists>ls'. llex n C rd ls = Inr (ls', TK_STRING, SStr s) \<and> left ls' = rest"
proof -
  obtain m where m: "n = Suc m" "length s < m" using n by (cases n) auto
  let ?x = "resetbuffer ls"
  have x: "stands ?x (CHR 0x22 # concat (map quote_char s) @ CHR 0x22 # rest) [] l"
    using s by (simp add: stands_def quoted_def) (simp add: resetbuffer_def)
  obtain y where y: "save_and_next C rd ?x = Inr y" "stands y (concat (map quote_char s) @ CHR 0x22 # rest) [CHR 0x22] l"
    using stands_san [OF x, of C] by auto
  obtain z where z: "string_loop m C rd (CHR 0x22) y = Inr z" "stands z (CHR 0x22 # rest) ([CHR 0x22] @ s) (l + int (newlines s))"
    using string_loop_reads [OF y(2) m(2) _ l, of C] sz by auto
  obtain v where v: "save_and_next C rd z = Inr v" "stands v rest ([CHR 0x22] @ s @ [CHR 0x22]) (l + int (newlines s))"
    using stands_san [OF z(2), of C] sz by auto
  have "read_string m C rd (CHR 0x22) ?x = Inr (v, s)" using y(1) z(1) v by (simp add: read_string_def stands_def)
  then show ?thesis using stands_cur [OF x] m(1) v(2) by (simp add: llex_def isnl_def stands_def)
qed

end

lemma format_quotes: "str_format E [LStr ''%q'', LStr s] = Inr [LStr (quoted s)]"
proof -
  have "scanformat ''q'' = Inr (0, ''%q'')"
    by (simp add: scanformat_def Let_def digits2_def into_def MAX_FORMAT_def FLAGS_def LUA_INTFRMLEN_def isdigit_c_def char_val_def c_str_def)
  then show ?thesis
    by (simp add: str_format_def checklstring_str format_loop.simps format_item_def addquoted_def Let_def numeral_2_eq_2 [symmetric])
qed

text \<open>C33: A string that \<open>string.format\<close> has quoted with \<open>%q\<close> is read back by the lexical analyser as
  one string token with exactly the bytes of the string - quotes, backslashes, newlines, carriage
  returns and zero bytes included - and what follows it is left for the next token.\<close>

theorem quoted_reads_back:
  assumes "str_format E [LStr ''%q'', LStr s] = Inr [LStr q]" "pieces_content pieces = q @ rest"
    and "length s + 2 \<le> 2 ^ 30" "length s + 1 < n"
  shows "\<exists>ls. llex n C generic_reader (luaX_setinput generic_reader (luaZ_init pieces) src) = Inr (ls, TK_STRING, SStr s) \<and>
    generic.left ls = rest"
proof -
  have q: "q = quoted s" using assms(1) by (simp add: format_quotes)
  let ?ls = "luaX_setinput generic_reader (luaZ_init pieces) src"
  have "generic.stands ?ls (quoted s @ rest) [] 1"
    using generic.setinput_left [of pieces src] assms(2) q generic.nextc_left(3)
    by (auto simp: generic.stands_def) (auto simp: luaX_setinput_def nextc_def split: prod.splits)
  moreover have "1 + int (newlines s) < MAX_INT" using newlines_le [of s] assms(3) by (simp add: MAX_INT_def)
  ultimately show ?thesis using generic.quoted_token assms(3,4) by blast
qed

definition test_lex :: lexconf where
  "test_lex = luaconf.extend trunc_conf \<lparr>decimal_point = CHR ''.'', compat_lstr = 1\<rparr>"

theorem quoted_reads_back_witness:
  "\<exists>q ls. str_format test_fmt [LStr ''%q'', LStr [CHR ''a'', CHR 0x0A, CHR 0x0D, CHR 0x00, CHR ''1'', CHR 0x22]] = Inr [LStr q] \<and>
     llex 10 test_lex generic_reader (luaX_setinput generic_reader (luaZ_init [q, ''..x'']) ''=s'') =
       Inr (ls, TK_STRING, SStr [CHR ''a'', CHR 0x0A, CHR 0x0D, CHR 0x00, CHR ''1'', CHR 0x22]) \<and> generic.left ls = ''..x''"
proof -
  let ?s = "[CHR ''a'', CHR 0x0A, CHR 0x0D, CHR 0x00, CHR ''1'', CHR 0x22]"
  have f: "str_format test_fmt [LStr ''%q'', LStr ?s] = Inr [LStr (quoted ?s)]" by (rule format_quotes)
  have "pieces_content [quoted ?s, ''..x''] = quoted ?s @ ''..x''" by (simp add: quoted_def)
  from quoted_reads_back [OF f this, of 10] f show ?thesis by auto
qed

end
