(* ===== verification/Lua_Opcodes.thy ===== *)
theory Lua_Opcodes
  imports Lua_Undump
begin

text \<open>
  Instructions of the virtual machine: the names and modes of \<open>lua/lopcodes.c\<close> and the fields
  of an instruction word. The positions of the fields belong to \<open>lopcodes.h\<close>, which is not
  in the repository; they are those of the precompiled chunks of Lua 5.1: six bits of opcode, eight of
  \<open>A\<close>, nine of \<open>C\<close>, nine of \<open>B\<close>, and \<open>Bx\<close> over both.
\<close>

subsection \<open>Opcodes\<close>

datatype opcode =
    OP_MOVE | OP_LOADK | OP_LOADBOOL | OP_LOADNIL | OP_GETUPVAL | OP_GETGLOBAL | OP_GETTABLE | OP_SETGLOBAL
  | OP_SETUPVAL | OP_SETTABLE | OP_NEWTABLE | OP_SELF | OP_ADD | OP_SUB | OP_MUL | OP_DIV
  | OP_MOD | OP_POW | OP_UNM | OP_NOT | OP_LEN | OP_CONCAT | OP_JMP | OP_EQ
  | OP_LT | OP_LE | OP_TEST | OP_TESTSET | OP_CALL | OP_TAILCALL | OP_RETURN | OP_FORLOOP
  | OP_FORPREP | OP_TFORLOOP | OP_SETLIST | OP_CLOSE | OP_CLOSURE | OP_VARARG

definition opcodes :: "opcode list" where
  "opcodes = [OP_MOVE, OP_LOADK, OP_LOADBOOL, OP_LOADNIL, OP_GETUPVAL, OP_GETGLOBAL, OP_GETTABLE, OP_SETGLOBAL,
    OP_SETUPVAL, OP_SETTABLE, OP_NEWTABLE, OP_SELF, OP_ADD, OP_SUB, OP_MUL, OP_DIV,
    OP_MOD, OP_POW, OP_UNM, OP_NOT, OP_LEN, OP_CONCAT, OP_JMP, OP_EQ,
    OP_LT, OP_LE, OP_TEST, OP_TESTSET, OP_CALL, OP_TAILCALL, OP_RETURN, OP_FORLOOP,
    OP_FORPREP, OP_TFORLOOP, OP_SETLIST, OP_CLOSE, OP_CLOSURE, OP_VARARG]"

definition luaP_opnames :: "string list" where
  "luaP_opnames = [''MOVE'', ''LOADK'', ''LOADBOOL'', ''LOADNIL'', ''GETUPVAL'', ''GETGLOBAL'', ''GETTABLE'', ''SETGLOBAL'', ''SETUPVAL'', ''SETTABLE'',
    ''NEWTABLE'', ''SELF'', ''ADD'', ''SUB'', ''MUL'', ''DIV'', ''MOD'', ''POW'', ''UNM'', ''NOT'',
    ''LEN'', ''CONCAT'', ''JMP'', ''EQ'', ''LT'', ''LE'', ''TEST'', ''TESTSET'', ''CALL'', ''TAILCALL'',
    ''RETURN'', ''FORLOOP'', ''FORPREP'', ''TFORLOOP'', ''SETLIST'', ''CLOSE'', ''CLOSURE'', ''VARARG'']"

datatype op_arg = OpArgN | OpArgU | OpArgR | OpArgK

datatype op_format = iABC | iABx | iAsBx

record op_mode =
  testTMode :: bool   \<comment> \<open>a test: the next instruction is a jump\<close>
  testAMode :: bool   \<comment> \<open>sets register \<open>A\<close>\<close>
  getBMode :: op_arg
  getCMode :: op_arg
  getOpMode :: op_format

definition opmode :: "bool \<Rightarrow> bool \<Rightarrow> op_arg \<Rightarrow> op_arg \<Rightarrow> op_format \<Rightarrow> op_mode" where
  "opmode t a b c m = \<lparr>testTMode = t, testAMode = a, getBMode = b, getCMode = c, getOpMode = m\<rparr>"

primrec luaP_opmodes :: "opcode \<Rightarrow> op_mode" where
  "luaP_opmodes OP_MOVE = opmode False True OpArgR OpArgN iABC"
| "luaP_opmodes OP_LOADK = opmode False True OpArgK OpArgN iABx"
| "luaP_opmodes OP_LOADBOOL = opmode False True OpArgU OpArgU iABC"
| "luaP_opmodes OP_LOADNIL = opmode False True OpArgR OpArgN iABC"
| "luaP_opmodes OP_GETUPVAL = opmode False True OpArgU OpArgN iABC"
| "luaP_opmodes OP_GETGLOBAL = opmode False True OpArgK OpArgN iABx"
| "luaP_opmodes OP_GETTABLE = opmode False True OpArgR OpArgK iABC"
| "luaP_opmodes OP_SETGLOBAL = opmode False False OpArgK OpArgN iABx"
| "luaP_opmodes OP_SETUPVAL = opmode False False OpArgU OpArgN iABC"
| "luaP_opmodes OP_SETTABLE = opmode False False OpArgK OpArgK iABC"
| "luaP_opmodes OP_NEWTABLE = opmode False True OpArgU OpArgU iABC"
| "luaP_opmodes OP_SELF = opmode False True OpArgR OpArgK iABC"
| "luaP_opmodes OP_ADD = opmode False True OpArgK OpArgK iABC"
| "luaP_opmodes OP_SUB = opmode False True OpArgK OpArgK iABC"
| "luaP_opmodes OP_MUL = opmode False True OpArgK OpArgK iABC"
| "luaP_opmodes OP_DIV = opmode False True OpArgK OpArgK iABC"
| "luaP_opmodes OP_MOD = opmode False True OpArgK OpArgK iABC"
| "luaP_opmodes OP_POW = opmode False True OpArgK OpArgK iABC"
| "luaP_opmodes OP_UNM = opmode False True OpArgR OpArgN iABC"
| "luaP_opmodes OP_NOT = opmode False True OpArgR OpArgN iABC"
| "luaP_opmodes OP_LEN = opmode False True OpArgR OpArgN iABC"
| "luaP_opmodes OP_CONCAT = opmode False True OpArgR OpArgR iABC"
| "luaP_opmodes OP_JMP = opmode False False OpArgR OpArgN iAsBx"
| "luaP_opmodes OP_EQ = opmode True False OpArgK OpArgK iABC"
| "luaP_opmodes OP_LT = opmode True False OpArgK OpArgK iABC"
| "luaP_opmodes OP_LE = opmode True False OpArgK OpArgK iABC"
| "luaP_opmodes OP_TEST = opmode True True OpArgR OpArgU iABC"
| "luaP_opmodes OP_TESTSET = opmode True True OpArgR OpArgU iABC"
| "luaP_opmodes OP_CALL = opmode False True OpArgU OpArgU iABC"
| "luaP_opmodes OP_TAILCALL = opmode False True OpArgU OpArgU iABC"
| "luaP_opmodes OP_RETURN = opmode False False OpArgU OpArgN iABC"
| "luaP_opmodes OP_FORLOOP = opmode False True OpArgR OpArgN iAsBx"
| "luaP_opmodes OP_FORPREP = opmode False True OpArgR OpArgN iAsBx"
| "luaP_opmodes OP_TFORLOOP = opmode True False OpArgN OpArgU iABC"
| "luaP_opmodes OP_SETLIST = opmode False False OpArgU OpArgU iABC"
| "luaP_opmodes OP_CLOSE = opmode False False OpArgN OpArgN iABC"
| "luaP_opmodes OP_CLOSURE = opmode False True OpArgU OpArgN iABx"
| "luaP_opmodes OP_VARARG = opmode False True OpArgU OpArgN iABC"

subsection \<open>Fields\<close>

type_synonym instruction = u32

definition field :: "nat \<Rightarrow> nat \<Rightarrow> instruction \<Rightarrow> int" where
  "field pos sz i = uint (take_bit sz (drop_bit pos i))"

definition GET_OPCODE :: "instruction \<Rightarrow> opcode option" where
  "GET_OPCODE i = (let n = nat (field 0 6 i) in if n < length opcodes then Some (opcodes ! n) else None)"

definition GETARG_A :: "instruction \<Rightarrow> int" where
  "GETARG_A i = field 6 8 i"

definition GETARG_C :: "instruction \<Rightarrow> int" where
  "GETARG_C i = field 14 9 i"

definition GETARG_B :: "instruction \<Rightarrow> int" where
  "GETARG_B i = field 23 9 i"

definition GETARG_Bx :: "instruction \<Rightarrow> int" where
  "GETARG_Bx i = field 14 18 i"

definition GETARG_sBx :: "instruction \<Rightarrow> int" where
  "GETARG_sBx i = GETARG_Bx i - 131071"

text \<open>An operand of nine bits is a constant when its top bit is set, a register otherwise.\<close>

definition ISK :: "int \<Rightarrow> bool" where
  "ISK x = bit x 8"

definition INDEXK :: "int \<Rightarrow> int" where
  "INDEXK x = take_bit 8 x"

definition LUA_MULTRET :: int where "LUA_MULTRET = - 1"

lemma field_nonneg [simp]: "0 \<le> field p s i"
  by (simp add: field_def)

lemma GETARG_nonneg [simp]: "0 \<le> GETARG_A i" "0 \<le> GETARG_B i" "0 \<le> GETARG_C i" "0 \<le> GETARG_Bx i"
  by (simp_all add: GETARG_A_def GETARG_B_def GETARG_C_def GETARG_Bx_def)

lemma GETARG_not_neg [simp]: "\<not> GETARG_A i < 0" "\<not> GETARG_B i < 0" "\<not> GETARG_C i < 0" "\<not> GETARG_Bx i < 0"
  by (simp_all add: not_less)

lemma INDEXK_nonneg [simp]: "0 \<le> INDEXK x"
  by (simp add: INDEXK_def)

lemma opcode_of_zero: "GET_OPCODE 0 = Some OP_MOVE"
  by (simp add: GET_OPCODE_def field_def opcodes_def)

end
