(* ===== verification/Lua_Checkcode.thy ===== *)
theory Lua_Checkcode
  imports Lua_Opcodes
begin

text \<open>
  The checker of precompiled code, \<open>symbexec\<close> and \<open>luaG_checkcode\<close> of \<open>lua/ldebug.c\<close>: one pass over
  the instructions of a prototype that refuses operands and jumps outside it. The same pass, run up to
  an instruction, finds the last one that set a register, from which \<open>getobjname\<close> names a
  value in an error message.
\<close>

subsection \<open>Checks and reads\<close>

text \<open>A failed \<open>check\<close> makes \<open>symbexec\<close> return 0; a read outside a vector of the prototype has no
  defined behaviour.\<close>

datatype sym_exit = Refused | OutOfVector

type_synonym 'a sym = "sym_exit + 'a"

definition check :: "bool \<Rightarrow> unit sym" where
  "check x = guardR Refused x"

definition fetch :: "'x list \<Rightarrow> int \<Rightarrow> 'x sym" where
  "fetch xs n = (if 0 \<le> n \<and> n < int (length xs) then Inr (xs ! nat n) else Inl OutOfVector)"

definition MAXSTACK :: int where "MAXSTACK = 250"
definition NO_REG :: int where "NO_REG = 255"
definition VARARG_HASARG :: u8 where "VARARG_HASARG = 1"
definition VARARG_ISVARARG :: u8 where "VARARG_ISVARARG = 2"
definition VARARG_NEEDSARG :: u8 where "VARARG_NEEDSARG = 4"

definition p_code :: "proto \<Rightarrow> u32 list" where
  "p_code pt = pr_code (pr_info pt)"

definition p_k :: "proto \<Rightarrow> konst list" where
  "p_k pt = pr_k (pr_info pt)"

definition sizecode :: "proto \<Rightarrow> int" where
  "sizecode pt = int (length (p_code pt))"

definition maxstacksize :: "proto \<Rightarrow> int" where
  "maxstacksize pt = uint (pr_maxstacksize (pr_info pt))"

definition p_nups :: "proto \<Rightarrow> int" where
  "p_nups pt = uint (pr_nups (pr_info pt))"

definition checkreg :: "proto \<Rightarrow> int \<Rightarrow> unit sym" where
  "checkreg pt reg = check (reg < maxstacksize pt)"

definition vararg_flag :: "proto \<Rightarrow> u8 \<Rightarrow> bool" where
  "vararg_flag pt f = (and (pr_is_vararg (pr_info pt)) f \<noteq> 0)"

definition precheck :: "proto \<Rightarrow> unit sym" where
  "precheck pt = (let f = pr_info pt in
     bindR (check (maxstacksize pt \<le> MAXSTACK)) (\<lambda>_.
     bindR (check (uint (pr_numparams f) + uint (and (pr_is_vararg f) VARARG_HASARG) \<le> maxstacksize pt)) (\<lambda>_.
     bindR (check (\<not> vararg_flag pt VARARG_NEEDSARG \<or> vararg_flag pt VARARG_HASARG)) (\<lambda>_.
     bindR (check (int (length (pr_upvalues f)) \<le> p_nups pt)) (\<lambda>_.
     bindR (check (int (length (pr_lineinfo f)) = sizecode pt \<or> length (pr_lineinfo f) = 0)) (\<lambda>_.
     bindR (check (0 < sizecode pt)) (\<lambda>_.
     bindR (fetch (p_code pt) (sizecode pt - 1)) (\<lambda>i. check (GET_OPCODE i = Some OP_RETURN)))))))))"

definition luaG_checkopenop :: "instruction \<Rightarrow> bool" where
  "luaG_checkopenop i = (GET_OPCODE i \<in> {Some OP_CALL, Some OP_TAILCALL, Some OP_RETURN, Some OP_SETLIST} \<and> GETARG_B i = 0)"

definition checkopenop :: "proto \<Rightarrow> int \<Rightarrow> unit sym" where
  "checkopenop pt pc = bindR (fetch (p_code pt) (pc + 1)) (\<lambda>i. check (luaG_checkopenop i))"

definition checkArgMode :: "proto \<Rightarrow> int \<Rightarrow> op_arg \<Rightarrow> unit sym" where
  "checkArgMode pt r mode = (case mode of
     OpArgN \<Rightarrow> check (r = 0)
   | OpArgU \<Rightarrow> Inr ()
   | OpArgR \<Rightarrow> checkreg pt r
   | OpArgK \<Rightarrow> check (if ISK r then INDEXK r < int (length (p_k pt)) else r < maxstacksize pt))"

subsection \<open>One instruction\<close>

text \<open>The count of a \<open>SETLIST\<close> whose \<open>C\<close> is 0 is the word after it. A jump must not land on a count:
  the words before its target that look like such a \<open>SETLIST\<close> are counted back to the first that does
  not, and their number has to be even.\<close>

definition is_setlist0 :: "instruction \<Rightarrow> bool" where
  "is_setlist0 d = (GET_OPCODE d = Some OP_SETLIST \<and> GETARG_C d = 0)"

fun setlist_run :: "instruction list \<Rightarrow> nat \<Rightarrow> nat sym" where
  "setlist_run code 0 = Inr 0"
| "setlist_run code (Suc dest) = bindR (fetch code (int dest)) (\<lambda>d.
     if \<not> is_setlist0 d then Inr 0 else bindR (setlist_run code dest) (\<lambda>j. Inr (Suc j)))"

definition check_dest :: "proto \<Rightarrow> int \<Rightarrow> int \<Rightarrow> unit sym" where
  "check_dest pt pc b = (let dest = pc + 1 + b in
     bindR (check (0 \<le> dest \<and> dest < sizecode pt)) (\<lambda>_.
       if 0 < dest then bindR (setlist_run (p_code pt) (nat dest)) (\<lambda>j. check (even j)) else Inr ()))"

definition check_args :: "proto \<Rightarrow> int \<Rightarrow> opcode \<Rightarrow> instruction \<Rightarrow> (int \<times> int) sym" where
  "check_args pt pc opc i = (let m = luaP_opmodes opc in case getOpMode m of
     iABC \<Rightarrow> let b = GETARG_B i; c = GETARG_C i in
       bindR (checkArgMode pt b (getBMode m)) (\<lambda>_. bindR (checkArgMode pt c (getCMode m)) (\<lambda>_. Inr (b, c)))
   | iABx \<Rightarrow> let b = GETARG_Bx i in
       bindR (if getBMode m = OpArgK then check (b < int (length (p_k pt))) else Inr ()) (\<lambda>_. Inr (b, 0))
   | iAsBx \<Rightarrow> let b = GETARG_sBx i in
       bindR (if getBMode m = OpArgR then check_dest pt pc b else Inr ()) (\<lambda>_. Inr (b, 0)))"

definition check_skip :: "proto \<Rightarrow> int \<Rightarrow> opcode \<Rightarrow> unit sym" where
  "check_skip pt pc opc = (if testTMode (luaP_opmodes opc) then
     bindR (check (pc + 2 < sizecode pt)) (\<lambda>_.
     bindR (fetch (p_code pt) (pc + 1)) (\<lambda>j. check (GET_OPCODE j = Some OP_JMP))) else Inr ())"

definition ttisstring_k :: "konst \<Rightarrow> bool" where
  "ttisstring_k k = (case k of KStr s \<Rightarrow> True | _ \<Rightarrow> False)"

text \<open>The pseudo-instructions after a \<open>CLOSURE\<close>, the ones at \<open>pc + 1\<close> to \<open>pc + nup\<close>.\<close>

fun check_pseudo :: "proto \<Rightarrow> int \<Rightarrow> nat \<Rightarrow> unit sym" where
  "check_pseudo pt pc 0 = Inr ()"
| "check_pseudo pt pc (Suc n) = bindR (fetch (p_code pt) (pc + 1)) (\<lambda>i.
     bindR (check (GET_OPCODE i = Some OP_GETUPVAL \<or> GET_OPCODE i = Some OP_MOVE)) (\<lambda>_. check_pseudo pt (pc + 1) n))"

definition sym_call :: "proto \<Rightarrow> int \<Rightarrow> int \<Rightarrow> int \<Rightarrow> int \<Rightarrow> unit sym" where
  "sym_call pt a b c pc =
     bindR (if b \<noteq> 0 then checkreg pt (a + b - 1) else Inr ()) (\<lambda>_. let c = c - 1 in
       if c = LUA_MULTRET then checkopenop pt pc else if c \<noteq> 0 then checkreg pt (a + c - 1) else Inr ())"

definition sym_jump :: "int \<Rightarrow> int \<Rightarrow> int \<Rightarrow> int \<Rightarrow> int \<times> int \<Rightarrow> int \<times> int" where
  "sym_jump lastpc reg b pc s = (let dest = pc + 1 + b in
     if reg \<noteq> NO_REG \<and> pc < dest \<and> dest \<le> lastpc then (pc + b, snd s) else s)"

definition sym_closure :: "proto \<Rightarrow> int \<Rightarrow> int \<Rightarrow> int \<Rightarrow> int \<Rightarrow> (int \<times> int) sym" where
  "sym_closure pt reg b pc lst =
     bindR (check (b < int (length (pr_p pt)))) (\<lambda>_.
     bindR (fetch (pr_p pt) b) (\<lambda>q. let nup = p_nups q in
     bindR (check (pc + nup < sizecode pt)) (\<lambda>_.
     bindR (check_pseudo pt pc (nat nup)) (\<lambda>_.
     Inr (if reg \<noteq> NO_REG then pc + nup else pc, lst)))))"

text \<open>The \<open>switch\<close>: the position after the instruction's own effect on \<open>pc\<close>, and \<open>last\<close>.\<close>

definition sym_switch :: "proto \<Rightarrow> int \<Rightarrow> int \<Rightarrow> opcode \<Rightarrow> int \<Rightarrow> int \<Rightarrow> int \<Rightarrow> int \<Rightarrow> int \<Rightarrow> (int \<times> int) sym" where
  "sym_switch pt lastpc reg opc a b c pc lst = (case opc of
     OP_LOADBOOL \<Rightarrow> (if c = 1 then
         bindR (check (pc + 2 < sizecode pt)) (\<lambda>_.
         bindR (fetch (p_code pt) (pc + 1)) (\<lambda>i.
         bindR (check (\<not> is_setlist0 i)) (\<lambda>_. Inr (pc, lst)))) else Inr (pc, lst))
   | OP_LOADNIL \<Rightarrow> Inr (pc, if a \<le> reg \<and> reg \<le> b then pc else lst)
   | OP_GETUPVAL \<Rightarrow> bindR (check (b < p_nups pt)) (\<lambda>_. Inr (pc, lst))
   | OP_SETUPVAL \<Rightarrow> bindR (check (b < p_nups pt)) (\<lambda>_. Inr (pc, lst))
   | OP_GETGLOBAL \<Rightarrow> bindR (fetch (p_k pt) b) (\<lambda>k. bindR (check (ttisstring_k k)) (\<lambda>_. Inr (pc, lst)))
   | OP_SETGLOBAL \<Rightarrow> bindR (fetch (p_k pt) b) (\<lambda>k. bindR (check (ttisstring_k k)) (\<lambda>_. Inr (pc, lst)))
   | OP_SELF \<Rightarrow> bindR (checkreg pt (a + 1)) (\<lambda>_. Inr (pc, if reg = a + 1 then pc else lst))
   | OP_CONCAT \<Rightarrow> bindR (check (b < c)) (\<lambda>_. Inr (pc, lst))
   | OP_TFORLOOP \<Rightarrow> bindR (check (1 \<le> c)) (\<lambda>_. bindR (checkreg pt (a + 2 + c)) (\<lambda>_.
       Inr (pc, if a + 2 \<le> reg then pc else lst)))
   | OP_FORLOOP \<Rightarrow> bindR (checkreg pt (a + 3)) (\<lambda>_. Inr (sym_jump lastpc reg b pc (pc, lst)))
   | OP_FORPREP \<Rightarrow> bindR (checkreg pt (a + 3)) (\<lambda>_. Inr (sym_jump lastpc reg b pc (pc, lst)))
   | OP_JMP \<Rightarrow> Inr (sym_jump lastpc reg b pc (pc, lst))
   | OP_CALL \<Rightarrow> bindR (sym_call pt a b c pc) (\<lambda>_. Inr (pc, if a \<le> reg then pc else lst))
   | OP_TAILCALL \<Rightarrow> bindR (sym_call pt a b c pc) (\<lambda>_. Inr (pc, if a \<le> reg then pc else lst))
   | OP_RETURN \<Rightarrow> bindR (if 0 < b - 1 then checkreg pt (a + (b - 1) - 1) else Inr ()) (\<lambda>_. Inr (pc, lst))
   | OP_SETLIST \<Rightarrow> bindR (if 0 < b then checkreg pt (a + b) else Inr ()) (\<lambda>_.
       if c = 0 then bindR (check (pc + 1 < sizecode pt - 1)) (\<lambda>_. Inr (pc + 1, lst)) else Inr (pc, lst))
   | OP_CLOSURE \<Rightarrow> sym_closure pt reg b pc lst
   | OP_VARARG \<Rightarrow> bindR (check (vararg_flag pt VARARG_ISVARARG \<and> \<not> vararg_flag pt VARARG_NEEDSARG)) (\<lambda>_.
       bindR (if b - 1 = LUA_MULTRET then checkopenop pt pc else Inr ()) (\<lambda>_.
       bindR (checkreg pt (a + (b - 1) - 1)) (\<lambda>_. Inr (pc, lst))))
   | _ \<Rightarrow> Inr (pc, lst))"

definition sym_step :: "proto \<Rightarrow> int \<Rightarrow> int \<Rightarrow> int \<Rightarrow> int \<Rightarrow> (int \<times> int) sym" where
  "sym_step pt lastpc reg pc lst =
     bindR (fetch (p_code pt) pc) (\<lambda>i.
     bindR (of_opt Refused (GET_OPCODE i)) (\<lambda>opc. let a = GETARG_A i in
     bindR (checkreg pt a) (\<lambda>_.
     bindR (check_args pt pc opc i) (\<lambda>(b, c).
     let lst = (if testAMode (luaP_opmodes opc) \<and> a = reg then pc else lst) in
     bindR (check_skip pt pc opc) (\<lambda>_. sym_switch pt lastpc reg opc a b c pc lst)))))"

lemma check_simps [simp]: "check x = Inr u \<longleftrightarrow> x" "check x = Inl e \<longleftrightarrow> \<not> x \<and> e = Refused"
  by (auto simp: check_def)

lemma fetch_Inr [simp]: "fetch xs n = Inr x \<longleftrightarrow> 0 \<le> n \<and> n < int (length xs) \<and> x = xs ! nat n"
  by (auto simp: fetch_def)

lemma sym_switch_forward:
  assumes "sym_switch pt lastpc reg opc a b c pc lst = Inr (pc', lst')" shows "pc \<le> pc'"
  using assms by (cases opc) (auto simp: sym_switch_def sym_closure_def sym_jump_def p_nups_def Let_def split: if_splits)

lemma sym_step_forward: "sym_step pt lastpc reg pc lst = Inr (pc', lst') \<Longrightarrow> pc \<le> pc'"
  by (auto simp: sym_step_def Let_def dest: sym_switch_forward)

subsection \<open>The pass over the code\<close>

function sym_loop :: "proto \<Rightarrow> int \<Rightarrow> int \<Rightarrow> int \<Rightarrow> int \<Rightarrow> int sym" where
  "sym_loop pt lastpc reg pc lst = (if pc < lastpc then
     bindR (sym_step pt lastpc reg pc lst) (\<lambda>(pc', lst'). sym_loop pt lastpc reg (pc' + 1) lst')
   else Inr lst)"
  by auto

termination
  by (relation "measure (\<lambda>(pt, lastpc, reg, pc, lst). nat (lastpc - pc))") (auto dest: sym_step_forward)

declare sym_loop.simps [simp del]

definition symbexec :: "proto \<Rightarrow> int \<Rightarrow> int \<Rightarrow> instruction sym" where
  "symbexec pt lastpc reg = bindR (precheck pt) (\<lambda>_.
     bindR (sym_loop pt lastpc reg 0 (sizecode pt - 1)) (\<lambda>lst. fetch (p_code pt) lst))"

text \<open>What the caller gets: the instruction, 0 for a refused check, nothing defined for a bad read.\<close>

definition sym_result :: "instruction sym \<Rightarrow> instruction option" where
  "sym_result r = (case r of Inr i \<Rightarrow> Some i | Inl Refused \<Rightarrow> Some 0 | Inl OutOfVector \<Rightarrow> None)"

definition luaG_checkcode :: "proto \<Rightarrow> bool option" where
  "luaG_checkcode pt = map_option (\<lambda>i. i \<noteq> 0) (sym_result (symbexec pt (sizecode pt) NO_REG))"

end
