(* ===== verification/Lua_Control.thy ===== *)
theory Lua_Control
  imports Lua_Checkcode
begin

text \<open>
  What a checked prototype guarantees to the interpreter loop. \<open>vm_next\<close> and \<open>vm_access\<close> read off
  \<open>luaV_execute\<close> (\<open>lua/lvm.c\<close>), instruction by instruction, where control goes next and which registers,
  constants, upvalues and nested prototypes are used; what the instruction computes plays no part, so
  both outcomes of a test are possible.
\<close>

subsection \<open>Control flow of the interpreter loop\<close>

text \<open>A state is the position of the next instruction and whether \<open>L->top\<close> was left open by a call or
  a vararg of unknown length (\<open>L->top \<noteq> L->ci->top\<close>).\<close>

definition test_next :: "proto \<Rightarrow> int \<Rightarrow> bool \<Rightarrow> (int \<times> bool) list sym" where
  "test_next pt pc opn = bindR (fetch (p_code pt) pc) (\<lambda>j. Inr [(pc + GETARG_sBx j + 1, opn), (pc + 1, opn)])"

definition op_next :: "proto \<Rightarrow> opcode \<Rightarrow> instruction \<Rightarrow> int \<Rightarrow> bool \<Rightarrow> (int \<times> bool) list sym" where
  "op_next pt opc i pc opn = (case opc of
     OP_LOADBOOL \<Rightarrow> Inr [(if GETARG_C i \<noteq> 0 then pc + 1 else pc, opn)]
   | OP_JMP \<Rightarrow> Inr [(pc + GETARG_sBx i, opn)]
   | OP_EQ \<Rightarrow> test_next pt pc opn
   | OP_LT \<Rightarrow> test_next pt pc opn
   | OP_LE \<Rightarrow> test_next pt pc opn
   | OP_TEST \<Rightarrow> test_next pt pc opn
   | OP_TESTSET \<Rightarrow> test_next pt pc opn
   | OP_CALL \<Rightarrow> Inr [(pc, GETARG_C i - 1 = LUA_MULTRET)]
   | OP_TAILCALL \<Rightarrow> Inr [(pc, True)]
   | OP_RETURN \<Rightarrow> Inr []
   | OP_FORLOOP \<Rightarrow> Inr [(pc + GETARG_sBx i, opn), (pc, opn)]
   | OP_FORPREP \<Rightarrow> Inr [(pc + GETARG_sBx i, opn)]
   | OP_TFORLOOP \<Rightarrow> test_next pt pc False
   | OP_SETLIST \<Rightarrow> (let opn = (opn \<and> GETARG_B i \<noteq> 0) in
       if GETARG_C i = 0 then bindR (fetch (p_code pt) pc) (\<lambda>c. Inr [(pc + 1, opn)]) else Inr [(pc, opn)])
   | OP_CLOSURE \<Rightarrow> bindR (fetch (pr_p pt) (GETARG_Bx i)) (\<lambda>p. Inr [(pc + p_nups p, opn)])
   | OP_VARARG \<Rightarrow> Inr [(pc, opn \<or> GETARG_B i - 1 = LUA_MULTRET)]
   | _ \<Rightarrow> Inr [(pc, opn)])"

definition vm_next :: "proto \<Rightarrow> int \<Rightarrow> bool \<Rightarrow> (int \<times> bool) list sym" where
  "vm_next pt pc opn = bindR (fetch (p_code pt) pc) (\<lambda>i. case GET_OPCODE i of
     Some opc \<Rightarrow> op_next pt opc i (pc + 1) opn | None \<Rightarrow> Inr [(pc + 1, opn)])"

inductive vm_reach :: "proto \<Rightarrow> int \<times> bool \<Rightarrow> bool" for pt :: proto where
  entry: "vm_reach pt (0, False)"
| step: "vm_reach pt (pc, opn) \<Longrightarrow> vm_next pt pc opn = Inr ss \<Longrightarrow> s \<in> set ss \<Longrightarrow> vm_reach pt s"

text \<open>What an instruction uses. \<open>Above\<close> is a register of the frame a generic \<open>for\<close> builds for its
  iterator; it may lie above the function's own registers, in the spare slots every stack has.\<close>

datatype access = Reg int | Above int | Konst int | KString int | Upval int | Subproto int

definition EXTRA_STACK :: int where "EXTRA_STACK = 5"

definition access_ok :: "proto \<Rightarrow> access \<Rightarrow> bool" where
  "access_ok pt x = (case x of
     Reg r \<Rightarrow> 0 \<le> r \<and> r < maxstacksize pt
   | Above r \<Rightarrow> 0 \<le> r \<and> r < maxstacksize pt + EXTRA_STACK
   | Konst n \<Rightarrow> 0 \<le> n \<and> n < int (length (p_k pt))
   | KString n \<Rightarrow> 0 \<le> n \<and> n < int (length (p_k pt)) \<and> ttisstring_k (p_k pt ! nat n)
   | Upval n \<Rightarrow> 0 \<le> n \<and> n < p_nups pt
   | Subproto n \<Rightarrow> 0 \<le> n \<and> n < int (length (pr_p pt)))"

definition RK :: "int \<Rightarrow> access" where
  "RK x = (if ISK x then Konst (INDEXK x) else Reg x)"

definition regs :: "int \<Rightarrow> int \<Rightarrow> access list" where
  "regs m n = map Reg [m..n]"

text \<open>The values a closure captures, from the \<open>n\<close> words after \<open>pc\<close>.\<close>

fun captures :: "proto \<Rightarrow> int \<Rightarrow> nat \<Rightarrow> access list sym" where
  "captures pt pc 0 = Inr []"
| "captures pt pc (Suc n) = bindR (fetch (p_code pt) pc) (\<lambda>i. bindR (captures pt (pc + 1) n) (\<lambda>xs.
     Inr ((if GET_OPCODE i = Some OP_GETUPVAL then Upval (GETARG_B i) else Reg (GETARG_B i)) # xs)))"

definition op_access :: "proto \<Rightarrow> opcode \<Rightarrow> instruction \<Rightarrow> int \<Rightarrow> access list sym" where
  "op_access pt opc i pc = (let a = GETARG_A i; b = GETARG_B i; c = GETARG_C i; bx = GETARG_Bx i in
     if opc \<in> {OP_MOVE, OP_UNM, OP_NOT, OP_LEN, OP_TESTSET} then Inr [Reg b, Reg a]
     else if opc \<in> {OP_ADD, OP_SUB, OP_MUL, OP_DIV, OP_MOD, OP_POW, OP_SETTABLE} then Inr [RK b, RK c, Reg a]
     else if opc \<in> {OP_EQ, OP_LT, OP_LE} then Inr [RK b, RK c]
     else if opc \<in> {OP_LOADBOOL, OP_NEWTABLE, OP_TEST, OP_CLOSE} then Inr [Reg a]
     else (case opc of
       OP_LOADK \<Rightarrow> Inr [Konst bx, Reg a]
     | OP_LOADNIL \<Rightarrow> Inr (Reg b # regs a b)
     | OP_GETUPVAL \<Rightarrow> Inr [Upval b, Reg a]
     | OP_SETUPVAL \<Rightarrow> Inr [Upval b, Reg a]
     | OP_GETGLOBAL \<Rightarrow> Inr [KString bx, Reg a]
     | OP_SETGLOBAL \<Rightarrow> Inr [KString bx, Reg a]
     | OP_GETTABLE \<Rightarrow> Inr [Reg b, RK c, Reg a]
     | OP_SELF \<Rightarrow> Inr [Reg b, Reg (a + 1), RK c, Reg a]
     | OP_CONCAT \<Rightarrow> Inr (regs b c @ [Reg b, Reg a])
     | OP_CALL \<Rightarrow> Inr (Reg a # regs a (a + b - 1) @ regs a (a + (c - 1) - 1))
     | OP_TAILCALL \<Rightarrow> Inr (Reg a # regs a (a + b - 1))
     | OP_RETURN \<Rightarrow> Inr (regs a (a + (b - 1) - 1))
     | OP_FORLOOP \<Rightarrow> Inr (regs a (a + 3))
     | OP_FORPREP \<Rightarrow> Inr (regs a (a + 2))
     | OP_TFORLOOP \<Rightarrow> Inr (regs a (a + 3) @ map Above [a + 4, a + 5] @ regs (a + 3) (a + 2 + c))
     | OP_SETLIST \<Rightarrow> Inr (regs a (a + b))
     | OP_CLOSURE \<Rightarrow> bindR (fetch (pr_p pt) bx) (\<lambda>p. bindR (captures pt pc (nat (p_nups p))) (\<lambda>xs.
         Inr (Subproto bx # xs @ [Reg a])))
     | OP_VARARG \<Rightarrow> Inr (regs a (a + (b - 1) - 1))
     | _ \<Rightarrow> Inr []))"

definition vm_access :: "proto \<Rightarrow> int \<Rightarrow> access list sym" where
  "vm_access pt pc = bindR (fetch (p_code pt) pc) (\<lambda>i. case GET_OPCODE i of
     Some opc \<Rightarrow> op_access pt opc i (pc + 1) | None \<Rightarrow> Inr [])"

subsection \<open>The positions the checker visits\<close>

definition next_pc :: "proto \<Rightarrow> int \<Rightarrow> int" where
  "next_pc pt pc = pc + (if is_setlist0 (p_code pt ! nat pc) then 2 else 1)"

text \<open>The positions of instructions, as opposed to the counts after a \<open>SETLIST\<close>.\<close>

inductive real_pc :: "proto \<Rightarrow> int \<Rightarrow> bool" for pt :: proto where
  first: "real_pc pt 0"
| follow: "real_pc pt pc \<Longrightarrow> pc < sizecode pt \<Longrightarrow> real_pc pt (next_pc pt pc)"

lemma real_pc_nonneg: "real_pc pt pc \<Longrightarrow> 0 \<le> pc"
  by (induction rule: real_pc.induct) (auto simp: next_pc_def)

definition fine :: "proto \<Rightarrow> int \<Rightarrow> bool" where
  "fine pt pc = (\<exists>lst s. sym_step pt (sizecode pt) NO_REG pc lst = Inr s)"

definition passed :: "proto \<Rightarrow> bool" where
  "passed pt = (\<exists>i. symbexec pt (sizecode pt) NO_REG = Inr i)"

lemma accepted_passed: "luaG_checkcode pt = Some True \<Longrightarrow> passed pt"
  by (auto simp: luaG_checkcode_def sym_result_def passed_def split: sum.splits sym_exit.splits)

lemma sym_step_next:
  assumes "sym_step pt L NO_REG pc lst = Inr (pc', lst')" shows "pc' + 1 = next_pc pt pc"
proof -
  obtain opc where opc: "GET_OPCODE (p_code pt ! nat pc) = Some opc"
    using assms by (auto simp: sym_step_def Let_def)
  show ?thesis using assms opc
    by (cases opc) (auto simp: sym_step_def sym_switch_def sym_closure_def sym_jump_def next_pc_def is_setlist0_def
        check_args_def opmode_def Let_def split: if_splits)
qed

lemma loop_at_real:
  assumes "passed pt" "real_pc pt pc"
  shows "\<exists>lst r. sym_loop pt (sizecode pt) NO_REG pc lst = Inr r"
  using assms(2)
proof (induction rule: real_pc.induct)
  case first
  show ?case using assms(1) by (auto simp: passed_def symbexec_def)
next
  case (follow pc)
  then obtain lst r where r: "sym_loop pt (sizecode pt) NO_REG pc lst = Inr r" by blast
  then obtain s where "sym_step pt (sizecode pt) NO_REG pc lst = Inr s"
      "sym_loop pt (sizecode pt) NO_REG (fst s + 1) (snd s) = Inr r"
    using follow.hyps by (subst (asm) sym_loop.simps) (auto split: prod.splits)
  then show ?case using sym_step_next by (metis prod.collapse)
qed

lemma real_fine: "passed pt \<Longrightarrow> real_pc pt pc \<Longrightarrow> pc < sizecode pt \<Longrightarrow> fine pt pc"
  using loop_at_real [of pt pc] by (subst (asm) sym_loop.simps) (auto simp: fine_def)

subsection \<open>Jumps land on instructions\<close>

lemma covered: "int n \<le> sizecode pt \<Longrightarrow> real_pc pt (int n) \<or>
  (\<exists>m. n = Suc m \<and> real_pc pt (int m) \<and> is_setlist0 (p_code pt ! m))"
proof (induction n)
  case (Suc n)
  then have n: "int n < sizecode pt" by simp
  from Suc consider "real_pc pt (int n)" | m where "n = Suc m" "real_pc pt (int m)" "is_setlist0 (p_code pt ! m)"
    by auto
  then show ?case
  proof cases
    case 1
    then show ?thesis using real_pc.follow [OF 1 n] by (auto simp: next_pc_def add.commute)
  next
    case 2
    then show ?thesis using real_pc.follow [of pt "int m"] n by (simp add: next_pc_def add.commute)
  qed
qed (simp add: real_pc.first)

lemma setlist_run_spec: "setlist_run code n = Inr j \<Longrightarrow> j \<le> n \<and> (\<forall>i. n - j \<le> i \<and> i < n \<longrightarrow> is_setlist0 (code ! i)) \<and>
  (j < n \<longrightarrow> \<not> is_setlist0 (code ! (n - j - 1)))"
proof (induction n arbitrary: j)
  case (Suc n)
  show ?case
  proof (cases "is_setlist0 (code ! n)")
    case True
    then obtain m where m: "j = Suc m" "setlist_run code n = Inr m" using Suc.prems by auto
    then show ?thesis using Suc.IH [OF m(2)] True by (auto simp: less_Suc_eq)
  qed (use Suc.prems in auto)
qed simp

lemma real_two: "real_pc pt (int p) \<Longrightarrow> int p < sizecode pt \<Longrightarrow> is_setlist0 (p_code pt ! p) \<Longrightarrow> real_pc pt (int (p + 2))"
  using real_pc.follow [of pt "int p"] by (simp add: next_pc_def add.commute)

lemma real_hop:
  assumes "real_pc pt (int q)" "\<forall>i. q \<le> i \<and> i < q + 2 * m \<longrightarrow> is_setlist0 (p_code pt ! i)" "int (q + 2 * m) \<le> sizecode pt"
  shows "real_pc pt (int (q + 2 * m))"
  using assms(2,3)
proof (induction m)
  case (Suc m)
  then have "real_pc pt (int (q + 2 * m))" by simp
  moreover have "is_setlist0 (p_code pt ! (q + 2 * m))" using Suc.prems by simp
  ultimately have "real_pc pt (int (q + 2 * m + 2))" using Suc.prems(2) by (intro real_two) auto
  then show ?case by (simp add: algebra_simps)
qed (use assms(1) in simp)

lemma check_dest_real:
  assumes "check_dest pt pc b = Inr ()" shows "real_pc pt (pc + 1 + b) \<and> pc + 1 + b < sizecode pt"
proof (cases "pc + 1 + b = 0")
  case True
  then show ?thesis using assms real_pc.first [of pt] by (simp add: check_dest_def)
next
  case False
  then obtain n where n: "pc + 1 + b = int n" "0 < n" "int n < sizecode pt"
    using assms by (cases "pc + 1 + b") (auto simp: check_dest_def)
  then obtain j where j: "setlist_run (p_code pt) n = Inr j" "even j"
    using assms by (auto simp: check_dest_def)
  obtain k where k: "j = 2 * k" using j(2) by auto
  note r = setlist_run_spec [OF j(1)]
  have "real_pc pt (int (n - j))"
  proof -
    have no: "\<not> is_setlist0 (p_code pt ! m)" if m: "n - j = Suc m" for m
    proof -
      have "j < n" "m = n - j - 1" using m by auto
      then show ?thesis using r by simp
    qed
    have "int (n - j) \<le> sizecode pt" using n(3) by linarith
    from covered [OF this] no show ?thesis by blast
  qed
  then have "real_pc pt (int (n - j + 2 * k))"
    by (rule real_hop) (use r k n(3) in auto)
  then show ?thesis using r k n by simp
qed

subsection \<open>What one accepted instruction guarantees\<close>

lemma passed_last:
  assumes "passed pt" shows "0 < sizecode pt" "GET_OPCODE (p_code pt ! nat (sizecode pt - 1)) = Some OP_RETURN"
  using assms by (auto simp: passed_def symbexec_def precheck_def Let_def)

lemma fineE:
  assumes "fine pt pc"
  obtains opc b c lst s where "0 \<le> pc" "pc < sizecode pt" "GET_OPCODE (p_code pt ! nat pc) = Some opc"
    "GETARG_A (p_code pt ! nat pc) < maxstacksize pt" "check_args pt pc opc (p_code pt ! nat pc) = Inr (b, c)"
    "check_skip pt pc opc = Inr ()"
    "sym_switch pt (sizecode pt) NO_REG opc (GETARG_A (p_code pt ! nat pc)) b c pc lst = Inr s"
proof -
  from assms obtain l s where "sym_step pt (sizecode pt) NO_REG pc l = Inr s" by (auto simp: fine_def)
  then show ?thesis by (auto simp: sym_step_def Let_def sizecode_def checkreg_def intro: that)
qed

lemma real_Suc:
  "real_pc pt pc \<Longrightarrow> pc < sizecode pt \<Longrightarrow> \<not> is_setlist0 (p_code pt ! nat pc) \<Longrightarrow> real_pc pt (pc + 1)"
  using real_pc.follow [of pt pc] by (simp add: next_pc_def)

lemma before_last:
  "passed pt \<Longrightarrow> pc < sizecode pt \<Longrightarrow> GET_OPCODE (p_code pt ! nat pc) \<noteq> Some OP_RETURN \<Longrightarrow> pc + 1 < sizecode pt"
  using passed_last [of pt] by (cases "pc = sizecode pt - 1") auto

lemma pseudo_real:
  assumes "passed pt" "real_pc pt pc" "pc < sizecode pt" "\<not> is_setlist0 (p_code pt ! nat pc)"
    "check_pseudo pt pc n = Inr ()"
  shows "real_pc pt (pc + int n + 1) \<and> (\<exists>xs. captures pt (pc + 1) n = Inr xs \<and> list_all (access_ok pt) xs) \<and>
    (n \<noteq> 0 \<longrightarrow> pc + int n < sizecode pt \<and> GET_OPCODE (p_code pt ! nat (pc + int n)) \<noteq> Some OP_RETURN)"
  using assms(2-)
proof (induction n arbitrary: pc)
  case 0
  then show ?case using real_Suc [of pt pc] by simp
next
  case (Suc n)
  let ?i = "p_code pt ! nat (pc + 1)"
  have r: "real_pc pt (pc + 1)" using Suc.prems real_Suc by blast
  have i: "pc + 1 < sizecode pt" "GET_OPCODE ?i = Some OP_GETUPVAL \<or> GET_OPCODE ?i = Some OP_MOVE"
      "check_pseudo pt (pc + 1) n = Inr ()"
    using Suc.prems by (auto simp: sizecode_def)
  have "\<not> is_setlist0 ?i" using i by (auto simp: is_setlist0_def)
  note IH = Suc.IH [OF r i(1) this i(3)]
  have "access_ok pt (if GET_OPCODE ?i = Some OP_GETUPVAL then Upval (GETARG_B ?i) else Reg (GETARG_B ?i))"
  proof -
    have "fine pt (pc + 1)" using real_fine [OF assms(1) r i(1)] .
    then show ?thesis using i(2) by (elim fineE)
      (auto simp: access_ok_def check_args_def checkArgMode_def checkreg_def sym_switch_def opmode_def Let_def)
  qed
  then show ?case using IH i(1,2) real_pc_nonneg [OF r] by (auto simp: sizecode_def algebra_simps)
qed

end
