(* ===== verification/Lua_Control_Props.thy ===== *)
theory Lua_Control_Props
  imports Lua_Control
begin

text \<open>
  The guarantee of the code checker: it answers for every prototype without reading outside it, and
  code it accepts never leads the interpreter loop outside its instructions or its operands. One
  instruction escapes the checker: a \<open>LOADBOOL\<close> whose \<open>C\<close> is neither 0 nor 1.
\<close>

subsection \<open>The checker itself\<close>

lemma setlist_run_total: "int n \<le> int (length code) \<Longrightarrow> \<exists>j. setlist_run code n = Inr j"
  by (induction n) (auto simp: fetch_def)

lemma check_Inl: "bindR (check x) f = Inl OutOfVector \<longleftrightarrow> x \<and> f () = Inl OutOfVector"
  by (auto simp: check_def guardR_def)

lemma checkreg_Inl: "bindR (checkreg pt r) f = Inl OutOfVector \<longleftrightarrow> r < maxstacksize pt \<and> f () = Inl OutOfVector"
  by (simp add: checkreg_def check_Inl)

lemma check_not_out [simp]: "check x \<noteq> Inl OutOfVector" "checkreg pt r \<noteq> Inl OutOfVector"
  by (auto simp: checkreg_def)

lemma fetch_Inl: "fetch xs n = Inl e \<longleftrightarrow> (n < 0 \<or> int (length xs) \<le> n) \<and> e = OutOfVector"
  by (auto simp: fetch_def)

lemma precheck_safe: "precheck pt \<noteq> Inl OutOfVector"
  by (auto simp: precheck_def Let_def check_Inl bindR_eq_Inl fetch_Inl sizecode_def)

lemma checkArgMode_safe: "checkArgMode pt r m \<noteq> Inl OutOfVector"
  by (auto simp: checkArgMode_def split: op_arg.splits)

lemma check_dest_safe: "check_dest pt pc b \<noteq> Inl OutOfVector"
proof (cases "0 \<le> pc + 1 + b \<and> pc + 1 + b < sizecode pt")
  case True
  then obtain j where "setlist_run (p_code pt) (nat (pc + 1 + b)) = Inr j"
    using setlist_run_total [of "nat (pc + 1 + b)" "p_code pt"] by (auto simp: sizecode_def)
  then show ?thesis by (simp add: check_dest_def Let_def check_Inl)
qed (simp add: check_dest_def Let_def check_Inl)

lemma check_args_safe: "check_args pt pc opc i \<noteq> Inl OutOfVector"
  using checkArgMode_safe check_dest_safe
  by (auto simp: check_args_def Let_def bindR_eq_Inl split: op_format.splits if_splits)

lemma check_skip_safe: "0 \<le> pc \<Longrightarrow> check_skip pt pc opc \<noteq> Inl OutOfVector"
  by (auto simp: check_skip_def check_Inl bindR_eq_Inl fetch_Inl sizecode_def)

lemma checkopenop_safe: "0 \<le> pc \<Longrightarrow> pc + 1 < sizecode pt \<Longrightarrow> checkopenop pt pc \<noteq> Inl OutOfVector"
  by (auto simp: checkopenop_def bindR_eq_Inl fetch_Inl sizecode_def)

lemma check_pseudo_safe: "0 \<le> pc \<Longrightarrow> pc + int n < sizecode pt \<Longrightarrow> check_pseudo pt pc n \<noteq> Inl OutOfVector"
  by (induction n arbitrary: pc) (auto simp: bindR_eq_Inl fetch_Inl sizecode_def)

lemma sym_switch_safe:
  assumes "0 \<le> pc" "pc < sizecode pt" "opc \<noteq> OP_RETURN \<Longrightarrow> pc + 1 < sizecode pt"
    "check_args pt pc opc i = Inr (b, c)"
  shows "sym_switch pt lastpc reg opc a b c pc lst \<noteq> Inl OutOfVector"
  using assms checkopenop_safe [of pc pt] check_pseudo_safe [of pc _ pt]
  by (cases opc) (auto simp: sym_switch_def sym_call_def sym_closure_def Let_def check_Inl checkreg_Inl bindR_eq_Inl
      fetch_Inl check_args_def opmode_def p_nups_def sizecode_def not_less split: if_splits)

lemma sym_step_last:
  assumes "sym_step pt lastpc reg pc lst = Inr (pc', lst')" "precheck pt = Inr ()"
  shows "lst' = lst \<or> lst' = pc \<and> 0 \<le> pc \<and> pc < sizecode pt \<and> (reg = NO_REG \<longrightarrow> GET_OPCODE (p_code pt ! nat pc) \<noteq> Some OP_MOVE)"
proof -
  let ?i = "p_code pt ! nat pc"
  obtain opc b c where o: "0 \<le> pc" "pc < sizecode pt" "GET_OPCODE ?i = Some opc" "GETARG_A ?i < maxstacksize pt"
    "sym_switch pt lastpc reg opc (GETARG_A ?i) b c pc (if testAMode (luaP_opmodes opc) \<and> GETARG_A ?i = reg then pc else lst) = Inr (pc', lst')"
    using assms(1) by (auto simp: sym_step_def Let_def sizecode_def checkreg_def)
  have "maxstacksize pt < NO_REG" using assms(2) by (auto simp: precheck_def Let_def MAXSTACK_def NO_REG_def)
  then show ?thesis using o
    by (cases opc) (auto simp: sym_switch_def sym_closure_def sym_jump_def opmode_def Let_def split: if_splits)
qed

lemma sym_loop_last:
  assumes "precheck pt = Inr ()"
  shows "sym_loop pt lastpc reg pc lst = Inr r \<Longrightarrow> 0 \<le> lst \<and> lst < sizecode pt \<and> (reg = NO_REG \<longrightarrow> GET_OPCODE (p_code pt ! nat lst) \<noteq> Some OP_MOVE) \<Longrightarrow>
    0 \<le> r \<and> r < sizecode pt \<and> (reg = NO_REG \<longrightarrow> GET_OPCODE (p_code pt ! nat r) \<noteq> Some OP_MOVE)"
  using assms
proof (induction pt lastpc reg pc lst rule: sym_loop.induct)
  case (1 pt lastpc reg pc lst)
  show ?case
  proof (cases "pc < lastpc")
    case True
    then obtain pc' lst' where s: "sym_step pt lastpc reg pc lst = Inr (pc', lst')"
        "sym_loop pt lastpc reg (pc' + 1) lst' = Inr r"
      using "1.prems"(1) by (subst (asm) sym_loop.simps) auto
    show ?thesis using "1.IH" [OF True s(1) refl s(2) _ "1.prems"(3)] sym_step_last [OF s(1) "1.prems"(3)] "1.prems"(2)
      by blast
  next
    case False
    then show ?thesis using "1.prems" by (simp add: sym_loop.simps)
  qed
qed

lemma sym_step_safe:
  assumes "precheck pt = Inr ()" "0 \<le> pc" "pc < sizecode pt" shows "sym_step pt lastpc reg pc lst \<noteq> Inl OutOfVector"
proof -
  have "pc + 1 < sizecode pt" if "GET_OPCODE (p_code pt ! nat pc) \<noteq> Some OP_RETURN"
    using that assms by (cases "pc = sizecode pt - 1") (auto simp: precheck_def Let_def)
  then show ?thesis using assms check_args_safe check_skip_safe [OF assms(2)] sym_switch_safe [OF assms(2,3)]
    by (auto simp: sym_step_def Let_def bindR_eq_Inl checkreg_Inl fetch_Inl sizecode_def)
qed

lemma sym_loop_safe:
  assumes "precheck pt = Inr ()"
  shows "0 \<le> pc \<Longrightarrow> lastpc \<le> sizecode pt \<Longrightarrow> sym_loop pt lastpc reg pc lst \<noteq> Inl OutOfVector"
  using assms
proof (induction pt lastpc reg pc lst rule: sym_loop.induct)
  case (1 pt lastpc reg pc lst)
  show ?case
  proof (cases "pc < lastpc")
    case True
    then have "sym_step pt lastpc reg pc lst \<noteq> Inl OutOfVector" using sym_step_safe "1.prems" by auto
    moreover have "sym_loop pt lastpc reg (pc' + 1) lst' \<noteq> Inl OutOfVector"
      if "sym_step pt lastpc reg pc lst = Inr (pc', lst')" for pc' lst'
      using "1.IH" [OF True that refl] sym_step_forward [OF that] "1.prems" by simp
    ultimately show ?thesis by (subst sym_loop.simps) (auto simp: bindR_eq_Inl)
  qed (simp add: sym_loop.simps)
qed

lemma symbexec_safe: "lastpc \<le> sizecode pt \<Longrightarrow> symbexec pt lastpc reg \<noteq> Inl OutOfVector"
proof
  assume l: "lastpc \<le> sizecode pt" and "symbexec pt lastpc reg = Inl OutOfVector"
  then obtain r where p: "precheck pt = Inr ()" and r: "sym_loop pt lastpc reg 0 (sizecode pt - 1) = Inr r"
      "r < 0 \<or> sizecode pt \<le> r"
    using precheck_safe sym_loop_safe [of pt 0 lastpc] by (auto simp: symbexec_def bindR_eq_Inl fetch_Inl sizecode_def)
  have "0 < sizecode pt" "GET_OPCODE (p_code pt ! nat (sizecode pt - 1)) = Some OP_RETURN"
    using p by (auto simp: precheck_def Let_def)
  then show False using sym_loop_last [OF p r(1)] r(2) by auto
qed

lemma symbexec_nonzero:
  assumes "symbexec pt lastpc NO_REG = Inr i" shows "i \<noteq> 0"
proof -
  obtain r where p: "precheck pt = Inr ()" and r: "sym_loop pt lastpc NO_REG 0 (sizecode pt - 1) = Inr r"
      "i = p_code pt ! nat r"
    using assms by (auto simp: symbexec_def)
  have "0 < sizecode pt" "GET_OPCODE (p_code pt ! nat (sizecode pt - 1)) = Some OP_RETURN"
    using p by (auto simp: precheck_def Let_def)
  then have "GET_OPCODE i \<noteq> Some OP_MOVE" using sym_loop_last [OF p r(1)] r(2) by auto
  then show ?thesis using opcode_of_zero by auto
qed

text \<open>C38: For every prototype the checker of precompiled code answers, without a read outside the vectors
  of the prototype, and it accepts exactly the prototypes no check refuses (the instruction
  \<open>symbexec\<close> ends on is never the zero word that means refusal).\<close>

theorem checker_is_safe: "luaG_checkcode pt = Some (symbexec pt (sizecode pt) NO_REG \<noteq> Inl Refused)"
  using symbexec_safe [of "sizecode pt" pt NO_REG] symbexec_nonzero [of pt "sizecode pt"]
  by (auto simp: luaG_checkcode_def sym_result_def split: sum.splits sym_exit.splits)

subsection \<open>Accepted code\<close>

text \<open>What the compiler guarantees and the checker does not look at: \<open>C\<close> of a \<open>LOADBOOL\<close> is a
  flag, and a tail call leaves all its results.\<close>

definition plain_word :: "instruction \<Rightarrow> bool" where
  "plain_word i = ((GET_OPCODE i = Some OP_LOADBOOL \<longrightarrow> GETARG_C i \<le> 1) \<and> (GET_OPCODE i = Some OP_TAILCALL \<longrightarrow> GETARG_C i = 0))"

definition plain_code :: "proto \<Rightarrow> bool" where
  "plain_code pt = (\<forall>pc. real_pc pt pc \<and> pc < sizecode pt \<longrightarrow> plain_word (p_code pt ! nat pc))"

lemma plain_codeI: "list_all plain_word (p_code pt) \<Longrightarrow> plain_code pt"
  by (auto simp: plain_code_def list_all_length sizecode_def dest: real_pc_nonneg)

definition inside :: "proto \<Rightarrow> int \<Rightarrow> bool" where
  "inside pt pc = (real_pc pt pc \<and> pc < sizecode pt)"

lemma insideD: "inside pt pc \<Longrightarrow> 0 \<le> pc \<and> pc < sizecode pt \<and> pc < int (length (p_code pt))"
  by (auto simp: inside_def sizecode_def dest: real_pc_nonneg)

lemma inside_Suc:
  assumes "passed pt" "inside pt pc" "\<not> is_setlist0 (p_code pt ! nat pc)" "GET_OPCODE (p_code pt ! nat pc) \<noteq> Some OP_RETURN"
  shows "inside pt (pc + 1)"
  using assms real_Suc [of pt pc] before_last [of pt pc] by (simp add: inside_def)

lemma inside_fine: "passed pt \<Longrightarrow> inside pt pc \<Longrightarrow> fine pt pc"
  by (simp add: inside_def real_fine)

lemma inside_jump:
  assumes "passed pt" "inside pt pc" "GET_OPCODE (p_code pt ! nat pc) \<in> {Some OP_JMP, Some OP_FORLOOP, Some OP_FORPREP}"
  shows "inside pt (pc + 1 + GETARG_sBx (p_code pt ! nat pc))"
proof -
  have "check_dest pt pc (GETARG_sBx (p_code pt ! nat pc)) = Inr ()"
    using inside_fine [OF assms(1,2)] assms(3) by (elim fineE) (auto simp: check_args_def opmode_def Let_def)
  then show ?thesis using check_dest_real by (simp add: inside_def)
qed

text \<open>A test is followed by a jump, and goes to its target or past it.\<close>

lemma inside_test:
  assumes "passed pt" "inside pt pc" "GET_OPCODE (p_code pt ! nat pc) = Some opc" "testTMode (luaP_opmodes opc)"
  shows "inside pt (pc + 2) \<and> inside pt (pc + 2 + GETARG_sBx (p_code pt ! nat (pc + 1))) \<and> pc + 1 < int (length (p_code pt))"
proof -
  have "opc \<noteq> OP_SETLIST" "opc \<noteq> OP_RETURN" using assms(4) by (auto simp: opmode_def)
  then have n: "inside pt (pc + 1)" using inside_Suc assms by (simp add: is_setlist0_def)
  have s: "GET_OPCODE (p_code pt ! nat (pc + 1)) = Some OP_JMP"
    using inside_fine [OF assms(1,2)] assms(3,4) by (elim fineE) (auto simp: check_skip_def)
  have "inside pt (pc + 1 + 1)" by (rule inside_Suc [OF assms(1) n]) (simp_all add: s is_setlist0_def)
  moreover have "inside pt (pc + 1 + 1 + GETARG_sBx (p_code pt ! nat (pc + 1)))"
    by (rule inside_jump [OF assms(1) n]) (simp add: s)
  ultimately show ?thesis using insideD [OF n] by (simp add: add.assoc)
qed

lemma inside_loadbool:
  assumes "passed pt" "plain_word (p_code pt ! nat pc)" "inside pt pc" "GET_OPCODE (p_code pt ! nat pc) = Some OP_LOADBOOL"
    "GETARG_C (p_code pt ! nat pc) \<noteq> 0"
  shows "inside pt (pc + 2)"
proof -
  have n: "inside pt (pc + 1)" using inside_Suc assms by (simp add: is_setlist0_def)
  have "GETARG_C (p_code pt ! nat pc) \<le> 1" using assms by (simp add: plain_word_def)
  moreover have "0 \<le> GETARG_C (p_code pt ! nat pc)" by simp
  ultimately have c: "GETARG_C (p_code pt ! nat pc) = 1" using assms(5) by linarith
  have "pc + 2 < sizecode pt \<and> \<not> is_setlist0 (p_code pt ! nat (pc + 1))"
    using inside_fine [OF assms(1,3)] assms(4) c
    by (elim fineE) (auto simp: sym_switch_def check_args_def opmode_def Let_def)
  then show ?thesis using n real_Suc [of pt "pc + 1"] by (simp add: inside_def add.assoc)
qed

lemma inside_setlist:
  assumes "passed pt" "inside pt pc" "is_setlist0 (p_code pt ! nat pc)"
  shows "inside pt (pc + 2) \<and> pc + 1 < int (length (p_code pt))"
proof -
  have "pc + 1 < sizecode pt - 1"
    using inside_fine [OF assms(1,2)] assms(3)
    by (elim fineE) (auto simp: is_setlist0_def sym_switch_def check_args_def opmode_def Let_def)
  then show ?thesis using assms(2,3) real_pc.follow [of pt pc] by (simp add: inside_def next_pc_def sizecode_def)
qed

lemma inside_closure:
  assumes "passed pt" "inside pt pc" "GET_OPCODE (p_code pt ! nat pc) = Some OP_CLOSURE"
  obtains q xs where "fetch (pr_p pt) (GETARG_Bx (p_code pt ! nat pc)) = Inr q" "inside pt (pc + 1 + p_nups q)"
    "captures pt (pc + 1) (nat (p_nups q)) = Inr xs" "list_all (access_ok pt) xs"
proof -
  have a: "real_pc pt pc" "pc < sizecode pt" "\<not> is_setlist0 (p_code pt ! nat pc)" using assms by (auto simp: inside_def is_setlist0_def)
  obtain q where q: "fetch (pr_p pt) (GETARG_Bx (p_code pt ! nat pc)) = Inr q"
      "check_pseudo pt pc (nat (p_nups q)) = Inr ()"
    using inside_fine [OF assms(1,2)] assms(3)
    by (elim fineE) (auto simp: sym_switch_def sym_closure_def check_args_def opmode_def Let_def)
  note r = pseudo_real [OF assms(1) a q(2)]
  have n: "0 \<le> p_nups q" by (simp add: p_nups_def)
  have "inside pt (pc + 1 + p_nups q)"
  proof (cases "nat (p_nups q) = 0")
    case True
    then show ?thesis using inside_Suc [OF assms(1,2)] assms(3) n by (simp add: is_setlist0_def)
  next
    case False
    then have "pc + p_nups q + 1 < sizecode pt" using r n before_last [OF assms(1), of "pc + p_nups q"] by simp
    then show ?thesis using r n by (simp add: inside_def algebra_simps)
  qed
  then show ?thesis using q(1) r that by blast
qed

subsection \<open>One step stays inside\<close>

definition state_ok :: "proto \<Rightarrow> int \<times> bool \<Rightarrow> bool" where
  "state_ok pt s = (inside pt (fst s) \<and> (snd s \<longrightarrow> luaG_checkopenop (p_code pt ! nat (fst s))))"

text \<open>A result count of \<open>LUA_MULTRET\<close> makes the checker look at the next instruction.\<close>

lemma opens_checked:
  assumes "passed pt" "plain_word (p_code pt ! nat pc)" "inside pt pc" "GET_OPCODE (p_code pt ! nat pc) = Some opc"
    "opc = OP_CALL \<and> GETARG_C (p_code pt ! nat pc) = 0 \<or> opc = OP_TAILCALL \<or> opc = OP_VARARG \<and> GETARG_B (p_code pt ! nat pc) = 0"
  shows "luaG_checkopenop (p_code pt ! nat (pc + 1))"
proof -
  have "opc = OP_TAILCALL \<longrightarrow> GETARG_C (p_code pt ! nat pc) = 0"
    using assms by (auto simp: plain_word_def)
  then show ?thesis using inside_fine [OF assms(1,3)] assms(4,5)
    by (elim fineE) (auto simp: sym_switch_def sym_call_def checkopenop_def check_args_def opmode_def Let_def LUA_MULTRET_def)
qed

lemma step_inside:
  assumes p: "passed pt" and st: "state_ok pt (pc, opn)"
  shows "\<exists>ss. vm_next pt pc opn = Inr ss \<and> (plain_word (p_code pt ! nat pc) \<longrightarrow> list_all (state_ok pt) ss)"
proof -
  let ?i = "p_code pt ! nat pc"
  have i: "inside pt pc" using st by (simp add: state_ok_def)
  obtain opc where o: "GET_OPCODE ?i = Some opc" using inside_fine [OF p i] by (elim fineE) auto
  have opn: "opn \<longrightarrow> opc \<in> {OP_CALL, OP_TAILCALL, OP_RETURN, OP_SETLIST} \<and> GETARG_B ?i = 0"
    using st o by (auto simp: state_ok_def luaG_checkopenop_def)
  have suc: "opc \<noteq> OP_RETURN \<Longrightarrow> \<not> (opc = OP_SETLIST \<and> GETARG_C ?i = 0) \<Longrightarrow> inside pt (pc + 1)"
    using inside_Suc [OF p i] o by (auto simp: is_setlist0_def)
  have v: "vm_next pt pc opn = op_next pt opc ?i (pc + 1) opn" using insideD [OF i] o by (simp add: vm_next_def fetch_def)
  have test: "\<exists>ss. test_next pt (pc + 1) False = Inr ss \<and> list_all (state_ok pt) ss" if "testTMode (luaP_opmodes opc)"
    using inside_test [OF p i o that] insideD [OF i] by (simp add: test_next_def state_ok_def algebra_simps)
  have jump: "opc \<in> {OP_JMP, OP_FORLOOP, OP_FORPREP} \<Longrightarrow> inside pt (pc + 1 + GETARG_sBx ?i)"
    using inside_jump [OF p i] o by auto
  show ?thesis
  proof (cases "opc = OP_CLOSURE")
    case True
    then obtain q where "fetch (pr_p pt) (GETARG_Bx ?i) = Inr q" "inside pt (pc + 1 + p_nups q)"
      using inside_closure [OF p i] o by metis
    then show ?thesis using True v opn by (auto simp: op_next_def state_ok_def)
  next
    case False
    show ?thesis
    proof (cases "opc = OP_SETLIST \<and> GETARG_C ?i = 0")
      case True
      then show ?thesis using v opn inside_setlist [OF p i] insideD [OF i] o
        by (auto simp: op_next_def state_ok_def is_setlist0_def add.assoc)
    next
      case nsl: False
      show ?thesis
      proof (cases "plain_word ?i")
        case c: True
        show ?thesis using v suc False nsl opn test jump inside_loadbool [OF p c i] opens_checked [OF p c i o] o
          by (cases opc) (auto simp: op_next_def state_ok_def LUA_MULTRET_def opmode_def add.assoc)
      next
        case False
        then have "opc = OP_LOADBOOL \<or> opc = OP_TAILCALL" using o by (auto simp: plain_word_def)
        then show ?thesis using False v opn by (auto simp: op_next_def)
      qed
    qed
  qed
qed

text \<open>The states the loop comes to up to and including the first instruction that is not plain.\<close>

inductive plain_reach :: "proto \<Rightarrow> int \<times> bool \<Rightarrow> bool" for pt where
  entry: "plain_reach pt (0, False)"
| step: "plain_reach pt (pc, opn) \<Longrightarrow> plain_word (p_code pt ! nat pc) \<Longrightarrow> vm_next pt pc opn = Inr ss \<Longrightarrow>
    s \<in> set ss \<Longrightarrow> plain_reach pt s"

lemma plain_reach_ok:
  assumes "plain_reach pt s" "passed pt" shows "state_ok pt s"
  using assms(1)
proof (induction rule: plain_reach.induct)
  case entry
  show ?case using passed_last [OF assms(2)] by (simp add: state_ok_def inside_def real_pc.first)
next
  case (step pc opn ss s)
  then show ?case using step_inside [OF assms(2), of pc opn] by (auto simp: list_all_iff)
qed

text \<open>In code whose instructions are all plain these are all the states the loop comes to.\<close>

lemma plain_reach_all:
  assumes "passed pt" "plain_code pt" shows "vm_reach pt s \<longleftrightarrow> plain_reach pt s"
proof
  show "vm_reach pt s \<Longrightarrow> plain_reach pt s"
  proof (induction rule: vm_reach.induct)
    case (step pc opn ss s)
    have "inside pt pc" using plain_reach_ok [OF step.IH assms(1)] by (simp add: state_ok_def)
    then have "plain_word (p_code pt ! nat pc)" using assms(2) by (simp add: plain_code_def inside_def)
    then show ?case using step plain_reach.step by blast
  qed (rule plain_reach.entry)
  show "plain_reach pt s \<Longrightarrow> vm_reach pt s"
    by (induction rule: plain_reach.induct) (auto intro: vm_reach.intros)
qed

subsection \<open>Operands stay inside\<close>

lemma regs_ok: "list_all (access_ok pt) (regs m n) \<longleftrightarrow> (m \<le> n \<longrightarrow> 0 \<le> m \<and> n < maxstacksize pt)"
  by (auto simp: regs_def list_all_iff access_ok_def)

lemma RK_ok: "0 \<le> x \<Longrightarrow> checkArgMode pt x OpArgK = Inr () \<Longrightarrow> access_ok pt (RK x)"
  by (auto simp: RK_def access_ok_def checkArgMode_def)

lemma access_ok_simps [simp]:
  "access_ok pt (Reg r) \<longleftrightarrow> 0 \<le> r \<and> r < maxstacksize pt"
  "access_ok pt (Above r) \<longleftrightarrow> 0 \<le> r \<and> r < maxstacksize pt + EXTRA_STACK"
  "access_ok pt (Konst n) \<longleftrightarrow> 0 \<le> n \<and> n < int (length (p_k pt))"
  "access_ok pt (KString n) \<longleftrightarrow> 0 \<le> n \<and> n < int (length (p_k pt)) \<and> ttisstring_k (p_k pt ! nat n)"
  "access_ok pt (Upval n) \<longleftrightarrow> 0 \<le> n \<and> n < p_nups pt"
  "access_ok pt (Subproto n) \<longleftrightarrow> 0 \<le> n \<and> n < int (length (pr_p pt))"
  by (simp_all add: access_ok_def)

lemma access_inside:
  assumes p: "passed pt" and i: "inside pt pc"
  shows "\<exists>xs. vm_access pt pc = Inr xs \<and> list_all (access_ok pt) xs"
proof -
  let ?i = "p_code pt ! nat pc"
  obtain opc b c lst s where f: "GET_OPCODE ?i = Some opc" "GETARG_A ?i < maxstacksize pt"
      "check_args pt pc opc ?i = Inr (b, c)"
      "sym_switch pt (sizecode pt) NO_REG opc (GETARG_A ?i) b c pc lst = Inr s"
    using inside_fine [OF p i] by (elim fineE) blast
  have v: "vm_access pt pc = op_access pt opc ?i (pc + 1)" using insideD [OF i] f(1) by (simp add: vm_access_def fetch_def)
  show ?thesis
  proof (cases "opc = OP_CLOSURE")
    case True
    then obtain q xs where "fetch (pr_p pt) (GETARG_Bx ?i) = Inr q" "captures pt (pc + 1) (nat (p_nups q)) = Inr xs"
        "list_all (access_ok pt) xs"
      using inside_closure [OF p i] f(1) by metis
    then show ?thesis using True v f(2) by (auto simp: op_access_def Let_def)
  next
    case False
    then show ?thesis using v f(2-)
      by (cases opc) (auto simp: op_access_def Let_def regs_ok RK_ok check_args_def sym_switch_def sym_call_def
          checkArgMode_def checkreg_def opmode_def EXTRA_STACK_def LUA_MULTRET_def split: if_splits)
  qed
qed

text \<open>What it means that the loop stands well at \<open>pc\<close>: the instruction lies inside the code and is not the
  count of a \<open>SETLIST\<close>, it can be executed, everything it uses exists, and a stack top left
  open is consumed here.\<close>

definition stands :: "proto \<Rightarrow> int \<Rightarrow> bool \<Rightarrow> bool" where
  "stands pt pc opn \<longleftrightarrow> 0 \<le> pc \<and> pc < sizecode pt \<and> real_pc pt pc \<and> (\<exists>ss. vm_next pt pc opn = Inr ss) \<and>
    (\<exists>xs. vm_access pt pc = Inr xs \<and> list_all (access_ok pt) xs) \<and>
    (opn \<longrightarrow> luaG_checkopenop (p_code pt ! nat pc))"

lemma accepted_inside:
  assumes "luaG_checkcode pt = Some True" "plain_reach pt (pc, opn)"
  shows "stands pt pc opn"
proof -
  have p: "passed pt" by (rule accepted_passed [OF assms(1)])
  have s: "state_ok pt (pc, opn)" by (rule plain_reach_ok [OF assms(2) p])
  then have "inside pt pc" by (simp add: state_ok_def)
  then show ?thesis using s step_inside [OF p s] access_inside [OF p] real_pc_nonneg
    by (auto simp: state_ok_def inside_def stands_def)
qed

lemma accepted_plain:
  assumes "luaG_checkcode pt = Some True" "plain_code pt" "vm_reach pt (pc, opn)"
  shows "stands pt pc opn"
  using assms accepted_inside plain_reach_all [OF accepted_passed] by blast

text \<open>C37: The interpreter loop on code that the checker accepted. Up to and including the first
  instruction that is not as the compiler emits it - a \<open>LOADBOOL\<close> with \<open>C\<close> above 1 or a tail
  call with \<open>C\<close> other than 0, which the checker lets through -, and everywhere if there is no
  such instruction in the code, every instruction the loop comes to lies inside the code and is
  not the count of a \<open>SETLIST\<close>, every word it reads and every register, constant, upvalue and
  nested prototype it uses exists, every global is named by a string, and a stack top left open is
  consumed by the very next instruction. (Behind such an instruction the loop can leave the code:
  \<open>loadbool_escapes\<close> below.)\<close>

theorem checked_code_stays_inside:
  assumes "luaG_checkcode pt = Some True"
  shows "(\<forall>pc opn. plain_reach pt (pc, opn) \<longrightarrow>
      0 \<le> pc \<and> pc < sizecode pt \<and> real_pc pt pc \<and> (\<exists>ss. vm_next pt pc opn = Inr ss) \<and>
      (\<exists>xs. vm_access pt pc = Inr xs \<and> list_all (access_ok pt) xs) \<and>
      (opn \<longrightarrow> luaG_checkopenop (p_code pt ! nat pc))) \<and>
    (plain_code pt \<longrightarrow> (\<forall>s. vm_reach pt s \<longleftrightarrow> plain_reach pt s))"
  using accepted_inside [OF assms] plain_reach_all [OF accepted_passed [OF assms]] by (simp add: stands_def)

text \<open>A function that answers a truth value: \<open>LOADBOOL 0 1 1; LOADBOOL 0 0 0; RETURN 0 2; RETURN 0 1\<close>.\<close>

definition proto_of :: "u32 list \<Rightarrow> proto" where
  "proto_of code = Proto \<lparr>pr_source = Some ''=x'', pr_linedefined = 0, pr_lastlinedefined = 0, pr_nups = 0, pr_numparams = 0,
     pr_is_vararg = 0, pr_maxstacksize = 1, pr_code = code, pr_k = [], pr_lineinfo = [], pr_locvars = [], pr_upvalues = []\<rparr> []"

lemma proto_of_simps [simp]:
  "p_code (proto_of code) = code" "sizecode (proto_of code) = int (length code)" "maxstacksize (proto_of code) = 1"
  by (simp_all add: proto_of_def p_code_def sizecode_def maxstacksize_def)

lemmas check_defs = luaG_checkcode_def symbexec_def precheck_def sym_loop.simps sym_step_def sym_switch_def check_args_def
  checkArgMode_def check_skip_def checkreg_def vararg_flag_def opmode_def check_def fetch_def MAXSTACK_def NO_REG_def
  VARARG_HASARG_def VARARG_NEEDSARG_def sym_result_def is_setlist0_def GET_OPCODE_def GETARG_A_def GETARG_B_def GETARG_C_def
  field_def opcodes_def

lemma bool_code_accepted: "luaG_checkcode (proto_of [8404994, 2, 16777246, 8388638]) = Some True"
  by (simp add: check_defs p_nups_def proto_of_def p_code_def sizecode_def maxstacksize_def)

theorem checked_code_stays_inside_witness:
  "\<exists>xs. vm_access (proto_of [8404994, 2, 16777246, 8388638]) 2 = Inr xs \<and>
     list_all (access_ok (proto_of [8404994, 2, 16777246, 8388638])) xs"
proof -
  let ?p = "proto_of [8404994, 2, 16777246, 8388638]"
  have "vm_next ?p 0 False = Inr [(2, False)]"
    by (simp add: vm_next_def op_next_def check_defs)
  then have "vm_reach ?p (2, False)" by (rule vm_reach.step [OF vm_reach.entry]) simp
  moreover have "plain_code ?p"
    by (rule plain_codeI) (simp add: plain_word_def check_defs)
  ultimately show ?thesis using checked_code_stays_inside [OF bool_code_accepted] by blast
qed

text \<open>The checker tests \<open>C\<close> against 1, the interpreter loop against 0: \<open>LOADBOOL 0 0 2; RETURN 0 1\<close> is accepted, and
  the loop goes on behind the last instruction.\<close>

lemma loadbool_escapes:
  "luaG_checkcode (proto_of [32770, 8388638]) = Some True \<and> vm_reach (proto_of [32770, 8388638]) (2, False) \<and>
   vm_next (proto_of [32770, 8388638]) 2 False = Inl OutOfVector"
proof (intro conjI)
  let ?p = "proto_of [32770, 8388638]"
  show "luaG_checkcode ?p = Some True"
    by (simp add: check_defs p_nups_def proto_of_def p_code_def sizecode_def maxstacksize_def)
  have "vm_next ?p 0 False = Inr [(2, False)]"
    by (simp add: vm_next_def op_next_def check_defs)
  then show "vm_reach ?p (2, False)" by (rule vm_reach.step [OF vm_reach.entry]) simp
  show "vm_next ?p 2 False = Inl OutOfVector" by (simp add: vm_next_def fetch_def)
qed

end
