(* ===== verification/Lua_Names.thy ===== *)
theory Lua_Names
  imports Lua_Control_Props Lua_Lval
begin

text \<open>
  The names in error messages (\<open>lua/ldebug.c\<close>): from the instructions before the failing one,
  \<open>getobjname\<close> finds out where the offending value came from.
\<close>

text \<open>\<open>getstr\<close> of a null \<open>TString\<close> is no string.\<close>

definition getstr :: "string option \<Rightarrow> string lres" where
  "getstr s = of_opt (LuaFault NullDeref) s"

fun local_loop :: "locvar list \<Rightarrow> int \<Rightarrow> int \<Rightarrow> string option lres" where
  "local_loop [] local_number pc = Inr None"
| "local_loop (v # vs) local_number pc = (if \<not> sint (lv_startpc v) \<le> pc then Inr None
     else if pc < sint (lv_endpc v) then
       (if local_number - 1 = 0 then bindR (getstr (lv_varname v)) (\<lambda>s. Inr (Some s))
        else local_loop vs (local_number - 1) pc)
     else local_loop vs local_number pc)"

definition luaF_getlocalname :: "proto \<Rightarrow> int \<Rightarrow> int \<Rightarrow> string option lres" where
  "luaF_getlocalname f local_number pc = local_loop (pr_locvars (pr_info f)) local_number pc"

definition sym_fetch :: "'x list \<Rightarrow> int \<Rightarrow> 'x lres" where
  "sym_fetch xs n = (case fetch xs n of Inr x \<Rightarrow> Inr x | Inl e \<Rightarrow> Inl (LuaFault OutOfBounds))"

definition svalue_k :: "konst \<Rightarrow> string lres" where
  "svalue_k k = (case k of KStr s \<Rightarrow> getstr s | _ \<Rightarrow> Inl (LuaFault BadCast))"

definition kname :: "proto \<Rightarrow> int \<Rightarrow> string lres" where
  "kname p c = (if ISK c then bindR (sym_fetch (p_k p) (INDEXK c)) (\<lambda>k.
       if ttisstring_k k then svalue_k k else Inr ''?'') else Inr ''?'')"

subsection \<open>The instruction that set a register\<close>

lemma sym_step_move:
  assumes "sym_step pt lastpc reg pc lst = Inr (pc', lst')"
  shows "lst' = lst \<or> lst' = pc \<and> (GET_OPCODE (p_code pt ! nat pc) = Some OP_MOVE \<longrightarrow> GETARG_A (p_code pt ! nat pc) = reg)"
proof -
  let ?i = "p_code pt ! nat pc"
  obtain opc b c where o: "GET_OPCODE ?i = Some opc"
    "sym_switch pt lastpc reg opc (GETARG_A ?i) b c pc (if testAMode (luaP_opmodes opc) \<and> GETARG_A ?i = reg then pc else lst) = Inr (pc', lst')"
    using assms(1) by (auto simp: sym_step_def Let_def)
  then show ?thesis
    by (cases opc) (auto simp: sym_switch_def sym_closure_def sym_jump_def opmode_def Let_def split: if_splits)
qed

definition moves_to :: "proto \<Rightarrow> int \<Rightarrow> int \<Rightarrow> bool" where
  "moves_to pt reg r = (GET_OPCODE (p_code pt ! nat r) = Some OP_MOVE \<longrightarrow> GETARG_A (p_code pt ! nat r) = reg)"

lemma sym_loop_move: "sym_loop pt lastpc reg pc lst = Inr r \<Longrightarrow> moves_to pt reg lst \<Longrightarrow> moves_to pt reg r"
proof (induction pt lastpc reg pc lst rule: sym_loop.induct)
  case (1 pt lastpc reg pc lst)
  show ?case
  proof (cases "pc < lastpc")
    case True
    then obtain pc' lst' where s: "sym_step pt lastpc reg pc lst = Inr (pc', lst')"
        "sym_loop pt lastpc reg (pc' + 1) lst' = Inr r"
      using "1.prems"(1) by (subst (asm) sym_loop.simps) auto
    have "moves_to pt reg lst'" using sym_step_move [OF s(1)] "1.prems"(2) by (auto simp: moves_to_def)
    then show ?thesis using "1.IH" [OF True s(1) refl s(2)] by blast
  next
    case False
    then show ?thesis using "1.prems" by (simp add: sym_loop.simps)
  qed
qed

text \<open>Symbolic execution answers a move only when it goes to the register asked for.\<close>

lemma symbexec_move:
  assumes "symbexec pt lastpc reg = Inr i" "GET_OPCODE i = Some OP_MOVE" shows "GETARG_A i = reg"
proof -
  obtain r where p: "precheck pt = Inr ()" and r: "sym_loop pt lastpc reg 0 (sizecode pt - 1) = Inr r"
      "i = p_code pt ! nat r"
    using assms by (auto simp: symbexec_def)
  have "moves_to pt reg (sizecode pt - 1)" using p by (auto simp: moves_to_def precheck_def Let_def)
  from sym_loop_move [OF r(1) this] show ?thesis using assms(2) r(2) by (simp add: moves_to_def)
qed

lemma sym_result_move:
  assumes "sym_result (symbexec pt lastpc reg) = Some i" "GET_OPCODE i = Some OP_MOVE" "GETARG_B i < GETARG_A i"
  shows "GETARG_A i = reg"
proof -
  have "GETARG_A 0 = 0" by (simp add: GETARG_A_def field_def)
  moreover have "0 \<le> GETARG_B i" by simp
  ultimately have "i \<noteq> 0" using assms(3) by auto
  then have "symbexec pt lastpc reg = Inr i"
    using assms(1) by (auto simp: sym_result_def split: sum.splits sym_exit.splits)
  then show ?thesis using symbexec_move assms(2) by blast
qed

subsection \<open>Naming a value\<close>

function getobjname :: "proto \<Rightarrow> int \<Rightarrow> int \<Rightarrow> (string \<times> string) option lres" where
  "getobjname p pc stackpos = bindR (luaF_getlocalname p (stackpos + 1) pc) (\<lambda>name. case name of
     Some s \<Rightarrow> Inr (Some (''local'', s))
   | None \<Rightarrow> (case sym_result (symbexec p pc stackpos) of
       None \<Rightarrow> Inl (LuaFault OutOfBounds)
     | Some i \<Rightarrow> (case GET_OPCODE i of
         Some OP_GETGLOBAL \<Rightarrow> bindR (sym_fetch (p_k p) (GETARG_Bx i)) (\<lambda>k. bindR (svalue_k k) (\<lambda>s. Inr (Some (''global'', s))))
       | Some OP_MOVE \<Rightarrow> (if GETARG_B i < GETARG_A i then getobjname p pc (GETARG_B i) else Inr None)
       | Some OP_GETTABLE \<Rightarrow> bindR (kname p (GETARG_C i)) (\<lambda>s. Inr (Some (''field'', s)))
       | Some OP_GETUPVAL \<Rightarrow> (if pr_upvalues (pr_info p) = [] then Inr (Some (''upvalue'', ''?''))
           else bindR (sym_fetch (pr_upvalues (pr_info p)) (GETARG_B i)) (\<lambda>u. bindR (getstr u) (\<lambda>s. Inr (Some (''upvalue'', s)))))
       | Some OP_SELF \<Rightarrow> bindR (kname p (GETARG_C i)) (\<lambda>s. Inr (Some (''method'', s)))
       | _ \<Rightarrow> Inr None)))"
  by auto

termination
proof (relation "measure (\<lambda>(p, pc, stackpos). nat stackpos)")
  fix p pc stackpos name i opc
  assume "sym_result (symbexec p pc stackpos) = Some i" "GET_OPCODE i = Some opc" "opc = OP_MOVE" "GETARG_B i < GETARG_A i"
  then have "GETARG_A i = stackpos" using sym_result_move by blast
  then show "((p, pc, GETARG_B i), p, pc, stackpos) \<in> measure (\<lambda>(p, pc, stackpos). nat stackpos)"
    using \<open>GETARG_B i < GETARG_A i\<close> GETARG_nonneg(2) [of i] by (simp del: GETARG_nonneg)
qed simp

declare getobjname.simps [simp del]

subsection \<open>Frames and messages\<close>

text \<open>A frame of the call stack: its prototype when it runs a Lua function, the position of the
  instruction it is at, and how many tail calls it has lost.\<close>

record frame =
  fr_proto :: "proto option"
  fr_pc :: int
  fr_tailcalls :: int

definition getline :: "proto \<Rightarrow> int \<Rightarrow> int lres" where
  "getline f pc = (let li = pr_lineinfo (pr_info f) in if li = [] then Inr 0 else bindR (sym_fetch li pc) (\<lambda>w. Inr (sint w)))"

definition currentpc :: "frame \<Rightarrow> int" where
  "currentpc ci = (case fr_proto ci of None \<Rightarrow> - 1 | Some p \<Rightarrow> fr_pc ci)"

definition currentline :: "frame \<Rightarrow> int lres" where
  "currentline ci = (case fr_proto ci of None \<Rightarrow> Inr (- 1) | Some p \<Rightarrow> if currentpc ci < 0 then Inr (- 1) else getline p (currentpc ci))"

definition frame_objname :: "frame \<Rightarrow> int \<Rightarrow> (string \<times> string) option lres" where
  "frame_objname ci stackpos = (case fr_proto ci of None \<Rightarrow> Inr None | Some p \<Rightarrow> getobjname p (currentpc ci) stackpos)"

text \<open>The name of the function a frame runs, from the call in the frame below it.\<close>

definition getfuncname :: "frame \<Rightarrow> frame \<Rightarrow> (string \<times> string) option lres" where
  "getfuncname ci below = (if fr_proto ci \<noteq> None \<and> 0 < fr_tailcalls ci then Inr None else
     case fr_proto below of None \<Rightarrow> Inr None
     | Some p \<Rightarrow> bindR (sym_fetch (p_code p) (currentpc below)) (\<lambda>i.
         if GET_OPCODE i \<in> {Some OP_CALL, Some OP_TAILCALL, Some OP_TFORLOOP} then frame_objname below (GETARG_A i) else Inr None))"

text \<open>The message a run-time error carries: the position is put before it in Lua code.\<close>

definition addinfo :: "'a luaconf_scheme \<Rightarrow> frame \<Rightarrow> string \<Rightarrow> string lres" where
  "addinfo C ci msg = (case fr_proto ci of None \<Rightarrow> Inr msg
     | Some p \<Rightarrow> bindR (currentline ci) (\<lambda>line. bindR (getstr (pr_source (pr_info p))) (\<lambda>src.
         case luaO_chunkid src 60 of Inl e \<Rightarrow> Inl (LuaFault e)
         | Inr buff \<Rightarrow> luaO_pushfstring C ''%s:%d: %s'' [FStr (Some buff), FInt line, FStr (Some msg)])))"

definition luaG_runerror :: "'a luaconf_scheme \<Rightarrow> frame \<Rightarrow> string \<Rightarrow> 'x lres" where
  "luaG_runerror C ci msg = bindR (addinfo C ci msg) (\<lambda>m. Inl (LuaErr m))"

text \<open>\<open>o\<close> is a value and, when it lies in the registers of the running function, its number there.\<close>

definition luaG_typeerror :: "'a luaconf_scheme \<Rightarrow> frame \<Rightarrow> lval \<times> int option \<Rightarrow> string \<Rightarrow> 'x lres" where
  "luaG_typeerror C ci v opn = (let t = lua_typename (ttype (fst v)) in
     bindR (case snd v of None \<Rightarrow> Inr None | Some n \<Rightarrow> frame_objname ci n) (\<lambda>kind. case kind of
       Some (k, name) \<Rightarrow> luaG_runerror C ci (''attempt to '' @ opn @ '' '' @ k @ '' '' @ LUA_QS (c_str name) @ '' (a '' @ t @ '' value)'')
     | None \<Rightarrow> luaG_runerror C ci (''attempt to '' @ opn @ '' a '' @ t @ '' value'')))"

definition luaG_concaterror :: "'a luaconf_scheme \<Rightarrow> frame \<Rightarrow> lval \<times> int option \<Rightarrow> lval \<times> int option \<Rightarrow> 'x lres" where
  "luaG_concaterror C ci va vb = luaG_typeerror C ci (if ttype (fst va) \<in> {3, 4} then vb else va) ''concatenate''"

definition luaG_aritherror :: "'a luaconf_scheme \<Rightarrow> frame \<Rightarrow> lval \<times> int option \<Rightarrow> lval \<times> int option \<Rightarrow> 'x lres" where
  "luaG_aritherror C ci va vb = luaG_typeerror C ci (if luaV_tonumber C (fst va) = None then va else vb) ''perform arithmetic on''"

subsection \<open>Naming never goes wrong in complete code\<close>

text \<open>A prototype whose strings are all there and which names all of its upvalues or none.\<close>

definition complete_names :: "proto \<Rightarrow> bool" where
  "complete_names p = (let f = pr_info p in KStr None \<notin> set (pr_k f) \<and> (\<forall>v\<in>set (pr_locvars f). lv_varname v \<noteq> None) \<and>
     None \<notin> set (pr_upvalues f) \<and> (pr_upvalues f = [] \<or> int (length (pr_upvalues f)) = p_nups p))"

lemma local_loop_safe: "\<forall>v\<in>set vs. lv_varname v \<noteq> None \<Longrightarrow> \<exists>r. local_loop vs n pc = Inr r"
  by (induction vs n pc rule: local_loop.induct) (auto simp: getstr_def)

lemma sym_loop_origin:
  "sym_loop pt lastpc reg pc lst = Inr r \<Longrightarrow> r = lst \<or> (\<exists>l s. sym_step pt lastpc reg r l = Inr s)"
proof (induction pt lastpc reg pc lst rule: sym_loop.induct)
  case (1 pt lastpc reg pc lst)
  show ?case
  proof (cases "pc < lastpc")
    case True
    then obtain pc' lst' where s: "sym_step pt lastpc reg pc lst = Inr (pc', lst')"
        "sym_loop pt lastpc reg (pc' + 1) lst' = Inr r"
      using "1.prems"(1) by (subst (asm) sym_loop.simps) auto
    show ?thesis using "1.IH" [OF True s(1) refl s(2)] sym_step_move [OF s(1)] s(1) by blast
  next
    case False
    then show ?thesis using "1.prems" by (simp add: sym_loop.simps)
  qed
qed

text \<open>The operands of the instruction symbolic execution answers were checked.\<close>

lemma symbexec_operands:
  assumes "symbexec pt lastpc reg = Inr i" "GET_OPCODE i = Some opc" "opc \<noteq> OP_RETURN"
  shows "(opc = OP_GETGLOBAL \<longrightarrow> GETARG_Bx i < int (length (p_k pt)) \<and> ttisstring_k (p_k pt ! nat (GETARG_Bx i))) \<and>
    (opc \<in> {OP_GETTABLE, OP_SELF} \<longrightarrow> ISK (GETARG_C i) \<longrightarrow> INDEXK (GETARG_C i) < int (length (p_k pt))) \<and>
    (opc = OP_GETUPVAL \<longrightarrow> GETARG_B i < p_nups pt)"
proof -
  obtain r where p: "precheck pt = Inr ()" and r: "sym_loop pt lastpc reg 0 (sizecode pt - 1) = Inr r"
      "i = p_code pt ! nat r"
    using assms(1) by (auto simp: symbexec_def)
  have "r \<noteq> sizecode pt - 1" using p r(2) assms(2,3) by (auto simp: precheck_def Let_def)
  then obtain l s where "sym_step pt lastpc reg r l = Inr s" using sym_loop_origin [OF r(1)] by auto
  then obtain b c l' where "check_args pt r opc i = Inr (b, c)" "sym_switch pt lastpc reg opc (GETARG_A i) b c r l' = Inr s"
    using r(2) assms(2) by (auto simp: sym_step_def Let_def)
  then show ?thesis by (auto simp: sym_switch_def check_args_def checkArgMode_def opmode_def Let_def)
qed

lemma sym_fetch_Inr: "0 \<le> n \<Longrightarrow> n < int (length xs) \<Longrightarrow> sym_fetch xs n = Inr (xs ! nat n)"
  by (simp add: sym_fetch_def fetch_def)

lemma svalue_k_safe:
  assumes "complete_names p" "k \<in> set (p_k p)" "ttisstring_k k" shows "\<exists>s. svalue_k k = Inr s"
proof -
  obtain s where k: "k = KStr s" using assms(3) by (auto simp: ttisstring_k_def split: konst.splits)
  with assms(1,2) have "s \<noteq> None" by (cases s) (auto simp: complete_names_def Let_def p_k_def)
  with k show ?thesis by (auto simp: svalue_k_def getstr_def)
qed

lemma kname_safe:
  assumes "complete_names p" "ISK c \<Longrightarrow> INDEXK c < int (length (p_k p))" shows "\<exists>s. kname p c = Inr s"
proof (cases "ISK c")
  case True
  then have "p_k p ! nat (INDEXK c) \<in> set (p_k p)" using assms(2) by (simp add: nat_less_iff)
  then show ?thesis using True assms(2) svalue_k_safe [OF assms(1)] by (auto simp: kname_def sym_fetch_Inr)
qed (simp add: kname_def)

lemma upname_safe:
  assumes "complete_names p" "pr_upvalues (pr_info p) \<noteq> []" "0 \<le> n" "n < p_nups p"
  shows "\<exists>s. sym_fetch (pr_upvalues (pr_info p)) n = Inr (Some s)"
proof -
  let ?u = "pr_upvalues (pr_info p)"
  have l: "n < int (length ?u)" "None \<notin> set ?u" using assms by (auto simp: complete_names_def Let_def)
  then have "?u ! nat n \<noteq> None" using assms(3) by (metis nat_less_iff nth_mem)
  then show ?thesis using l(1) assms(3) by (auto simp: sym_fetch_Inr)
qed

lemma getobjname_safe:
  assumes "complete_names p" "pc \<le> sizecode p"
  shows "\<exists>r. getobjname p pc stackpos = Inr r"
  using assms
proof (induction p pc stackpos rule: getobjname.induct)
  case (1 p pc stackpos)
  obtain name where n: "luaF_getlocalname p (stackpos + 1) pc = Inr name"
    using local_loop_safe [of "pr_locvars (pr_info p)" "stackpos + 1" pc] "1.prems"(1)
    by (auto simp: luaF_getlocalname_def complete_names_def Let_def)
  show ?case
  proof (cases name)
    case (Some s)
    then show ?thesis using n by (subst getobjname.simps) simp
  next
    case None
    obtain i where i: "sym_result (symbexec p pc stackpos) = Some i"
    proof (cases "symbexec p pc stackpos")
      case (Inl e)
      then show ?thesis using symbexec_safe [OF "1.prems"(2), of stackpos] that by (cases e) (auto simp: sym_result_def)
    qed (simp add: sym_result_def that)
    show ?thesis
    proof (cases "symbexec p pc stackpos")
      case (Inl e)
      then have "i = 0" using i by (auto simp: sym_result_def split: sym_exit.splits)
      moreover have "GETARG_A 0 = 0" by (simp add: GETARG_A_def field_def)
      ultimately show ?thesis using n None i GETARG_nonneg(2) [of 0] opcode_of_zero
        by (subst getobjname.simps) (auto simp: not_less)
    next
      case (Inr i')
      then have e: "symbexec p pc stackpos = Inr i" using i by (simp add: sym_result_def)
      show ?thesis
      proof (cases "GET_OPCODE i = None \<or> GET_OPCODE i = Some OP_RETURN")
        case True
        then show ?thesis using n None i by (subst getobjname.simps) auto
      next
        case False
        then obtain opc where o: "GET_OPCODE i = Some opc" "opc \<noteq> OP_RETURN" by auto
        note f = symbexec_operands [OF e o]
        have u: "\<exists>s. sym_fetch (pr_upvalues (pr_info p)) (GETARG_B i) = Inr (Some s)"
          if "opc = OP_GETUPVAL" "pr_upvalues (pr_info p) \<noteq> []"
          using upname_safe [OF "1.prems"(1) that(2), of "GETARG_B i"] f that by simp
        have g: "\<exists>s. bindR (sym_fetch (p_k p) (GETARG_Bx i)) (\<lambda>k. bindR (svalue_k k) (\<lambda>s. Inr (Some (x, s)))) = Inr s"
          if "opc = OP_GETGLOBAL" for x :: string
          using f that svalue_k_safe [OF "1.prems"(1), of "p_k p ! nat (GETARG_Bx i)"]
          by (auto simp: sym_fetch_Inr nat_less_iff)
        have k: "\<exists>s. kname p (GETARG_C i) = Inr s" if "opc \<in> {OP_GETTABLE, OP_SELF}"
          using kname_safe [OF "1.prems"(1)] f that by blast
        have m: "\<exists>r. getobjname p pc (GETARG_B i) = Inr r" if "opc = OP_MOVE" "GETARG_B i < GETARG_A i"
          using "1.IH" [OF n None i _ _ that(2)] o(1) that(1) "1.prems" by simp
        have eq: "getobjname p pc stackpos = (case opc of
            OP_GETGLOBAL \<Rightarrow> bindR (sym_fetch (p_k p) (GETARG_Bx i)) (\<lambda>k. bindR (svalue_k k) (\<lambda>s. Inr (Some (''global'', s))))
          | OP_MOVE \<Rightarrow> (if GETARG_B i < GETARG_A i then getobjname p pc (GETARG_B i) else Inr None)
          | OP_GETTABLE \<Rightarrow> bindR (kname p (GETARG_C i)) (\<lambda>s. Inr (Some (''field'', s)))
          | OP_GETUPVAL \<Rightarrow> (if pr_upvalues (pr_info p) = [] then Inr (Some (''upvalue'', ''?''))
              else bindR (sym_fetch (pr_upvalues (pr_info p)) (GETARG_B i)) (\<lambda>u. bindR (getstr u) (\<lambda>s. Inr (Some (''upvalue'', s)))))
          | OP_SELF \<Rightarrow> bindR (kname p (GETARG_C i)) (\<lambda>s. Inr (Some (''method'', s)))
          | _ \<Rightarrow> Inr None)"
          by (subst getobjname.simps) (simp add: n None i o(1))
        show ?thesis
        proof (cases opc)
          case OP_MOVE
          then show ?thesis using eq m by (cases "GETARG_B i < GETARG_A i") auto
        next
          case OP_GETUPVAL
          then show ?thesis using eq u by (cases "pr_upvalues (pr_info p) = []") (auto simp: getstr_def)
        next
          case OP_GETGLOBAL
          then show ?thesis using eq g by simp
        next
          case OP_GETTABLE
          then obtain s where "kname p (GETARG_C i) = Inr s" using k by blast
          then show ?thesis using eq OP_GETTABLE by simp
        next
          case OP_SELF
          then obtain s where "kname p (GETARG_C i) = Inr s" using k by blast
          then show ?thesis using eq OP_SELF by simp
        qed (simp_all add: eq)
      qed
    qed
  qed
qed

end
