(* ===== verification/Lua_Loaded.thy ===== *)
theory Lua_Loaded
  imports Lua_Control_Props Lua_Undump_Props
begin

text \<open>
  The loader of precompiled chunks (\<open>lua/lundump.c\<close>) with the code checker (\<open>lua/ldebug.c\<close>) in place:
  every function that comes out of a chunk, nested ones included, passed the checker, so the
  interpreter loop (\<open>lua/lvm.c\<close>) stays inside each of them.
\<close>

text \<open>All functions of a tree of prototypes.\<close>

fun subprotos :: "proto \<Rightarrow> proto list" where
  "subprotos (Proto f ps) = Proto f ps # concat (map subprotos ps)"

definition checks_code :: "'a undump_env_scheme \<Rightarrow> bool" where
  "checks_code E = (checkcode E = (\<lambda>f. luaG_checkcode f = Some True))"

lemma bindL_Inr: "bindL m f z = Inr r \<longleftrightarrow> (\<exists>x z'. m z = Inr (x, z') \<and> f x z' = Inr r)"
  by (auto simp: bindL_def)

lemma load_list_all:
  assumes "\<And>z x z'. m z = Inr (x, z') \<Longrightarrow> P x"
  shows "load_list m n z = Inr (xs, z') \<Longrightarrow> list_all P xs"
  by (induction n arbitrary: z xs z') (auto simp: retL_def bindL_Inr dest: assms)

lemma LoadArray_all:
  assumes "\<And>z x z'. m z = Inr (x, z') \<Longrightarrow> P x" "LoadArray name rd e m z = Inr (xs, z')"
  shows "list_all P xs"
  using assms(2) load_list_all [of m P, OF assms(1)] by (auto simp: LoadArray_def bindL_Inr)

lemma LoadFunction_checked:
  "LoadFunction d E name rd p z = Inr (f, z') \<Longrightarrow> list_all (checkcode E) (subprotos f)"
proof (induction d arbitrary: p z f z')
  case (Suc d)
  from Suc.prems obtain i :: pinfo and ps z1 z2 where l: "LoadArray name rd 4 (LoadFunction d E name rd (pr_source i)) z1 = Inr (ps, z2)"
      and c: "\<exists>i'. f = Proto i' ps \<and> checkcode E (Proto i' ps)"
    by (auto simp: bindL_Inr load_error_def retL_def split: if_splits)
  have "list_all (\<lambda>q. list_all (checkcode E) (subprotos q)) ps"
    by (rule LoadArray_all [OF _ l]) (rule Suc.IH)
  then show ?case using c by (auto simp: list_all_iff)
qed (simp add: load_error_def)

text \<open>C39: Every function a precompiled chunk is loaded into, nested functions included, was accepted by
  the code checker; so up to and including the first instruction that is not as the compiler emits
  it (a \<open>LOADBOOL\<close> with \<open>C\<close> above 1, a tail call with \<open>C\<close> other than 0: the checker lets them
  through), and everywhere in a function without such an instruction, wherever the interpreter
  loop comes, the instruction lies inside the code and everything it uses exists.\<close>

theorem loaded_code_stays_inside:
  assumes "checks_code E" "luaU_undump E ncalls rd name z = Inr (f, z')" "q \<in> set (subprotos f)"
  shows "luaG_checkcode q = Some True \<and>
    (\<forall>pc opn. plain_reach q (pc, opn) \<or> plain_code q \<and> vm_reach q (pc, opn) \<longrightarrow> stands q pc opn)"
proof -
  obtain d p z1 where "LoadFunction d E (chunk_name name) rd p z1 = Inr (f, z')"
    using assms(2) by (auto simp: luaU_undump_def bindL_Inr)
  then have "luaG_checkcode q = Some True"
    using LoadFunction_checked assms(1,3) by (fastforce simp: checks_code_def list_all_iff)
  then show ?thesis using accepted_inside accepted_plain by blast
qed

definition checking_env :: undump_env where
  "checking_env = test_undump\<lparr>checkcode := \<lambda>f. luaG_checkcode f = Some True\<rparr>"

theorem loaded_code_stays_inside_witness:
  "\<exists>f z xs. luaU_undump checking_env 0 generic_reader ''=x''
       (luaZ_init [fst (luaU_dump checking_env (proto_of [8404994, 2, 16777246, 8388638]) writer [] False)]) = Inr (f, z) \<and>
     vm_access f 0 = Inr xs \<and> list_all (access_ok f) xs"
proof -
  let ?p = "proto_of [8404994, 2, 16777246, 8388638]"
  have d: "maxccalls checking_env - 0 = Suc 199" by (simp add: checking_env_def test_undump_def luaconf.defs)
  have w: "wf_proto checking_env ?p"
    by (simp add: proto_of_def wf_info_def wf_str_def small_def checking_env_def)
  have n: "fits (maxccalls checking_env - 0) ?p" unfolding d proto_of_def fits.simps list.pred_inject by simp
  have same: "loaded False None (Some ''=?'') ?p = ?p" by (rule loaded_same) (simp_all add: proto_of_def)
  have c: "all_protos (checkcode checking_env) (loaded False None (Some ''=?'') ?p)"
    unfolding same using bool_code_accepted by (simp add: checking_env_def) (simp add: proto_of_def)
  obtain bytes st where b: "luaU_dump checking_env ?p writer [] False = (bytes, st)" by fastforce
  then have e: "bytes = luaU_header @ enc_fun checking_env False None ?p" by (simp add: dump_bytes)
  then have "[] \<notin> set [bytes]" by (auto simp: luaU_header_def)
  then have "generic.bytes_of (luaZ_init [bytes]) = bytes @ []" by (simp add: generic.bytes_init pieces_concat)
  then obtain z where z: "luaU_undump checking_env 0 generic_reader ''=x'' (luaZ_init [bytes]) = Inr (?p, z)"
    using generic.reads_take [OF generic.reads_chunk [OF n w c], of "luaZ_init [bytes]" "[]" "''=x''"] e same by auto
  have pl: "plain_code ?p" by (rule plain_codeI) (simp add: plain_word_def check_defs)
  have "?p \<in> set (subprotos ?p)" by (simp add: proto_of_def)
  have "checks_code checking_env" by (simp add: checks_code_def checking_env_def)
  from loaded_code_stays_inside [OF this z \<open>?p \<in> set (subprotos ?p)\<close>] pl vm_reach.entry
  have "\<exists>xs. vm_access ?p 0 = Inr xs \<and> list_all (access_ok ?p) xs" unfolding stands_def by blast
  then show ?thesis using z b by auto
qed

end
