(* ===== verification/Lua_Intern.thy ===== *)
theory Lua_Intern
  imports Lua_Chain "HOL-Library.Multiset"
begin

text \<open>
  The string table (\<open>lua/lstring.c\<close>): every string of the interpreter is interned, so that equal strings are one
  object and a key is compared by address. The table is an array of chains, doubled when there are more strings
  than chains. The marks belong to the collector: a dead string that is asked for again is taken back.
\<close>

subsection \<open>The table\<close>

record strtab =
  st_hash :: "tstring list list"    \<comment> \<open>the chains; their number is the field \<open>size\<close>\<close>
  st_nuse :: u32
  st_marked :: "addr \<Rightarrow> u8"
  st_white :: u8                    \<comment> \<open>\<open>currentwhite\<close>\<close>
  st_sweeping :: bool               \<comment> \<open>\<open>gcstate == GCSsweepstring\<close>\<close>
  st_next :: addr                   \<comment> \<open>addresses from here on are unused\<close>

text \<open>The two white bits of a mark. An object is dead when it carries the white that is not current.\<close>

definition WHITEBITS :: u8 where "WHITEBITS = 3"

definition otherwhite :: "u8 \<Rightarrow> u8" where
  "otherwhite cw = xor cw WHITEBITS"

definition isdead :: "u8 \<Rightarrow> u8 \<Rightarrow> bool" where
  "isdead cw m = (\<exists>b\<in>{0, 1}. bit m b \<and> bit (otherwhite cw) b)"

definition changewhite :: "u8 \<Rightarrow> u8" where
  "changewhite m = xor m WHITEBITS"

definition luaC_white :: "u8 \<Rightarrow> u8" where
  "luaC_white cw = and cw WHITEBITS"

definition lmod :: "u32 \<Rightarrow> nat \<Rightarrow> nat" where
  "lmod s n = unat (and s (of_nat n - 1))"

type_synonym allocator = "strtab \<Rightarrow> nat \<Rightarrow> bool"  \<comment> \<open>whether a block of that many bytes is granted\<close>

definition MAX_SIZET :: nat where "MAX_SIZET = 2 ^ 32 - 3"
definition sizeof_TString :: nat where "sizeof_TString = 16"

definition toobig :: lua_error where
  "toobig = LuaErr ''memory allocation error: block too big''"

subsection \<open>Operations\<close>

definition rehash_node :: "tstring \<Rightarrow> tstring list list \<Rightarrow> tstring list list" where
  "rehash_node p h = (let h1 = lmod (ts_hash p) (length h) in h[h1 := p # h ! h1])"

definition luaS_resize :: "allocator \<Rightarrow> nat \<Rightarrow> strtab \<Rightarrow> strtab \<times> unit lres" where
  "luaS_resize malloc newsize S =
     (if st_sweeping S then (S, Inr ())
      else if MAX_SIZET div 4 < newsize + 1 then (S, Inl toobig)
      else if \<not> malloc S (newsize * 4) then (S, Inl LuaMemErr)
      else (S\<lparr>st_hash := fold (fold rehash_node) (st_hash S) (replicate newsize [])\<rparr>, Inr ()))"

definition add_string :: "string \<Rightarrow> u32 \<Rightarrow> strtab \<Rightarrow> strtab \<times> tstring" where
  "add_string str h S = (let ts = \<lparr>ts_ptr = st_next S, ts_hash = h, ts_str = str\<rparr>; i = lmod h (length (st_hash S)) in
     (S\<lparr>st_hash := (st_hash S)[i := ts # st_hash S ! i], st_nuse := st_nuse S + 1, st_next := st_next S + 1,
        st_marked := (st_marked S)(st_next S := luaC_white (st_white S))\<rparr>, ts))"

definition newlstr :: "allocator \<Rightarrow> string \<Rightarrow> u32 \<Rightarrow> strtab \<Rightarrow> strtab \<times> tstring lres" where
  "newlstr malloc str h S =
     (if MAX_SIZET - sizeof_TString < length str + 1 then (S, Inl toobig)
      else if \<not> malloc S (length str + 1 + sizeof_TString) then (S, Inl LuaMemErr)
      else case add_string str h S of (S, ts) \<Rightarrow>
        let sz = length (st_hash S) in
        if sz < unat (st_nuse S) \<and> sz \<le> (2 ^ 31 - 3) div 2
        then case luaS_resize malloc (sz * 2) S of (S, r) \<Rightarrow> (S, bindR r (\<lambda>_. Inr ts))
        else (S, Inr ts))"

text \<open>The hash of a string: all bytes of a short one, at most 32 of a long one, from the end.\<close>

function hash_loop :: "string \<Rightarrow> nat \<Rightarrow> nat \<Rightarrow> u32 \<Rightarrow> u32" where
  "hash_loop str step l1 h = (if 0 < step \<and> step \<le> l1
     then hash_loop str step (l1 - step) (xor h (push_bit 5 h + drop_bit 2 h + of_nat (char_val (str ! (l1 - 1)))))
     else h)"
  by auto
termination by (relation "measure (\<lambda>(str, step, l1, h). l1)") auto

declare hash_loop.simps [simp del]

definition luaS_hash :: "string \<Rightarrow> u32" where
  "luaS_hash str = (let l = length str in hash_loop str (l div 32 + 1) l (of_nat l))"

definition luaS_newlstr :: "allocator \<Rightarrow> string \<Rightarrow> strtab \<Rightarrow> strtab \<times> tstring lres" where
  "luaS_newlstr malloc str S = (let h = luaS_hash str in
     case find (\<lambda>ts. length (ts_str ts) = length str \<and> ts_str ts = str) (st_hash S ! lmod h (length (st_hash S))) of
       Some ts \<Rightarrow> (if isdead (st_white S) (st_marked S (ts_ptr ts))
           then S\<lparr>st_marked := (st_marked S)(ts_ptr ts := changewhite (st_marked S (ts_ptr ts)))\<rparr> else S, Inr ts)
     | None \<Rightarrow> newlstr malloc str h S)"

subsection \<open>The invariant\<close>

definition strings :: "strtab \<Rightarrow> tstring list" where
  "strings S = concat (st_hash S)"

definition size_ok :: "nat \<Rightarrow> bool" where
  "size_ok n = (\<exists>k. n = 2 ^ k \<and> k \<le> 30)"

definition chains_ok :: "tstring list list \<Rightarrow> bool" where
  "chains_ok h = (\<forall>i<length h. \<forall>ts\<in>set (h ! i). lmod (ts_hash ts) (length h) = i)"

definition one_white :: "u8 \<Rightarrow> bool" where
  "one_white m = (\<not> (bit m 0 \<and> bit m 1))"

definition strtab_ok :: "strtab \<Rightarrow> bool" where
  "strtab_ok S = (size_ok (length (st_hash S)) \<and> chains_ok (st_hash S) \<and>
     (\<forall>ts\<in>set (strings S). ts_hash ts = luaS_hash (ts_str ts) \<and> ts_ptr ts < st_next S \<and> one_white (st_marked S (ts_ptr ts))) \<and>
     distinct (map ts_ptr (strings S)) \<and> distinct (map ts_str (strings S)) \<and>
     st_nuse S = of_nat (length (strings S)) \<and> bit (st_white S) 0 \<noteq> bit (st_white S) 1)"

lemma lmod_mod: "size_ok n \<Longrightarrow> lmod s n = unat s mod n"
proof -
  assume "size_ok n"
  then obtain k where k: "n = 2 ^ k" "k \<le> 30" by (auto simp: size_ok_def)
  have "(of_nat n - 1 :: u32) = mask k" by (simp add: k mask_eq_exp_minus_1)
  then have "lmod s n = unat (take_bit k s)" by (simp add: lmod_def take_bit_eq_mask)
  also have "\<dots> = take_bit k (unat s)" by (rule unsigned_take_bit_eq)
  finally show ?thesis by (simp add: k(1) take_bit_eq_mod)
qed

lemma size_ok_pos: "size_ok n \<Longrightarrow> 0 < n"
  by (auto simp: size_ok_def)

lemma lmod_less: "size_ok n \<Longrightarrow> lmod s n < n"
  using size_ok_pos [of n] by (simp add: lmod_mod)

text \<open>Putting a string in front of its chain.\<close>

lemma mset_concat_update: "i < length h \<Longrightarrow> mset (concat (h[i := x # h ! i])) = add_mset x (mset (concat h))"
proof (induction h arbitrary: i)
  case (Cons a h)
  then show ?case by (cases i) auto
qed simp

lemma rehash_node_length [simp]: "length (rehash_node p h) = length h"
  by (simp add: rehash_node_def Let_def)

lemma chains_put: "chains_ok h \<Longrightarrow> i < length h \<Longrightarrow> lmod (ts_hash p) (length h) = i \<Longrightarrow> chains_ok (h[i := p # h ! i])"
  by (auto simp: chains_ok_def nth_list_update)

lemma rehash_node_ok:
  assumes "size_ok (length h)" "chains_ok h"
  shows "chains_ok (rehash_node p h)" "mset (concat (rehash_node p h)) = add_mset p (mset (concat h))"
  using chains_put [OF assms(2), of "lmod (ts_hash p) (length h)" p] lmod_less [OF assms(1), of "ts_hash p"]
  by (simp_all add: rehash_node_def Let_def mset_concat_update)

lemma rehash_chain_ok:
  "size_ok (length h) \<Longrightarrow> chains_ok h \<Longrightarrow> length (fold rehash_node ps h) = length h \<and> chains_ok (fold rehash_node ps h) \<and>
    mset (concat (fold rehash_node ps h)) = mset ps + mset (concat h)"
  by (induction ps arbitrary: h) (auto simp: rehash_node_ok)

lemma rehash_all_ok:
  "size_ok (length h) \<Longrightarrow> chains_ok h \<Longrightarrow> length (fold (fold rehash_node) hs h) = length h \<and>
    chains_ok (fold (fold rehash_node) hs h) \<and>
    mset (concat (fold (fold rehash_node) hs h)) = mset (concat hs) + mset (concat h)"
proof (induction hs arbitrary: h)
  case (Cons ps hs)
  note r = rehash_chain_ok [OF Cons.prems, of ps]
  have "size_ok (length (fold rehash_node ps h))" "chains_ok (fold rehash_node ps h)" using r Cons.prems(1) by simp_all
  from Cons.IH [OF this] r show ?case by (simp add: add.commute add.left_commute)
qed simp

lemma chains_empty: "chains_ok (replicate n [])"
  by (simp add: chains_ok_def)

text \<open>The invariant only depends on the strings as a multiset.\<close>

lemma strtab_ok_rehash:
  assumes "strtab_ok S" "size_ok (length h)" "chains_ok h" "mset (concat h) = mset (strings S)"
  shows "strtab_ok (S\<lparr>st_hash := h\<rparr>)"
proof -
  have "set (concat h) = set (strings S)" "length (concat h) = length (strings S)"
    using assms(4) mset_eq_setD mset_eq_length by blast+
  moreover have "distinct (map ts_ptr (concat h)) = distinct (map ts_ptr (strings S))"
      "distinct (map ts_str (concat h)) = distinct (map ts_str (strings S))"
    using assms(4) by (metis mset_eq_imp_distinct_iff mset_map)+
  ultimately show ?thesis using assms(1-3) by (simp add: strtab_ok_def strings_def)
qed

subsection \<open>Every operation keeps it\<close>

lemma st_other [simp]: "strings (S\<lparr>st_marked := m\<rparr>) = strings S" "strings (S\<lparr>st_nuse := n\<rparr>) = strings S"
  by (simp_all add: strings_def)

lemma strtab_resize_ok:
  assumes "strtab_ok S" "size_ok n" "luaS_resize malloc n S = (S', r)"
  shows "strtab_ok S' \<and> mset (strings S') = mset (strings S) \<and> st_marked S' = st_marked S \<and> st_white S' = st_white S \<and>
    (\<forall>e. r = Inl e \<longrightarrow> e = toobig \<or> e = LuaMemErr)"
proof -
  let ?h = "fold (fold rehash_node) (st_hash S) (replicate n [])"
  have h: "length ?h = n" "chains_ok ?h" "mset (concat ?h) = mset (strings S)"
    using rehash_all_ok [of "replicate n []" "st_hash S"] assms(2) chains_empty by (simp_all add: strings_def)
  then have "strtab_ok (S\<lparr>st_hash := ?h\<rparr>)" using strtab_ok_rehash [OF assms(1), of ?h] assms(2) by simp
  then show ?thesis using assms(1,3) h(3) by (auto simp: luaS_resize_def strings_def split: if_splits)
qed

lemma strings_chain:
  assumes "strtab_ok S" "ts \<in> set (strings S)"
  shows "ts \<in> set (st_hash S ! lmod (luaS_hash (ts_str ts)) (length (st_hash S)))"
proof -
  obtain c where "c \<in> set (st_hash S)" "ts \<in> set c" using assms(2) by (auto simp: strings_def)
  then obtain i where i: "i < length (st_hash S)" "ts \<in> set (st_hash S ! i)" by (metis in_set_conv_nth)
  then have "lmod (ts_hash ts) (length (st_hash S)) = i" using assms(1) by (auto simp: strtab_ok_def chains_ok_def)
  then show ?thesis using i assms by (auto simp: strtab_ok_def)
qed

lemma chain_strings: "strtab_ok S \<Longrightarrow> ts \<in> set (st_hash S ! lmod h (length (st_hash S))) \<Longrightarrow> ts \<in> set (strings S)"
  using lmod_less [of "length (st_hash S)" h] by (auto simp: strtab_ok_def strings_def)

lemma add_string_ok:
  assumes ok: "strtab_ok S" and new: "\<forall>ts\<in>set (strings S). ts_str ts \<noteq> str" and a: "add_string str (luaS_hash str) S = (S', t)"
  shows "strtab_ok S' \<and> mset (strings S') = add_mset t (mset (strings S)) \<and> ts_str t = str \<and> t \<notin> set (strings S) \<and>
    \<not> isdead (st_white S') (st_marked S' (ts_ptr t)) \<and> length (st_hash S') = length (st_hash S)"
proof -
  let ?i = "lmod (luaS_hash str) (length (st_hash S))"
  have t: "t = \<lparr>ts_ptr = st_next S, ts_hash = luaS_hash str, ts_str = str\<rparr>"
      and S': "S' = S\<lparr>st_hash := (st_hash S)[?i := t # st_hash S ! ?i], st_nuse := st_nuse S + 1, st_next := st_next S + 1,
        st_marked := (st_marked S)(st_next S := luaC_white (st_white S))\<rparr>"
    using a by (auto simp: add_string_def Let_def)
  have sz: "size_ok (length (st_hash S))" "chains_ok (st_hash S)" using ok by (simp_all add: strtab_ok_def)
  have i: "?i < length (st_hash S)" by (rule lmod_less [OF sz(1)])
  have m: "mset (strings S') = add_mset t (mset (strings S))"
    by (simp add: S' strings_def mset_concat_update i)
  have c: "chains_ok (st_hash S')" using chains_put [OF sz(2) i, of t] by (simp add: S' t)
  have set': "set (strings S') = insert t (set (strings S))" and len: "length (strings S') = Suc (length (strings S))"
    using m by (metis set_mset_add_mset_insert set_mset_mset, metis size_add_mset size_mset)
  have d: "distinct (map f (strings S')) \<longleftrightarrow> distinct (map f (t # strings S))" for f :: "tstring \<Rightarrow> 'b"
    using m by (metis mset_eq_imp_distinct_iff mset_map mset.simps(2))
  have fresh: "\<forall>ts\<in>set (strings S). ts_ptr ts < st_next S" using ok by (simp add: strtab_ok_def)
  have w: "one_white (luaC_white (st_white S))" "\<not> isdead (st_white S) (luaC_white (st_white S))"
    using ok by (auto simp: one_white_def luaC_white_def isdead_def otherwhite_def WHITEBITS_def strtab_ok_def bit_simps)
  have "strtab_ok S'"
    unfolding strtab_ok_def
  proof (intro conjI)
    show "size_ok (length (st_hash S'))" "bit (st_white S') 0 \<noteq> bit (st_white S') 1"
      using ok by (simp_all add: S' strtab_ok_def)
    show "distinct (map ts_ptr (strings S'))" "distinct (map ts_str (strings S'))"
      unfolding d using ok fresh new by (auto simp: t strtab_ok_def)
    show "\<forall>ts\<in>set (strings S'). ts_hash ts = luaS_hash (ts_str ts) \<and> ts_ptr ts < st_next S' \<and> one_white (st_marked S' (ts_ptr ts))"
      unfolding set' using ok w(1) by (auto simp: S' t strtab_ok_def)
    show "st_nuse S' = of_nat (length (strings S'))" unfolding len using ok by (simp add: S' strtab_ok_def)
  qed (rule c)
  moreover have "t \<notin> set (strings S)" using new by (auto simp: t)
  ultimately show ?thesis using m w(2) by (simp add: S' t)
qed

text \<open>Asking for a string that may be dead takes it back.\<close>

lemma revived: "bit cw 0 \<noteq> bit cw 1 \<Longrightarrow> one_white m \<Longrightarrow> isdead cw m \<Longrightarrow> \<not> isdead cw (changewhite m) \<and> one_white (changewhite m)"
  by (auto simp: isdead_def one_white_def changewhite_def otherwhite_def WHITEBITS_def bit_simps)

lemma mark_ok:
  "strtab_ok S \<Longrightarrow> one_white m \<Longrightarrow> strtab_ok (S\<lparr>st_marked := (st_marked S)(p := m)\<rparr>)"
  by (auto simp: strtab_ok_def)

lemma size_double: "size_ok n \<Longrightarrow> n \<le> (2 ^ 31 - 3) div 2 \<Longrightarrow> size_ok (n * 2)"
proof -
  assume n: "size_ok n" "n \<le> (2 ^ 31 - 3) div 2"
  then obtain k where k: "n = 2 ^ k" by (auto simp: size_ok_def)
  have "(2::nat) ^ k < 2 ^ 30" using n(2) k by simp
  then have "k < 30" by (rule power_less_imp_less_exp [rotated]) simp
  then show ?thesis unfolding size_ok_def k by (intro exI [of _ "Suc k"]) simp
qed

lemma newlstr_ok:
  assumes ok: "strtab_ok S" and new: "\<forall>ts\<in>set (strings S). ts_str ts \<noteq> str"
    and n: "newlstr malloc str (luaS_hash str) S = (S', r)"
  shows "strtab_ok S' \<and> set (strings S) \<subseteq> set (strings S') \<and> (\<forall>t\<in>set (strings S') - set (strings S). ts_str t = str) \<and>
    (case r of Inr t \<Rightarrow> t \<in> set (strings S') \<and> ts_str t = str \<and> \<not> isdead (st_white S') (st_marked S' (ts_ptr t))
     | Inl e \<Rightarrow> e = toobig \<or> e = LuaMemErr)"
proof -
  obtain S1 t where a: "add_string str (luaS_hash str) S = (S1, t)" by fastforce
  note k = add_string_ok [OF ok new a]
  have s1: "set (strings S1) = insert t (set (strings S))" using k by (metis set_mset_add_mset_insert set_mset_mset)
  show ?thesis
  proof (cases "MAX_SIZET - sizeof_TString < length str + 1 \<or> \<not> malloc S (length str + 1 + sizeof_TString)")
    case True
    then show ?thesis using ok n by (auto simp: newlstr_def split: if_splits)
  next
    case False
    let ?n = "length (st_hash S1)"
    show ?thesis
    proof (cases "?n < unat (st_nuse S1) \<and> ?n \<le> (2 ^ 31 - 3) div 2")
      case True
      obtain S2 r2 where g: "luaS_resize malloc (?n * 2) S1 = (S2, r2)" by fastforce
      have "size_ok (?n * 2)" using size_double k True by (auto simp: strtab_ok_def)
      note z = strtab_resize_ok [OF _ this g]
      have "S' = S2" "r = bindR r2 (\<lambda>_. Inr t)" using n False a g True by (auto simp: newlstr_def Let_def split: if_splits)
      moreover have "set (strings S2) = set (strings S1)" using z k by (metis set_mset_mset)
      ultimately show ?thesis using z k s1 by (cases r2) auto
    next
      case small: False
      then have "S' = S1" "r = Inr t" using n False a by (auto simp: newlstr_def Let_def split: if_splits)
      then show ?thesis using k s1 by auto
    qed
  qed
qed

text \<open>In the table, one address is one string and one string is one address.\<close>

lemma same_string_same_address:
  "strtab_ok S \<Longrightarrow> s \<in> set (strings S) \<Longrightarrow> t \<in> set (strings S) \<Longrightarrow> (ts_ptr s = ts_ptr t \<longleftrightarrow> s = t) \<and> (ts_str s = ts_str t \<longleftrightarrow> s = t)"
  by (auto simp: strtab_ok_def distinct_map inj_on_def)

lemma strtab_okD: "strtab_ok S \<Longrightarrow> t \<in> set (strings S) \<Longrightarrow> one_white (st_marked S (ts_ptr t))"
  "strtab_ok S \<Longrightarrow> bit (st_white S) 0 \<noteq> bit (st_white S) 1"
  by (simp_all add: strtab_ok_def)

text \<open>C40: \<open>luaS_newlstr\<close> interns: it gives a live string with the bytes asked for, the one already in the table
  when there is one (the table then keeps its strings) and a new one otherwise, keeps every other string and the
  invariant of the table whatever is resized on the way, and can only fail for want of memory.\<close>

theorem strings_are_interned:
  assumes "strtab_ok S" "luaS_newlstr malloc str S = (S', r)"
  shows "strtab_ok S' \<and> set (strings S) \<subseteq> set (strings S') \<and> (\<forall>t\<in>set (strings S') - set (strings S). ts_str t = str) \<and>
    (case r of Inr t \<Rightarrow> t \<in> set (strings S') \<and> ts_str t = str \<and> \<not> isdead (st_white S') (st_marked S' (ts_ptr t)) \<and>
        (\<forall>t0\<in>set (strings S). ts_str t0 = str \<longrightarrow> t = t0 \<and> strings S' = strings S)
     | Inl e \<Rightarrow> e = toobig \<or> e = LuaMemErr)"
proof (cases "find (\<lambda>ts. length (ts_str ts) = length str \<and> ts_str ts = str) (st_hash S ! lmod (luaS_hash str) (length (st_hash S)))")
  case None
  then have new: "\<forall>ts\<in>set (strings S). ts_str ts \<noteq> str"
    using strings_chain [OF assms(1)] by (fastforce simp: find_None_iff)
  then show ?thesis using newlstr_ok [OF assms(1) new, of malloc S' r] assms(2) None by (cases r) (auto simp: luaS_newlstr_def)
next
  case (Some t)
  then have "t \<in> set (st_hash S ! lmod (luaS_hash str) (length (st_hash S)))" and ts: "ts_str t = str"
    by (auto simp: find_Some_iff in_set_conv_nth)
  then have t: "t \<in> set (strings S)" "ts_str t = str" using chain_strings [OF assms(1)] by blast+
  have one: "\<forall>t0\<in>set (strings S). ts_str t0 = str \<longrightarrow> t0 = t"
    using same_string_same_address [OF assms(1) t(1)] t(2) by blast
  let ?m = "st_marked S (ts_ptr t)"
  have m: "one_white ?m" "bit (st_white S) 0 \<noteq> bit (st_white S) 1"
    using strtab_okD [OF assms(1)] t(1) by blast+
  show ?thesis
  proof (cases "isdead (st_white S) ?m")
    case True
    have e: "S' = S\<lparr>st_marked := (st_marked S)(ts_ptr t := changewhite ?m)\<rparr>" "r = Inr t"
      using assms(2) Some True by (simp_all add: luaS_newlstr_def)
    have k: "strtab_ok S'" "strings S' = strings S" "\<not> isdead (st_white S') (st_marked S' (ts_ptr t))"
      using revived [OF m(2,1) True] mark_ok [OF assms(1), of "changewhite ?m" "ts_ptr t"] by (simp_all add: e(1))
    show ?thesis unfolding e(2) k(2) sum.case using k(1,3) t one by blast
  next
    case False
    have e: "S' = S" "r = Inr t" using assms(2) Some False by (simp_all add: luaS_newlstr_def)
    show ?thesis unfolding e sum.case using one t False assms(1) by blast
  qed
qed

text \<open>So the strings of a table are a heap in the sense of the tables of the interpreter.\<close>

definition heap_of :: "strtab \<Rightarrow> addr \<Rightarrow> tstring" where
  "heap_of S p = (case find (\<lambda>t. ts_ptr t = p) (strings S) of Some t \<Rightarrow> t | None \<Rightarrow> \<lparr>ts_ptr = p, ts_hash = 0, ts_str = []\<rparr>)"

lemma strings_in_heap:
  assumes "strtab_ok S" "s \<in> set (strings S)" shows "in_heap (heap_of S) (TStr s)"
proof (cases "find (\<lambda>t. ts_ptr t = ts_ptr s) (strings S)")
  case None
  then show ?thesis using assms(2) by (auto simp: find_None_iff)
next
  case (Some t)
  then have "t \<in> set (strings S)" "ts_ptr t = ts_ptr s" by (auto simp: find_Some_iff)
  then have "t = s" using same_string_same_address [OF assms(1)] assms(2) by blast
  then show ?thesis using Some by (simp add: in_heap_def heap_of_def)
qed

definition empty_strtab :: strtab where
  "empty_strtab = \<lparr>st_hash = [[], []], st_nuse = 0, st_marked = \<lambda>_. 0, st_white = 1, st_sweeping = False, st_next = 0\<rparr>"

lemma empty_strtab_ok: "strtab_ok empty_strtab"
proof -
  have "chains_ok [[], []]" using chains_empty [of 2] by (simp add: numeral_2_eq_2)
  moreover have "size_ok 2" unfolding size_ok_def by (rule exI [of _ 1]) simp
  ultimately show ?thesis by (simp add: empty_strtab_def strtab_ok_def strings_def numeral_2_eq_2)
qed

theorem strings_are_interned_witness:
  "\<exists>S t. luaS_newlstr (\<lambda>S n. True) ''ab'' empty_strtab = (S, Inr t) \<and> strtab_ok S \<and> strings S = [t] \<and> ts_str t = ''ab''"
proof -
  obtain S r where n: "luaS_newlstr (\<lambda>S n. True) ''ab'' empty_strtab = (S, r)" by fastforce
  then have "strings S = [\<lparr>ts_ptr = 0, ts_hash = luaS_hash ''ab'', ts_str = ''ab''\<rparr>]" "\<exists>t. r = Inr t"
    by (auto simp: luaS_newlstr_def newlstr_def empty_strtab_def add_string_def lmod_def Let_def MAX_SIZET_def sizeof_TString_def
        luaS_hash_def hash_loop.simps char_val_def strings_def)
  then show ?thesis using strings_are_interned [OF empty_strtab_ok n] n by auto
qed

end
