(* ===== verification/Spec2Isabelle.thy ===== *)
theory Spec2Isabelle
  imports Sim_Props Sim_Bounds Sim_Props2 Sim_Report Lua_Object Lua_Table_Props
    Lua_Table_Border Lua_Gsub_Props Lua_Undump_Props Lua_Rawtab Lua_Quote Lua_Names
    Lua_Loaded Lua_Intern
begin

text \<open>
  A verification of the damage-per-second simulator of \<open>src/DPSCalc\<close>: a discrete-event simulation of one
  player casting spells (\<open>*.cpp\<close>, \<open>*.h\<close>), driven by scripts that run in an embedded Lua 5.1 interpreter (\<open>lua/*.c\<close>),
  and called from a spreadsheet through \<open>DPSCalc.cpp\<close>. The development has two halves that meet in the script
  interface, and a prelude they share. File names below are relative to \<open>src/DPSCalc\<close>.

  \<^bold>\<open>The program and how its parts interact.\<close> \<open>Perform\<close> builds the world, lets the scripts register auras and spells
  and then calls \<open>CEventSystem::ProcessEvent\<close> until the simulated time is over; each event (a cast, a hit, an aura's
  tick or end) changes the player, the units and the queue and calls script hooks, which call back into the world through
  the functions of \<open>LuaIntergration.cpp\<close>. The reporter tallies the hits, and the host reads the slots. The
  interpreter lexes, loads and checks code, runs it, and offers the string and table libraries to scripts.

  \<^bold>\<open>Shared.\<close> \<open>Prelude\<close>: machine words, the faults an execution can end in, the result type of fallible code
  and its sequencing. \<open>IEEE_Double\<close>: floating-point arithmetic with its rounding (finite values are rationals, every
  operation rounds to the format). \<open>StdMap\<close>: \<open>std::map\<close> as a sorted association list (locale \<open>std_map\<close>, interpreted as
  \<open>sm\<close>).

  \<^bold>\<open>The simulator.\<close> In the order of the code: \<open>Sim_Global\<close> (\<open>Global.h\<close>), \<open>Sim_Aura\<close> (\<open>Aura.cpp\<close>), \<open>Sim_Spell\<close>
  (\<open>Spell.cpp\<close>; locale \<open>numbered_db\<close>, interpreted as \<open>adb\<close> for auras and \<open>sdb\<close> for spells), \<open>Sim_Creature\<close>, \<open>Sim_Player\<close>,
  \<open>Sim_World\<close> (the heap of objects, queue, clock and globals: the record every handler takes and returns),
  \<open>Sim_Event\<close> (what an event computes), \<open>Sim_Api\<close> and \<open>Sim_Api2\<close> (the functions scripts call), \<open>Sim_Actions\<close> (the
  handlers \<open>Spell_run\<close>, \<open>AuraApplication\<close>, \<open>AuraRemoval\<close>, \<open>AuraPeriodic\<close> and the pre- and post-actions of \<open>EventSystem.cpp\<close>),
  \<open>Sim_Reporter\<close> (\<open>Reporter.cpp\<close>), \<open>Sim_Engine\<close> (\<open>ProcessEvent\<close>, \<open>Perform\<close>, the \<open>.toc\<close> loader). A script is a tree of
  calls of the interface functions with arbitrary results in between, so every property holds for every
  script; the interpreter behind it is a handle (\<open>w_pLuaState\<close>: null, open or closed) and a state the scripts carry along.
  Addresses of objects are never used twice: a pointer to a deleted object is a fault, not a pointer to a later one. Proofs: \<open>Sim_Queue\<close> (the queue is a stable priority queue), \<open>Sim_Script\<close> (what a hook can do, a step relation),
  \<open>Sim_Inv\<close>, \<open>Sim_Handlers\<close>, \<open>Sim_Loop\<close>, \<open>Sim_Run\<close> (the invariant of the event loop through every handler, script, event
  and run), and the properties in \<open>Sim_Props\<close>, \<open>Sim_Props2\<close> (among them one cast at a time, and that a \<open>.toc\<close> file runs its lines), \<open>Sim_Bounds\<close> (formulas in floating point) and \<open>Sim_Report\<close>.

  \<^bold>\<open>The interpreter's data.\<close> \<open>Lua_Value\<close> (tagged values, errors, the configuration \<open>luaconf\<close>), \<open>Lua_Object\<close>
  (\<open>lobject.c\<close>), \<open>Lua_Intern\<close> (\<open>lstring.c\<close>: the string table; the strings of a table are the heap \<open>in_heap\<close> the tables
  assume), \<open>Lua_Table\<close> (\<open>ltable.c\<close>) with its proofs \<open>Lua_Chain\<close> (chains of the node vector), \<open>Lua_Table_Inv\<close>, \<open>Lua_Table_Ins\<close>,
  \<open>Lua_Table_Set\<close>, \<open>Lua_Table_Resize\<close>, \<open>Lua_Table_Rehash\<close>, \<open>Lua_Table_Props\<close>, \<open>Lua_Table_Border\<close>: a table is a finite map, its
  traversal visits every entry once, its length is a border, its array part is the largest more than half full.
  The invariant says that a dead key whose address a key in use has again stands behind it in the chain, so that \<open>findindex\<close> finds
  the right node; insertion, rehash and the clearing of entries by the collector (\<open>removeentry\<close> of \<open>lgc.c\<close>) keep it.
  Insertion is proved once over the shape of a chain and used for new keys, collisions and rehashing alike; the simulation of a
  map is stated over the reading \<open>lookup\<close>, which is what every client of a table uses.

  \<^bold>\<open>Code.\<close> \<open>Lua_Zio\<close> (\<open>lzio.c\<close> and the readers of \<open>lauxlib.c\<close> and \<open>lbaselib.c\<close>; locale \<open>reader\<close>, interpreted as \<open>getS\<close>, \<open>getF\<close>
  and \<open>generic\<close>), \<open>Lua_Lex\<close> and \<open>Lua_Lex_Props\<close> (\<open>llex.c\<close>), \<open>Lua_Undump\<close> and \<open>Lua_Undump_Props\<close> (\<open>ldump.c\<close>, \<open>lundump.c\<close>: what is dumped is
  loaded, what is cut short is refused), \<open>Lua_Opcodes\<close> (\<open>lopcodes.c\<close>), \<open>Lua_Checkcode\<close> (\<open>symbexec\<close> and
  \<open>luaG_checkcode\<close> of \<open>ldebug.c\<close>), \<open>Lua_Control\<close> (the control flow and operands of each instruction in \<open>luaV_execute\<close>, and the
  positions the checker visits), \<open>Lua_Control_Props\<close> (checked code stays inside its prototype up to the first
  \<open>LOADBOOL\<close> or tail call with operands the compiler does not emit, which the checker lets through: \<open>plain_reach\<close>), \<open>Lua_Names\<close> (names and
  positions in error messages), \<open>Lua_Loaded\<close> (loader, checker and interpreter loop together).

  \<^bold>\<open>Libraries.\<close> \<open>Lua_Lval\<close> (argument access of \<open>lapi.c\<close> and checks of \<open>lauxlib.c\<close>), \<open>Lua_Compare\<close> (comparisons of
  \<open>lvm.c\<close>), \<open>Lua_Pattern\<close> (the matcher of \<open>lstrlib.c\<close>) with \<open>Lua_Pattern_Safe\<close> and \<open>Lua_Pattern_Lang\<close> (its declarative
  meaning), \<open>Lua_Strlib\<close>, \<open>Lua_Strlib_Props\<close>, \<open>Lua_Gsub_Props\<close>, \<open>Lua_Format\<close>, \<open>Lua_Quote\<close> (the rest of \<open>lstrlib.c\<close>),
  \<open>Lua_Tablib\<close> (\<open>ltablib.c\<close>), \<open>Lua_Sort\<close> (locale \<open>sortable\<close>), \<open>Lua_Rawtab\<close> (raw access of \<open>lapi.c\<close> on the tables of
  \<open>ltable.c\<close>, which interprets \<open>sortable\<close> as \<open>raw\<close>).
  The matcher is proved safe and equal to its declarative meaning once; searching, iterating and substituting rest on those two facts. What
  the table library proves of \<open>sort\<close> holds for any table with the laws of \<open>sortable\<close> and so, through \<open>raw\<close>, for real ones.

  \<^bold>\<open>How code is represented.\<close> A struct is a record, an enumeration or tagged union a datatype, an \<open>int\<close> or \<open>unsigned\<close>
  a word where it can wrap and a number where the code bounds it. A point with no defined behaviour in C or C++ is a
  value of the type \<open>fault\<close>, a raised Lua error a \<open>lua_error\<close>; both travel in the left summand of a result. Pointers into a
  string or vector are indices, a read outside is a fault, and safety theorems say that none occurs.

  \<^bold>\<open>Bounds and fuel.\<close> Where a loop of the code has no structural measure the definition carries the rounds it may take,
  and the theorems show the grant is enough: the lexer one round more than the bytes left, \<open>auxsort\<close> as many as elements,
  \<open>newkey\<close> one nested resize, the matcher a number computed from subject and pattern, the loader the C calls left
  (\<open>LUAI_MAXCCALLS\<close>, as in the code, where running out is the error ``code too deep''). The event loop of a
  run is bounded by its own fuel, since a script may queue events for ever; the properties of a run hold for every amount.
  Loops that only scan (character classes, balanced pairs, repetitions, the chunks of a file) end by a measure on what is left.

  \<^bold>\<open>Parameters.\<close> What the sources take from elsewhere is an argument: \<open>luaconf\<close> (the number conversions of \<open>luaconf.h\<close> and the C
  library; \<open>conf_ok\<close> is what is relied on), \<open>luaenv\<close>, \<open>fmtenv\<close> (\<open>sprintf\<close>), \<open>lexconf\<close> (the locale's decimal point),
  \<open>undump_env\<close> (the bytes of a number), \<open>tabint\<close> (table accesses with metamethods), the collation order, the random numbers and files
  of the simulator (a file's text as the C library delivers it). Memory is taken not to run out where the model has no allocator of its own. Headers of the interpreter are not in the repository; the values they fix (opcode fields, type tags,
  limits) are those of Lua 5.1 and are defined where they are used.

  \<^bold>\<open>Not modelled.\<close> The compiler (\<open>lparser.c\<close>, \<open>lcode.c\<close>) and the listing of code (\<open>print.c\<close>); calls, coroutines and memory (\<open>ldo.c\<close>, \<open>lstate.c\<close>,
  \<open>lmem.c\<close>), the collector (\<open>lgc.c\<close> but for the clearing of table entries) and what an instruction computes (\<open>lvm.c\<close> beyond control flow, operands, comparisons and conversions): instead of
  executing a script the simulator's model takes any tree of interface calls, which is more than the interpreter can produce. The
  libraries that only call the operating system or the C library (\<open>liolib.c\<close>, \<open>loslib.c\<close>, \<open>loadlib.c\<close>, \<open>lmathlib.c\<close>, \<open>ldblib.c\<close>, \<open>linit.c\<close>) and
  \<open>lbaselib.c\<close> but for its chunk reader (on answers that are strings); the parts of \<open>lapi.c\<close> and \<open>lauxlib.c\<close> that the libraries above do not use. Of the simulator: the text of the log files,
  \<open>DllMain\<close>, the unfinished test harness and precompiled headers.
\<close>

end
